(* ===== verification/Prelude.thy ===== *)
theory Prelude
  imports Main "HOL-Library.Word" "HOL-Library.Multiset"
begin

text \<open>
  Shared vocabulary of the development: the fallible results that stand for C++ functions
  that may throw, the loops over them, the widths of the machine integers, and the generic
  lemmas on lists, maps and results that the component theories use.

  A C++ function that may throw a fault becomes a function into a sum type, with the error
  on the left. A call whose exception propagates is \<open>bindE\<close>, a \<open>for\<close> loop whose
  body may throw is \<open>foldE\<close> or \<open>mapE\<close>. Unsigned 32-bit integers are 32-bit words. The
  64-bit ticks, identities and cycle counts are natural numbers: the source adds and
  multiplies them through range-checked operations, which the theory Time writes out, and the
  few unchecked subtractions are \<open>sub64\<close>, with the wrap-around explicit.
\<close>

named_theorems result_simps \<open>when a fallible computation returns or fails\<close>
named_theorems inv_intros \<open>operations that keep a component's invariant\<close>

type_synonym u8 = "8 word"
type_synonym u32 = "32 word"
type_synonym u64 = "64 word"

section \<open>Fallible results\<close>

definition bindE :: "'e + 'a \<Rightarrow> ('a \<Rightarrow> 'e + 'b) \<Rightarrow> 'e + 'b" where
  "bindE m f = (case m of Inl e \<Rightarrow> Inl e | Inr x \<Rightarrow> f x)"

fun foldE :: "('a \<Rightarrow> 's \<Rightarrow> 'e + 's) \<Rightarrow> 'a list \<Rightarrow> 's \<Rightarrow> 'e + 's" where
  "foldE f [] s = Inr s"
| "foldE f (x # xs) s = bindE (f x s) (foldE f xs)"

fun mapE :: "('a \<Rightarrow> 'e + 'b) \<Rightarrow> 'a list \<Rightarrow> 'e + 'b list" where
  "mapE f [] = Inr []"
| "mapE f (x # xs) = bindE (f x) (\<lambda>y. bindE (mapE f xs) (\<lambda>ys. Inr (y # ys)))"

lemma bindE_Inl [simp]: "bindE (Inl e) f = Inl e"
  by (simp add: bindE_def)

lemma bindE_Inr [simp]: "bindE (Inr x) f = f x"
  by (simp add: bindE_def)

lemma bindE_eq_Inr [simp, result_simps]:
  "bindE m f = Inr y \<longleftrightarrow> (\<exists>x. m = Inr x \<and> f x = Inr y)"
  by (cases m) auto

lemma bindE_eq_Inl [result_simps]:
  "bindE m f = Inl e \<longleftrightarrow> m = Inl e \<or> (\<exists>x. m = Inr x \<and> f x = Inl e)"
  by (cases m) auto

lemma bindE_assoc: "bindE (bindE m f) g = bindE m (\<lambda>x. bindE (f x) g)"
  by (cases m) auto

lemma bindE_cong [fundef_cong]:
  "m = m' \<Longrightarrow> (\<And>x. m' = Inr x \<Longrightarrow> f x = g x) \<Longrightarrow> bindE m f = bindE m' g"
  by (cases m') auto

text \<open>An invariant of the loop body is an invariant of the loop.\<close>

lemma foldE_invariant:
  assumes "foldE f xs s = Inr s'" and "P s"
    and "\<And>x t t'. x \<in> set xs \<Longrightarrow> P t \<Longrightarrow> f x t = Inr t' \<Longrightarrow> P t'"
  shows "P s'"
  using assms
proof (induction xs arbitrary: s)
  case Nil
  then show ?case by simp
next
  case (Cons x xs)
  from Cons.prems(1) obtain t where t: "f x s = Inr t" "foldE f xs t = Inr s'" by auto
  from Cons.prems(3) [of x s t] Cons.prems(2) t(1) have "P t" by simp
  with t(2) Cons.prems(3) show ?case by (auto intro: Cons.IH)
qed

lemma foldE_append: "foldE f (xs @ ys) s = bindE (foldE f xs s) (foldE f ys)"
proof (induction xs arbitrary: s)
  case (Cons x xs)
  then show ?case by (cases "f x s") simp_all
qed simp

lemma mapE_length: "mapE f xs = Inr ys \<Longrightarrow> length ys = length xs"
  by (induction xs arbitrary: ys) auto

lemma mapE_nth: "mapE f xs = Inr ys \<Longrightarrow> i < length xs \<Longrightarrow> f (xs ! i) = Inr (ys ! i)"
  by (induction xs arbitrary: ys i) (auto simp: nth_Cons split: nat.splits)

section \<open>Sixty-four bit subtraction\<close>

definition word_size64 :: nat where
  "word_size64 = 18446744073709551616"

definition tick_max :: nat where
  "tick_max = 18446744073709551615"

definition sub64 :: "nat \<Rightarrow> nat \<Rightarrow> nat" where
  "sub64 a b = (a + (word_size64 - b mod word_size64)) mod word_size64"

lemma word_size64_pow: "word_size64 = 2 ^ 64"
  by (simp add: word_size64_def)

lemma sub64_no_borrow [simp]: "b \<le> a \<Longrightarrow> a \<le> tick_max \<Longrightarrow> sub64 a b = a - b"
  by (simp add: sub64_def tick_max_def word_size64_def mod_if)

section \<open>Lists\<close>

text \<open>Whether every element is new when the list is inserted into a set one by one.\<close>

fun fresh_in :: "'a set \<Rightarrow> 'a list \<Rightarrow> bool" where
  "fresh_in S [] = True"
| "fresh_in S (x # xs) = (x \<notin> S \<and> fresh_in (insert x S) xs)"

lemma fresh_in_iff: "fresh_in S xs \<longleftrightarrow> distinct xs \<and> set xs \<inter> S = {}"
  by (induction xs arbitrary: S) auto

lemma sum_list_update_nat:
  "i < length xs \<Longrightarrow> sum_list (xs[i := v]) + xs ! i = sum_list xs + (v :: nat)"
  by (induction xs arbitrary: i) (auto split: nat.splits)

text \<open>Sorting a list into classes permutes it.\<close>

lemma mset_concat_classes:
  assumes "distinct ps"
  shows "mset (concat (map (\<lambda>p. filter (\<lambda>e. f e = p) es) ps)) = filter_mset (\<lambda>e. f e \<in> set ps) (mset es)"
  using assms
proof (induction ps)
  case (Cons p ps)
  have "filter_mset (\<lambda>e. f e = p) (mset es) + filter_mset (\<lambda>e. f e \<in> set ps) (mset es) =
      filter_mset (\<lambda>e. f e = p \<or> f e \<in> set ps) (mset es)"
    using Cons.prems by (intro multiset_eqI) auto
  with Cons show ?case by simp
qed simp

lemma takeWhile_dropWhile_split:
  assumes "\<forall>x\<in>set xs. P x" and "\<forall>y\<in>set ys. \<not> P y"
  shows "takeWhile P (xs @ ys) = xs" and "dropWhile P (xs @ ys) = ys"
proof -
  have "takeWhile P ys = []" and "dropWhile P ys = ys" using assms(2) by (cases ys; simp)+
  with assms(1) show "takeWhile P (xs @ ys) = xs" and "dropWhile P (xs @ ys) = ys" by simp_all
qed

end
