(* ===== verification/Time.thy ===== *)
theory Time
  imports Prelude
begin

text \<open>
  The error codes of \<^verbatim>\<open>include/qsbit/error.hpp\<close> and the clock arithmetic of
  \<^verbatim>\<open>include/qsbit/time.hpp\<close>. A fault keeps its code; its message text is diagnostic and
  is left out. \<open>require\<close> takes the rest of the function as its last argument.
\<close>

datatype ErrorCode =
    InvalidProfile | TimeOverflow | IllegalInstruction | InstructionMisaligned
  | InstructionAccess | LoadMisaligned | StoreMisaligned | LoadAccess | StoreAccess
  | EnvironmentCall | Breakpoint | InvalidImage | UnsupportedSynchronization | InvalidPort
  | InvalidCodeword | InvalidOperand | Capacity | LateAdmission | ManifestMismatch | Protocol
  | ResourceConflict | GateInputMismatch | UnsupportedCapability | InvalidMeasurement
  | DuplicateResult | BackendFailure | Watchdog

type_synonym 'a result = "ErrorCode + 'a"
type_synonym Tick = nat
type_synonym Id = nat
type_synonym Epoch = nat
type_synonym TcuCycle = nat

text \<open>The names of the codes, \<^verbatim>\<open>name\<close> of \<^verbatim>\<open>src/error.cpp\<close>.\<close>

fun error_name :: "ErrorCode \<Rightarrow> string" where
  "error_name InvalidProfile = ''InvalidProfile''"
| "error_name TimeOverflow = ''TimeOverflow''"
| "error_name IllegalInstruction = ''IllegalInstruction''"
| "error_name InstructionMisaligned = ''InstructionMisaligned''"
| "error_name InstructionAccess = ''InstructionAccess''"
| "error_name LoadMisaligned = ''LoadMisaligned''"
| "error_name StoreMisaligned = ''StoreMisaligned''"
| "error_name LoadAccess = ''LoadAccess''"
| "error_name StoreAccess = ''StoreAccess''"
| "error_name EnvironmentCall = ''EnvironmentCall''"
| "error_name Breakpoint = ''Breakpoint''"
| "error_name InvalidImage = ''InvalidImage''"
| "error_name UnsupportedSynchronization = ''UnsupportedSynchronization''"
| "error_name InvalidPort = ''InvalidPort''"
| "error_name InvalidCodeword = ''InvalidCodeword''"
| "error_name InvalidOperand = ''InvalidOperand''"
| "error_name Capacity = ''Capacity''"
| "error_name LateAdmission = ''LateAdmission''"
| "error_name ManifestMismatch = ''ManifestMismatch''"
| "error_name Protocol = ''Protocol''"
| "error_name ResourceConflict = ''ResourceConflict''"
| "error_name GateInputMismatch = ''GateInputMismatch''"
| "error_name UnsupportedCapability = ''UnsupportedCapability''"
| "error_name InvalidMeasurement = ''InvalidMeasurement''"
| "error_name DuplicateResult = ''DuplicateResult''"
| "error_name BackendFailure = ''BackendFailure''"
| "error_name Watchdog = ''Watchdog''"

definition require :: "bool \<Rightarrow> ErrorCode \<Rightarrow> 'a result \<Rightarrow> 'a result" where
  "require condition code rest = (if condition then rest else Inl code)"

definition checked_add :: "Tick \<Rightarrow> Tick \<Rightarrow> Tick result" where
  "checked_add a b = require (b \<le> tick_max - a) TimeOverflow (Inr (a + b))"

definition checked_mul :: "Tick \<Rightarrow> Tick \<Rightarrow> Tick result" where
  "checked_mul a b = require (a = 0 \<or> b \<le> tick_max div a) TimeOverflow (Inr (a * b))"

record Clock =
  period :: Tick
  phase :: Tick

definition clock_validate :: "Clock \<Rightarrow> unit result" where
  "clock_validate c = require (period c > 0 \<and> phase c < period c) InvalidProfile (Inr ())"

definition edge :: "Clock \<Rightarrow> Tick \<Rightarrow> bool" where
  "edge c t \<longleftrightarrow> phase c \<le> t \<and> (t - phase c) mod period c = 0"

definition after :: "Clock \<Rightarrow> Tick \<Rightarrow> nat \<Rightarrow> Tick result" where
  "after c publication latency =
     bindE (clock_validate c) (\<lambda>_.
     require (latency > 0) InvalidProfile (
     bindE (if phase c \<le> publication
            then bindE (checked_add ((publication - phase c) div period c) 1) (\<lambda>n.
                 bindE (checked_mul n (period c)) (\<lambda>m.
                 checked_add (phase c) m))
            else Inr (phase c)) (\<lambda>first.
     bindE (checked_mul (latency - 1) (period c)) (\<lambda>rest.
     checked_add first rest))))"

section \<open>Range-checked arithmetic\<close>

lemma require_eq_Inr [simp, result_simps]:
  "require b e k = Inr x \<longleftrightarrow> b \<and> k = Inr x"
  by (simp add: require_def)

lemma require_eq_Inl [result_simps]:
  "require b e k = Inl e' \<longleftrightarrow> (b \<and> k = Inl e') \<or> (\<not> b \<and> e' = e)"
  by (auto simp: require_def)

lemma require_True [simp]: "require True e k = k"
  by (simp add: require_def)

lemma require_False [simp]: "require False e k = Inl e"
  by (simp add: require_def)

lemma require_cong [fundef_cong]:
  "b = b' \<Longrightarrow> e = e' \<Longrightarrow> (b' \<Longrightarrow> k = k') \<Longrightarrow> require b e k = require b' e' k'"
  by (simp add: require_def)

lemma checked_add_Inr [simp, result_simps]:
  "a \<le> tick_max \<Longrightarrow> checked_add a b = Inr c \<longleftrightarrow> c = a + b \<and> a + b \<le> tick_max"
  by (auto simp: checked_add_def)

lemma checked_add_sum: "checked_add a b = Inr c \<Longrightarrow> c = a + b"
  by (simp add: checked_add_def)

lemma checked_mul_Inr [simp, result_simps]:
  "checked_mul a b = Inr c \<longleftrightarrow> c = a * b \<and> a * b \<le> tick_max"
proof (cases "a = 0")
  case True
  then show ?thesis by (auto simp: checked_mul_def)
next
  case False
  then have "b \<le> tick_max div a \<longleftrightarrow> a * b \<le> tick_max"
    by (simp add: less_eq_div_iff_mult_less_eq mult.commute)
  with False show ?thesis by (auto simp: checked_mul_def)
qed

lemma checked_add_ok: "a + b \<le> tick_max \<Longrightarrow> checked_add a b = Inr (a + b)"
  by (simp add: checked_add_def)

lemma checked_mul_ok: "a * b \<le> tick_max \<Longrightarrow> checked_mul a b = Inr (a * b)"
  by simp

lemma checked_errors:
  "checked_add a b = Inl e \<Longrightarrow> e = TimeOverflow"
  "checked_mul a b = Inl e \<Longrightarrow> e = TimeOverflow"
  by (auto simp: checked_add_def checked_mul_def require_def split: if_splits)

section \<open>Clock edges\<close>

definition valid_clock :: "Clock \<Rightarrow> bool" where
  "valid_clock c \<longleftrightarrow> 0 < period c \<and> phase c < period c"

lemma clock_validate_Inr [simp]: "clock_validate c = Inr u \<longleftrightarrow> valid_clock c"
  by (simp add: clock_validate_def valid_clock_def)

lemma valid_clock_period: "valid_clock c \<Longrightarrow> 0 < period c"
  by (simp add: valid_clock_def)

text \<open>The edges are exactly the ticks \<open>phase + k * period\<close>.\<close>

lemma edge_iff:
  "edge c t \<longleftrightarrow> (\<exists>k. t = phase c + k * period c)"
proof
  assume "edge c t"
  then have "phase c \<le> t" "(t - phase c) mod period c = 0" by (auto simp: edge_def)
  then have "t = phase c + ((t - phase c) div period c) * period c"
    by (metis add_0_right div_mult_mod_eq le_add_diff_inverse)
  then show "\<exists>k. t = phase c + k * period c" ..
qed (auto simp: edge_def)

lemma edge_next [intro]: "edge c t \<Longrightarrow> edge c (t + k * period c)"
  by (auto simp: edge_iff) (metis distrib_right)

lemma edges_apart:
  assumes "edge c a" and "edge c b" and "a \<le> b"
  shows "\<exists>k. b = a + k * period c"
proof -
  from assms(1,2) obtain i j where ab: "a = phase c + i * period c" "b = phase c + j * period c"
    by (auto simp: edge_iff)
  show ?thesis
  proof (cases "i \<le> j")
    case True
    with ab have "b = a + (j - i) * period c" by (simp add: diff_mult_distrib)
    then show ?thesis ..
  next
    case False
    then have "j * period c \<le> i * period c" by simp
    with ab assms(3) have "b = a + 0 * period c" by linarith
    then show ?thesis ..
  qed
qed

lemma edge_gap:
  assumes "valid_clock c" and "edge c a" and "edge c b" and "a < b"
  shows "a + period c \<le> b"
proof -
  obtain k where k: "b = a + k * period c" using edges_apart [OF assms(2,3)] assms(4) by auto
  with assms(4) have "1 \<le> k" by (cases k) auto
  with k show ?thesis by (cases k) auto
qed

definition first_edge :: "Clock \<Rightarrow> Tick \<Rightarrow> Tick" where
  "first_edge c p =
     (if phase c \<le> p then phase c + ((p - phase c) div period c + 1) * period c else phase c)"

definition after_edge :: "Clock \<Rightarrow> Tick \<Rightarrow> nat \<Rightarrow> Tick" where
  "after_edge c p latency = first_edge c p + (latency - 1) * period c"

lemma after_Inr:
  assumes "after c p latency = Inr t"
  shows "valid_clock c" and "0 < latency" and "t = after_edge c p latency"
proof -
  from assms show "valid_clock c" and "0 < latency" by (auto simp: after_def)
  from assms show "t = after_edge c p latency"
    by (auto simp: after_def after_edge_def first_edge_def dest!: checked_add_sum split: if_splits)
qed

lemma edges_after:
  assumes "valid_clock c"
  shows "edge c u \<and> p < u \<longleftrightarrow> (\<exists>k. u = first_edge c p + k * period c)"
proof (cases "phase c \<le> p")
  case True
  define q where "q = (p - phase c) div period c"
  from assms have pos: "0 < period c" by (rule valid_clock_period)
  have lo: "q * period c \<le> p - phase c" and hi: "p - phase c < (q + 1) * period c"
    using pos dividend_less_div_times [of "period c" "p - phase c"] by (simp_all add: q_def)
  have "p < phase c + k * period c \<longleftrightarrow> q + 1 \<le> k" for k
  proof
    assume "p < phase c + k * period c"
    with True lo have "q * period c < k * period c" by linarith
    then show "q + 1 \<le> k" by simp
  next
    assume "q + 1 \<le> k"
    then have "(q + 1) * period c \<le> k * period c" by (rule mult_le_mono1)
    with True hi show "p < phase c + k * period c" by linarith
  qed
  then have "edge c u \<and> p < u \<longleftrightarrow> (\<exists>k. q + 1 \<le> k \<and> u = phase c + k * period c)"
    by (auto simp: edge_iff)
  also have "\<dots> \<longleftrightarrow> (\<exists>j. u = phase c + (q + 1 + j) * period c)"
    by (metis le_iff_add)
  finally show ?thesis using True by (simp add: first_edge_def q_def [symmetric] algebra_simps)
next
  case False
  then show ?thesis by (auto simp: edge_iff first_edge_def)
qed

lemma edges_until:
  assumes "valid_clock c" and "0 < latency"
  shows "{u. edge c u \<and> p < u \<and> u \<le> after_edge c p latency} =
    (\<lambda>k. first_edge c p + k * period c) ` {..<latency}"
proof -
  from assms have "0 < period c" by (simp add: valid_clock_def)
  then have le: "k * period c \<le> (latency - 1) * period c \<longleftrightarrow> k < latency" for k
    using assms(2) by (auto simp: mult_le_cancel2)
  have "edge c u \<and> p < u \<and> u \<le> after_edge c p latency \<longleftrightarrow>
      (\<exists>k. u = first_edge c p + k * period c \<and> k < latency)" for u
    using edges_after [OF assms(1), of u p] le unfolding after_edge_def
    by (metis add_le_cancel_left)
  then show ?thesis by (simp add: image_def Bex_def conj_commute)
qed

lemma after_edge_facts:
  assumes "valid_clock c" and "0 < latency"
  shows after_edge_edge: "edge c (after_edge c p latency)"
    and after_edge_later: "p < after_edge c p latency"
    and after_edge_count:
      "card {u. edge c u \<and> p < u \<and> u \<le> after_edge c p latency} = latency"
proof -
  have "edge c (after_edge c p latency) \<and> p < after_edge c p latency"
    using edges_after [OF assms(1)] by (auto simp: after_edge_def)
  then show "edge c (after_edge c p latency)" and "p < after_edge c p latency" by auto
  have "inj_on (\<lambda>k. first_edge c p + k * period c) {..<latency}"
    using assms by (auto simp: inj_on_def valid_clock_def)
  then show "card {u. edge c u \<and> p < u \<and> u \<le> after_edge c p latency} = latency"
    by (simp add: edges_until [OF assms] card_image)
qed

lemma after_edge_mono: "valid_clock c \<Longrightarrow> p \<le> q \<Longrightarrow> after_edge c p l \<le> after_edge c q l"
  by (auto simp: after_edge_def first_edge_def div_le_mono diff_le_mono)

lemma after_later: "after c p latency = Inr t \<Longrightarrow> p < t \<and> edge c t"
  using after_Inr [of c p latency t] after_edge_facts [of c latency p] by auto

lemma after_ok:
  assumes "valid_clock c" and "0 < latency" and "after_edge c p latency \<le> tick_max"
  shows "after c p latency = Inr (after_edge c p latency)"
proof -
  define n where "n = (p - phase c) div period c"
  from assms have pos: "0 < period c" by (simp add: valid_clock_def)
  have 1: "(latency - 1) * period c \<le> tick_max"
    using assms(3) by (simp add: after_edge_def)
  show ?thesis
  proof (cases "phase c \<le> p")
    case True
    from assms(3) True have b: "phase c + (n + 1) * period c + (latency - 1) * period c \<le> tick_max"
      by (simp add: after_edge_def first_edge_def n_def)
    have "n + 1 \<le> (n + 1) * period c" using pos by (cases "period c") simp_all
    with b have "n + 1 \<le> tick_max" by linarith
    with True b 1 assms(1,2) show ?thesis
      by (simp add: after_def clock_validate_def valid_clock_def n_def [symmetric] checked_add_ok
          checked_mul_ok after_edge_def first_edge_def)
  next
    case False
    with 1 assms show ?thesis
      by (simp add: after_def clock_validate_def valid_clock_def checked_add_ok
          checked_mul_ok after_edge_def first_edge_def)
  qed
qed

lemma after_fits: "period c \<le> tick_max \<Longrightarrow> after c p latency = Inr t \<Longrightarrow> t \<le> tick_max"
proof -
  assume c: "period c \<le> tick_max" and a: "after c p latency = Inr t"
  from a c have ph: "phase c \<le> tick_max" by (auto simp: after_def valid_clock_def)
  with a obtain f r where "f \<le> tick_max" and "checked_add f r = Inr t"
    by (auto simp: after_def split: if_splits)
  then show "t \<le> tick_max" by simp
qed

section \<open>The receiver edge of a publication\<close>

text \<open>
  \<open>Clock::after\<close> returns the latency-th receiver edge after the publication tick: the
  result is an edge, it lies strictly after the publication, and exactly \<open>latency\<close> edges lie
  in between, the result included. It fails only for an invalid clock or a zero latency, or by
  overflow when that edge does not fit in 64 bits.
\<close>

theorem after_is_latency_edge:
  assumes "valid_clock c" and "period c \<le> tick_max" and "0 < latency"
  shows "\<exists>t. (after c p latency = Inr t \<or> after c p latency = Inl TimeOverflow \<and> tick_max < t) \<and>
     edge c t \<and> p < t \<and> card {u. edge c u \<and> p < u \<and> u \<le> t} = latency"
proof (cases "after_edge c p latency \<le> tick_max")
  case True
  with after_ok [OF assms(1,3) True] after_edge_facts [OF assms(1,3), of p] show ?thesis by auto
next
  case False
  have "after c p latency = Inr t \<Longrightarrow> t \<le> tick_max" for t
    by (rule after_fits [OF assms(2)])
  with False have "after c p latency \<noteq> Inr t" for t using after_Inr(3) by metis
  moreover have "after c p latency = Inl e \<Longrightarrow> e = TimeOverflow" for e
    using assms by (auto simp: after_def clock_validate_def valid_clock_def bindE_eq_Inl
        require_eq_Inl dest: checked_errors split: if_splits)
  ultimately have "after c p latency = Inl TimeOverflow" by (cases "after c p latency") auto
  with False after_edge_facts [OF assms(1,3), of p] show ?thesis
    by (intro exI [of _ "after_edge c p latency"]) auto
qed

theorem after_is_latency_edge_witness:
  "after \<lparr>period = 20, phase = 3\<rparr> 45 2 = Inr 83 \<and>
   card {u. edge \<lparr>period = 20, phase = 3\<rparr> u \<and> 45 < u \<and> u \<le> 83} = 2"
proof -
  have v: "valid_clock \<lparr>period = 20, phase = 3\<rparr>" by (simp add: valid_clock_def)
  have e: "after \<lparr>period = 20, phase = 3\<rparr> 45 2 = Inr 83"
    by (simp add: after_def clock_validate_def checked_add_def checked_mul_def tick_max_def)
  have p: "period \<lparr>period = 20, phase = 3\<rparr> \<le> tick_max" by (simp add: tick_max_def)
  show ?thesis using after_is_latency_edge [OF v p, of 2 45] e by auto
qed

end
