(* ===== verification/Mailbox.thy ===== *)
theory Mailbox
  imports Time
begin

text \<open>
  The bounded, latency-carrying message queues of \<^verbatim>\<open>include/qsbit/mailbox.hpp\<close>, over which
  the CPU side and the timing control unit talk. The template parameter is the type variable
  \<open>'a\<close>; a method that mutates the mailbox returns the new one.
\<close>

record 'a Envelope =
  published :: Tick
  eligible :: Tick
  env_epoch :: Epoch
  env_value :: 'a

record 'a Mailbox =
  mb_capacity :: nat
  receiver :: Clock
  mb_latency :: nat
  entries :: "'a Envelope list"

definition mailbox :: "nat \<Rightarrow> Clock \<Rightarrow> nat \<Rightarrow> 'a Mailbox result" where
  "mailbox capacity clock latency =
     require (capacity > 0) InvalidProfile (
     bindE (clock_validate clock) (\<lambda>_.
     require (latency > 0) InvalidProfile (
     Inr \<lparr>mb_capacity = capacity, receiver = clock, mb_latency = latency, entries = []\<rparr>)))"

definition mb_full :: "'a Mailbox \<Rightarrow> bool" where
  "mb_full m \<longleftrightarrow> length (entries m) = mb_capacity m"

definition mb_empty :: "'a Mailbox \<Rightarrow> bool" where
  "mb_empty m \<longleftrightarrow> entries m = []"

definition publish :: "Tick \<Rightarrow> Epoch \<Rightarrow> 'a \<Rightarrow> 'a Mailbox \<Rightarrow> 'a Mailbox result" where
  "publish now epoch value m =
     require (\<not> mb_full m) Capacity (
     bindE (after (receiver m) now (mb_latency m)) (\<lambda>el.
     require (entries m = [] \<or> published (last (entries m)) \<le> now) Protocol (
     Inr (m\<lparr>entries := entries m @
        [\<lparr>published = now, eligible = el, env_epoch = epoch, env_value = value\<rparr>]\<rparr>))))"

definition peek :: "Tick \<Rightarrow> 'a Mailbox \<Rightarrow> 'a Envelope option" where
  "peek now m = (case entries m of
      [] \<Rightarrow> None
    | e # _ \<Rightarrow> if eligible e \<le> now then Some e else None)"

definition mb_take :: "Tick \<Rightarrow> 'a Mailbox \<Rightarrow> 'a Envelope option \<times> 'a Mailbox" where
  "mb_take now m = (case peek now m of
      None \<Rightarrow> (None, m)
    | Some e \<Rightarrow> (Some e, m\<lparr>entries := tl (entries m)\<rparr>))"

definition mb_reset :: "'a Mailbox \<Rightarrow> 'a Mailbox" where
  "mb_reset m = m\<lparr>entries := []\<rparr>"

text \<open>
  The loop \<^verbatim>\<open>while (auto x = box.take(now))\<close>, which several callers run, reads every
  message that has arrived.
\<close>

fun arrived :: "Tick \<Rightarrow> 'a Envelope list \<Rightarrow> 'a Envelope list \<times> 'a Envelope list" where
  "arrived now [] = ([], [])"
| "arrived now (e # es) =
     (if eligible e \<le> now then (case arrived now es of (xs, ys) \<Rightarrow> (e # xs, ys)) else ([], e # es))"

definition take_all :: "Tick \<Rightarrow> 'a Mailbox \<Rightarrow> 'a Envelope list \<times> 'a Mailbox" where
  "take_all now m = (case arrived now (entries m) of (xs, ys) \<Rightarrow> (xs, m\<lparr>entries := ys\<rparr>))"

section \<open>Invariant\<close>

definition mb_wf :: "'a Mailbox \<Rightarrow> bool" where
  "mb_wf m \<longleftrightarrow> 0 < mb_capacity m \<and> valid_clock (receiver m) \<and> 0 < mb_latency m \<and>
     length (entries m) \<le> mb_capacity m \<and>
     sorted (map published (entries m)) \<and>
     (\<forall>e\<in>set (entries m). eligible e = after_edge (receiver m) (published e) (mb_latency m))"

lemma mailbox_wf [inv_intros]: "mailbox cap c l = Inr m \<Longrightarrow> mb_wf m"
  by (auto simp: mailbox_def mb_wf_def)

lemma publish_entries:
  assumes "publish now ep v m = Inr m'"
  shows "m' = m\<lparr>entries := entries m @ [\<lparr>published = now,
    eligible = after_edge (receiver m) now (mb_latency m), env_epoch = ep, env_value = v\<rparr>]\<rparr>"
  using assms by (auto simp: publish_def dest: after_Inr(3))

lemma publish_wf [inv_intros]:
  assumes "mb_wf m" and "publish now ep v m = Inr m'"
  shows "mb_wf m'"
proof -
  from assms have "\<not> mb_full m" and last: "entries m = [] \<or> published (last (entries m)) \<le> now"
    by (auto simp: publish_def)
  then have len: "length (entries m) < mb_capacity m"
    using assms(1) by (auto simp: mb_wf_def mb_full_def)
  have "\<forall>e\<in>set (entries m). published e \<le> now"
  proof (cases "entries m" rule: rev_cases)
    case (snoc es e)
    with assms(1) last show ?thesis by (fastforce simp: mb_wf_def sorted_append)
  qed simp
  with assms len show ?thesis
    by (auto simp: publish_entries [OF assms(2)] mb_wf_def sorted_append)
qed

lemma mb_take_cases:
  "mb_take now m = (if entries m \<noteq> [] \<and> eligible (hd (entries m)) \<le> now
     then (Some (hd (entries m)), m\<lparr>entries := tl (entries m)\<rparr>) else (None, m))"
  by (simp add: mb_take_def peek_def split: list.split)

lemma mb_take_wf [inv_intros]: "mb_wf m \<Longrightarrow> mb_take now m = (r, m') \<Longrightarrow> mb_wf m'"
  by (cases "entries m") (auto simp: mb_take_cases mb_wf_def split: if_splits)

lemma mb_reset_wf [inv_intros]: "mb_wf m \<Longrightarrow> mb_wf (mb_reset m)"
  by (simp add: mb_reset_def mb_wf_def)

lemma arrived_split: "arrived now es = (xs, ys) \<Longrightarrow> es = xs @ ys \<and> (\<forall>e\<in>set xs. eligible e \<le> now)"
  by (induction es arbitrary: xs ys) (auto split: if_splits prod.splits)

lemma take_all_wf [inv_intros]: "mb_wf m \<Longrightarrow> take_all now m = (xs, m') \<Longrightarrow> mb_wf m'"
  by (auto simp: take_all_def mb_wf_def sorted_append dest!: arrived_split split: prod.splits)

section \<open>The channel interface\<close>

text \<open>
  What a client of a mailbox relies on, whatever the representation: messages leave in the
  order in which they entered, each one exactly once, never before its arrival tick.
\<close>

datatype 'a chan_op = Put Tick Epoch 'a | Get Tick

type_synonym 'a chan_log = "(Tick \<times> Epoch \<times> 'a) list \<times> (Tick \<times> 'a Envelope) list"

fun chan_run ::
  "(Tick \<Rightarrow> Epoch \<Rightarrow> 'a \<Rightarrow> 'q \<Rightarrow> 'q result) \<Rightarrow> (Tick \<Rightarrow> 'q \<Rightarrow> 'a Envelope option \<times> 'q) \<Rightarrow>
   'a chan_op list \<Rightarrow> 'q \<Rightarrow> ('a chan_log \<times> 'q) result" where
  "chan_run put get [] q = Inr (([], []), q)"
| "chan_run put get (Put now ep v # ops) q =
     bindE (put now ep v q) (\<lambda>q'.
     bindE (chan_run put get ops q') (\<lambda>((sent, received), q'').
     Inr (((now, ep, v) # sent, received), q'')))"
| "chan_run put get (Get now # ops) q =
     (case get now q of (r, q') \<Rightarrow>
      bindE (chan_run put get ops q') (\<lambda>((sent, received), q'').
      Inr ((sent, (case r of None \<Rightarrow> received | Some e \<Rightarrow> (now, e) # received)), q'')))"

definition content :: "'a Envelope \<Rightarrow> Tick \<times> Epoch \<times> 'a" where
  "content e = (published e, env_epoch e, env_value e)"

locale timed_channel =
  fixes put :: "Tick \<Rightarrow> Epoch \<Rightarrow> 'a \<Rightarrow> 'q \<Rightarrow> 'q result"
    and get :: "Tick \<Rightarrow> 'q \<Rightarrow> 'a Envelope option \<times> 'q"
    and pending :: "'q \<Rightarrow> 'a Envelope list"
    and arrival :: "'q \<Rightarrow> Tick \<Rightarrow> Tick"
    and bound :: "'q \<Rightarrow> nat"
    and ok :: "'q \<Rightarrow> bool"
  assumes ok_bound: "ok q \<Longrightarrow> length (pending q) \<le> bound q"
    and put_pending: "ok q \<Longrightarrow> put now ep v q = Inr q' \<Longrightarrow>
      \<exists>e. pending q' = pending q @ [e] \<and> content e = (now, ep, v)"
    and put_keeps: "ok q \<Longrightarrow> put now ep v q = Inr q' \<Longrightarrow> ok q' \<and> arrival q' = arrival q \<and> bound q' = bound q"
    and get_none: "ok q \<Longrightarrow> get now q = (None, q') \<Longrightarrow> q' = q"
    and get_some: "ok q \<Longrightarrow> get now q = (Some e, q') \<Longrightarrow> pending q = e # pending q'"
    and get_late: "ok q \<Longrightarrow> get now q = (Some e, q') \<Longrightarrow> arrival q (published e) \<le> now"
    and get_keeps: "ok q \<Longrightarrow> get now q = (r, q') \<Longrightarrow> ok q' \<and> arrival q' = arrival q \<and> bound q' = bound q"
begin

lemma run_conserves:
  "ok q \<Longrightarrow> chan_run put get ops q = Inr ((sent, received), q') \<Longrightarrow>
   map content (map snd received @ pending q') = map content (pending q) @ sent"
proof (induction ops arbitrary: q sent received)
  case Nil
  then show ?case by simp
next
  case (Cons x ops)
  show ?case
  proof (cases x)
    case (Put now ep v)
    with Cons.prems obtain q1 sent' where q1: "put now ep v q = Inr q1"
      "chan_run put get ops q1 = Inr ((sent', received), q')" "sent = (now, ep, v) # sent'" by auto
    with Cons.IH [OF _ q1(2)] put_keeps [OF Cons.prems(1) q1(1)] put_pending [OF Cons.prems(1) q1(1)]
    show ?thesis by auto
  next
    case (Get now)
    obtain r q1 where r: "get now q = (r, q1)" by (cases "get now q")
    with Get Cons.prems obtain rc where rc: "chan_run put get ops q1 = Inr ((sent, rc), q')"
      "received = (case r of None \<Rightarrow> rc | Some e \<Rightarrow> (now, e) # rc)" by auto
    have "ok q1" using get_keeps [OF Cons.prems(1) r] by simp
    from Cons.IH [OF this rc(1)] rc(2) r get_some [of q now _ q1] get_none [of q now q1]
    show ?thesis using Cons.prems(1) by (cases r) auto
  qed
qed

lemma run_late:
  "ok q \<Longrightarrow> chan_run put get ops q = Inr ((sent, received), q') \<Longrightarrow>
   (t, e) \<in> set received \<Longrightarrow> arrival q (published e) \<le> t"
proof (induction ops arbitrary: q sent received)
  case Nil
  then show ?case by simp
next
  case (Cons x ops)
  show ?case
  proof (cases x)
    case (Put now ep v)
    with Cons.prems obtain q1 sent' where q1: "put now ep v q = Inr q1"
      "chan_run put get ops q1 = Inr ((sent', received), q')" by auto
    with Cons.IH [OF _ q1(2) Cons.prems(3)] put_keeps [OF Cons.prems(1) q1(1)] show ?thesis by simp
  next
    case (Get now)
    obtain r q1 where r: "get now q = (r, q1)" by (cases "get now q")
    with Get Cons.prems(2) obtain rc where rc: "chan_run put get ops q1 = Inr ((sent, rc), q')"
      "received = (case r of None \<Rightarrow> rc | Some e \<Rightarrow> (now, e) # rc)" by auto
    have k: "ok q1" "arrival q1 = arrival q" using get_keeps [OF Cons.prems(1) r] by auto
    from Cons.IH [OF k(1) rc(1)] rc(2) r get_late [of q now _ q1] k Cons.prems(1,3)
    show ?thesis by (cases r) auto
  qed
qed

lemma run_ok: "ok q \<Longrightarrow> chan_run put get ops q = Inr (l, q') \<Longrightarrow>
  ok q' \<and> arrival q' = arrival q \<and> bound q' = bound q"
proof (induction ops arbitrary: q l)
  case Nil
  then show ?case by simp
next
  case (Cons x ops)
  show ?case
  proof (cases x)
    case (Put now ep v)
    with Cons.prems obtain q1 l' where q1: "put now ep v q = Inr q1"
      "chan_run put get ops q1 = Inr (l', q')" by auto
    with Cons.IH [OF _ q1(2)] put_keeps [OF Cons.prems(1) q1(1)] show ?thesis by simp
  next
    case (Get now)
    obtain r q1 where r: "get now q = (r, q1)" by (cases "get now q")
    with Get Cons.prems(2) obtain l' where "chan_run put get ops q1 = Inr (l', q')" by auto
    with Cons.IH [of q1] get_keeps [OF Cons.prems(1) r] show ?thesis by simp
  qed
qed

end

interpretation mbox: timed_channel publish mb_take entries
  "\<lambda>m now. after_edge (receiver m) now (mb_latency m)" mb_capacity mb_wf
proof
  show "mb_wf m \<Longrightarrow> length (entries m) \<le> mb_capacity m" for m :: "'a Mailbox"
    by (simp add: mb_wf_def)
next
  fix m m' :: "'a Mailbox" and now ep and v :: 'a
  assume m: "mb_wf m" and p: "publish now ep v m = Inr m'"
  show "\<exists>e. entries m' = entries m @ [e] \<and> content e = (now, ep, v)"
    by (simp add: publish_entries [OF p] content_def)
  show "mb_wf m' \<and> (\<lambda>now. after_edge (receiver m') now (mb_latency m')) =
      (\<lambda>now. after_edge (receiver m) now (mb_latency m)) \<and> mb_capacity m' = mb_capacity m"
    using publish_wf [OF m p] by (simp add: publish_entries [OF p])
next
  fix m m' :: "'a Mailbox" and now and e :: "'a Envelope"
  assume m: "mb_wf m"
  show "mb_take now m = (None, m') \<Longrightarrow> m' = m" by (simp add: mb_take_cases split: if_splits)
  show "mb_take now m = (Some e, m') \<Longrightarrow> entries m = e # entries m'"
    by (auto simp: mb_take_cases split: if_splits)
  show "mb_take now m = (Some e, m') \<Longrightarrow> after_edge (receiver m) (published e) (mb_latency m) \<le> now"
    using m by (cases "entries m") (auto simp: mb_take_cases mb_wf_def split: if_splits)
next
  fix m m' :: "'a Mailbox" and now r
  assume m: "mb_wf m" and t: "mb_take now m = (r, m')"
  show "mb_wf m' \<and> (\<lambda>now. after_edge (receiver m') now (mb_latency m')) =
      (\<lambda>now. after_edge (receiver m) now (mb_latency m)) \<and> mb_capacity m' = mb_capacity m"
    using mb_take_wf [OF m t] t by (auto simp: mb_take_cases split: if_splits)
qed

text \<open>
  C31. A mailbox is a lossless FIFO with a receiver-edge latency. Over every sequence of
  publications and reads from a freshly constructed mailbox, the messages read, followed by the
  ones still queued, are exactly the messages published, in order; a message is read no earlier
  than the latency-th receiver edge after its publication; and the queue never holds more than
  its capacity.
\<close>

theorem mailbox_fifo:
  assumes "mailbox cap clock latency = Inr m"
    and "chan_run publish mb_take ops m = Inr ((sent, received), m')"
  shows "map content (map snd received @ entries m') = sent \<and> length (entries m') \<le> cap \<and>
    (\<forall>(t, e)\<in>set received. after_edge clock (published e) latency \<le> t \<and>
      edge clock (after_edge clock (published e) latency) \<and>
      card {u. edge clock u \<and> published e < u \<and> u \<le> after_edge clock (published e) latency}
        = latency)"
proof -
  from assms(1) have m: "mb_wf m" by (rule mailbox_wf)
  from assms(1) have f: "entries m = []" "receiver m = clock" "mb_latency m = latency"
    "mb_capacity m = cap" "valid_clock clock" "0 < latency" by (auto simp: mailbox_def)
  have "map content (map snd received @ entries m') = sent"
    using mbox.run_conserves [OF m assms(2)] f(1) by simp
  moreover have "length (entries m') \<le> cap"
    using mbox.run_ok [OF m assms(2)] mbox.ok_bound [of m'] f(4) by simp
  ultimately show ?thesis
    using mbox.run_late [OF m assms(2)] f after_edge_facts [OF f(5,6)] by auto
qed

definition example_mailbox :: "nat Mailbox" where
  "example_mailbox = \<lparr>mb_capacity = 2, receiver = \<lparr>period = 5, phase = 0\<rparr>, mb_latency = 2, entries = []\<rparr>"

lemma example_mailbox_run:
  "chan_run publish mb_take [Put 3 1 7, Put 4 1 8, Get 5, Get 10] example_mailbox =
   Inr (([(3, 1, 7), (4, 1, 8)],
     [(10, \<lparr>published = 3, eligible = 10, env_epoch = 1, env_value = 7\<rparr>)]),
     example_mailbox\<lparr>entries :=
       [\<lparr>published = 4, eligible = 10, env_epoch = 1, env_value = 8\<rparr>]\<rparr>)"
  by (simp add: example_mailbox_def publish_def mb_take_def peek_def mb_full_def after_def
      clock_validate_def checked_add_def checked_mul_def tick_max_def)

theorem mailbox_fifo_witness:
  "map content [\<lparr>published = 3, eligible = 10, env_epoch = 1, env_value = (7 :: nat)\<rparr>,
     \<lparr>published = 4, eligible = 10, env_epoch = 1, env_value = 8\<rparr>] = [(3, 1, 7), (4, 1, 8)]"
proof -
  have m: "mailbox 2 \<lparr>period = 5, phase = 0\<rparr> 2 = Inr example_mailbox"
    by (simp add: mailbox_def clock_validate_def example_mailbox_def)
  show ?thesis using mailbox_fifo [OF m example_mailbox_run] by simp
qed

end
