(* ===== verification/Events.thy ===== *)
theory Events
  imports Mailbox
begin

text \<open>
  The data of the control plane: the action descriptors of \<^verbatim>\<open>include/qsbit/event.hpp\<close>,
  the measurement references of \<^verbatim>\<open>measurement.hpp\<close>, the messages of
  \<^verbatim>\<open>control_protocol.hpp\<close> and the commands of \<^verbatim>\<open>control_command.hpp\<close>. The accessors
  of \<open>EventSpec\<close> are those of \<^verbatim>\<open>src/profile.cpp\<close>. A \<open>double\<close> amplitude is a finite
  value \<open>m * 2 ^ e\<close>, given by its odd or zero mantissa and its exponent, an infinity or a NaN;
  the code only compares it and tests it for finiteness.
\<close>

datatype ActionKind = IdealGate | Pulse | Acquire | DiscriminatorArm | GateOutput

datatype ExecutionFlag = Always | LastOne | LastZero | Equal

datatype Double = Finite int int | Infinity bool | NaN

record MeasurementReference =
  ref_epoch :: Epoch
  measurement :: Id
  ref_target :: u32

record Completion =
  reference :: MeasurementReference
  outcome :: bool

record ResourceUse =
  res_id :: u32
  exclusive :: bool

record QuantumOperands =
  op_targets :: "u32 list"
  op_resources :: "ResourceUse list"

record GateSpec =
  gate_operation :: string
  gate_operands :: QuantumOperands
  gate_amplitude :: Double
  gate_flag :: ExecutionFlag

record PulseSpec =
  pulse_operation :: string
  pulse_operands :: QuantumOperands
  pulse_amplitude :: Double
  pulse_axis :: string
  pulse_flag :: ExecutionFlag

record AcquireSpec =
  acquire_operation :: string
  acquire_operands :: QuantumOperands
  discriminator_delay :: Tick
  separate_arm :: bool

record DiscriminatorArmSpec =
  arm_operation :: string
  arm_operands :: QuantumOperands

record GateOutputSpec =
  output_gate :: string

datatype ActionSpec =
    SpecGate GateSpec
  | SpecPulse PulseSpec
  | SpecAcquire AcquireSpec
  | SpecArm DiscriminatorArmSpec
  | SpecOutput GateOutputSpec

record EventSpec =
  es_port :: u32
  es_delay :: Tick
  es_duration :: Tick
  spec :: ActionSpec

record Mapping =
  map_port :: u32
  map_codeword :: u32
  map_actions :: "EventSpec list"

record GateInput =
  in_core :: u32
  in_port :: u32
  in_codeword :: u32

record TwoQubitGate =
  tq_name :: string
  tq_operation :: string
  tq_targets :: "u32 list"
  tq_inputs :: "GateInput list"
  tq_resources :: "ResourceUse list"
  tq_duration :: Tick

fun spec_kind :: "ActionSpec \<Rightarrow> ActionKind" where
  "spec_kind (SpecGate _) = IdealGate"
| "spec_kind (SpecPulse _) = Pulse"
| "spec_kind (SpecAcquire _) = Acquire"
| "spec_kind (SpecArm _) = DiscriminatorArm"
| "spec_kind (SpecOutput _) = GateOutput"

definition kind :: "EventSpec \<Rightarrow> ActionKind" where
  "kind a = spec_kind (spec a)"

definition targets :: "EventSpec \<Rightarrow> u32 list" where
  "targets a = (case spec a of
      SpecGate g \<Rightarrow> op_targets (gate_operands g)
    | SpecPulse p \<Rightarrow> op_targets (pulse_operands p)
    | SpecAcquire q \<Rightarrow> op_targets (acquire_operands q)
    | SpecArm d \<Rightarrow> op_targets (arm_operands d)
    | SpecOutput _ \<Rightarrow> [])"

definition resources :: "EventSpec \<Rightarrow> ResourceUse list" where
  "resources a = (case spec a of
      SpecGate g \<Rightarrow> op_resources (gate_operands g)
    | SpecPulse p \<Rightarrow> op_resources (pulse_operands p)
    | SpecAcquire q \<Rightarrow> op_resources (acquire_operands q)
    | SpecArm d \<Rightarrow> op_resources (arm_operands d)
    | SpecOutput _ \<Rightarrow> [])"

definition operation :: "EventSpec \<Rightarrow> string" where
  "operation a = (case spec a of
      SpecGate g \<Rightarrow> gate_operation g
    | SpecPulse p \<Rightarrow> pulse_operation p
    | SpecAcquire q \<Rightarrow> acquire_operation q
    | SpecArm d \<Rightarrow> arm_operation d
    | SpecOutput _ \<Rightarrow> [])"

definition execution_flag :: "EventSpec \<Rightarrow> ExecutionFlag" where
  "execution_flag a = (case spec a of
      SpecGate g \<Rightarrow> gate_flag g
    | SpecPulse p \<Rightarrow> pulse_flag p
    | _ \<Rightarrow> Always)"

text \<open>The amplitude of the alternatives that have one, as \<^verbatim>\<open>requires { value.amplitude; }\<close>.\<close>

definition amplitude :: "EventSpec \<Rightarrow> Double option" where
  "amplitude a = (case spec a of
      SpecGate g \<Rightarrow> Some (gate_amplitude g)
    | SpecPulse p \<Rightarrow> Some (pulse_amplitude p)
    | _ \<Rightarrow> None)"

text \<open>The defaulted \<^verbatim>\<open>operator==\<close>: memberwise, and a NaN member is equal to nothing.\<close>

definition event_spec_eq :: "EventSpec \<Rightarrow> EventSpec \<Rightarrow> bool" where
  "event_spec_eq a b \<longleftrightarrow> a = b \<and> amplitude a \<noteq> Some NaN"

section \<open>Messages between the CPU side and the timing control unit\<close>

datatype UnderflowPolicy = Inherit | Strict | PauseWhenEmpty

record OperationEvent =
  oe_epoch :: Epoch
  oe_id :: Id
  oe_instruction :: Id
  oe_label :: Id
  source_port :: u32
  oe_codeword :: u32
  action :: EventSpec
  oe_reference :: "MeasurementReference option"
  oe_core :: "u32 option"

record TimingPoint =
  tp_epoch :: Epoch
  tp_label :: Id
  tp_interval :: TcuCycle
  manifest :: "Id list"
  synchronizations :: "u32 list"
  underflow_policy :: UnderflowPolicy

record TimingEvents =
  tpoint :: TimingPoint
  te_events :: "OperationEvent list"
  te_configuration :: string

record TriggeredEvents =
  tr_epoch :: Epoch
  tr_label :: Id
  fire_tick :: Tick
  tr_events :: "OperationEvent list"

record ScheduledEvent =
  sch_event :: OperationEvent
  sch_start :: Tick
  sch_end :: Tick
  resolved :: EventSpec

section \<open>Control commands\<close>

datatype Command =
    WaitCommand u32
  | CodewordCommand u32 u32
  | FetchMeasurementCommand u32
  | HaltCommand
  | SynchronizeCommand u32

record ControlOperation =
  co_instruction :: Id
  command :: Command

end
