(* ===== verification/Trace.thy ===== *)
theory Trace
  imports Events
begin

text \<open>
  The execution trace of \<^verbatim>\<open>include/qsbit/trace.hpp\<close> and \<^verbatim>\<open>src/trace.cpp\<close>. The component
  operations of the other theories return the events they emit, oldest first; \<open>emit_all\<close> is
  what the trace does with them. The theory Trace_Output writes it out as JSON lines.
\<close>

record CpuPipelineInstruction =
  pi_id :: Id
  pi_pc :: u32
  pi_word :: "u32 option"
  pi_discarded :: bool

record CpuPipelineState =
  stages :: "CpuPipelineInstruction option list"
  ps_halted :: bool

datatype DecoderEventKind =
    RequestSubmitted | RequestSent | RequestArrived | Started | Completed
  | ResultReturned | ResetEvent | ResultConsumed

record DecoderTrace =
  dt_id :: u32
  dt_tag :: u32
  dt_requests :: nat
  dt_resets :: nat
  dt_jobs :: nat

record DecoderEvent =
  de_kind :: DecoderEventKind
  de_state :: DecoderTrace

record InstructionRetired =
  ir_pc :: u32
  ir_word :: u32
  ir_rd :: nat
  ir_next_pc :: u32
  ir_value :: u32
  ir_registers :: "u32 list"

datatype Payload =
    NoPayload
  | PipelinePayload CpuPipelineState
  | RetiredPayload InstructionRetired
  | DecoderPayload DecoderEvent

record TraceEvent =
  ev_tick :: Tick
  ev_epoch :: Epoch
  ev_kind :: string
  ev_id :: Id
  ev_label :: Id
  ev_cycle :: Tick
  ev_port :: u32
  ev_codeword :: u32
  ev_targets :: "u32 list"
  ev_operation :: string
  ev_detail :: string
  ev_value :: nat
  ev_core :: "u32 option"
  ev_payload :: Payload

definition trace_event :: "Tick \<Rightarrow> Epoch \<Rightarrow> string \<Rightarrow> Id \<Rightarrow> Id \<Rightarrow> Tick \<Rightarrow> TraceEvent" where
  "trace_event tick epoch k i label cycle =
     \<lparr>ev_tick = tick, ev_epoch = epoch, ev_kind = k, ev_id = i, ev_label = label, ev_cycle = cycle,
      ev_port = 0, ev_codeword = 0, ev_targets = [], ev_operation = [], ev_detail = [],
      ev_value = 0, ev_core = None, ev_payload = NoPayload\<rparr>"

definition pipeline_event :: "Tick \<Rightarrow> Epoch \<Rightarrow> Tick \<Rightarrow> CpuPipelineState \<Rightarrow> TraceEvent" where
  "pipeline_event tick epoch cycle s =
     (trace_event tick epoch ''CpuPipelineUpdated'' 0 0 cycle)\<lparr>ev_payload := PipelinePayload s\<rparr>"

definition retired_event ::
  "Tick \<Rightarrow> Epoch \<Rightarrow> Id \<Rightarrow> Tick \<Rightarrow> InstructionRetired \<Rightarrow> TraceEvent" where
  "retired_event tick epoch i cycle s =
     (trace_event tick epoch ''InstructionRetired'' i 0 cycle)\<lparr>ev_payload := RetiredPayload s\<rparr>"

fun decoder_name :: "DecoderEventKind \<Rightarrow> string" where
  "decoder_name RequestSubmitted = ''DecoderRequestSubmitted''"
| "decoder_name RequestSent = ''DecoderRequestSent''"
| "decoder_name RequestArrived = ''DecoderRequestArrived''"
| "decoder_name Started = ''DecoderStarted''"
| "decoder_name Completed = ''DecoderCompleted''"
| "decoder_name ResultReturned = ''DecoderResultReturned''"
| "decoder_name ResetEvent = ''DecoderReset''"
| "decoder_name ResultConsumed = ''DecoderResultConsumed''"

definition decoder_event ::
  "Tick \<Rightarrow> Epoch \<Rightarrow> Id \<Rightarrow> u32 \<Rightarrow> DecoderEvent \<Rightarrow> TraceEvent" where
  "decoder_event tick epoch request core e =
     (trace_event tick epoch (decoder_name (de_kind e)) request 0 0)
       \<lparr>ev_core := Some core, ev_payload := DecoderPayload e\<rparr>"

text \<open>
  A root trace stores events; a core's trace stamps its core number on an event and forwards it
  to the root (\<open>destination_\<close>), so a trace is the root log and the stamp to use.
\<close>

record TraceLog =
  log_events :: "TraceEvent list"
  include_stalls :: bool

definition payload_agrees :: "TraceEvent \<Rightarrow> bool" where
  "payload_agrees e \<longleftrightarrow>
     (ev_kind e = ''InstructionRetired'') = (case ev_payload e of RetiredPayload _ \<Rightarrow> True | _ \<Rightarrow> False) \<and>
     (ev_kind e = ''CpuPipelineUpdated'') = (case ev_payload e of PipelinePayload _ \<Rightarrow> True | _ \<Rightarrow> False) \<and>
     (take 7 (ev_kind e) = ''Decoder'') = (case ev_payload e of DecoderPayload _ \<Rightarrow> True | _ \<Rightarrow> False)"

definition emit :: "TraceEvent \<Rightarrow> TraceLog \<Rightarrow> TraceLog result" where
  "emit e log =
     require (payload_agrees e) Protocol (
     require (case ev_payload e of DecoderPayload d \<Rightarrow> ev_kind e = decoder_name (de_kind d) | _ \<Rightarrow> True)
       Protocol (
     if \<not> include_stalls log \<and> ev_kind e = ''CpuStalled'' then Inr log
     else require (log_events log = [] \<or> ev_tick (last (log_events log)) \<le> ev_tick e) Protocol (
          Inr (log\<lparr>log_events := log_events log @ [e]\<rparr>))))"

definition emit_from :: "u32 option \<Rightarrow> TraceEvent \<Rightarrow> TraceLog \<Rightarrow> TraceLog result" where
  "emit_from core e = emit (e\<lparr>ev_core := core\<rparr>)"

definition emit_all :: "u32 option \<Rightarrow> TraceEvent list \<Rightarrow> TraceLog \<Rightarrow> TraceLog result" where
  "emit_all core = foldE (emit_from core)"

section \<open>The log is in time order\<close>

definition log_wf :: "TraceLog \<Rightarrow> bool" where
  "log_wf log \<longleftrightarrow> sorted (map ev_tick (log_events log)) \<and> (\<forall>e\<in>set (log_events log). payload_agrees e)"

lemma sorted_snoc:
  "sorted (map f xs) \<Longrightarrow> xs = [] \<or> f (last xs) \<le> f x \<Longrightarrow> sorted (map f (xs @ [x]))"
  for f :: "'a \<Rightarrow> 'b :: linorder"
proof (cases xs rule: rev_cases)
  case (snoc ys y)
  moreover assume "sorted (map f xs)" and "xs = [] \<or> f (last xs) \<le> f x"
  ultimately show ?thesis by (force simp: sorted_append)
qed simp

lemma emit_wf [inv_intros]: "log_wf log \<Longrightarrow> emit e log = Inr log' \<Longrightarrow> log_wf log'"
  using sorted_snoc [of ev_tick "log_events log" e]
  by (auto simp: emit_def log_wf_def split: if_splits)

lemma emit_all_wf [inv_intros]: "log_wf log \<Longrightarrow> emit_all core es log = Inr log' \<Longrightarrow> log_wf log'"
  unfolding emit_all_def emit_from_def
  by (erule foldE_invariant [where P = log_wf]) (auto intro: emit_wf)

lemma emit_prefix: "emit e log = Inr log' \<Longrightarrow> \<exists>es. log_events log' = log_events log @ es"
  by (auto simp: emit_def split: if_splits)

lemma payload_agrees_trace_event [simp]:
  "k \<noteq> ''InstructionRetired'' \<Longrightarrow> k \<noteq> ''CpuPipelineUpdated'' \<Longrightarrow> take 7 k \<noteq> ''Decoder'' \<Longrightarrow>
   payload_agrees (trace_event t ep k i l c)"
  by (simp add: payload_agrees_def trace_event_def)

end
