(* ===== verification/Profiles.thy ===== *)
theory Profiles
  imports Trace
begin

text \<open>
  The static configuration: \<open>Profile\<close> and its validation (\<^verbatim>\<open>profile.hpp\<close>,
  \<^verbatim>\<open>src/profile.cpp\<close>), and the configurations derived from it for the timing control unit
  and the transport (\<^verbatim>\<open>timing_config.hpp\<close>, \<^verbatim>\<open>src/timing_config.cpp\<close>). The fingerprint,
  a hash of the printed profile, is an argument of \<open>timing_config\<close>.
\<close>

record Profile =
  pf_cpu :: Clock
  pf_tcu :: Clock
  pf_start :: Tick
  pf_watchdog :: Tick
  memory_latency :: u32
  command_latency :: u32
  reply_latency :: u32
  cpu_result_latency :: u32
  fast_result_latency :: u32
  timing_capacity :: u32
  event_capacity :: u32
  staging_capacity :: u32
  result_capacity :: u32
  pf_ports :: u32
  pf_qubits :: u32
  firing_width :: u32
  pf_seed :: u32
  pf_fast_feedback :: bool
  pf_mappings :: "Mapping list"
  two_qubit_gates :: "TwoQubitGate list"

definition profile_gate :: "Profile \<Rightarrow> string \<Rightarrow> TwoQubitGate result" where
  "profile_gate p name = (case find (\<lambda>g. tq_name g = name) (two_qubit_gates p) of
      None \<Rightarrow> Inl InvalidProfile
    | Some g \<Rightarrow> Inr g)"

definition profile_mapping :: "Profile \<Rightarrow> u32 \<Rightarrow> u32 \<Rightarrow> Mapping result" where
  "profile_mapping p port codeword =
     require (port < pf_ports p) InvalidPort (
     case find (\<lambda>m. map_port m = port \<and> map_codeword m = codeword) (pf_mappings p) of
       None \<Rightarrow> Inl InvalidCodeword
     | Some m \<Rightarrow> Inr m)"

section \<open>Validation\<close>

definition insert_new :: "'a \<Rightarrow> 'a set \<Rightarrow> 'a set result" where
  "insert_new x S = require (x \<notin> S) InvalidProfile (Inr (insert x S))"

definition validate_gate ::
  "Profile \<Rightarrow> TwoQubitGate \<Rightarrow> string set \<times> (u32 \<times> u32 \<times> u32) set \<Rightarrow>
   (string set \<times> (u32 \<times> u32 \<times> u32) set) result" where
  "validate_gate p g = (\<lambda>(names, inputs).
     require (tq_name g \<noteq> [] \<and> tq_name g \<notin> names \<and> tq_operation g \<noteq> [] \<and> tq_duration g > 0 \<and>
        length (tq_targets g) = 2 \<and> tq_targets g ! 0 \<noteq> tq_targets g ! 1 \<and>
        tq_targets g ! 0 < pf_qubits p \<and> tq_targets g ! 1 < pf_qubits p \<and> length (tq_inputs g) = 2)
       InvalidProfile (
     require (in_core (tq_inputs g ! 0) \<noteq> in_core (tq_inputs g ! 1) \<or>
        in_port (tq_inputs g ! 0) \<noteq> in_port (tq_inputs g ! 1)) InvalidProfile (
     bindE (foldE (\<lambda>i S. require (in_core i \<le> 131071) InvalidProfile (
              insert_new (in_core i, in_port i, in_codeword i) S)) (tq_inputs g) inputs) (\<lambda>inputs'.
     bindE (foldE (\<lambda>r. insert_new (res_id r)) (tq_resources g) {}) (\<lambda>_.
     Inr (insert (tq_name g) names, inputs'))))))"

type_synonym readout_tables = "(u32 \<rightharpoonup> bool) \<times> (u32 \<Rightarrow> nat)"

definition validate_action ::
  "Profile \<Rightarrow> Mapping \<Rightarrow> EventSpec \<Rightarrow> readout_tables \<Rightarrow> readout_tables result" where
  "validate_action p m a = (\<lambda>(acquisitions, arms).
     require (es_port a < pf_ports p \<and> (kind a = GateOutput \<or> targets a \<noteq> []) \<and> es_duration a > 0)
       InvalidProfile (
     bindE (case spec a of
        SpecOutput s \<Rightarrow>
          require (length (map_actions m) = 1 \<and> es_port a = map_port m) InvalidProfile (
          bindE (profile_gate p (output_gate s)) (\<lambda>g.
          require (es_duration a = tq_duration g) InvalidProfile (Inr ())))
      | _ \<Rightarrow> Inr ()) (\<lambda>_.
     require (execution_flag a = Always \<or> length (targets a) = 1) InvalidProfile (
     bindE (foldE (\<lambda>q S. require (q < pf_qubits p) InvalidProfile (insert_new q S)) (targets a) {}) (\<lambda>_.
     bindE (foldE (\<lambda>r. insert_new (res_id r)) (resources a) {}) (\<lambda>_.
     bindE (case spec a of
        SpecAcquire s \<Rightarrow>
          require (length (targets a) = 1) InvalidProfile (
          require (hd (targets a) \<notin> dom acquisitions) InvalidProfile (
          Inr (acquisitions(hd (targets a) \<mapsto> separate_arm s))))
      | _ \<Rightarrow> Inr acquisitions) (\<lambda>acquisitions'.
     bindE (if kind a = DiscriminatorArm
            then require (length (targets a) = 1) InvalidProfile (
                 Inr (arms(hd (targets a) := arms (hd (targets a)) + 1)))
            else Inr arms) (\<lambda>arms'.
     require (kind a = IdealGate \<and> operation a = ''reset'' \<longrightarrow>
        length (targets a) = 1 \<and> execution_flag a = Always) InvalidProfile (
     require (case amplitude a of None \<Rightarrow> True | Some (Finite _ _) \<Rightarrow> True | _ \<Rightarrow> False) InvalidProfile (
     require (case spec a of
        SpecPulse s \<Rightarrow> length (targets a) = 1 \<and> pulse_axis s \<in> {''x'', ''y'', ''z''}
      | _ \<Rightarrow> True) InvalidProfile (
     Inr (acquisitions', arms'))))))))))))"

text \<open>
  The two final loops over the tables range over every target that an acquisition or an arm of
  the mapping names; every such target is in the targets of some action.
\<close>

definition mapping_targets :: "Mapping \<Rightarrow> u32 list" where
  "mapping_targets m = concat (map targets (map_actions m))"

definition validate_mapping :: "Profile \<Rightarrow> Mapping \<Rightarrow> (u32 \<times> u32) set \<Rightarrow> (u32 \<times> u32) set result" where
  "validate_mapping p m keys =
     require (map_port m < pf_ports p) InvalidProfile (
     bindE (insert_new (map_port m, map_codeword m) keys) (\<lambda>keys'.
     require (map_actions m \<noteq> []) InvalidProfile (
     bindE (foldE (validate_action p m) (map_actions m) (Map.empty, \<lambda>_. 0)) (\<lambda>(acquisitions, arms).
     require (list_all (\<lambda>t. case acquisitions t of
          None \<Rightarrow> True
        | Some separate \<Rightarrow> arms t = (if separate then 1 else 0)) (mapping_targets m)) InvalidProfile (
     require (list_all (\<lambda>t. arms t = 0 \<or> acquisitions t \<noteq> None) (mapping_targets m)) InvalidProfile (
     Inr keys'))))))"

definition profile_validate :: "Profile \<Rightarrow> unit result" where
  "profile_validate p =
     bindE (clock_validate (pf_cpu p)) (\<lambda>_.
     bindE (clock_validate (pf_tcu p)) (\<lambda>_.
     require (edge (pf_tcu p) (pf_start p) \<and> pf_start p < pf_watchdog p) InvalidProfile (
     require (list_all (\<lambda>n. n > 0)
        [memory_latency p, command_latency p, reply_latency p, cpu_result_latency p,
         fast_result_latency p, timing_capacity p, event_capacity p, staging_capacity p,
         result_capacity p, pf_ports p, pf_qubits p, firing_width p]) InvalidProfile (
     require (result_capacity p \<le> 65535 \<and> pf_ports p \<le> 65535 \<and> pf_qubits p \<le> 32) InvalidProfile (
     bindE (foldE (validate_gate p) (two_qubit_gates p) ({}, {})) (\<lambda>_.
     bindE (foldE (validate_mapping p) (pf_mappings p) {}) (\<lambda>_.
     Inr ())))))))"

section \<open>Derived configurations\<close>

record TimingConfig =
  tc_event_capacity :: u32
  tc_staging_capacity :: u32
  tc_ports :: u32
  tc_qubits :: u32
  tc_firing_width :: u32
  tc_fast_feedback :: bool
  tc_configuration :: string
  tc_mappings :: "u32 \<times> u32 \<rightharpoonup> Mapping"

record TcuConfig =
  tcu_timing :: TimingConfig
  tcu_clock :: Clock
  tcu_start :: Tick
  tcu_timing_capacity :: u32

record TransportConfig =
  tr_cpu :: Clock
  tr_tcu :: Clock
  tr_command_latency :: u32
  tr_reply_latency :: u32
  tr_cpu_result_latency :: u32
  tr_fast_result_latency :: u32
  tr_result_capacity :: u32

definition transport_config :: "Profile \<Rightarrow> TransportConfig" where
  "transport_config p =
     \<lparr>tr_cpu = pf_cpu p, tr_tcu = pf_tcu p, tr_command_latency = command_latency p,
      tr_reply_latency = reply_latency p, tr_cpu_result_latency = cpu_result_latency p,
      tr_fast_result_latency = fast_result_latency p, tr_result_capacity = result_capacity p\<rparr>"

definition timing_config :: "(Profile \<Rightarrow> string) \<Rightarrow> Profile \<Rightarrow> TimingConfig result" where
  "timing_config fingerprint p =
     bindE (foldE (\<lambda>m ms.
        require ((map_port m, map_codeword m) \<notin> dom ms) InvalidProfile (
        Inr (ms((map_port m, map_codeword m) \<mapsto> m)))) (pf_mappings p) Map.empty) (\<lambda>ms.
     Inr \<lparr>tc_event_capacity = event_capacity p, tc_staging_capacity = staging_capacity p,
          tc_ports = pf_ports p, tc_qubits = pf_qubits p, tc_firing_width = firing_width p,
          tc_fast_feedback = pf_fast_feedback p, tc_configuration = fingerprint p,
          tc_mappings = ms\<rparr>)"

definition tcu_config :: "(Profile \<Rightarrow> string) \<Rightarrow> Profile \<Rightarrow> TcuConfig result" where
  "tcu_config fingerprint p =
     bindE (timing_config fingerprint p) (\<lambda>t.
     Inr \<lparr>tcu_timing = t, tcu_clock = pf_tcu p, tcu_start = pf_start p,
          tcu_timing_capacity = timing_capacity p\<rparr>)"

definition tc_mapping :: "TimingConfig \<Rightarrow> u32 \<Rightarrow> u32 \<Rightarrow> Mapping result" where
  "tc_mapping c port codeword =
     require (port < tc_ports c) InvalidPort (
     case tc_mappings c (port, codeword) of None \<Rightarrow> Inl InvalidCodeword | Some m \<Rightarrow> Inr m)"

end
