(* ===== verification/Control_Protocol.thy ===== *)
theory Control_Protocol
  imports Profiles
begin

text \<open>
  Codeword decoding and request validation, \<^verbatim>\<open>src/control_protocol.cpp\<close>. Both sides of the
  link run \<open>validate_timing_events\<close>: the timing control when it submits a time point and the
  timing control unit when it admits one.
\<close>

definition is_readout :: "EventSpec \<Rightarrow> bool" where
  "is_readout a \<longleftrightarrow> kind a = Acquire \<or> kind a = DiscriminatorArm"

definition matching_reference ::
  "EventSpec \<Rightarrow> MeasurementReference list \<Rightarrow> MeasurementReference option" where
  "matching_reference a refs = fold (\<lambda>r found.
     if length (targets a) = 1 \<and> ref_target r = hd (targets a) then Some r else found) refs None"

definition decode_action ::
  "TimingConfig \<Rightarrow> u32 \<Rightarrow> u32 \<Rightarrow> Epoch \<Rightarrow> Id \<Rightarrow> Id \<Rightarrow> MeasurementReference list \<Rightarrow> EventSpec \<Rightarrow>
   OperationEvent list \<Rightarrow> OperationEvent list result" where
  "decode_action cfg port codeword epoch instruction first_event refs a events =
     (let ref = (if is_readout a then matching_reference a refs else None) in
     require (\<not> is_readout a \<or> ref \<noteq> None) InvalidMeasurement (
     require (execution_flag a = Always \<or> tc_fast_feedback cfg) UnsupportedCapability (
     bindE (checked_add first_event (length events)) (\<lambda>i.
     Inr (events @ [\<lparr>oe_epoch = epoch, oe_id = i, oe_instruction = instruction, oe_label = 0,
       source_port = port, oe_codeword = codeword, action = a,
       oe_reference = ref, oe_core = None\<rparr>])))))"

definition decode_codeword ::
  "TimingConfig \<Rightarrow> u32 \<Rightarrow> u32 \<Rightarrow> Epoch \<Rightarrow> Id \<Rightarrow> Id \<Rightarrow> MeasurementReference list \<Rightarrow>
   OperationEvent list result" where
  "decode_codeword cfg port codeword epoch instruction first_event refs =
     bindE (tc_mapping cfg port codeword) (\<lambda>m.
     require (length refs = length (filter (\<lambda>a. kind a = Acquire) (map_actions m))) InvalidMeasurement (
     require (list_all (\<lambda>r. ref_epoch r = epoch \<and> measurement r \<noteq> 0) refs \<and>
        distinct (map ref_target refs) \<and> distinct (map measurement refs)) InvalidMeasurement (
     foldE (decode_action cfg port codeword epoch instruction first_event refs) (map_actions m) [])))"

definition validate_event ::
  "TimingConfig \<Rightarrow> TimingPoint \<Rightarrow> Id \<times> OperationEvent \<Rightarrow> Id set \<times> nat list \<Rightarrow> (Id set \<times> nat list) result" where
  "validate_event cfg pt = (\<lambda>(manifested, e) (ids, counts).
     require (oe_epoch e = tp_epoch pt \<and> oe_label e = tp_label pt \<and> oe_id e \<noteq> 0 \<and>
        oe_id e = manifested \<and> oe_id e \<notin> ids) ManifestMismatch (
     require (es_port (action e) < tc_ports cfg) InvalidPort (
     let p = unat (es_port (action e)); counts' = counts[p := counts ! p + 1] in
     require (counts' ! p \<le> unat (tc_firing_width cfg) \<and> counts' ! p \<le> unat (tc_event_capacity cfg))
       Capacity (
     bindE (tc_mapping cfg (source_port e) (oe_codeword e)) (\<lambda>m.
     require (list_ex (\<lambda>a. event_spec_eq a (action e)) (map_actions m)) Protocol (
     Inr (insert (oe_id e) ids, counts')))))))"

definition validate_timing_events :: "TimingEvents \<Rightarrow> TimingConfig \<Rightarrow> unit result" where
  "validate_timing_events req cfg = (let pt = tpoint req in
     require (underflow_policy pt = Inherit \<or> underflow_policy pt = Strict \<or>
        underflow_policy pt = PauseWhenEmpty) Protocol (
     require (tp_interval pt = 0 \<or> underflow_policy pt \<noteq> Inherit) Protocol (
     require (te_configuration req = tc_configuration cfg) Protocol (
     require (length (te_events req) = length (manifest pt)) ManifestMismatch (
     require (length (te_events req) \<le> unat (tc_staging_capacity cfg)) Capacity (
     require (length (synchronizations pt) \<le> unat (tc_staging_capacity cfg)) Capacity (
     require (length (synchronizations pt) \<le> 1) InvalidOperand (
     require (list_all (\<lambda>t. t \<le> 131071) (synchronizations pt) \<and> distinct (synchronizations pt))
       InvalidOperand (
     bindE (foldE (validate_event cfg pt) (zip (manifest pt) (te_events req))
        ({}, replicate (unat (tc_ports cfg)) 0)) (\<lambda>_.
     Inr ()))))))))))"

section \<open>What validation establishes\<close>

definition on_port :: "nat \<Rightarrow> OperationEvent \<Rightarrow> bool" where
  "on_port p e \<longleftrightarrow> unat (es_port (action e)) = p"

lemma on_port_fun: "on_port p = (\<lambda>e. unat (es_port (action e)) = p)"
  by (simp add: fun_eq_iff on_port_def)

definition mapped :: "TimingConfig \<Rightarrow> OperationEvent \<Rightarrow> bool" where
  "mapped cfg e \<longleftrightarrow> (\<exists>m. tc_mapping cfg (source_port e) (oe_codeword e) = Inr m \<and>
     (\<exists>a\<in>set (map_actions m). event_spec_eq a (action e)))"

definition event_ok :: "TimingConfig \<Rightarrow> TimingPoint \<Rightarrow> OperationEvent \<Rightarrow> bool" where
  "event_ok cfg pt e \<longleftrightarrow> oe_epoch e = tp_epoch pt \<and> oe_label e = tp_label pt \<and> oe_id e \<noteq> 0 \<and>
     es_port (action e) < tc_ports cfg \<and> mapped cfg e"

definition port_limit :: "TimingConfig \<Rightarrow> nat" where
  "port_limit cfg = min (unat (tc_firing_width cfg)) (unat (tc_event_capacity cfg))"

definition request_ok :: "TimingConfig \<Rightarrow> TimingEvents \<Rightarrow> bool" where
  "request_ok cfg req \<longleftrightarrow>
     (tp_interval (tpoint req) = 0 \<or> underflow_policy (tpoint req) \<noteq> Inherit) \<and>
     te_configuration req = tc_configuration cfg \<and>
     map oe_id (te_events req) = manifest (tpoint req) \<and> distinct (manifest (tpoint req)) \<and>
     length (te_events req) \<le> unat (tc_staging_capacity cfg) \<and>
     length (synchronizations (tpoint req)) \<le> 1 \<and>
     length (synchronizations (tpoint req)) \<le> unat (tc_staging_capacity cfg) \<and>
     (\<forall>t\<in>set (synchronizations (tpoint req)). t \<le> 131071) \<and>
     (\<forall>e\<in>set (te_events req). event_ok cfg (tpoint req) e) \<and>
     (\<forall>p. length (filter (on_port p) (te_events req)) \<le> port_limit cfg)"

lemma validate_event_Inr:
  "validate_event cfg pt (mid, e) (ids, counts) = Inr r \<longleftrightarrow>
     event_ok cfg pt e \<and> oe_id e = mid \<and> oe_id e \<notin> ids \<and>
     counts[unat (es_port (action e)) := counts ! unat (es_port (action e)) + 1] !
       unat (es_port (action e)) \<le> port_limit cfg \<and>
     r = (insert (oe_id e) ids,
       counts[unat (es_port (action e)) := counts ! unat (es_port (action e)) + 1])"
  by (auto simp: validate_event_def event_ok_def mapped_def port_limit_def Let_def list_ex_iff)

lemma validate_events_fold:
  assumes "length ms = length es" and "length counts = unat (tc_ports cfg)"
    and "\<forall>p < length counts. counts ! p \<le> port_limit cfg"
  shows "(\<exists>r. foldE (validate_event cfg pt) (zip ms es) (ids, counts) = Inr r) \<longleftrightarrow>
    (\<forall>e\<in>set es. event_ok cfg pt e) \<and> map oe_id es = ms \<and> distinct ms \<and> set ms \<inter> ids = {} \<and>
    (\<forall>p < length counts. counts ! p + length (filter (on_port p) es) \<le> port_limit cfg)"
  using assms
proof (induction ms es arbitrary: ids counts rule: list_induct2)
  case (Cons mid ms e es)
  let ?p = "unat (es_port (action e))"
  let ?c = "counts[?p := counts ! ?p + 1]"
  show ?case
  proof (cases "event_ok cfg pt e \<and> oe_id e = mid \<and> mid \<notin> ids \<and> counts ! ?p + 1 \<le> port_limit cfg")
    case True
    then have p: "?p < length counts"
      using Cons.prems(1) by (simp add: event_ok_def word_less_nat_alt)
    have step: "validate_event cfg pt (mid, e) (ids, counts) = Inr (insert mid ids, ?c)"
      using True p by (simp add: validate_event_Inr)
    have "counts ! q + length (filter (on_port q) (e # es)) = ?c ! q + length (filter (on_port q) es)"
      if "q < length counts" for q
      using that p by (auto simp: on_port_def nth_list_update)
    with Cons.IH [of ?c "insert mid ids"] True Cons.prems p show ?thesis
      by (auto simp: step nth_list_update)
  next
    case False
    have "\<not> (\<exists>r. foldE (validate_event cfg pt) (zip (mid # ms) (e # es)) (ids, counts) = Inr r)"
    proof
      assume "\<exists>r. foldE (validate_event cfg pt) (zip (mid # ms) (e # es)) (ids, counts) = Inr r"
      then obtain x where "validate_event cfg pt (mid, e) (ids, counts) = Inr x" by auto
      then have e: "event_ok cfg pt e" "oe_id e = mid" "mid \<notin> ids" "?c ! ?p \<le> port_limit cfg"
        by (auto simp: validate_event_Inr)
      then have "?p < length counts" using Cons.prems(1) by (simp add: event_ok_def word_less_nat_alt)
      with e False show False by simp
    qed
    moreover have "\<not> ((\<forall>x\<in>set (e # es). event_ok cfg pt x) \<and> map oe_id (e # es) = mid # ms \<and>
        distinct (mid # ms) \<and> set (mid # ms) \<inter> ids = {} \<and>
        (\<forall>p < length counts. counts ! p + length (filter (on_port p) (e # es)) \<le> port_limit cfg))"
    proof (rule notI, elim conjE)
      assume ok: "\<forall>x\<in>set (e # es). event_ok cfg pt x" and i: "map oe_id (e # es) = mid # ms"
        and s: "set (mid # ms) \<inter> ids = {}"
        and l: "\<forall>p < length counts. counts ! p + length (filter (on_port p) (e # es)) \<le> port_limit cfg"
      have "?p < length counts" using ok Cons.prems(1) by (simp add: event_ok_def word_less_nat_alt)
      with l have "counts ! ?p + length (filter (on_port ?p) (e # es)) \<le> port_limit cfg" by blast
      then have "counts ! ?p + 1 \<le> port_limit cfg" by (simp add: on_port_def)
      with False ok i s show False by simp
    qed
    ultimately show ?thesis by blast
  qed
qed simp

lemma port_count_out_of_range:
  "\<forall>e\<in>set es. event_ok cfg pt e \<Longrightarrow> \<not> p < unat (tc_ports cfg) \<Longrightarrow> filter (on_port p) es = []"
  by (auto simp: filter_empty_conv event_ok_def on_port_def word_less_nat_alt)

lemma validate_timing_events_iff:
  "validate_timing_events req cfg = Inr u \<longleftrightarrow> request_ok cfg req"
proof -
  have 1: "length (te_events req) = length (manifest (tpoint req)) \<Longrightarrow>
    (\<exists>r. foldE (validate_event cfg (tpoint req)) (zip (manifest (tpoint req)) (te_events req))
        ({}, replicate (unat (tc_ports cfg)) 0) = Inr r) \<longleftrightarrow>
    (\<forall>e\<in>set (te_events req). event_ok cfg (tpoint req) e) \<and>
    map oe_id (te_events req) = manifest (tpoint req) \<and> distinct (manifest (tpoint req)) \<and>
    (\<forall>p. length (filter (on_port p) (te_events req)) \<le> port_limit cfg)"
    using validate_events_fold [of "manifest (tpoint req)" "te_events req"
        "replicate (unat (tc_ports cfg)) 0" cfg "tpoint req" "{}"]
      port_count_out_of_range [of "te_events req" cfg "tpoint req"]
    by simp (metis le0 list.size(3))
  have 2: "length (manifest (tpoint req)) = length (te_events req)" if "map oe_id (te_events req) = manifest (tpoint req)"
    using that by (metis length_map)
  have 3: "distinct xs" if "length xs \<le> 1" for xs :: "u32 list"
    using that by (cases xs) auto
  have 4: "p = Inherit \<or> p = Strict \<or> p = PauseWhenEmpty" for p by (cases p) auto
  show ?thesis
    unfolding validate_timing_events_def Let_def require_eq_Inr bindE_eq_Inr request_ok_def
    using 1 2 3 4 by (auto simp: list_all_iff)
qed

end
