(* ===== verification/Ordered_Map.thy ===== *)
theory Ordered_Map
  imports Prelude "HOL-Library.Product_Lexorder"
begin

text \<open>
  The standard library's ordered \<open>std::map\<close>: an association list with strictly increasing
  keys, so that iteration order is key order. \<open>om_find\<close> is \<^verbatim>\<open>find\<close>, \<open>om_set\<close> is assignment
  through \<^verbatim>\<open>operator[]\<close>, \<open>om_emplace\<close> is \<^verbatim>\<open>emplace\<close> (which keeps an entry that is
  already there) and \<open>om_erase\<close> is \<^verbatim>\<open>erase\<close>.
\<close>

type_synonym ('k, 'v) omap = "('k \<times> 'v) list"

definition om_find :: "'k \<Rightarrow> ('k, 'v) omap \<Rightarrow> 'v option" where
  "om_find k m = map_of m k"

fun om_set :: "'k::linorder \<Rightarrow> 'v \<Rightarrow> ('k, 'v) omap \<Rightarrow> ('k, 'v) omap" where
  "om_set k v [] = [(k, v)]"
| "om_set k v ((a, b) # m) =
     (if k < a then (k, v) # (a, b) # m
      else if k = a then (k, v) # m
      else (a, b) # om_set k v m)"

definition om_emplace :: "'k::linorder \<Rightarrow> 'v \<Rightarrow> ('k, 'v) omap \<Rightarrow> ('k, 'v) omap" where
  "om_emplace k v m = (if om_find k m = None then om_set k v m else m)"

definition om_erase :: "'k \<Rightarrow> ('k, 'v) omap \<Rightarrow> ('k, 'v) omap" where
  "om_erase k m = filter (\<lambda>e. fst e \<noteq> k) m"

definition om_ok :: "('k::linorder, 'v) omap \<Rightarrow> bool" where
  "om_ok m \<longleftrightarrow> sorted_wrt (<) (map fst m)"

lemma om_find_Nil [simp]: "om_find k [] = None"
  by (simp add: om_find_def)

lemma om_find_Cons: "om_find k ((a, b) # m) = (if a = k then Some b else om_find k m)"
  by (simp add: om_find_def)

lemma om_find_set [simp]: "om_find k' (om_set k v m) = (if k' = k then Some v else om_find k' m)"
  by (induction k v m rule: om_set.induct) (auto simp: om_find_Cons)

lemma om_find_erase [simp]: "om_find k' (om_erase k m) = (if k' = k then None else om_find k' m)"
  by (induction m) (auto simp: om_find_def om_erase_def)

lemma om_ok_Nil [simp]: "om_ok []"
  by (simp add: om_ok_def)

lemma om_find_iff: "om_ok m \<Longrightarrow> om_find k m = Some v \<longleftrightarrow> (k, v) \<in> set m"
  using strict_sorted_iff [of "map fst m"] by (simp add: om_find_def om_ok_def)

lemma om_find_None: "om_find k m = None \<longleftrightarrow> k \<notin> fst ` set m"
  by (simp add: om_find_def map_of_eq_None_iff)

lemma keys_om_set: "fst ` set (om_set k v m) = insert k (fst ` set m)"
  by (induction k v m rule: om_set.induct) auto

lemma om_set_ok [simp]: "om_ok m \<Longrightarrow> om_ok (om_set k v m)"
proof (induction k v m rule: om_set.induct)
  case (2 k v a b m)
  show ?case
  proof (cases "a < k")
    case True
    with 2 have "\<forall>x\<in>insert k (fst ` set m). a < x" by (auto simp: om_ok_def)
    then have "\<forall>x\<in>set (map fst (om_set k v m)). a < x" using keys_om_set [of k v m] by simp
    with True 2 show ?thesis by (auto simp: om_ok_def)
  next
    case False
    with 2 show ?thesis by (auto simp: om_ok_def)
  qed
qed (simp add: om_ok_def)

lemma om_emplace_ok [simp]: "om_ok m \<Longrightarrow> om_ok (om_emplace k v m)"
  by (simp add: om_emplace_def)

lemma om_erase_ok [simp]: "om_ok m \<Longrightarrow> om_ok (om_erase k m)"
  unfolding om_ok_def om_erase_def by (induction m) auto

lemma om_set_fresh_set: "om_find k m = None \<Longrightarrow> set (om_set k v m) = insert (k, v) (set m)"
  by (induction k v m rule: om_set.induct) (auto simp: om_find_Cons split: if_splits)

lemma om_set_fresh_length: "om_find k m = None \<Longrightarrow> length (om_set k v m) = Suc (length m)"
  by (induction k v m rule: om_set.induct) (auto simp: om_find_Cons split: if_splits)

lemma set_om_erase: "set (om_erase k m) = {e \<in> set m. fst e \<noteq> k}"
  by (auto simp: om_erase_def)

lemma om_ok_distinct: "om_ok m \<Longrightarrow> distinct (map fst m)"
  by (simp add: om_ok_def strict_sorted_iff)

section \<open>Counting entries\<close>

definition om_count :: "('v \<Rightarrow> bool) \<Rightarrow> ('k, 'v) omap \<Rightarrow> nat" where
  "om_count P m = length (filter (\<lambda>e. P (snd e)) m)"

text \<open>
  A store of entries under keys, as its clients count them. A fresh entry adds one where it
  satisfies the predicate, erasing a present entry takes it away.
\<close>

locale counted_store =
  fixes find :: "'k \<Rightarrow> 'm \<Rightarrow> 'v option"
    and put :: "'k \<Rightarrow> 'v \<Rightarrow> 'm \<Rightarrow> 'm"
    and erase :: "'k \<Rightarrow> 'm \<Rightarrow> 'm"
    and count :: "('v \<Rightarrow> bool) \<Rightarrow> 'm \<Rightarrow> nat"
    and ok :: "'m \<Rightarrow> bool"
  assumes put_ok: "ok m \<Longrightarrow> ok (put k v m)"
    and erase_ok: "ok m \<Longrightarrow> ok (erase k m)"
    and find_put: "ok m \<Longrightarrow> find k' (put k v m) = (if k' = k then Some v else find k' m)"
    and find_erase: "ok m \<Longrightarrow> find k' (erase k m) = (if k' = k then None else find k' m)"
    and count_put: "ok m \<Longrightarrow> find k m = None \<Longrightarrow> count P (put k v m) = count P m + (if P v then 1 else 0)"
    and count_erase: "ok m \<Longrightarrow> find k m = Some v \<Longrightarrow> count P m = count P (erase k m) + (if P v then 1 else 0)"
    and count_zero: "ok m \<Longrightarrow> count P m = 0 \<longleftrightarrow> (\<forall>k v. find k m = Some v \<longrightarrow> \<not> P v)"
begin

lemma count_positive: "ok m \<Longrightarrow> find k m = Some v \<Longrightarrow> P v \<Longrightarrow> 0 < count P m"
  using count_zero [of m P] by (metis neq0_conv)

lemma put_erase: "ok m \<Longrightarrow> find k m = None \<Longrightarrow> count P (erase k (put k v m)) = count P m"
  using count_erase [of "put k v m" k v P] by (simp add: put_ok find_put count_put)

lemma puts_ok: "ok m \<Longrightarrow> ok (fold (\<lambda>(k, v). put k v) kvs m)"
  by (induction kvs arbitrary: m) (auto simp: put_ok)

lemma puts_find:
  "ok m \<Longrightarrow> find k (fold (\<lambda>(k, v). put k v) kvs m) =
     (case map_of (rev kvs) k of None \<Rightarrow> find k m | Some v \<Rightarrow> Some v)"
proof (induction kvs arbitrary: m)
  case (Cons kv kvs)
  obtain a b where kv: "kv = (a, b)" by (cases kv)
  from Cons kv show ?case
    by (simp add: put_ok find_put map_add_def split: option.split)
qed simp

lemma puts_count:
  "ok m \<Longrightarrow> distinct (map fst kvs) \<Longrightarrow> (\<forall>kv\<in>set kvs. find (fst kv) m = None) \<Longrightarrow>
   count P (fold (\<lambda>(k, v). put k v) kvs m) = count P m + length (filter (\<lambda>kv. P (snd kv)) kvs)"
proof (induction kvs arbitrary: m)
  case (Cons kv kvs)
  obtain a b where kv: "kv = (a, b)" by (cases kv)
  from Cons.prems kv have "count P (fold (\<lambda>(k, v). put k v) kvs (put a b m)) =
      count P (put a b m) + length (filter (\<lambda>kv. P (snd kv)) kvs)"
    by (intro Cons.IH) (auto simp: put_ok find_put)
  with Cons.prems kv show ?case by (simp add: count_put)
qed simp

end

lemma om_count_set:
  "om_find k m = None \<Longrightarrow> om_count P (om_set k v m) = om_count P m + (if P v then 1 else 0)"
  by (induction k v m rule: om_set.induct)
    (auto simp: om_count_def om_find_Cons split: if_splits)

lemma om_count_erase:
  "om_ok m \<Longrightarrow> om_find k m = Some v \<Longrightarrow>
   om_count P m = om_count P (om_erase k m) + (if P v then 1 else 0)"
proof (induction m)
  case (Cons e m)
  obtain a b where e: "e = (a, b)" by (cases e)
  have ok: "om_ok m" and fresh: "\<forall>x\<in>set m. fst x \<noteq> a"
    using Cons.prems(1) by (auto simp: om_ok_def e)
  show ?case
  proof (cases "a = k")
    case True
    with fresh have "om_erase k m = m" by (simp add: om_erase_def filter_id_conv)
    with True Cons.prems e show ?thesis by (auto simp: om_count_def om_erase_def om_find_Cons)
  next
    case False
    with Cons.IH [OF ok] Cons.prems(2) e show ?thesis
      by (auto simp: om_count_def om_erase_def om_find_Cons)
  qed
qed simp

interpretation omap: counted_store om_find om_set om_erase om_count om_ok
proof
  fix m :: "('a::linorder, 'b) omap" and k v P
  show "om_ok m \<Longrightarrow> (om_count P m = 0) = (\<forall>k v. om_find k m = Some v \<longrightarrow> \<not> P v)"
    by (auto simp: om_count_def filter_empty_conv om_find_iff)
qed (simp_all add: om_count_set om_count_erase)

lemma om_count_True: "om_count (\<lambda>_. True) m = length m"
  by (simp add: om_count_def)

lemma om_erase_length: "om_ok m \<Longrightarrow> om_find k m = Some v \<Longrightarrow> length m = Suc (length (om_erase k m))"
  using om_count_erase [of m k v "\<lambda>_. True"] by (simp add: om_count_True)

end
