(* ===== verification/Feedback.thy ===== *)
theory Feedback
  imports Events Ordered_Map
begin

text \<open>
  Measurement feedback (\<^verbatim>\<open>include/qsbit/feedback.hpp\<close>, \<^verbatim>\<open>src/feedback.cpp\<close>): the
  measurement result registers that \<open>fmr\<close> reads on the CPU side, with the reservations of
  measurements that are under way, and the execution flags that condition events in the timing
  control unit. The bounds check of \<^verbatim>\<open>registers_.at\<close> throws a standard exception, which
  the simulator reports with the code \<open>Protocol\<close>.
\<close>

section \<open>Measurement registers\<close>

record FeedbackConfig =
  fc_qubits :: u32
  fc_result_capacity :: u32
  fc_fast_feedback :: bool

record Register =
  reg_pending :: u32
  reg_value :: bool

record MeasurementRegisters =
  fb_config :: FeedbackConfig
  registers :: "Register list"
  fb_pending :: "(Id, MeasurementReference) omap"
  fast_pending :: "(Id, MeasurementReference) omap"
  next_measurement :: Id

definition empty_register :: Register where
  "empty_register = \<lparr>reg_pending = 0, reg_value = False\<rparr>"

definition measurement_registers :: "FeedbackConfig \<Rightarrow> MeasurementRegisters" where
  "measurement_registers c =
     \<lparr>fb_config = c, registers = replicate (unat (fc_qubits c)) empty_register,
      fb_pending = [], fast_pending = [], next_measurement = 1\<rparr>"

definition has_capacity :: "nat \<Rightarrow> MeasurementRegisters \<Rightarrow> bool" where
  "has_capacity n m \<longleftrightarrow>
     n \<le> sub64 (unat (fc_result_capacity (fb_config m))) (length (fb_pending m)) \<and>
     (\<not> fc_fast_feedback (fb_config m) \<or>
      n \<le> sub64 (unat (fc_result_capacity (fb_config m))) (length (fast_pending m)))"

definition prepare_one ::
  "MeasurementRegisters \<Rightarrow> Epoch \<Rightarrow> u32 list \<Rightarrow> u32 \<Rightarrow> MeasurementReference list \<Rightarrow>
   MeasurementReference list result" where
  "prepare_one m epoch ts target refs =
     require (unat target < length (registers m)) InvalidOperand (
     require (count_list ts target \<le> unat (4294967295 - reg_pending (registers m ! unat target)))
       TimeOverflow (
     bindE (checked_add (next_measurement m) (length refs)) (\<lambda>i.
     Inr (refs @ [\<lparr>ref_epoch = epoch, measurement = i, ref_target = target\<rparr>]))))"

definition prepare_reservation ::
  "Epoch \<Rightarrow> u32 list \<Rightarrow> MeasurementRegisters \<Rightarrow> MeasurementReference list result" where
  "prepare_reservation epoch ts m =
     require (has_capacity (length ts) m) Capacity (
     bindE (checked_add (next_measurement m) (length ts)) (\<lambda>_.
     foldE (prepare_one m epoch ts) ts []))"

definition count_up :: "u32 \<Rightarrow> Register list \<Rightarrow> Register list" where
  "count_up t rs = rs[unat t := (rs ! unat t)\<lparr>reg_pending := reg_pending (rs ! unat t) + 1\<rparr>]"

definition commit_reservation ::
  "MeasurementReference list \<Rightarrow> MeasurementRegisters \<Rightarrow> MeasurementRegisters result" where
  "commit_reservation refs m =
     (if refs = [] then Inr m
      else
        bindE (prepare_reservation (ref_epoch (hd refs)) (map ref_target refs) m) (\<lambda>expected.
        require (expected = refs) Protocol (
        bindE (checked_add (next_measurement m) (length refs)) (\<lambda>n.
        Inr (m\<lparr>fb_pending := fold (\<lambda>r. om_emplace (measurement r) r) refs (fb_pending m),
               fast_pending := (if fc_fast_feedback (fb_config m)
                 then fold (\<lambda>r. om_emplace (measurement r) r) refs (fast_pending m)
                 else fast_pending m),
               registers := fold count_up (map ref_target refs) (registers m),
               next_measurement := n\<rparr>)))))"

definition deliver :: "Completion \<Rightarrow> Epoch \<Rightarrow> MeasurementRegisters \<Rightarrow> MeasurementRegisters result" where
  "deliver c epoch m =
     (if ref_epoch (reference c) \<noteq> epoch then Inr m
      else case om_find (measurement (reference c)) (fb_pending m) of
        None \<Rightarrow> Inl DuplicateResult
      | Some r \<Rightarrow>
          require (r = reference c) InvalidMeasurement (
          require (\<not> list_ex (\<lambda>(k, r'). k < measurement r \<and> ref_target r' = ref_target r) (fb_pending m))
            Protocol (
          let t = unat (ref_target r); reg = registers m ! t in
          require (t < length (registers m)) Protocol (
          Inr (m\<lparr>registers := (registers m)[t :=
                   \<lparr>reg_pending = reg_pending reg - 1, reg_value = outcome c\<rparr>],
                 fb_pending := om_erase (measurement r) (fb_pending m)\<rparr>)))))"

definition acknowledge_fast ::
  "MeasurementReference \<Rightarrow> Epoch \<Rightarrow> MeasurementRegisters \<Rightarrow> MeasurementRegisters result" where
  "acknowledge_fast r epoch m =
     (if ref_epoch r \<noteq> epoch then Inr m
      else require (om_find (measurement r) (fast_pending m) = Some r) InvalidMeasurement (
           Inr (m\<lparr>fast_pending := om_erase (measurement r) (fast_pending m)\<rparr>)))"

definition read_register :: "u32 \<Rightarrow> MeasurementRegisters \<Rightarrow> bool option result" where
  "read_register target m =
     require (unat target < length (registers m)) InvalidOperand (
     let reg = registers m ! unat target in
     Inr (if reg_pending reg \<noteq> 0 then None else Some (reg_value reg)))"

definition deliveries_pending :: "MeasurementRegisters \<Rightarrow> bool" where
  "deliveries_pending m \<longleftrightarrow> fb_pending m \<noteq> [] \<or> fast_pending m \<noteq> []"

definition fb_reset :: "MeasurementRegisters \<Rightarrow> MeasurementRegisters" where
  "fb_reset m = m\<lparr>registers := replicate (length (registers m)) empty_register,
     fb_pending := [], fast_pending := [], next_measurement := 1\<rparr>"

section \<open>Execution flags\<close>

record FlagRegister =
  last_measurement :: Id
  last_one :: bool
  last_zero :: bool
  equal_flag :: bool

type_synonym ExecutionFlags = "FlagRegister list"

definition empty_flags :: FlagRegister where
  "empty_flags = \<lparr>last_measurement = 0, last_one = False, last_zero = False, equal_flag = False\<rparr>"

definition execution_flags :: "u32 \<Rightarrow> ExecutionFlags" where
  "execution_flags n = replicate (unat n) empty_flags"

definition evaluate_flag :: "u32 \<Rightarrow> ExecutionFlag \<Rightarrow> ExecutionFlags \<Rightarrow> bool result" where
  "evaluate_flag target f fs =
     require (unat target < length fs) InvalidOperand (
     let reg = fs ! unat target in
     Inr (case f of Always \<Rightarrow> True | LastOne \<Rightarrow> last_one reg | LastZero \<Rightarrow> last_zero reg
        | Equal \<Rightarrow> equal_flag reg))"

definition commit_flags :: "Completion \<Rightarrow> Epoch \<Rightarrow> ExecutionFlags \<Rightarrow> ExecutionFlags result" where
  "commit_flags c epoch fs =
     (if ref_epoch (reference c) \<noteq> epoch then Inr fs
      else
        require (unat (ref_target (reference c)) < length fs) InvalidMeasurement (
        let t = unat (ref_target (reference c)); reg = fs ! t in
        require (last_measurement reg < measurement (reference c)) Protocol (
        Inr (fs[t := \<lparr>last_measurement = measurement (reference c),
                      last_one = outcome c, last_zero = (\<not> outcome c),
                      equal_flag = (last_measurement reg \<noteq> 0 \<and> last_one reg = outcome c)\<rparr>]))))"

definition reset_flags :: "ExecutionFlags \<Rightarrow> ExecutionFlags" where
  "reset_flags fs = replicate (length fs) empty_flags"

section \<open>What a reservation returns\<close>

definition reservation :: "Epoch \<Rightarrow> Id \<Rightarrow> u32 list \<Rightarrow> MeasurementReference list" where
  "reservation epoch n ts =
     map (\<lambda>i. \<lparr>ref_epoch = epoch, measurement = n + i, ref_target = ts ! i\<rparr>) [0..<length ts]"

lemma reservation_targets [simp]: "map ref_target (reservation ep n ts) = ts"
  by (simp add: reservation_def o_def map_nth)

lemma reservation_ids [simp]: "map measurement (reservation ep n ts) = [n..<n + length ts]"
  by (rule nth_equalityI) (simp_all add: reservation_def)

lemma reservation_length [simp]: "length (reservation ep n ts) = length ts"
  by (simp add: reservation_def)

lemma reservation_epoch: "r \<in> set (reservation ep n ts) \<Longrightarrow> ref_epoch r = ep"
  by (auto simp: reservation_def)

lemma prepare_one_Inr:
  assumes "prepare_one m ep ts0 t acc = Inr acc'"
  shows "unat t < length (registers m)"
    and "count_list ts0 t \<le> unat (4294967295 - reg_pending (registers m ! unat t))"
    and "acc' = acc @ [\<lparr>ref_epoch = ep, measurement = next_measurement m + length acc, ref_target = t\<rparr>]"
proof -
  from assms obtain i where "unat t < length (registers m)"
    "count_list ts0 t \<le> unat (4294967295 - reg_pending (registers m ! unat t))"
    "checked_add (next_measurement m) (length acc) = Inr i"
    "acc' = acc @ [\<lparr>ref_epoch = ep, measurement = i, ref_target = t\<rparr>]"
    unfolding prepare_one_def require_eq_Inr bindE_eq_Inr by fast
  with checked_add_sum [OF this(3)] show "unat t < length (registers m)"
    and "count_list ts0 t \<le> unat (4294967295 - reg_pending (registers m ! unat t))"
    and "acc' = acc @ [\<lparr>ref_epoch = ep, measurement = next_measurement m + length acc, ref_target = t\<rparr>]"
    by simp_all
qed

lemma prepare_fold:
  "foldE (prepare_one m ep ts0) ts acc = Inr refs \<Longrightarrow>
   refs = acc @ map (\<lambda>i. \<lparr>ref_epoch = ep, measurement = next_measurement m + length acc + i,
      ref_target = ts ! i\<rparr>) [0..<length ts] \<and>
   (\<forall>t\<in>set ts. unat t < length (registers m) \<and>
      count_list ts0 t \<le> unat (4294967295 - reg_pending (registers m ! unat t)))"
proof (induction ts arbitrary: acc)
  case (Cons t ts)
  then obtain acc' where a: "prepare_one m ep ts0 t acc = Inr acc'"
    and f: "foldE (prepare_one m ep ts0) ts acc' = Inr refs" by auto
  note one = prepare_one_Inr [OF a]
  from Cons.IH [OF f] one(1,2) show ?case
    by (simp add: one(3) map_upt_Suc o_def del: upt_Suc)
qed simp

lemma prepare_result:
  assumes "prepare_reservation ep ts m = Inr refs"
  shows "refs = reservation ep (next_measurement m) ts"
    and "has_capacity (length ts) m"
    and "t \<in> set ts \<Longrightarrow> unat t < length (registers m) \<and>
      count_list ts t \<le> unat (4294967295 - reg_pending (registers m ! unat t))"
    and "\<exists>n. checked_add (next_measurement m) (length ts) = Inr n"
  using assms prepare_fold [of m ep ts ts "[]" refs]
  by (auto simp: prepare_reservation_def reservation_def)

text \<open>
  A prepared reservation commits: \<open>commit_reservation\<close> prepares the same targets again and
  finds the same references.
\<close>

lemma commit_prepared:
  assumes "prepare_reservation ep ts m = Inr refs"
  shows "\<exists>m'. commit_reservation refs m = Inr m'"
proof (cases "refs = []")
  case False
  have r: "refs = reservation ep (next_measurement m) ts" by (rule prepare_result(1) [OF assms])
  have "hd refs \<in> set refs" using False by simp
  then have "ref_epoch (hd refs) = ep" unfolding r by (rule reservation_epoch)
  with assms r have "prepare_reservation (ref_epoch (hd refs)) (map ref_target refs) m = Inr refs"
    by simp
  moreover from prepare_result(4) [OF assms] r obtain n
    where "checked_add (next_measurement m) (length refs) = Inr n" by auto
  ultimately show ?thesis using False by (simp add: commit_reservation_def)
qed (simp add: commit_reservation_def)

section \<open>Invariant\<close>

definition entries_wf :: "MeasurementRegisters \<Rightarrow> (Id, MeasurementReference) omap \<Rightarrow> bool" where
  "entries_wf m p \<longleftrightarrow> om_ok p \<and> length p \<le> unat (fc_result_capacity (fb_config m)) \<and>
     (\<forall>k r. om_find k p = Some r \<longrightarrow>
        measurement r = k \<and> k < next_measurement m \<and> unat (ref_target r) < length (registers m))"

definition fb_wf :: "MeasurementRegisters \<Rightarrow> bool" where
  "fb_wf m \<longleftrightarrow> entries_wf m (fb_pending m) \<and> entries_wf m (fast_pending m) \<and>
     length (registers m) = unat (fc_qubits (fb_config m)) \<and>
     (\<forall>t < length (registers m). unat (reg_pending (registers m ! t)) =
        om_count (\<lambda>r. unat (ref_target r) = t) (fb_pending m))"

lemma measurement_registers_wf [inv_intros]: "fb_wf (measurement_registers c)"
  by (simp add: fb_wf_def entries_wf_def measurement_registers_def empty_register_def om_count_def)

lemma fb_reset_wf [inv_intros]: "fb_wf m \<Longrightarrow> fb_wf (fb_reset m)"
  by (simp add: fb_wf_def entries_wf_def fb_reset_def empty_register_def om_count_def)

lemma fold_emplace_fresh:
  assumes "distinct (map measurement refs)" and "\<forall>r\<in>set refs. om_find (measurement r) p = None"
  shows "fold (\<lambda>r. om_emplace (measurement r) r) refs p =
    fold (\<lambda>(k, v). om_set k v) (map (\<lambda>r. (measurement r, r)) refs) p"
  using assms
proof (induction refs arbitrary: p)
  case (Cons r refs)
  then have d: "\<forall>x\<in>set refs. om_find (measurement x) (om_set (measurement r) r p) = None"
    by (auto simp: image_iff)
  have "fold (\<lambda>r. om_emplace (measurement r) r) (r # refs) p =
      fold (\<lambda>r. om_emplace (measurement r) r) refs (om_set (measurement r) r p)"
    using Cons.prems by (simp add: om_emplace_def)
  with Cons.IH [OF _ d] Cons.prems show ?case by simp
qed simp

lemma fold_count_up:
  "(\<forall>t\<in>set ts. unat t < length rs) \<Longrightarrow> j < length rs \<Longrightarrow>
   fold count_up ts rs ! j = (rs ! j)\<lparr>reg_pending := reg_pending (rs ! j) +
      of_nat (length (filter (\<lambda>t. unat t = j) ts))\<rparr>"
  by (induction ts arbitrary: rs) (auto simp: count_up_def nth_list_update)

lemma fold_count_up_length [simp]: "length (fold count_up ts rs) = length rs"
  by (induction ts arbitrary: rs) (auto simp: count_up_def)

lemma count_list_unat: "count_list ts t = length (filter (\<lambda>x. unat x = unat t) ts)" for t :: u32
  by (induction ts) (auto simp: word_unat_eq_iff)

lemma unat_add_bounded: "n \<le> unat (4294967295 - a) \<Longrightarrow> unat (a + of_nat n) = unat a + n" for a :: u32
proof -
  assume n: "n \<le> unat (4294967295 - a)"
  have a: "unat a \<le> 4294967295" using unsigned_less [where 'b = 32 and 'a = nat and w = a] by simp
  then have "unat (4294967295 - a) = 4294967295 - unat a"
    by (subst unat_sub) (simp_all add: word_le_nat_alt)
  with n a have "unat a + n < 2 ^ LENGTH(32)" by simp
  moreover have "a + of_nat n = (of_nat (unat a + n) :: u32)" by simp
  ultimately show ?thesis by (simp only: unat_of_nat mod_less)
qed

lemma has_capacity_room:
  assumes "fb_wf m" and "has_capacity n m"
  shows "length (fb_pending m) + n \<le> unat (fc_result_capacity (fb_config m))"
    and "fc_fast_feedback (fb_config m) \<Longrightarrow>
      length (fast_pending m) + n \<le> unat (fc_result_capacity (fb_config m))"
proof -
  have "unat (fc_result_capacity (fb_config m)) \<le> tick_max"
    using unsigned_less [where 'b = 32 and 'a = nat and w = "fc_result_capacity (fb_config m)"]
    by (simp add: tick_max_def)
  with assms show "length (fb_pending m) + n \<le> unat (fc_result_capacity (fb_config m))"
    and "fc_fast_feedback (fb_config m) \<Longrightarrow>
      length (fast_pending m) + n \<le> unat (fc_result_capacity (fb_config m))"
    by (auto simp: has_capacity_def fb_wf_def entries_wf_def)
qed

lemma entries_wf_commit:
  assumes "entries_wf m p" and "refs = reservation ep (next_measurement m) ts"
    and "\<forall>t\<in>set ts. unat t < length (registers m)"
    and "length p + length ts \<le> unat (fc_result_capacity (fb_config m))"
    and m': "fb_config m' = fb_config m" "length (registers m') = length (registers m)"
      "next_measurement m' = next_measurement m + length ts"
    and p': "p' = fold (\<lambda>r. om_emplace (measurement r) r) refs p"
  shows "entries_wf m' p'"
    and "om_count P p' = om_count P p + length (filter P refs)"
proof -
  let ?kvs = "map (\<lambda>r. (measurement r, r)) refs"
  have ok: "om_ok p" using assms(1) by (simp add: entries_wf_def)
  have d: "distinct (map measurement refs)" and ge: "\<forall>r\<in>set refs. next_measurement m \<le> measurement r"
    and lt: "\<forall>r\<in>set refs. measurement r < next_measurement m + length ts"
    and tg: "\<forall>r\<in>set refs. unat (ref_target r) < length (registers m)"
    using assms(3) by (simp_all add: assms(2)) (auto simp: reservation_def)
  have fresh: "\<forall>r\<in>set refs. om_find (measurement r) p = None"
    using assms(1) ge unfolding entries_wf_def by (metis leD option.exhaust)
  have eq: "p' = fold (\<lambda>(k, v). om_set k v) ?kvs p"
    unfolding p' by (rule fold_emplace_fresh [OF d fresh])
  have cnt: "om_count Q p' = om_count Q p + length (filter Q refs)" for Q
    using omap.puts_count [OF ok, of ?kvs Q] d fresh unfolding eq
    by (simp add: o_def filter_map)
  then show "om_count P p' = om_count P p + length (filter P refs)" .
  have len: "length p' = length p + length ts"
    using cnt [of "\<lambda>_. True"] by (simp add: om_count_True assms(2))
  have mem: "v \<in> set refs \<and> k = measurement v \<or> om_find k p = Some v" if "om_find k p' = Some v" for k v
    using that omap.puts_find [OF ok, of k ?kvs] unfolding eq
    by (auto split: option.splits dest!: map_of_SomeD)
  have new: "measurement v = k \<and> k < next_measurement m' \<and> unat (ref_target v) < length (registers m')"
    if "om_find k p' = Some v" for k v
    using mem [OF that] assms(1) lt tg unfolding entries_wf_def m' by fastforce
  have "om_ok p'" unfolding eq by (rule omap.puts_ok [OF ok])
  then show "entries_wf m' p'" unfolding entries_wf_def using new len assms(4) m'(1) by simp
qed

lemma commit_cases:
  assumes "commit_reservation refs m = Inr m'" and "refs \<noteq> []"
  obtains ep where "prepare_reservation ep (map ref_target refs) m = Inr refs"
    and "m' = m\<lparr>fb_pending := fold (\<lambda>r. om_emplace (measurement r) r) refs (fb_pending m),
      fast_pending := (if fc_fast_feedback (fb_config m)
        then fold (\<lambda>r. om_emplace (measurement r) r) refs (fast_pending m) else fast_pending m),
      registers := fold count_up (map ref_target refs) (registers m),
      next_measurement := next_measurement m + length refs\<rparr>"
  using assms by (auto simp: commit_reservation_def dest!: checked_add_sum)

lemma entries_wf_mono:
  "entries_wf m p \<Longrightarrow> fb_config m' = fb_config m \<Longrightarrow> length (registers m') = length (registers m) \<Longrightarrow>
   next_measurement m \<le> next_measurement m' \<Longrightarrow> entries_wf m' p"
  by (fastforce simp: entries_wf_def)

lemma entries_wf_erase:
  assumes "entries_wf m p" and "om_find k p = Some r"
  shows "entries_wf m (om_erase k p)"
proof -
  have "om_ok p" using assms(1) by (simp add: entries_wf_def)
  from om_erase_length [OF this assms(2)] assms(1) show ?thesis
    by (auto simp: entries_wf_def split: if_splits)
qed

lemma entries_wf_keys: "entries_wf m p \<Longrightarrow> k \<in> fst ` set p \<Longrightarrow> k < next_measurement m"
  by (auto simp: entries_wf_def simp flip: om_find_iff)

lemma commit_reservation_wf [inv_intros]:
  assumes "fb_wf m" and "commit_reservation refs m = Inr m'"
  shows "fb_wf m'"
proof (cases "refs = []")
  case True
  with assms show ?thesis by (simp add: commit_reservation_def)
next
  case False
  from commit_cases [OF assms(2) False] obtain ep where
    pr: "prepare_reservation ep (map ref_target refs) m = Inr refs"
    and m': "m' = m\<lparr>fb_pending := fold (\<lambda>r. om_emplace (measurement r) r) refs (fb_pending m),
      fast_pending := (if fc_fast_feedback (fb_config m)
        then fold (\<lambda>r. om_emplace (measurement r) r) refs (fast_pending m) else fast_pending m),
      registers := fold count_up (map ref_target refs) (registers m),
      next_measurement := next_measurement m + length refs\<rparr>" .
  let ?ts = "map ref_target refs"
  note r = prepare_result(1) [OF pr] and tg = prepare_result(3) [OF pr]
  note room = has_capacity_room [OF assms(1) prepare_result(2) [OF pr]]
  have wf: "entries_wf m (fb_pending m)" "entries_wf m (fast_pending m)"
    using assms(1) by (simp_all add: fb_wf_def)
  have tgs: "\<forall>t\<in>set ?ts. unat t < length (registers m)" using tg by blast
  have f: "fb_config m' = fb_config m" "length (registers m') = length (registers m)"
    "next_measurement m' = next_measurement m + length ?ts" by (simp_all add: m')
  have 1: "entries_wf m' (fb_pending m')"
    "\<And>P. om_count P (fb_pending m') = om_count P (fb_pending m) + length (filter P refs)"
    using entries_wf_commit [OF wf(1) r tgs room(1) f, of "fb_pending m'"] by (simp_all add: m')
  have 2: "entries_wf m' (fast_pending m')"
  proof (cases "fc_fast_feedback (fb_config m)")
    case True
    then show ?thesis
      using entries_wf_commit [OF wf(2) r tgs room(2) f, of "fast_pending m'"] by (simp add: m')
  next
    case False
    then show ?thesis using entries_wf_mono [OF wf(2) f(1,2)] by (simp add: m')
  qed
  have "unat (reg_pending (registers m' ! t)) =
      om_count (\<lambda>r. unat (ref_target r) = t) (fb_pending m')" if t: "t < length (registers m)" for t
  proof -
    let ?n = "length (filter (\<lambda>x. unat x = t) ?ts)"
    have old: "unat (reg_pending (registers m ! t)) = om_count (\<lambda>r. unat (ref_target r) = t) (fb_pending m)"
      using assms(1) t by (simp add: fb_wf_def)
    have "?n \<le> unat (4294967295 - reg_pending (registers m ! t))"
    proof (cases "filter (\<lambda>x. unat x = t) ?ts")
      case (Cons x xs)
      then have "x \<in> set (filter (\<lambda>x. unat x = t) ?ts)" by simp
      then have x: "x \<in> set ?ts" "unat x = t" by (simp_all only: set_filter mem_Collect_eq)
      with tg [OF x(1)] show ?thesis by (simp add: count_list_unat)
    qed simp
    then have "unat (reg_pending (registers m ! t) + of_nat ?n) = unat (reg_pending (registers m ! t)) + ?n"
      by (rule unat_add_bounded)
    with fold_count_up [OF tgs t] old show ?thesis
      by (simp only: 1(2)) (simp add: m' filter_map o_def)
  qed
  with 1 2 assms(1) show ?thesis by (simp add: fb_wf_def f)
qed

lemma deliver_cases:
  assumes "deliver c epoch m = Inr m'" and "ref_epoch (reference c) = epoch"
  shows "om_find (measurement (reference c)) (fb_pending m) = Some (reference c)"
    and "\<forall>(k, r)\<in>set (fb_pending m). k < measurement (reference c) \<longrightarrow>
      ref_target r \<noteq> ref_target (reference c)"
    and "unat (ref_target (reference c)) < length (registers m)"
    and "m' = m\<lparr>registers := (registers m)[unat (ref_target (reference c)) :=
        \<lparr>reg_pending = reg_pending (registers m ! unat (ref_target (reference c))) - 1,
         reg_value = outcome c\<rparr>],
      fb_pending := om_erase (measurement (reference c)) (fb_pending m)\<rparr>"
  using assms by (auto simp: deliver_def Let_def list_ex_iff split: option.splits)

lemma deliver_stale: "ref_epoch (reference c) \<noteq> epoch \<Longrightarrow> deliver c epoch m = Inr m"
  by (simp add: deliver_def)

lemma deliver_wf [inv_intros]:
  assumes "fb_wf m" and "deliver c epoch m = Inr m'"
  shows "fb_wf m'"
proof (cases "ref_epoch (reference c) = epoch")
  case False
  with assms show ?thesis by (simp add: deliver_stale)
next
  case True
  let ?r = "reference c" and ?p = "fb_pending m"
  note d = deliver_cases [OF assms(2) True]
  have wf: "entries_wf m ?p" and ok: "om_ok ?p"
    and cnt: "\<And>t. t < length (registers m) \<Longrightarrow>
      unat (reg_pending (registers m ! t)) = om_count (\<lambda>r. unat (ref_target r) = t) ?p"
    using assms(1) by (auto simp: fb_wf_def entries_wf_def)
  have 1: "entries_wf m' (om_erase (measurement ?r) ?p)"
    by (rule entries_wf_mono [OF entries_wf_erase [OF wf d(1)]]) (simp_all add: d(4))
  have 2: "entries_wf m' (fast_pending m)"
    using assms(1) by (auto simp: fb_wf_def d(4) elim: entries_wf_mono)
  have "unat (reg_pending (registers m' ! t)) =
      om_count (\<lambda>r. unat (ref_target r) = t) (om_erase (measurement ?r) ?p)"
    if t: "t < length (registers m)" for t
  proof (cases "t = unat (ref_target ?r)")
    case True
    have c: "om_count (\<lambda>r. unat (ref_target r) = t) ?p =
        om_count (\<lambda>r. unat (ref_target r) = t) (om_erase (measurement ?r) ?p) + 1"
      using omap.count_erase [OF ok d(1), of "\<lambda>r. unat (ref_target r) = t"] True by simp
    with cnt [OF t] have "0 < unat (reg_pending (registers m ! t))" by simp
    then have "unat (reg_pending (registers m ! t) - 1) = unat (reg_pending (registers m ! t)) - 1"
      by (subst unat_sub) (simp_all add: word_le_nat_alt)
    with c cnt [OF t] True d(3) show ?thesis by (simp add: d(4))
  next
    case False
    with cnt [OF t] omap.count_erase [OF ok d(1), of "\<lambda>r. unat (ref_target r) = t"] show ?thesis
      by (simp add: d(4))
  qed
  with 1 2 assms(1) show ?thesis by (simp add: fb_wf_def d(4))
qed

lemma acknowledge_fast_wf [inv_intros]:
  assumes "fb_wf m" and "acknowledge_fast r epoch m = Inr m'"
  shows "fb_wf m'"
proof (cases "ref_epoch r = epoch")
  case False
  with assms show ?thesis by (simp add: acknowledge_fast_def)
next
  case True
  have wf: "entries_wf m (fast_pending m)" using assms(1) by (simp add: fb_wf_def)
  from True assms(2) have f: "om_find (measurement r) (fast_pending m) = Some r"
    and m': "m' = m\<lparr>fast_pending := om_erase (measurement r) (fast_pending m)\<rparr>"
    by (simp_all add: acknowledge_fast_def)
  have "entries_wf m (om_erase (measurement r) (fast_pending m))" by (rule entries_wf_erase [OF wf f])
  then have "entries_wf m' (om_erase (measurement r) (fast_pending m))"
    by (rule entries_wf_mono) (simp_all add: m')
  moreover have "entries_wf m' (fb_pending m')"
    using assms(1) by (auto simp: fb_wf_def m' elim: entries_wf_mono)
  ultimately show ?thesis using assms(1) unfolding fb_wf_def by (simp add: m')
qed

section \<open>The history of a session\<close>

text \<open>
  A session of one epoch is a sequence of calls: \<open>Reserve\<close> is what a codeword does for its
  acquisitions, \<open>Deliver\<close> hands over a result, \<open>AckFast\<close> returns a credit. \<open>fb_run\<close> runs the
  calls and records the references that were reserved and the completions that were accepted.
\<close>

datatype fb_op = Reserve "u32 list" | Deliver Completion | AckFast MeasurementReference

type_synonym fb_log = "MeasurementReference list \<times> Completion list"

fun fb_exec :: "Epoch \<Rightarrow> fb_op \<Rightarrow> MeasurementRegisters \<times> fb_log \<Rightarrow> (MeasurementRegisters \<times> fb_log) result" where
  "fb_exec epoch (Reserve ts) (m, reserved, delivered) =
     bindE (prepare_reservation epoch ts m) (\<lambda>refs.
     bindE (commit_reservation refs m) (\<lambda>m'. Inr (m', reserved @ refs, delivered)))"
| "fb_exec epoch (Deliver c) (m, reserved, delivered) =
     bindE (deliver c epoch m) (\<lambda>m'.
     Inr (m', reserved, (if ref_epoch (reference c) = epoch then delivered @ [c] else delivered)))"
| "fb_exec epoch (AckFast r) (m, reserved, delivered) =
     bindE (acknowledge_fast r epoch m) (\<lambda>m'. Inr (m', reserved, delivered))"

definition fb_run :: "Epoch \<Rightarrow> fb_op list \<Rightarrow> MeasurementRegisters \<Rightarrow> (MeasurementRegisters \<times> fb_log) result" where
  "fb_run epoch ops m = foldE (fb_exec epoch) ops (m, [], [])"

definition of_target :: "u32 \<Rightarrow> MeasurementReference \<Rightarrow> bool" where
  "of_target t r \<longleftrightarrow> ref_target r = t"

definition latest :: "Completion list \<Rightarrow> bool" where
  "latest cs \<longleftrightarrow> cs \<noteq> [] \<and> outcome (last cs)"

definition fb_history :: "MeasurementRegisters \<times> fb_log \<Rightarrow> bool" where
  "fb_history = (\<lambda>(m, reserved, delivered). fb_wf m \<and>
     (\<forall>t. filter (of_target t) reserved =
        map reference (filter (\<lambda>c. of_target t (reference c)) delivered) @
        filter (of_target t) (map snd (fb_pending m))) \<and>
     (\<forall>t. unat t < length (registers m) \<longrightarrow> reg_value (registers m ! unat t) =
        latest (filter (\<lambda>c. of_target t (reference c)) delivered)))"

lemma om_set_snoc:
  "(\<forall>k'\<in>fst ` set m. k' < k) \<Longrightarrow> om_set k v m = m @ [(k, v)]"
  by (induction k v m rule: om_set.induct) auto

lemma fold_emplace_snoc:
  assumes "\<forall>k\<in>fst ` set p. k < n"
  shows "fold (\<lambda>r. om_emplace (measurement r) r) (reservation ep n ts) p =
    p @ map (\<lambda>r. (measurement r, r)) (reservation ep n ts)"
  using assms
proof (induction ts arbitrary: n p)
  case Nil
  then show ?case by (simp add: reservation_def)
next
  case (Cons t ts)
  let ?r = "\<lparr>ref_epoch = ep, measurement = n, ref_target = t\<rparr>"
  have eq: "reservation ep n (t # ts) = ?r # reservation ep (Suc n) ts"
    by (simp add: reservation_def map_upt_Suc o_def del: upt_Suc)
  have "n \<notin> fst ` set p" using Cons.prems by blast
  then have "om_emplace n ?r p = p @ [(n, ?r)]"
    using om_set_snoc [OF Cons.prems, of ?r] by (simp add: om_emplace_def om_find_None)
  moreover have "\<forall>k\<in>fst ` set (p @ [(n, ?r)]). k < Suc n" using Cons.prems by (auto simp: less_Suc_eq)
  ultimately show ?case using Cons.IH [of "p @ [(n, ?r)]" "Suc n"] by (simp add: eq)
qed

lemma history_reserve:
  assumes h: "fb_history (m, reserved, delivered)" and p: "prepare_reservation ep ts m = Inr refs"
    and c: "commit_reservation refs m = Inr m'"
  shows "fb_history (m', reserved @ refs, delivered)"
proof (cases "refs = []")
  case True
  with c h show ?thesis by (simp add: commit_reservation_def)
next
  case False
  have wf: "fb_wf m" "fb_wf m'" using h commit_reservation_wf [OF _ c] by (auto simp: fb_history_def)
  from commit_cases [OF c False] obtain ep' where
    pr: "prepare_reservation ep' (map ref_target refs) m = Inr refs"
    and eq: "m' = m\<lparr>fb_pending := fold (\<lambda>r. om_emplace (measurement r) r) refs (fb_pending m),
      fast_pending := (if fc_fast_feedback (fb_config m)
        then fold (\<lambda>r. om_emplace (measurement r) r) refs (fast_pending m) else fast_pending m),
      registers := fold count_up (map ref_target refs) (registers m),
      next_measurement := next_measurement m + length refs\<rparr>" .
  have m': "fb_pending m' = fold (\<lambda>r. om_emplace (measurement r) r) refs (fb_pending m)"
    "registers m' = fold count_up (map ref_target refs) (registers m)" by (simp_all add: eq)
  have "\<forall>k\<in>fst ` set (fb_pending m). k < next_measurement m"
    using entries_wf_keys wf(1) unfolding fb_wf_def by blast
  then have pend: "fb_pending m' = fb_pending m @ map (\<lambda>r. (measurement r, r)) refs"
    unfolding m'(1) prepare_result(1) [OF p] by (rule fold_emplace_snoc)
  have "\<forall>t\<in>set (map ref_target refs). unat t < length (registers m)"
    using prepare_result(3) [OF pr] by blast
  then have "reg_value (registers m' ! j) = reg_value (registers m ! j)" if "j < length (registers m)" for j
    using fold_count_up [of "map ref_target refs" "registers m" j] that m'(2) by simp
  with h wf(2) show ?thesis by (auto simp: fb_history_def pend o_def m'(2))
qed

lemma first_of_target:
  assumes "om_ok p" and "om_find (measurement r) p = Some r"
    and "\<forall>(k, r')\<in>set p. k < measurement r \<longrightarrow> ref_target r' \<noteq> ref_target r"
  shows "filter (of_target t) (map snd p) = (if of_target t r then [r] else []) @
    filter (of_target t) (map snd (om_erase (measurement r) p))"
  using assms
proof (induction p)
  case (Cons e p)
  obtain a b where e: "e = (a, b)" by (cases e)
  have ok: "om_ok p" and fresh: "\<forall>x\<in>set p. a < fst x"
    using Cons.prems(1) by (auto simp: om_ok_def e)
  show ?case
  proof (cases "a = measurement r")
    case True
    with fresh have "om_erase (measurement r) p = p"
      by (auto simp: om_erase_def filter_id_conv)
    with True Cons.prems(2) e show ?thesis by (simp add: om_find_Cons om_erase_def)
  next
    case False
    with Cons.prems(2) e have f: "om_find (measurement r) p = Some r" by (simp add: om_find_Cons)
    with ok have "(measurement r, r) \<in> set p" by (simp add: om_find_iff)
    with fresh have "a < measurement r" by fastforce
    with Cons.prems(3) e have "ref_target b \<noteq> ref_target r" by simp
    with Cons.IH [OF ok f] Cons.prems(3) e False show ?thesis
      by (auto simp: om_erase_def of_target_def)
  qed
qed simp

lemma history_deliver:
  assumes h: "fb_history (m, reserved, delivered)" and c: "deliver c ep m = Inr m'"
    and e: "ref_epoch (reference c) = ep"
  shows "fb_history (m', reserved, delivered @ [c])"
proof -
  let ?r = "reference c"
  note d = deliver_cases [OF c e]
  have wf: "fb_wf m" using h by (simp add: fb_history_def)
  then have ok: "om_ok (fb_pending m)" by (simp add: fb_wf_def entries_wf_def)
  note first = first_of_target [OF ok d(1,2)]
  have "fb_wf m'" by (rule deliver_wf [OF wf c])
  moreover have "filter (of_target t) reserved =
      map reference (filter (\<lambda>c. of_target t (reference c)) (delivered @ [c])) @
      filter (of_target t) (map snd (fb_pending m'))" for t
    using h first [of t] by (simp add: fb_history_def d(4))
  moreover have "reg_value (registers m' ! unat t) =
      latest (filter (\<lambda>c. of_target t (reference c)) (delivered @ [c]))" if "unat t < length (registers m')" for t
  proof (cases "of_target t ?r")
    case True
    with d(3) show ?thesis by (simp add: d(4) of_target_def latest_def)
  next
    case False
    then have "unat t \<noteq> unat (ref_target ?r)" by (simp add: of_target_def word_unat_eq_iff)
    with False h that show ?thesis by (simp add: fb_history_def d(4))
  qed
  ultimately show ?thesis by (simp add: fb_history_def)
qed

lemma history_exec:
  "fb_history s \<Longrightarrow> fb_exec epoch op s = Inr s' \<Longrightarrow> fb_history s'"
proof (induction epoch op s rule: fb_exec.induct)
  case (1 epoch ts m reserved delivered)
  then show ?case by (auto intro: history_reserve)
next
  case (2 epoch c m reserved delivered)
  then show ?case
    by (cases "ref_epoch (reference c) = epoch") (auto intro: history_deliver simp: deliver_stale)
next
  case (3 epoch r m reserved delivered)
  then obtain m' where a: "acknowledge_fast r epoch m = Inr m'" and s': "s' = (m', reserved, delivered)"
    by auto
  then have "fb_pending m' = fb_pending m" "registers m' = registers m"
    by (auto simp: acknowledge_fast_def split: if_splits)
  with 3(1) acknowledge_fast_wf [OF _ a] show ?case by (simp add: fb_history_def s')
qed

lemma fb_run_config:
  assumes "fb_run epoch ops m0 = Inr (m, l)"
  shows "fb_config m = fb_config m0"
proof -
  have step: "fb_config (fst s') = fb_config (fst s)" if "fb_exec epoch op s = Inr s'" for op s s'
    using that by (cases "(epoch, op, s)" rule: fb_exec.cases)
      (auto simp: commit_reservation_def deliver_def acknowledge_fast_def Let_def
        split: if_splits option.splits)
  have "fb_config (fst (m, l)) = fb_config m0"
    by (rule foldE_invariant [OF assms [unfolded fb_run_def]]) (auto dest: step)
  then show ?thesis by simp
qed

lemma history_run:
  assumes "fb_run epoch ops (measurement_registers c) = Inr s"
  shows "fb_history s"
proof (rule foldE_invariant [OF assms [unfolded fb_run_def]])
  show "fb_history (measurement_registers c, [], [])"
    using measurement_registers_wf [of c]
    by (auto simp: fb_history_def measurement_registers_def empty_register_def latest_def)
qed (rule history_exec)

text \<open>
  C26. The pending count of every measurement register is the number of its measurements that
  are reserved and not delivered, whatever calls a session makes: the counts, the tables and
  the capacity bound stay consistent, so the 32-bit counters and the unsigned capacity
  differences never wrap.
\<close>

theorem pending_counts_consistent:
  assumes "fb_run epoch ops (measurement_registers c) = Inr (m, reserved, delivered)"
    and "unat t < length (registers m)"
  shows "unat (reg_pending (registers m ! unat t)) =
       length (filter (of_target t) reserved) -
       length (filter (\<lambda>c. of_target t (reference c)) delivered) \<and>
     length (fb_pending m) \<le> unat (fc_result_capacity c) \<and>
     length (fast_pending m) \<le> unat (fc_result_capacity c)"
proof -
  have h: "fb_history (m, reserved, delivered)" by (rule history_run [OF assms(1)])
  have cfg: "fb_config m = c" using fb_run_config [OF assms(1)] by (simp add: measurement_registers_def)
  have eq: "om_count (\<lambda>r. unat (ref_target r) = unat t) (fb_pending m) =
      length (filter (of_target t) (map snd (fb_pending m)))"
    by (simp add: om_count_def filter_map o_def of_target_def word_unat_eq_iff)
  have "length (filter (of_target t) reserved) =
      length (map reference (filter (\<lambda>c. of_target t (reference c)) delivered) @
        filter (of_target t) (map snd (fb_pending m)))"
    using h by (simp add: fb_history_def)
  with h cfg eq assms(2) show ?thesis by (simp add: fb_history_def fb_wf_def entries_wf_def)
qed

text \<open>
  C29. \<open>fmr\<close> reads the result of the latest measurement. When a read of a qubit's register
  returns a bit, every measurement reserved for the qubit has been delivered, in the order of
  reservation, and the bit is the outcome of the last one (zero when the qubit was never
  measured); while one of them is outstanding the read returns nothing.
\<close>

theorem read_returns_latest:
  assumes "fb_run epoch ops (measurement_registers c) = Inr (m, reserved, delivered)"
    and "unat t < unat (fc_qubits c)"
  shows "read_register t m = Inr (
    if filter (of_target t) reserved = map reference (filter (\<lambda>c. of_target t (reference c)) delivered)
    then Some (latest (filter (\<lambda>c. of_target t (reference c)) delivered)) else None)"
proof -
  have h: "fb_history (m, reserved, delivered)" by (rule history_run [OF assms(1)])
  have len: "unat t < length (registers m)"
    using h assms(2) fb_run_config [OF assms(1)]
    by (simp add: fb_history_def fb_wf_def measurement_registers_def)
  have "om_count (\<lambda>r. unat (ref_target r) = unat t) (fb_pending m) = 0 \<longleftrightarrow>
      filter (of_target t) (map snd (fb_pending m)) = []"
    by (simp add: om_count_def filter_map o_def of_target_def word_unat_eq_iff)
  moreover have "unat (reg_pending (registers m ! unat t)) =
      om_count (\<lambda>r. unat (ref_target r) = unat t) (fb_pending m)"
    using h len by (simp add: fb_history_def fb_wf_def)
  ultimately have "reg_pending (registers m ! unat t) = 0 \<longleftrightarrow>
      filter (of_target t) (map snd (fb_pending m)) = []"
    by (metis unat_eq_zero)
  with h len show ?thesis by (auto simp: read_register_def fb_history_def Let_def)
qed

lemma replicate_2: "replicate 2 x = [x, x]"
  by (simp add: numeral_2_eq_2)

definition example_feedback :: FeedbackConfig where
  "example_feedback = \<lparr>fc_qubits = 2, fc_result_capacity = 8, fc_fast_feedback = True\<rparr>"

definition example_reference :: "Id \<Rightarrow> u32 \<Rightarrow> MeasurementReference" where
  "example_reference i t = \<lparr>ref_epoch = 1, measurement = i, ref_target = t\<rparr>"

definition example_session :: "fb_op list" where
  "example_session =
     [Reserve [1], Reserve [1, 0], AckFast (example_reference 1 1),
      Deliver \<lparr>reference = example_reference 1 1, outcome = False\<rparr>,
      Deliver \<lparr>reference = example_reference 2 1, outcome = True\<rparr>]"

lemma example_session_run:
  "fb_run 1 example_session (measurement_registers example_feedback) =
   Inr (\<lparr>fb_config = example_feedback,
         registers = [\<lparr>reg_pending = 1, reg_value = False\<rparr>, \<lparr>reg_pending = 0, reg_value = True\<rparr>],
         fb_pending = [(3, example_reference 3 0)],
         fast_pending = [(2, example_reference 2 1), (3, example_reference 3 0)],
         next_measurement = 4\<rparr>,
        [example_reference 1 1, example_reference 2 1, example_reference 3 0],
        [\<lparr>reference = example_reference 1 1, outcome = False\<rparr>,
         \<lparr>reference = example_reference 2 1, outcome = True\<rparr>])"
  by (simp add: fb_run_def example_session_def measurement_registers_def example_feedback_def
      prepare_reservation_def has_capacity_def prepare_one_def commit_reservation_def
      checked_add_def tick_max_def word_size64_def sub64_def count_up_def om_emplace_def om_find_def
      om_erase_def deliver_def acknowledge_fast_def empty_register_def example_reference_def
      replicate_2 Let_def)

theorem pending_counts_consistent_witness:
  "unat (1 :: u32) = length [example_reference 3 0] - length ([] :: Completion list)"
  using pending_counts_consistent [OF example_session_run, of 0]
  by (simp add: of_target_def example_reference_def)

theorem read_returns_latest_witness:
  "read_register 1 \<lparr>fb_config = example_feedback,
     registers = [\<lparr>reg_pending = 1, reg_value = False\<rparr>, \<lparr>reg_pending = 0, reg_value = True\<rparr>],
     fb_pending = [(3, example_reference 3 0)],
     fast_pending = [(2, example_reference 2 1), (3, example_reference 3 0)],
     next_measurement = 4\<rparr> = Inr (Some True)"
  using read_returns_latest [OF example_session_run, of 1]
  by (simp add: of_target_def example_reference_def latest_def example_feedback_def)

section \<open>The flags follow the last two results\<close>

definition flag_history :: "Epoch \<Rightarrow> Completion list \<Rightarrow> nat \<Rightarrow> bool list" where
  "flag_history epoch cs t = map outcome (filter (\<lambda>c. ref_epoch (reference c) = epoch \<and>
     unat (ref_target (reference c)) = t) cs)"

definition flags_match :: "bool list \<Rightarrow> FlagRegister \<Rightarrow> bool" where
  "flags_match h reg \<longleftrightarrow>
     (last_measurement reg = 0 \<longleftrightarrow> h = []) \<and>
     (last_one reg \<longleftrightarrow> h \<noteq> [] \<and> last h) \<and>
     (last_zero reg \<longleftrightarrow> h \<noteq> [] \<and> \<not> last h) \<and>
     (equal_flag reg \<longleftrightarrow> 2 \<le> length h \<and> last h = last (butlast h))"

lemma commit_flags_step:
  assumes "commit_flags c epoch fs = Inr fs'" and "\<forall>t < length fs. flags_match (flag_history epoch cs t) (fs ! t)"
  shows "length fs' = length fs \<and> (\<forall>t < length fs'. flags_match (flag_history epoch (cs @ [c]) t) (fs' ! t))"
proof (cases "ref_epoch (reference c) = epoch")
  case False
  with assms show ?thesis by (simp add: commit_flags_def flag_history_def)
next
  case True
  let ?t = "unat (ref_target (reference c))"
  from True assms(1) have t: "?t < length fs" and "last_measurement (fs ! ?t) < measurement (reference c)"
    and fs': "fs' = fs[?t := \<lparr>last_measurement = measurement (reference c),
      last_one = outcome c, last_zero = (\<not> outcome c),
      equal_flag = (last_measurement (fs ! ?t) \<noteq> 0 \<and> last_one (fs ! ?t) = outcome c)\<rparr>]"
    by (auto simp: commit_flags_def Let_def)
  have old: "flags_match (flag_history epoch cs ?t) (fs ! ?t)" using assms(2) t by blast
  have len: "2 \<le> length (h @ [x]) \<longleftrightarrow> h \<noteq> []" for h :: "bool list" and x by (cases h) auto
  have "flags_match (flag_history epoch cs ?t @ [outcome c]) (fs' ! ?t)"
    using old t \<open>last_measurement (fs ! ?t) < measurement (reference c)\<close>
    unfolding flags_match_def len by (auto simp: fs')
  moreover have "flag_history epoch (cs @ [c]) u = flag_history epoch cs u @ (if u = ?t then [outcome c] else [])"
    for u using True by (simp add: flag_history_def)
  ultimately show ?thesis using assms(2) t by (simp add: fs' nth_list_update)
qed

lemma commit_flags_run:
  assumes "foldE (\<lambda>c. commit_flags c epoch) cs fs = Inr fs'"
    and "\<forall>t < length fs. flags_match (flag_history epoch cs0 t) (fs ! t)"
  shows "length fs' = length fs \<and> (\<forall>t < length fs'. flags_match (flag_history epoch (cs0 @ cs) t) (fs' ! t))"
  using assms
proof (induction cs arbitrary: fs cs0)
  case (Cons c cs)
  then obtain f where f: "commit_flags c epoch fs = Inr f" "foldE (\<lambda>c. commit_flags c epoch) cs f = Inr fs'"
    by auto
  note step = commit_flags_step [OF f(1) Cons.prems(2)]
  from Cons.IH [OF f(2), of "cs0 @ [c]"] step show ?case by simp
qed simp

text \<open>
  C30. The execution flags of a qubit are a function of its results in the current epoch. After
  any sequence of accepted completions, \<open>LastOne\<close> holds when the latest result is one,
  \<open>LastZero\<close> when it is zero, \<open>Equal\<close> when there are two results and the latest two agree; with
  no result all three are false. Completions of other epochs or qubits do not matter.
\<close>

theorem execution_flags_follow_results:
  assumes "foldE (\<lambda>c. commit_flags c epoch) cs (execution_flags n) = Inr fs"
    and "t < n"
  shows "evaluate_flag t f fs = Inr (let h = flag_history epoch cs (unat t) in
    case f of Always \<Rightarrow> True
      | LastOne \<Rightarrow> h \<noteq> [] \<and> last h
      | LastZero \<Rightarrow> h \<noteq> [] \<and> \<not> last h
      | Equal \<Rightarrow> 2 \<le> length h \<and> last h = last (butlast h))"
proof -
  have "length fs = unat n \<and> (\<forall>t < unat n. flags_match (flag_history epoch cs t) (fs ! t))"
    using commit_flags_run [OF assms(1), of "[]"]
    by (simp add: execution_flags_def flags_match_def flag_history_def empty_flags_def)
  with assms(2) show ?thesis
    by (auto simp: evaluate_flag_def Let_def flags_match_def word_less_nat_alt split: ExecutionFlag.split)
qed

theorem execution_flags_follow_results_witness:
  "evaluate_flag 1 Equal [empty_flags, \<lparr>last_measurement = 2, last_one = True, last_zero = False,
     equal_flag = True\<rparr>] = Inr True"
proof -
  have run: "foldE (\<lambda>c. commit_flags c 1) [\<lparr>reference = example_reference 1 1, outcome = True\<rparr>,
      \<lparr>reference = example_reference 2 1, outcome = True\<rparr>] (execution_flags 2) =
    Inr [empty_flags, \<lparr>last_measurement = 2, last_one = True, last_zero = False, equal_flag = True\<rparr>]"
    by (simp add: commit_flags_def execution_flags_def empty_flags_def example_reference_def
        replicate_2 Let_def)
  have "(1 :: u32) < 2" by simp
  from execution_flags_follow_results [OF run this, of Equal] show ?thesis
    by (simp add: flag_history_def example_reference_def)
qed

end
