(* ===== verification/Tcu.thy ===== *)
theory Tcu
  imports Control_Protocol Feedback
begin

text \<open>
  The timing control unit, \<^verbatim>\<open>include/qsbit/tcu.hpp\<close> and \<^verbatim>\<open>src/tcu.cpp\<close>: a queue of time
  points with one event queue per output port, a logical timer that can pause, and the execution
  flags. One call of \<open>step\<close> is one rising edge of its clock: it prepares a trigger and an
  admission against the state at the start of the edge and then commits both. The two preflight
  checks belong to other components and are arguments of \<open>step\<close>.
\<close>

record Point =
  pt_point :: TimingPoint
  pt_due :: TcuCycle

record PauseState =
  instruction_supply :: bool
  synchronization :: bool

record TimingState =
  running :: bool
  cycle :: TcuCycle
  ts_pause :: PauseState

record TcuState =
  tcu_profile :: TcuConfig
  timing :: "Point list"
  port_events :: "OperationEvent list list"
  tcu_flags :: ExecutionFlags
  last_due :: TcuCycle
  start_tick :: Tick
  paused_ticks :: Tick
  sync_capacity :: nat
  sync_size :: nat
  last_label :: Id
  tcu_closed :: bool
  admitted_policy :: UnderflowPolicy
  triggered_policy :: UnderflowPolicy
  tcu_pause :: PauseState

record TcuOutput =
  admitted :: bool
  launch :: "TriggeredEvents option"
  fast_delivered :: "MeasurementReference list"
  out_synchronizations :: "u32 list"

record Trigger =
  batch :: TriggeredEvents
  cancelled :: "OperationEvent list"
  trigger_sync :: "u32 list"

definition paused :: "PauseState \<Rightarrow> bool" where
  "paused p \<longleftrightarrow> instruction_supply p \<or> synchronization p"

definition no_pause :: PauseState where
  "no_pause = \<lparr>instruction_supply = False, synchronization = False\<rparr>"

definition tcu_new :: "TcuConfig \<Rightarrow> nat \<Rightarrow> TcuState result" where
  "tcu_new cfg capacity =
     require (capacity > 0) InvalidProfile (
     Inr \<lparr>tcu_profile = cfg, timing = [],
          port_events = replicate (unat (tc_ports (tcu_timing cfg))) [],
          tcu_flags = execution_flags (tc_qubits (tcu_timing cfg)),
          last_due = 0, start_tick = tcu_start cfg, paused_ticks = 0,
          sync_capacity = capacity, sync_size = 0, last_label = 0, tcu_closed = False,
          admitted_policy = Strict, triggered_policy = Strict, tcu_pause = no_pause\<rparr>)"

definition policy_after :: "TimingPoint \<Rightarrow> UnderflowPolicy \<Rightarrow> UnderflowPolicy" where
  "policy_after pt previous =
     (if underflow_policy pt = Inherit then previous else underflow_policy pt)"

definition current_timing_state :: "Tick \<Rightarrow> bool \<Rightarrow> TcuState \<Rightarrow> TimingState" where
  "current_timing_state now synchronization_paused s =
     (let run = (start_tick s \<le> now) in
      \<lparr>running = run,
       cycle = (if run then sub64 (sub64 now (start_tick s)) (paused_ticks s) div
                  period (tcu_clock (tcu_profile s)) else 0),
       ts_pause = \<lparr>instruction_supply = (run \<and> triggered_policy s = PauseWhenEmpty \<and>
                     timing s = [] \<and> \<not> tcu_closed s),
                   synchronization = (run \<and> synchronization_paused)\<rparr>\<rparr>)"

definition meets_deadline :: "Tick \<Rightarrow> Tick \<Rightarrow> PauseState \<Rightarrow> TcuState \<Rightarrow> bool" where
  "meets_deadline now due_tick p s \<longleftrightarrow>
     now < due_tick \<or>
     (admitted_policy s = PauseWhenEmpty \<and> instruction_supply p \<and> now = due_tick)"

definition gather_event ::
  "Epoch \<Rightarrow> OperationEvent \<Rightarrow> (Id, OperationEvent) omap \<Rightarrow> (Id, OperationEvent) omap result" where
  "gather_event epoch e gathered =
     require (oe_epoch e = epoch \<and> om_find (oe_id e) gathered = None) ManifestMismatch (
     Inr (om_set (oe_id e) e gathered))"

definition gather_queue ::
  "Epoch \<Rightarrow> Id \<Rightarrow> OperationEvent list \<Rightarrow> (Id, OperationEvent) omap \<Rightarrow> (Id, OperationEvent) omap result" where
  "gather_queue epoch label queue gathered =
     require (queue = [] \<or> label \<le> oe_label (hd queue)) ManifestMismatch (
     foldE (gather_event epoch) (takeWhile (\<lambda>e. oe_label e = label) queue) gathered)"

definition select_event ::
  "ExecutionFlags \<Rightarrow> (Id, OperationEvent) omap \<Rightarrow> Id \<Rightarrow> OperationEvent list \<times> OperationEvent list \<Rightarrow>
   (OperationEvent list \<times> OperationEvent list) result" where
  "select_event flags gathered i = (\<lambda>(fired, dropped).
     case om_find i gathered of
       None \<Rightarrow> Inl ManifestMismatch
     | Some e \<Rightarrow>
         (if execution_flag (action e) = Always then Inr (fired @ [e], dropped)
          else bindE (evaluate_flag (hd (targets (action e))) (execution_flag (action e)) flags) (\<lambda>enabled.
               Inr (if enabled then (fired @ [e], dropped) else (fired, dropped @ [e])))))"

type_synonym preflight_check = "TriggeredEvents \<Rightarrow> unit result"
type_synonym sync_check = "(u32 list \<Rightarrow> unit result) option"

definition prepare_trigger ::
  "Tick \<Rightarrow> Epoch \<Rightarrow> TimingState \<Rightarrow> preflight_check \<Rightarrow> sync_check \<Rightarrow> TcuState \<Rightarrow> Trigger option result" where
  "prepare_trigger now epoch st preflight sync_preflight s =
     (if \<not> running st \<or> paused (ts_pause st) \<or> timing s = [] \<or> cycle st < pt_due (hd (timing s))
      then Inr None
      else
        let pt = pt_point (hd (timing s)) in
        require (pt_due (hd (timing s)) = cycle st) LateAdmission (
        bindE (foldE (gather_queue epoch (tp_label pt)) (port_events s) []) (\<lambda>gathered.
        require (length gathered = length (manifest pt)) ManifestMismatch (
        bindE (foldE (select_event (tcu_flags s) gathered) (manifest pt) ([], [])) (\<lambda>(fired, dropped).
        let t = \<lparr>batch = \<lparr>tr_epoch = epoch, tr_label = tp_label pt, fire_tick = now, tr_events = fired\<rparr>,
                 cancelled = dropped, trigger_sync = synchronizations pt\<rparr> in
        bindE (preflight (batch t)) (\<lambda>_.
        bindE (if trigger_sync t \<noteq> []
               then (case sync_preflight of
                       None \<Rightarrow> Inl UnsupportedSynchronization
                     | Some check \<Rightarrow> check (trigger_sync t))
               else Inr ()) (\<lambda>_.
        Inr (Some t))))))))"

definition queue_space :: "TimingEvents \<Rightarrow> TcuState \<Rightarrow> bool" where
  "queue_space c s \<longleftrightarrow>
     length (timing s) < unat (tcu_timing_capacity (tcu_profile s)) \<and>
     length (synchronizations (tpoint c)) \<le> sub64 (sync_capacity s) (sync_size s) \<and>
     list_all (\<lambda>p. length (port_events s ! p) + length (filter (on_port p) (te_events c))
        \<le> unat (tc_event_capacity (tcu_timing (tcu_profile s)))) [0..<length (port_events s)]"

definition prepare_admission ::
  "Tick \<Rightarrow> Epoch \<Rightarrow> TimingEvents \<Rightarrow> PauseState \<Rightarrow> TcuState \<Rightarrow> TcuCycle option result" where
  "prepare_admission now epoch c pause s = (let pt = tpoint c in
     require (\<not> tcu_closed s) Protocol (
     bindE (validate_timing_events c (tcu_timing (tcu_profile s))) (\<lambda>_.
     bindE (checked_add (last_label s) 1) (\<lambda>next_label.
     require (tp_epoch pt = epoch \<and> tp_label pt = next_label) Protocol (
     require (last_label s = 0 \<or> 0 < tp_interval pt \<or> admitted_policy s = PauseWhenEmpty \<or>
        underflow_policy pt = PauseWhenEmpty) Protocol (
     let interval = (if last_label s = 0 then tp_interval pt else max 1 (tp_interval pt)) in
     bindE (checked_add (last_due s) interval) (\<lambda>due.
     bindE (checked_add (start_tick s) (paused_ticks s)) (\<lambda>origin.
     bindE (checked_mul due (period (tcu_clock (tcu_profile s)))) (\<lambda>offset.
     bindE (checked_add origin offset) (\<lambda>due_tick.
     require (meets_deadline now due_tick pause s) LateAdmission (
     require (length (synchronizations pt) \<le> sync_capacity s) Capacity (
     Inr (if queue_space c s then Some due else None)))))))))))))"

definition cancelled_event :: "Tick \<Rightarrow> Epoch \<Rightarrow> TcuCycle \<Rightarrow> Id \<Rightarrow> OperationEvent \<Rightarrow> TraceEvent" where
  "cancelled_event now epoch cyc label e =
     (trace_event now epoch ''ConditionCancelled'' (oe_id e) label cyc)
       \<lparr>ev_port := es_port (action e), ev_operation := operation (action e),
        ev_targets := targets (action e)\<rparr>"

definition commit_trigger ::
  "Tick \<Rightarrow> Epoch \<Rightarrow> TcuCycle \<Rightarrow> Trigger \<Rightarrow> TcuState \<Rightarrow> TcuState \<times> TraceEvent list" where
  "commit_trigger now epoch cyc t s =
     (let pt = pt_point (hd (timing s)); label = tp_label pt in
      (s\<lparr>triggered_policy := policy_after pt (triggered_policy s),
         sync_size := sub64 (sync_size s) (length (synchronizations pt)),
         port_events := map (dropWhile (\<lambda>e. oe_label e = label)) (port_events s),
         timing := tl (timing s)\<rparr>,
       (if underflow_policy pt = PauseWhenEmpty
        then [trace_event now epoch ''WaitZeroExecuted'' 0 label cyc] else []) @
       [trace_event now epoch ''TimingPointTriggered'' 0 label cyc] @
       map (cancelled_event now epoch cyc label) (cancelled t)))"

definition push_event :: "OperationEvent \<Rightarrow> OperationEvent list list \<Rightarrow> OperationEvent list list" where
  "push_event e qs = qs[unat (es_port (action e)) := qs ! unat (es_port (action e)) @ [e]]"

definition commit_admission ::
  "Tick \<Rightarrow> Epoch \<Rightarrow> TcuCycle \<Rightarrow> TimingEvents \<Rightarrow> TcuCycle \<Rightarrow> TcuState \<Rightarrow> TcuState \<times> TraceEvent list" where
  "commit_admission now epoch cyc c due s =
     (s\<lparr>admitted_policy := policy_after (tpoint c) (admitted_policy s),
        sync_size := sync_size s + length (synchronizations (tpoint c)),
        timing := timing s @ [\<lparr>pt_point = tpoint c, pt_due = due\<rparr>],
        port_events := fold push_event (te_events c) (port_events s),
        last_label := tp_label (tpoint c),
        last_due := due\<rparr>,
      [(trace_event now epoch ''TimingPointEnqueued'' 0 (tp_label (tpoint c)) cyc)
         \<lparr>ev_value := length (timing s) + 1\<rparr>])"

definition current_results :: "Epoch \<Rightarrow> Completion list \<Rightarrow> Completion list" where
  "current_results epoch results = filter (\<lambda>r. ref_epoch (reference r) = epoch) results"

definition flags_updated :: "Tick \<Rightarrow> Epoch \<Rightarrow> TcuCycle \<Rightarrow> Completion \<Rightarrow> TraceEvent" where
  "flags_updated now epoch cyc r =
     (trace_event now epoch ''ExecutionFlagsUpdated'' (measurement (reference r)) 0 cyc)
       \<lparr>ev_targets := [ref_target (reference r)], ev_value := (if outcome r then 1 else 0)\<rparr>"

definition update_pause_state ::
  "Tick \<Rightarrow> Epoch \<Rightarrow> TimingState \<Rightarrow> Tick \<Rightarrow> TcuState \<Rightarrow> TcuState \<times> TraceEvent list" where
  "update_pause_state now epoch st ticks s =
     (let p = ts_pause st in
      (s\<lparr>tcu_pause := p, paused_ticks := ticks\<rparr>,
       if paused p \<noteq> paused (tcu_pause s)
       then [(trace_event now epoch (if paused p then ''TimerPaused'' else ''TimerResumed'') 0 0 (cycle st))
               \<lparr>ev_detail := (if synchronization p \<and> instruction_supply p
                  then ''synchronization and instruction supply''
                  else if synchronization p then ''synchronization''
                  else if instruction_supply p then ''instruction supply'' else [])\<rparr>]
       else []))"

definition tcu_step ::
  "Tick \<Rightarrow> Epoch \<Rightarrow> TimingEvents option \<Rightarrow> Completion list \<Rightarrow> preflight_check \<Rightarrow> bool \<Rightarrow> sync_check \<Rightarrow>
   TcuState \<Rightarrow> (TcuState \<times> TcuOutput \<times> TraceEvent list) result" where
  "tcu_step now epoch candidate results preflight synchronization_paused sync_preflight s =
     require (edge (tcu_clock (tcu_profile s)) now) Protocol (
     let st = current_timing_state now synchronization_paused s in
     bindE (prepare_trigger now epoch st preflight sync_preflight s) (\<lambda>trigger.
     bindE (case candidate of
              None \<Rightarrow> Inr None
            | Some c \<Rightarrow> prepare_admission now epoch c (ts_pause st) s) (\<lambda>due.
     bindE (foldE (\<lambda>r. commit_flags r epoch) results (tcu_flags s)) (\<lambda>next_flags.
     bindE (if paused (ts_pause st)
            then checked_add (paused_ticks s) (period (tcu_clock (tcu_profile s)))
            else Inr (paused_ticks s)) (\<lambda>next_paused_ticks.
     let (s1, tr1) = (case trigger of
            None \<Rightarrow> (s, [])
          | Some t \<Rightarrow> commit_trigger now epoch (cycle st) t s);
         (s2, tr2) = (case (candidate, due) of
            (Some c, Some d) \<Rightarrow> commit_admission now epoch (cycle st) c d s1
          | _ \<Rightarrow> (s1, []));
         s3 = s2\<lparr>tcu_flags := next_flags\<rparr>;
         tr3 = map (flags_updated now epoch (cycle st)) (current_results epoch results);
         (s4, tr4) = update_pause_state now epoch st next_paused_ticks s3
     in Inr (s4,
         \<lparr>admitted = (due \<noteq> None),
          launch = map_option batch trigger,
          fast_delivered = map reference (current_results epoch results),
          out_synchronizations = (case trigger of None \<Rightarrow> [] | Some t \<Rightarrow> trigger_sync t)\<rparr>,
         tr1 @ tr2 @ tr3 @ tr4))))))"

definition tcu_close :: "Id \<Rightarrow> TcuState \<Rightarrow> TcuState result" where
  "tcu_close end_label s =
     require (\<not> tcu_closed s \<and> end_label = last_label s) Protocol (Inr (s\<lparr>tcu_closed := True\<rparr>))"

definition tcu_drained :: "TcuState \<Rightarrow> bool" where
  "tcu_drained s \<longleftrightarrow> tcu_closed s \<and> timing s = [] \<and> list_all (\<lambda>q. q = []) (port_events s)"

definition tcu_reset :: "Tick \<Rightarrow> TcuState \<Rightarrow> TcuState result" where
  "tcu_reset epoch_origin s =
     bindE (checked_add epoch_origin (tcu_start (tcu_profile s))) (\<lambda>proposed.
     bindE (if edge (tcu_clock (tcu_profile s)) proposed then Inr proposed
            else after (tcu_clock (tcu_profile s)) proposed 1) (\<lambda>start.
     Inr (s\<lparr>timing := [], port_events := map (\<lambda>_. []) (port_events s),
            tcu_flags := reset_flags (tcu_flags s), last_due := 0, last_label := 0,
            tcu_closed := False, admitted_policy := Strict, triggered_policy := Strict,
            tcu_pause := no_pause, paused_ticks := 0, sync_size := 0, start_tick := start\<rparr>)))"

section \<open>The queue of time points as one abstract queue\<close>

text \<open>
  The timing queue and the port queues together represent one queue of admitted requests with
  their due cycles. \<open>tcu_rel\<close> relates the two: the timing queue holds the points, and each port
  queue the events of the queued requests on that port, in request order.
\<close>

type_synonym request_queue = "(TimingEvents \<times> TcuCycle) list"

definition request_label :: "TimingEvents \<times> TcuCycle \<Rightarrow> Id" where
  "request_label r = tp_label (tpoint (fst r))"

definition port_part :: "nat \<Rightarrow> TimingEvents \<times> TcuCycle \<Rightarrow> OperationEvent list" where
  "port_part p r = filter (on_port p) (te_events (fst r))"

definition sync_count :: "TimingEvents \<times> TcuCycle \<Rightarrow> nat" where
  "sync_count r = length (synchronizations (tpoint (fst r)))"

abbreviation config_of :: "TcuState \<Rightarrow> TimingConfig" where
  "config_of s \<equiv> tcu_timing (tcu_profile s)"

definition queues_match :: "request_queue \<Rightarrow> TcuState \<Rightarrow> bool" where
  "queues_match q s \<longleftrightarrow>
     timing s = map (\<lambda>(c, d). \<lparr>pt_point = tpoint c, pt_due = d\<rparr>) q \<and>
     port_events s = map (\<lambda>p. concat (map (port_part p) q)) [0..<unat (tc_ports (config_of s))]"

definition requests_ok :: "Epoch \<Rightarrow> request_queue \<Rightarrow> TcuState \<Rightarrow> bool" where
  "requests_ok epoch q s \<longleftrightarrow>
     (\<forall>r\<in>set q. request_ok (config_of s) (fst r) \<and> tp_epoch (tpoint (fst r)) = epoch) \<and>
     length q \<le> last_label s \<and>
     map request_label q = [last_label s + 1 - length q..<last_label s + 1] \<and>
     sorted_wrt (<) (map snd q) \<and> (\<forall>r\<in>set q. snd r \<le> last_due s)"

definition bounds_ok :: "request_queue \<Rightarrow> TcuState \<Rightarrow> bool" where
  "bounds_ok q s \<longleftrightarrow>
     length q \<le> unat (tcu_timing_capacity (tcu_profile s)) \<and>
     (\<forall>p < unat (tc_ports (config_of s)).
        length (concat (map (port_part p) q)) \<le> unat (tc_event_capacity (config_of s))) \<and>
     sync_size s = sum_list (map sync_count q) \<and> sync_size s \<le> sync_capacity s \<and>
     sync_capacity s \<le> tick_max"

definition tcu_rel :: "Epoch \<Rightarrow> request_queue \<Rightarrow> TcuState \<Rightarrow> bool" where
  "tcu_rel epoch q s \<longleftrightarrow> queues_match q s \<and> requests_ok epoch q s \<and> bounds_ok q s"

lemmas tcu_rel_defs = tcu_rel_def queues_match_def requests_ok_def bounds_ok_def

subsection \<open>Triggering the head\<close>

lemma labels_above_head:
  assumes "requests_ok epoch (r # q) s" and "x \<in> set q"
  shows "request_label r < request_label x"
proof -
  let ?n = "last_label s + 1 - length (r # q)"
  have "map request_label (r # q) = [?n..<last_label s + 1]" and "length (r # q) \<le> last_label s"
    using assms(1) by (auto simp: requests_ok_def)
  then have "request_label r # map request_label q = ?n # [Suc ?n..<last_label s + 1]"
    using upt_conv_Cons [of ?n "last_label s + 1"] by (simp del: upt_Suc)
  then have "request_label r = ?n" and "map request_label q = [Suc ?n..<last_label s + 1]" by blast+
  moreover from assms(2) have "request_label x \<in> set (map request_label q)" by simp
  ultimately have "Suc ?n \<le> request_label x" by (simp only: set_upt atLeastLessThan_iff)
  with \<open>request_label r = ?n\<close> show ?thesis by simp
qed

lemma port_part_label: "request_ok cfg (fst r) \<Longrightarrow> e \<in> set (port_part p r) \<Longrightarrow> oe_label e = request_label r"
  by (auto simp: port_part_def request_label_def request_ok_def event_ok_def)

lemma head_queue_split:
  assumes "requests_ok epoch (r # q) s"
  shows "takeWhile (\<lambda>e. oe_label e = request_label r) (concat (map (port_part p) (r # q))) = port_part p r"
    and "dropWhile (\<lambda>e. oe_label e = request_label r) (concat (map (port_part p) (r # q))) =
      concat (map (port_part p) q)"
    and "concat (map (port_part p) (r # q)) = [] \<or>
      request_label r \<le> oe_label (hd (concat (map (port_part p) (r # q))))"
proof -
  have hd: "\<forall>e\<in>set (port_part p r). oe_label e = request_label r"
    using assms by (auto simp: requests_ok_def dest: port_part_label)
  have tl: "\<forall>e\<in>set (concat (map (port_part p) q)). request_label r < oe_label e"
  proof
    fix e assume "e \<in> set (concat (map (port_part p) q))"
    then obtain x where x: "x \<in> set q" "e \<in> set (port_part p x)" by auto
    then have "oe_label e = request_label x"
      using assms by (auto simp: requests_ok_def dest: port_part_label)
    with labels_above_head [OF assms x(1)] show "request_label r < oe_label e" by simp
  qed
  then have ne: "\<forall>e\<in>set (concat (map (port_part p) q)). oe_label e \<noteq> request_label r"
    by (metis less_irrefl)
  from takeWhile_dropWhile_split [OF hd ne] show "takeWhile (\<lambda>e. oe_label e = request_label r) (concat (map (port_part p) (r # q))) = port_part p r"
    and "dropWhile (\<lambda>e. oe_label e = request_label r) (concat (map (port_part p) (r # q))) =
      concat (map (port_part p) q)"
    by (simp_all only: list.map concat.simps)
  show "concat (map (port_part p) (r # q)) = [] \<or>
      request_label r \<le> oe_label (hd (concat (map (port_part p) (r # q))))"
  proof (cases "port_part p r")
    case Nil
    then show ?thesis using tl by (cases "concat (map (port_part p) q)") auto
  next
    case (Cons e es)
    with hd show ?thesis by simp
  qed
qed

definition gather_all :: "OperationEvent list \<Rightarrow> (Id, OperationEvent) omap \<Rightarrow> (Id, OperationEvent) omap" where
  "gather_all es g = fold (\<lambda>(k, v). om_set k v) (map (\<lambda>e. (oe_id e, e)) es) g"

lemma gather_events:
  assumes "\<forall>e\<in>set es. oe_epoch e = epoch" and "distinct (map oe_id es)"
    and "\<forall>e\<in>set es. om_find (oe_id e) g = None"
  shows "foldE (gather_event epoch) es g = Inr (gather_all es g)"
  using assms
proof (induction es arbitrary: g)
  case Nil
  then show ?case by (simp add: gather_all_def)
next
  case (Cons e es)
  have "\<forall>x\<in>set es. om_find (oe_id x) (om_set (oe_id e) e g) = None"
    using Cons.prems by (auto simp: image_iff)
  with Cons show ?case by (simp add: gather_event_def gather_all_def)
qed

lemma gather_queues:
  assumes "\<forall>p\<in>set ps. takeWhile (\<lambda>e. oe_label e = l) (f p) = g p \<and> (f p = [] \<or> l \<le> oe_label (hd (f p)))"
  shows "foldE (gather_queue epoch l) (map f ps) m = foldE (gather_event epoch) (concat (map g ps)) m"
  using assms
proof (induction ps arbitrary: m)
  case (Cons p ps)
  then show ?case
    by (cases "foldE (gather_event epoch) (g p) m") (simp_all add: gather_queue_def foldE_append)
qed simp

lemma port_parts_permute:
  assumes "request_ok cfg (fst r)"
  shows "mset (concat (map (\<lambda>p. port_part p r) [0..<unat (tc_ports cfg)])) = mset (te_events (fst r))"
proof -
  have "\<forall>e\<in>set (te_events (fst r)). unat (es_port (action e)) < unat (tc_ports cfg)"
    using assms by (auto simp: request_ok_def event_ok_def word_less_nat_alt)
  then have "filter_mset (\<lambda>e. unat (es_port (action e)) \<in> set [0..<unat (tc_ports cfg)]) (mset (te_events (fst r)))
      = mset (te_events (fst r))"
    by (simp add: filter_mset_eq_conv)
  then show ?thesis
    using mset_concat_classes [of "[0..<unat (tc_ports cfg)]" "\<lambda>e. unat (es_port (action e))"
        "te_events (fst r)"]
    unfolding port_part_def on_port_fun by simp
qed

lemma gather_head:
  assumes "queues_match (r # q) s" and ok: "requests_ok epoch (r # q) s"
  shows "\<exists>g. foldE (gather_queue epoch (request_label r)) (port_events s) [] = Inr g \<and>
    length g = length (te_events (fst r)) \<and>
    (\<forall>e\<in>set (te_events (fst r)). om_find (oe_id e) g = Some e)"
proof -
  let ?ps = "[0..<unat (tc_ports (config_of s))]"
  let ?es = "concat (map (\<lambda>p. port_part p r) ?ps)"
  have r: "request_ok (config_of s) (fst r)" "tp_epoch (tpoint (fst r)) = epoch"
    using ok by (auto simp: requests_ok_def)
  note perm = port_parts_permute [OF r(1)]
  have set: "set ?es = set (te_events (fst r))" and len: "length ?es = length (te_events (fst r))"
    using perm by (metis set_mset_mset, metis size_mset)
  have "mset (map oe_id ?es) = mset (map oe_id (te_events (fst r)))"
    unfolding mset_map perm ..
  then have d: "distinct (map oe_id ?es)"
    using r(1) by (metis mset_eq_imp_distinct_iff request_ok_def)
  have ep: "\<forall>e\<in>set ?es. oe_epoch e = epoch"
    unfolding set using r by (auto simp: request_ok_def event_ok_def)
  have "foldE (gather_queue epoch (request_label r)) (port_events s) [] = foldE (gather_event epoch) ?es []"
    using assms(1) head_queue_split [OF ok] unfolding queues_match_def
    by (simp only:) (rule gather_queues, blast)
  also have "\<dots> = Inr (gather_all ?es [])" using gather_events [OF ep d] by simp
  finally have g: "foldE (gather_queue epoch (request_label r)) (port_events s) [] = Inr (gather_all ?es [])" .
  let ?kvs = "map (\<lambda>e. (oe_id e, e)) ?es"
  have dk: "distinct (map fst ?kvs)" using d by (simp add: o_def)
  then have dr: "distinct (map fst (rev ?kvs))" by (simp only: rev_map [symmetric] distinct_rev)
  have "length (gather_all ?es []) = length ?es"
    using omap.puts_count [of "[]" ?kvs "\<lambda>_. True"] dk
    by (simp add: gather_all_def om_count_True del: map_concat)
  moreover have "om_find (oe_id e) (gather_all ?es []) = Some e" if "e \<in> set ?es" for e
  proof -
    have "map_of (rev ?kvs) (oe_id e) = Some e"
      using that dr by (intro map_of_is_SomeI) auto
    then show ?thesis using omap.puts_find [of "[]" "oe_id e" ?kvs] by (simp add: gather_all_def)
  qed
  ultimately show ?thesis
    using g len unfolding set [symmetric] by (intro exI [of _ "gather_all ?es []"]) simp
qed

definition enabled :: "ExecutionFlags \<Rightarrow> OperationEvent \<Rightarrow> bool" where
  "enabled flags e \<longleftrightarrow> execution_flag (action e) = Always \<or>
     evaluate_flag (hd (targets (action e))) (execution_flag (action e)) flags = Inr True"

definition flags_readable :: "ExecutionFlags \<Rightarrow> OperationEvent \<Rightarrow> bool" where
  "flags_readable flags e \<longleftrightarrow> execution_flag (action e) = Always \<or>
     unat (hd (targets (action e))) < length flags"

lemma select_one:
  assumes "om_find (oe_id e) g = Some e"
  shows "select_event flags g (oe_id e) (f, d) =
    (if flags_readable flags e
     then Inr (if enabled flags e then (f @ [e], d) else (f, d @ [e])) else Inl InvalidOperand)"
proof (cases "execution_flag (action e) = Always")
  case True
  with assms show ?thesis by (simp add: select_event_def flags_readable_def enabled_def)
next
  case False
  show ?thesis
  proof (cases "unat (hd (targets (action e))) < length flags")
    case True
    then obtain b where "evaluate_flag (hd (targets (action e))) (execution_flag (action e)) flags = Inr b"
      by (simp add: evaluate_flag_def Let_def)
    with False True assms show ?thesis by (simp add: select_event_def flags_readable_def enabled_def)
  next
    case nr: False
    with False assms show ?thesis
      by (simp add: select_event_def flags_readable_def evaluate_flag_def)
  qed
qed

lemma select_events:
  assumes "\<forall>e\<in>set es. om_find (oe_id e) g = Some e"
  shows "foldE (select_event flags g) (map oe_id es) (f, d) =
    (if list_all (flags_readable flags) es
     then Inr (f @ filter (enabled flags) es, d @ filter (\<lambda>e. \<not> enabled flags e) es)
     else Inl InvalidOperand)"
  using assms
proof (induction es arbitrary: f d)
  case (Cons e es)
  then show ?case by (simp add: select_one)
qed simp

definition due_now :: "TimingState \<Rightarrow> TcuState \<Rightarrow> bool" where
  "due_now st s \<longleftrightarrow> running st \<and> \<not> paused (ts_pause st) \<and> timing s \<noteq> [] \<and>
     pt_due (hd (timing s)) \<le> cycle st"

definition trigger_of :: "Tick \<Rightarrow> Epoch \<Rightarrow> ExecutionFlags \<Rightarrow> TimingEvents \<Rightarrow> Trigger" where
  "trigger_of now epoch flags c =
     \<lparr>batch = \<lparr>tr_epoch = epoch, tr_label = tp_label (tpoint c), fire_tick = now,
               tr_events = filter (enabled flags) (te_events c)\<rparr>,
      cancelled = filter (\<lambda>e. \<not> enabled flags e) (te_events c),
      trigger_sync = synchronizations (tpoint c)\<rparr>"

definition run_checks :: "preflight_check \<Rightarrow> sync_check \<Rightarrow> Trigger \<Rightarrow> Trigger option result" where
  "run_checks preflight sync_preflight t =
     bindE (preflight (batch t)) (\<lambda>_.
     bindE (if trigger_sync t \<noteq> []
            then (case sync_preflight of
                    None \<Rightarrow> Inl UnsupportedSynchronization
                  | Some check \<Rightarrow> check (trigger_sync t))
            else Inr ()) (\<lambda>_.
     Inr (Some t)))"

text \<open>
  On a related state, preparing a trigger is exactly the abstract trigger of the queue's head:
  all of its events whose flag is set are fired, in the order of the request, and the others are
  cancelled. Nothing in the queues can be missing, stale, duplicated or foreign.
\<close>

lemma prepare_trigger_refines:
  assumes "tcu_rel epoch ((c, d) # q) s"
  shows "prepare_trigger now epoch st preflight sync_preflight s =
    (if \<not> due_now st s then Inr None
     else if d \<noteq> cycle st then Inl LateAdmission
     else if \<not> list_all (flags_readable (tcu_flags s)) (te_events c) then Inl InvalidOperand
     else run_checks preflight sync_preflight (trigger_of now epoch (tcu_flags s) c))"
proof (cases "due_now st s \<and> d = cycle st")
  case False
  with assms show ?thesis
    by (auto simp: prepare_trigger_def due_now_def tcu_rel_def queues_match_def Let_def)
next
  case True
  have t: "timing s = \<lparr>pt_point = tpoint c, pt_due = d\<rparr> # map (\<lambda>(c, d). \<lparr>pt_point = tpoint c, pt_due = d\<rparr>) q"
    and ok: "request_ok (config_of s) c"
    using assms by (auto simp: tcu_rel_defs)
  obtain g where g: "foldE (gather_queue epoch (tp_label (tpoint c))) (port_events s) [] = Inr g"
    "length g = length (te_events c)" "\<forall>e\<in>set (te_events c). om_find (oe_id e) g = Some e"
    using gather_head [of "(c, d)" q s epoch] assms by (auto simp: tcu_rel_def request_label_def)
  have man: "manifest (tpoint c) = map oe_id (te_events c)" using ok by (simp add: request_ok_def)
  have "\<not> (\<not> running st \<or> paused (ts_pause st) \<or> timing s = [] \<or> cycle st < pt_due (hd (timing s)))"
    using True by (auto simp: due_now_def)
  with True t g select_events [OF g(3), of "tcu_flags s" "[]" "[]"] show ?thesis
    by (simp add: prepare_trigger_def Let_def man trigger_of_def run_checks_def due_now_def)
qed

lemma prepare_trigger_empty: "timing s = [] \<Longrightarrow> prepare_trigger now epoch st pf sp s = Inr None"
  by (simp add: prepare_trigger_def)

lemma commit_trigger_rel:
  assumes "tcu_rel epoch ((c, d) # q) s"
  shows "tcu_rel epoch q (fst (commit_trigger now epoch cyc t s))"
proof -
  let ?s = "fst (commit_trigger now epoch cyc t s)"
  have ok: "requests_ok epoch ((c, d) # q) s" using assms by (simp add: tcu_rel_def)
  have f: "?s = s\<lparr>triggered_policy := policy_after (tpoint c) (triggered_policy s),
      sync_size := sub64 (sync_size s) (length (synchronizations (tpoint c))),
      port_events := map (dropWhile (\<lambda>e. oe_label e = tp_label (tpoint c))) (port_events s),
      timing := tl (timing s)\<rparr>"
    using assms by (simp add: commit_trigger_def Let_def tcu_rel_defs)
  have "queues_match q ?s"
    using assms head_queue_split(2) [OF ok] by (simp add: f tcu_rel_def queues_match_def request_label_def o_def)
  moreover have "requests_ok epoch q ?s"
    using ok upt_conv_Cons [of "last_label s - length q" "last_label s + 1"]
    by (simp add: f requests_ok_def Suc_diff_le del: upt_Suc)
  moreover have "bounds_ok q ?s"
    using assms by (auto simp: f tcu_rel_def bounds_ok_def sync_count_def)
  ultimately show ?thesis by (simp add: tcu_rel_def)
qed

subsection \<open>Admitting a request\<close>

lemma push_events:
  "(\<forall>e\<in>set es. unat (es_port (action e)) < n) \<Longrightarrow>
   fold push_event es (map f [0..<n]) = map (\<lambda>p. f p @ filter (on_port p) es) [0..<n]"
proof (induction es arbitrary: f)
  case (Cons e es)
  have "push_event e (map f [0..<n]) = map (\<lambda>p. f p @ (if on_port p e then [e] else [])) [0..<n]"
    using Cons.prems by (intro nth_equalityI) (auto simp: push_event_def on_port_def nth_list_update)
  with Cons show ?case by (simp add: o_def)
qed simp

lemma prepare_admission_facts:
  assumes "prepare_admission now epoch c p s = Inr (Some due)"
  shows "request_ok (config_of s) c" and "tp_epoch (tpoint c) = epoch" and "\<not> tcu_closed s"
    and "tp_label (tpoint c) = last_label s + 1" and "queue_space c s"
    and "due = last_due s + (if last_label s = 0 then tp_interval (tpoint c) else max 1 (tp_interval (tpoint c)))"
    and "meets_deadline now (start_tick s + paused_ticks s + due * period (tcu_clock (tcu_profile s))) p s"
  using assms
  by (auto simp: prepare_admission_def Let_def validate_timing_events_iff dest!: checked_add_sum
      split: if_splits)

lemma commit_admission_rel:
  assumes rel: "tcu_rel epoch q s" and a: "prepare_admission now epoch c p s0 = Inr (Some due)"
    and s0: "tcu_profile s = tcu_profile s0" "last_label s = last_label s0" "last_due s = last_due s0"
      "sync_capacity s = sync_capacity s0"
    and space: "queue_space c s"
  shows "tcu_rel epoch (q @ [(c, due)]) (fst (commit_admission now epoch cyc c due s))"
proof -
  let ?s = "fst (commit_admission now epoch cyc c due s)"
  note f = prepare_admission_facts [OF a]
  have lab: "length q \<le> last_label s" "map request_label q = [last_label s + 1 - length q..<last_label s + 1]"
    using rel by (auto simp: tcu_rel_defs)
  have ports: "\<forall>e\<in>set (te_events c). unat (es_port (action e)) < unat (tc_ports (config_of s))"
    using f(1) s0(1) by (auto simp: request_ok_def event_ok_def word_less_nat_alt)
  have pe: "port_events s = map (\<lambda>p. concat (map (port_part p) q)) [0..<unat (tc_ports (config_of s))]"
    using rel by (simp add: tcu_rel_defs)
  have "queues_match (q @ [(c, due)]) ?s"
    using rel push_events [OF ports]
    by (simp add: commit_admission_def tcu_rel_def queues_match_def port_part_def)
  moreover have "requests_ok epoch (q @ [(c, due)]) ?s"
  proof -
    have "map request_label (q @ [(c, due)]) = [last_label s + 1 - length q..<last_label s + 2]"
      using lab f(4) s0(2) by (simp add: request_label_def)
    moreover have "\<forall>r\<in>set q. snd r < due"
    proof
      fix r assume r: "r \<in> set q"
      then have "snd r \<le> last_due s" using rel by (auto simp: tcu_rel_defs)
      moreover have "last_label s \<noteq> 0" using r lab(1) by (cases q) auto
      ultimately show "snd r < due" using f(6) s0 by simp
    qed
    ultimately show ?thesis
      using rel lab(1) f s0 unfolding tcu_rel_def requests_ok_def
      by (auto simp: commit_admission_def sorted_wrt_append less_imp_le simp del: upt_Suc)
  qed
  moreover have "bounds_ok (q @ [(c, due)]) ?s"
  proof -
    have "length (port_events s ! p) + length (port_part p (c, due)) \<le> unat (tc_event_capacity (config_of s))"
      if "p < unat (tc_ports (config_of s))" for p
      using space that pe unfolding queue_space_def by (simp add: list_all_iff port_part_def)
    then have "length (concat (map (port_part p) (q @ [(c, due)]))) \<le> unat (tc_event_capacity (config_of s))"
      if "p < unat (tc_ports (config_of s))" for p
      using that pe by simp
    moreover have "length q < unat (tcu_timing_capacity (tcu_profile s))"
      using rel space by (simp add: queue_space_def tcu_rel_def queues_match_def)
    moreover have "sync_size s + sync_count (c, due) \<le> sync_capacity s"
      using rel space unfolding queue_space_def tcu_rel_def bounds_ok_def sync_count_def by fastforce
    ultimately show ?thesis
      using rel unfolding tcu_rel_def bounds_ok_def
      by (simp add: commit_admission_def sync_count_def)
  qed
  ultimately show ?thesis by (simp add: tcu_rel_def)
qed

lemma queue_space_after_trigger:
  assumes "tcu_rel epoch ((c', d) # q) s" and "queue_space c s"
  shows "queue_space c (fst (commit_trigger now epoch cyc t s))"
proof -
  have "length (dropWhile P xs) + n \<le> m" if "length xs + n \<le> m" for P :: "OperationEvent \<Rightarrow> bool" and xs n m
    using that length_dropWhile_le [of P xs] by linarith
  moreover have "sync_size s = sync_count (c', d) + sum_list (map sync_count q)" "sync_size s \<le> sync_capacity s"
    "sync_capacity s \<le> tick_max" "pt_point (hd (timing s)) = tpoint c'"
    using assms(1) by (auto simp: tcu_rel_defs)
  ultimately show ?thesis
    using assms(2) by (auto simp: queue_space_def commit_trigger_def Let_def list_all_iff sync_count_def)
qed

subsection \<open>One clock edge\<close>

text \<open>
  What one edge does to the abstract queue: the head leaves when it is triggered, the candidate
  is appended when it is admitted.
\<close>

definition queue_after :: "request_queue \<Rightarrow> bool \<Rightarrow> (TimingEvents \<times> TcuCycle) option \<Rightarrow> request_queue" where
  "queue_after q triggered entry =
     (if triggered then tl q else q) @ (case entry of None \<Rightarrow> [] | Some r \<Rightarrow> [r])"

lemma tcu_step_cases:
  assumes "tcu_step now epoch cand results pf sp spf s = Inr (s', out, tr)"
  obtains trigger due flags ticks where
    "edge (tcu_clock (tcu_profile s)) now"
    "prepare_trigger now epoch (current_timing_state now sp s) pf spf s = Inr trigger"
    "(case cand of None \<Rightarrow> Inr None
      | Some c \<Rightarrow> prepare_admission now epoch c (ts_pause (current_timing_state now sp s)) s) = Inr due"
    "foldE (\<lambda>r. commit_flags r epoch) results (tcu_flags s) = Inr flags"
    "ticks = (if paused (ts_pause (current_timing_state now sp s))
       then paused_ticks s + period (tcu_clock (tcu_profile s)) else paused_ticks s)"
    "s' = (let st = current_timing_state now sp s;
        s1 = (case trigger of None \<Rightarrow> s | Some t \<Rightarrow> fst (commit_trigger now epoch (cycle st) t s));
        s2 = (case (cand, due) of (Some c, Some d) \<Rightarrow> fst (commit_admission now epoch (cycle st) c d s1) | _ \<Rightarrow> s1)
      in s2\<lparr>tcu_flags := flags, tcu_pause := ts_pause st, paused_ticks := ticks\<rparr>)"
    "out = \<lparr>admitted = (due \<noteq> None), launch = map_option batch trigger,
      fast_delivered = map reference (current_results epoch results),
      out_synchronizations = (case trigger of None \<Rightarrow> [] | Some t \<Rightarrow> trigger_sync t)\<rparr>"
proof -
  from assms obtain trigger due flags ticks where
    1: "edge (tcu_clock (tcu_profile s)) now"
      "prepare_trigger now epoch (current_timing_state now sp s) pf spf s = Inr trigger"
      "(case cand of None \<Rightarrow> Inr None
        | Some c \<Rightarrow> prepare_admission now epoch c (ts_pause (current_timing_state now sp s)) s) = Inr due"
      "foldE (\<lambda>r. commit_flags r epoch) results (tcu_flags s) = Inr flags"
      "(if paused (ts_pause (current_timing_state now sp s))
        then checked_add (paused_ticks s) (period (tcu_clock (tcu_profile s)))
        else Inr (paused_ticks s)) = Inr ticks"
    unfolding tcu_step_def Let_def require_eq_Inr bindE_eq_Inr by blast
  show ?thesis
  proof (rule that [OF 1(1-4)])
    show "ticks = (if paused (ts_pause (current_timing_state now sp s))
       then paused_ticks s + period (tcu_clock (tcu_profile s)) else paused_ticks s)"
      using 1(5) by (auto dest: checked_add_sum split: if_splits)
  next
    from assms 1 show "s' = (let st = current_timing_state now sp s;
        s1 = (case trigger of None \<Rightarrow> s | Some t \<Rightarrow> fst (commit_trigger now epoch (cycle st) t s));
        s2 = (case (cand, due) of (Some c, Some d) \<Rightarrow> fst (commit_admission now epoch (cycle st) c d s1) | _ \<Rightarrow> s1)
      in s2\<lparr>tcu_flags := flags, tcu_pause := ts_pause st, paused_ticks := ticks\<rparr>)"
      by (auto simp: tcu_step_def Let_def update_pause_state_def split: option.splits prod.splits)
  next
    from assms 1 show "out = \<lparr>admitted = (due \<noteq> None), launch = map_option batch trigger,
      fast_delivered = map reference (current_results epoch results),
      out_synchronizations = (case trigger of None \<Rightarrow> [] | Some t \<Rightarrow> trigger_sync t)\<rparr>"
      by (auto simp: tcu_step_def Let_def update_pause_state_def split: option.splits prod.splits)
  qed
qed

lemma tcu_rel_cong:
  assumes "tcu_rel epoch q s"
  shows "tcu_rel epoch q (s\<lparr>tcu_flags := f, tcu_pause := p, paused_ticks := t\<rparr>)"
    and "tcu_rel epoch q (s\<lparr>tcu_closed := b\<rparr>)"
  using assms by (simp_all add: tcu_rel_defs)

definition head_trigger :: "Tick \<Rightarrow> Epoch \<Rightarrow> request_queue \<Rightarrow> TcuState \<Rightarrow> Trigger option \<Rightarrow> bool" where
  "head_trigger now epoch q s trigger \<longleftrightarrow> (case trigger of
      None \<Rightarrow> True
    | Some t \<Rightarrow> q \<noteq> [] \<and> t = trigger_of now epoch (tcu_flags s) (fst (hd q)))"

lemma prepare_trigger_head:
  assumes "tcu_rel epoch q s" and "prepare_trigger now epoch st pf spf s = Inr trigger"
  shows "head_trigger now epoch q s trigger"
    and "trigger \<noteq> None \<Longrightarrow> running st \<and> \<not> paused (ts_pause st) \<and> snd (hd q) = cycle st"
    and "trigger = None \<Longrightarrow> running st \<Longrightarrow> \<not> paused (ts_pause st) \<Longrightarrow> q \<noteq> [] \<Longrightarrow> cycle st < snd (hd q)"
proof -
  have "head_trigger now epoch q s trigger \<and>
    (trigger \<noteq> None \<longrightarrow> running st \<and> \<not> paused (ts_pause st) \<and> snd (hd q) = cycle st) \<and>
    (trigger = None \<longrightarrow> running st \<longrightarrow> \<not> paused (ts_pause st) \<longrightarrow> q \<noteq> [] \<longrightarrow> cycle st < snd (hd q))"
  proof (cases q)
    case Nil
    then have "timing s = []" using assms(1) by (simp add: tcu_rel_defs)
    with assms(2) Nil show ?thesis by (simp add: prepare_trigger_empty head_trigger_def)
  next
    case (Cons r q')
    obtain c d where r: "r = (c, d)" by (cases r)
    have t: "timing s \<noteq> []" "pt_due (hd (timing s)) = d"
      using assms(1) Cons r by (auto simp: tcu_rel_defs)
    note p = prepare_trigger_refines [of epoch c d q' s now st pf spf]
    from assms Cons r p t show ?thesis
      by (auto simp: head_trigger_def run_checks_def due_now_def trigger_of_def split: if_splits)
  qed
  then show "head_trigger now epoch q s trigger"
    and "trigger \<noteq> None \<Longrightarrow> running st \<and> \<not> paused (ts_pause st) \<and> snd (hd q) = cycle st"
    and "trigger = None \<Longrightarrow> running st \<Longrightarrow> \<not> paused (ts_pause st) \<Longrightarrow> q \<noteq> [] \<Longrightarrow> cycle st < snd (hd q)"
    by auto
qed

definition admitted_entry :: "TimingEvents option \<Rightarrow> TcuCycle option \<Rightarrow> (TimingEvents \<times> TcuCycle) option" where
  "admitted_entry cand due = (case (cand, due) of (Some c, Some d) \<Rightarrow> Some (c, d) | _ \<Rightarrow> None)"

lemma tcu_step_rel:
  assumes rel: "tcu_rel epoch q s"
    and trig: "prepare_trigger now epoch st pf spf s = Inr trigger"
    and adm: "(case cand of None \<Rightarrow> Inr None | Some c \<Rightarrow> prepare_admission now epoch c p s) = Inr due"
    and s1: "s1 = (case trigger of None \<Rightarrow> s | Some t \<Rightarrow> fst (commit_trigger now epoch cyc t s))"
    and s2: "s2 = (case (cand, due) of
      (Some c, Some d) \<Rightarrow> fst (commit_admission now epoch cyc c d s1) | _ \<Rightarrow> s1)"
  shows "tcu_rel epoch (queue_after q (trigger \<noteq> None) (admitted_entry cand due)) s2"
proof -
  let ?q = "if trigger \<noteq> None then tl q else q"
  note head = prepare_trigger_head(1) [OF rel trig]
  have rel1: "tcu_rel epoch ?q s1"
  proof (cases trigger)
    case None
    with rel s1 show ?thesis by simp
  next
    case (Some t)
    with head obtain c d q' where "q = (c, d) # q'" by (cases q) (auto simp: head_trigger_def)
    with rel s1 Some show ?thesis using commit_trigger_rel [of epoch c d q' s] by simp
  qed
  show ?thesis
  proof (cases "admitted_entry cand due")
    case None
    then have "s2 = s1" using s2 by (auto simp: admitted_entry_def split: option.splits)
    with rel1 None show ?thesis by (simp add: queue_after_def)
  next
    case (Some r)
    then obtain c d where c: "cand = Some c" "due = Some d" "r = (c, d)"
      by (auto simp: admitted_entry_def split: option.splits)
    with adm have a: "prepare_admission now epoch c p s = Inr (Some d)" by simp
    have "queue_space c s1"
    proof (cases trigger)
      case None
      with prepare_admission_facts(5) [OF a] s1 show ?thesis by simp
    next
      case (Some t)
      with head obtain c' d' q' where "q = (c', d') # q'" by (cases q) (auto simp: head_trigger_def)
      with rel s1 Some prepare_admission_facts(5) [OF a] show ?thesis
        using queue_space_after_trigger [of epoch c' d' q' s c] by simp
    qed
    moreover have "tcu_profile s1 = tcu_profile s" "last_label s1 = last_label s" "last_due s1 = last_due s"
      "sync_capacity s1 = sync_capacity s"
      by (auto simp: s1 commit_trigger_def Let_def split: option.splits)
    ultimately show ?thesis
      using commit_admission_rel [OF rel1 a] s2 c Some by (simp add: queue_after_def)
  qed
qed

section \<open>Clocked executions\<close>

text \<open>
  The executions the simulator makes: the unit is stepped on consecutive edges of its clock, may
  be closed in between, and may be reset, which skips the edges up to and including the reset
  tick. The relation carries the tick of the next edge and the abstract queue.
\<close>

definition entry_of :: "TimingEvents option \<Rightarrow> TcuOutput \<Rightarrow> TcuState \<Rightarrow> (TimingEvents \<times> TcuCycle) option" where
  "entry_of cand out s' = (if admitted out then map_option (\<lambda>c. (c, last_due s')) cand else None)"

inductive tcu_reach :: "TcuConfig \<Rightarrow> nat \<Rightarrow> Epoch \<Rightarrow> Tick \<Rightarrow> request_queue \<Rightarrow> TcuState \<Rightarrow> bool"
  for cfg cap where
  power_on: "tcu_new cfg cap = Inr s \<Longrightarrow> tcu_reach cfg cap epoch (phase (tcu_clock cfg)) [] s"
| clock_edge: "tcu_reach cfg cap epoch now q s \<Longrightarrow>
     tcu_step now epoch cand results pf sp spf s = Inr (s', out, tr) \<Longrightarrow>
     now + period (tcu_clock cfg) \<le> tick_max \<Longrightarrow>
     tcu_reach cfg cap epoch (now + period (tcu_clock cfg))
       (queue_after q (launch out \<noteq> None) (entry_of cand out s')) s'"
| closing: "tcu_reach cfg cap epoch now q s \<Longrightarrow> tcu_close l s = Inr s' \<Longrightarrow>
     tcu_reach cfg cap epoch now q s'"
| session_reset: "tcu_reach cfg cap epoch now q s \<Longrightarrow> origin \<le> tick_max \<Longrightarrow> tcu_reset origin s = Inr s' \<Longrightarrow>
     after (tcu_clock cfg) origin 1 = Inr now' \<Longrightarrow> tcu_reach cfg cap epoch' now' [] s'"

definition tcu_config_ok :: "TcuConfig \<Rightarrow> nat \<Rightarrow> bool" where
  "tcu_config_ok cfg cap \<longleftrightarrow> valid_clock (tcu_clock cfg) \<and> period (tcu_clock cfg) \<le> tick_max \<and>
     edge (tcu_clock cfg) (tcu_start cfg) \<and> tcu_start cfg \<le> tick_max \<and> cap \<le> tick_max"

definition tcu_timed :: "Tick \<Rightarrow> request_queue \<Rightarrow> TcuState \<Rightarrow> bool" where
  "tcu_timed now q s \<longleftrightarrow>
     (let P = period (tcu_clock (tcu_profile s)) in
      valid_clock (tcu_clock (tcu_profile s)) \<and>
      edge (tcu_clock (tcu_profile s)) now \<and> edge (tcu_clock (tcu_profile s)) (start_tick s) \<and>
      now \<le> tick_max \<and>
      (now < start_tick s \<longrightarrow> paused_ticks s = 0) \<and>
      (start_tick s \<le> now \<longrightarrow>
         (\<exists>k. now = start_tick s + paused_ticks s + k * P \<and> (\<forall>r\<in>set q. k \<le> snd r))))"

lemma timed_cycle:
  assumes "tcu_timed now q s" and "start_tick s \<le> now"
  shows "now = start_tick s + paused_ticks s +
      cycle (current_timing_state now sp s) * period (tcu_clock (tcu_profile s))"
    and "r \<in> set q \<Longrightarrow> cycle (current_timing_state now sp s) \<le> snd r"
proof -
  let ?P = "period (tcu_clock (tcu_profile s))"
  from assms obtain k where k: "now = start_tick s + paused_ticks s + k * ?P" "\<forall>r\<in>set q. k \<le> snd r"
    and P: "0 < ?P" and now: "now \<le> tick_max" by (auto simp: tcu_timed_def Let_def valid_clock_def)
  have "sub64 now (start_tick s) = paused_ticks s + k * ?P"
    using k(1) now by simp
  then have "sub64 (sub64 now (start_tick s)) (paused_ticks s) = k * ?P"
    using k(1) now by simp
  with assms(2) P have "cycle (current_timing_state now sp s) = k"
    by (simp add: current_timing_state_def Let_def)
  with k show "now = start_tick s + paused_ticks s +
      cycle (current_timing_state now sp s) * ?P"
    and "r \<in> set q \<Longrightarrow> cycle (current_timing_state now sp s) \<le> snd r" by auto
qed

lemma timed_start:
  assumes "valid_clock (tcu_clock (tcu_profile s))" "edge (tcu_clock (tcu_profile s)) now"
    "edge (tcu_clock (tcu_profile s)) (start_tick s)" "now \<le> tick_max" "paused_ticks s = 0"
  shows "tcu_timed now [] s"
  using assms edges_apart [OF assms(3,2)] by (auto simp: tcu_timed_def Let_def)

lemma admission_after_cycle:
  assumes "tcu_timed now q s" and "start_tick s \<le> now"
    and "prepare_admission now epoch c (ts_pause (current_timing_state now sp s)) s = Inr (Some due)"
  shows "cycle (current_timing_state now sp s) \<le> due"
    and "\<not> paused (ts_pause (current_timing_state now sp s)) \<Longrightarrow> cycle (current_timing_state now sp s) < due"
proof -
  let ?P = "period (tcu_clock (tcu_profile s))" and ?st = "current_timing_state now sp s"
  have P: "0 < ?P" using assms(1) by (simp add: tcu_timed_def Let_def valid_clock_def)
  have now: "now = start_tick s + paused_ticks s + cycle ?st * ?P" by (rule timed_cycle(1) [OF assms(1,2)])
  note m = prepare_admission_facts(7) [OF assms(3)]
  have "cycle ?st * ?P \<le> due * ?P" using m now unfolding meets_deadline_def by linarith
  then show "cycle ?st \<le> due" using P by simp
  assume "\<not> paused (ts_pause ?st)"
  then have "\<not> instruction_supply (ts_pause ?st)" by (simp add: paused_def)
  with m have "now < start_tick s + paused_ticks s + due * ?P" by (auto simp: meets_deadline_def)
  with now have "cycle ?st * ?P < due * ?P" by linarith
  then show "cycle ?st < due" by simp
qed

lemma step_frame:
  assumes "tcu_step now epoch cand results pf sp spf s = Inr (s', out, tr)"
  shows "tcu_profile s' = tcu_profile s" and "start_tick s' = start_tick s"
    and "paused_ticks s' = (if paused (ts_pause (current_timing_state now sp s))
       then paused_ticks s + period (tcu_clock (tcu_profile s)) else paused_ticks s)"
  using assms
  by (elim tcu_step_cases; auto simp: Let_def commit_trigger_def commit_admission_def split: option.splits)+

lemma step_dues:
  assumes rel: "tcu_rel epoch q s" and timed: "tcu_timed now q s" and run: "start_tick s \<le> now"
    and st: "st = current_timing_state now sp s"
    and trig: "prepare_trigger now epoch st pf spf s = Inr trigger"
    and adm: "(case cand of None \<Rightarrow> Inr None | Some c \<Rightarrow> prepare_admission now epoch c (ts_pause st) s) = Inr due"
    and r: "r \<in> set (queue_after q (trigger \<noteq> None) (admitted_entry cand due))"
  shows "cycle st + (if paused (ts_pause st) then 0 else 1) \<le> snd r"
proof -
  have runs: "running st" using run st by (simp add: current_timing_state_def Let_def)
  have sorted: "sorted_wrt (<) (map snd q)" using rel by (simp add: tcu_rel_defs)
  note pt = prepare_trigger_head [OF rel trig]
  from r consider (old) "r \<in> set (if trigger \<noteq> None then tl q else q)"
    | (new) "admitted_entry cand due = Some r"
    by (auto simp: queue_after_def split: option.splits if_splits)
  then show ?thesis
  proof cases
    case new
    then obtain c d where "cand = Some c" "due = Some d" "r = (c, d)"
      by (auto simp: admitted_entry_def split: option.splits)
    with adm admission_after_cycle [OF timed run, of epoch c sp d] st show ?thesis by auto
  next
    case old
    have le: "cycle st \<le> snd r" if "r \<in> set q" using timed_cycle(2) [OF timed run that] st by simp
    show ?thesis
    proof (cases q)
      case Nil
      with old show ?thesis by (simp split: if_splits)
    next
      case (Cons h q')
      have tail: "snd h < snd r" if "r \<in> set q'" using that sorted Cons by auto
      show ?thesis
      proof (cases "paused (ts_pause st)")
        case True
        with pt(2) have "trigger = None" by blast
        with old le True show ?thesis by simp
      next
        case False
        show ?thesis
        proof (cases trigger)
          case None
          with pt(3) runs False Cons have "cycle st < snd h" by simp
          with None old Cons tail False show ?thesis by force
        next
          case (Some t)
          with pt(2) Cons have "snd h = cycle st" by auto
          with Some old Cons tail False show ?thesis by force
        qed
      qed
    qed
  qed
qed

lemma step_timed:
  assumes rel: "tcu_rel epoch q s" and timed: "tcu_timed now q s"
    and step: "tcu_step now epoch cand results pf sp spf s = Inr (s', out, tr)"
    and bound: "now + period (tcu_clock (tcu_profile s)) \<le> tick_max"
    and q': "q' = queue_after q (launch out \<noteq> None) (entry_of cand out s')"
  shows "tcu_rel epoch q' s' \<and> tcu_timed (now + period (tcu_clock (tcu_profile s))) q' s'"
proof -
  let ?P = "period (tcu_clock (tcu_profile s))" and ?st = "current_timing_state now sp s"
  obtain trigger due flags ticks where
    trig: "prepare_trigger now epoch ?st pf spf s = Inr trigger"
    and adm: "(case cand of None \<Rightarrow> Inr None | Some c \<Rightarrow> prepare_admission now epoch c (ts_pause ?st) s) = Inr due"
    and s': "s' = (let st = ?st;
        s1 = (case trigger of None \<Rightarrow> s | Some t \<Rightarrow> fst (commit_trigger now epoch (cycle st) t s));
        s2 = (case (cand, due) of (Some c, Some d) \<Rightarrow> fst (commit_admission now epoch (cycle st) c d s1) | _ \<Rightarrow> s1)
      in s2\<lparr>tcu_flags := flags, tcu_pause := ts_pause st, paused_ticks := ticks\<rparr>)"
    and o: "out = \<lparr>admitted = (due \<noteq> None), launch = map_option batch trigger,
      fast_delivered = map reference (current_results epoch results),
      out_synchronizations = (case trigger of None \<Rightarrow> [] | Some t \<Rightarrow> trigger_sync t)\<rparr>"
    by (rule tcu_step_cases [OF step])
  have out: "admitted out = (due \<noteq> None)" "launch out = map_option batch trigger" by (simp_all add: o)
  have cand: "due \<noteq> None \<Longrightarrow> cand \<noteq> None" using adm by (auto split: option.splits)
  have ent: "entry_of cand out s' = admitted_entry cand due"
    using cand by (auto simp: entry_of_def out admitted_entry_def s' Let_def commit_admission_def
        split: option.splits)
  have eq: "q' = queue_after q (trigger \<noteq> None) (admitted_entry cand due)"
    using q' ent out(2) by simp
  have "tcu_rel epoch q' s'"
    using tcu_step_rel [OF rel trig adm refl refl, of "cycle ?st"] tcu_rel_cong(1)
    unfolding eq s' Let_def by blast
  moreover have "tcu_timed (now + ?P) q' s'"
  proof -
    note fr = step_frame [OF step]
    have cl: "valid_clock (tcu_clock (tcu_profile s))" "edge (tcu_clock (tcu_profile s)) now"
      "edge (tcu_clock (tcu_profile s)) (start_tick s)"
      using timed by (auto simp: tcu_timed_def Let_def)
    have e: "edge (tcu_clock (tcu_profile s)) (now + ?P)" using edge_next [OF cl(2), of 1] by simp
    have "now + ?P < start_tick s \<longrightarrow> paused_ticks s' = 0"
      using fr(3) timed by (auto simp: tcu_timed_def Let_def current_timing_state_def paused_def)
    moreover have "\<exists>k. now + ?P = start_tick s + paused_ticks s' + k * ?P \<and> (\<forall>r\<in>set q'. k \<le> snd r)"
      if late: "start_tick s \<le> now + ?P"
    proof (cases "start_tick s \<le> now")
      case True
      let ?k = "cycle ?st + (if paused (ts_pause ?st) then 0 else 1)"
      have "\<forall>r\<in>set q'. ?k \<le> snd r"
        using step_dues [OF rel timed True refl trig adm] eq by blast
      moreover have "now + ?P = start_tick s + paused_ticks s' + ?k * ?P"
        using timed_cycle(1) [OF timed True, of sp] fr(3) by (simp add: algebra_simps)
      ultimately show ?thesis by blast
    next
      case False
      then have "now + ?P \<le> start_tick s" using edge_gap [OF cl(1,2,3)] by simp
      with late have "now + ?P = start_tick s" by simp
      moreover have "paused_ticks s' = 0"
        using False fr(3) timed by (simp add: tcu_timed_def Let_def current_timing_state_def paused_def)
      ultimately show ?thesis by (intro exI [of _ 0]) simp
    qed
    ultimately show ?thesis
      using cl e bound unfolding tcu_timed_def Let_def fr(1,2) by blast
  qed
  ultimately show ?thesis ..
qed

lemma reach_invariant:
  assumes "tcu_reach cfg cap epoch now q s" and "tcu_config_ok cfg cap"
  shows "tcu_profile s = cfg \<and> tcu_rel epoch q s \<and> tcu_timed now q s"
  using assms(1)
proof induction
  case (power_on s epoch)
  then have s: "tcu_profile s = cfg" "timing s = []" "start_tick s = tcu_start cfg" "paused_ticks s = 0"
    "port_events s = replicate (unat (tc_ports (tcu_timing cfg))) []" "sync_size s = 0"
    "sync_capacity s = cap" by (auto simp: tcu_new_def)
  have "phase (tcu_clock cfg) \<le> tick_max" "edge (tcu_clock cfg) (phase (tcu_clock cfg))"
    using assms(2) by (auto simp: tcu_config_ok_def valid_clock_def edge_def)
  with s assms(2) timed_start [of s "phase (tcu_clock cfg)"] show ?case
    by (simp add: tcu_rel_defs tcu_config_ok_def map_replicate_const)
next
  case (clock_edge epoch now q s cand results pf sp spf s' out tr)
  then show ?case using step_timed [of epoch q s now] step_frame(1) by auto
next
  case (closing epoch now q s l s')
  then show ?case using tcu_rel_cong(2) by (auto simp: tcu_close_def tcu_timed_def Let_def)
next
  case (session_reset epoch now q s origin s' now' epoch')
  let ?c = "tcu_clock cfg"
  from session_reset obtain start where
    st: "(if edge ?c (origin + tcu_start cfg) then Inr (origin + tcu_start cfg)
          else after ?c (origin + tcu_start cfg) 1) = Inr start"
    and s': "s' = s\<lparr>timing := [], port_events := map (\<lambda>_. []) (port_events s),
            tcu_flags := reset_flags (tcu_flags s), last_due := 0, last_label := 0,
            tcu_closed := False, admitted_policy := Strict, triggered_policy := Strict,
            tcu_pause := no_pause, paused_ticks := 0, sync_size := 0, start_tick := start\<rparr>"
    by (auto simp: tcu_reset_def)
  have "edge ?c start" using st after_later by (auto split: if_splits)
  moreover have "edge ?c now'" "now' \<le> tick_max"
    using session_reset.hyps(4) after_later after_fits [OF _ session_reset.hyps(4)] assms(2)
    by (auto simp: tcu_config_ok_def)
  ultimately have "tcu_timed now' [] s'"
    using assms(2) session_reset.IH by (intro timed_start) (auto simp: s' tcu_config_ok_def)
  moreover have "tcu_rel epoch' [] s'"
    using session_reset.IH by (auto simp: s' tcu_rel_defs)
  ultimately show ?case using session_reset.IH by (simp add: s')
qed

end
