(* ===== verification/Example_Config.thy ===== *)
theory Example_Config
  imports Control_Protocol
begin

text \<open>
  A small configuration on which the theorems of the control path are instantiated: one port,
  one qubit, one codeword that is mapped to an X gate, capacities of a few entries.
\<close>

definition example_action :: EventSpec where
  "example_action = \<lparr>es_port = 0, es_delay = 0, es_duration = 20, spec = SpecGate
     \<lparr>gate_operation = ''X'', gate_operands = \<lparr>op_targets = [0], op_resources = []\<rparr>,
      gate_amplitude = Finite 1 0, gate_flag = Always\<rparr>\<rparr>"

definition example_timing :: TimingConfig where
  "example_timing = \<lparr>tc_event_capacity = 4, tc_staging_capacity = 4, tc_ports = 1, tc_qubits = 1,
     tc_firing_width = 2, tc_fast_feedback = False, tc_configuration = ''p'',
     tc_mappings = [(0, 7) \<mapsto> \<lparr>map_port = 0, map_codeword = 7, map_actions = [example_action]\<rparr>]\<rparr>"

definition example_event :: OperationEvent where
  "example_event = \<lparr>oe_epoch = 1, oe_id = 1, oe_instruction = 1, oe_label = 1, source_port = 0,
     oe_codeword = 7, action = example_action, oe_reference = None, oe_core = None\<rparr>"

definition example_request :: TimingEvents where
  "example_request = \<lparr>tpoint = \<lparr>tp_epoch = 1, tp_label = 1, tp_interval = 1, manifest = [1],
     synchronizations = [], underflow_policy = Strict\<rparr>, te_events = [example_event], te_configuration = ''p''\<rparr>"

lemmas example_data = example_action_def example_timing_def example_event_def example_request_def

lemma example_valid: "validate_timing_events example_request example_timing = Inr ()"
  by (simp add: validate_timing_events_def validate_event_def example_data tc_mapping_def
      event_spec_eq_def amplitude_def)

end
