(* ===== verification/Tcu_Properties.thy ===== *)
theory Tcu_Properties
  imports Tcu Example_Config
begin

text \<open>
  The guarantees of the timing control unit over its clocked executions: a time point fires
  exactly on its own edge and with exactly its own enabled events, an admitted point can only be
  stopped by the checks of other components, the queues stay within the capacities of the
  profile, and a reset forgets the previous session.
\<close>

section \<open>Invariants that do not involve time\<close>

lemma flags_length:
  "foldE (\<lambda>c. commit_flags c epoch) cs fs = Inr fs' \<Longrightarrow> length fs' = length fs"
proof (induction cs arbitrary: fs)
  case (Cons c cs)
  then obtain f where f: "commit_flags c epoch fs = Inr f" "foldE (\<lambda>c. commit_flags c epoch) cs f = Inr fs'" by auto
  from f(1) have "length f = length fs" by (auto simp: commit_flags_def Let_def split: if_splits)
  with Cons.IH [OF f(2)] show ?case by simp
qed simp

lemma step_static:
  assumes "tcu_step now epoch cand results pf sp spf s = Inr (s', out, tr)"
  shows "length (tcu_flags s') = length (tcu_flags s)" and "sync_capacity s' = sync_capacity s"
proof -
  obtain trigger due flags ticks where
    fl: "foldE (\<lambda>r. commit_flags r epoch) results (tcu_flags s) = Inr flags"
    and s': "s' = (let st = current_timing_state now sp s;
        s1 = (case trigger of None \<Rightarrow> s | Some t \<Rightarrow> fst (commit_trigger now epoch (cycle st) t s));
        s2 = (case (cand, due) of (Some c, Some d) \<Rightarrow> fst (commit_admission now epoch (cycle st) c d s1) | _ \<Rightarrow> s1)
      in s2\<lparr>tcu_flags := flags, tcu_pause := ts_pause st, paused_ticks := ticks\<rparr>)"
    by (rule tcu_step_cases [OF assms])
  show "length (tcu_flags s') = length (tcu_flags s)"
    using flags_length [OF fl] by (simp add: s' Let_def)
  show "sync_capacity s' = sync_capacity s"
    by (simp add: s' Let_def commit_trigger_def commit_admission_def split: option.splits)
qed

lemma reach_static:
  assumes "tcu_reach cfg cap epoch now q s"
  shows "0 < cap \<and> sync_capacity s = cap \<and> tcu_profile s = cfg \<and>
    length (tcu_flags s) = unat (tc_qubits (tcu_timing cfg)) \<and>
    length (port_events s) = unat (tc_ports (tcu_timing cfg))"
  using assms
proof induction
  case (power_on s epoch)
  then show ?case by (auto simp: tcu_new_def execution_flags_def)
next
  case (clock_edge epoch now q s cand results pf sp spf s' out tr)
  note fr = step_frame(1) [OF clock_edge.hyps(2)] and st = step_static [OF clock_edge.hyps(2)]
  have "length (port_events s') = length (port_events s)"
  proof -
    have push: "length (fold push_event es qs) = length qs" for es qs
      by (induction es arbitrary: qs) (simp_all add: push_event_def)
    obtain trigger due flags ticks where
      "s' = (let st = current_timing_state now sp s;
        s1 = (case trigger of None \<Rightarrow> s | Some t \<Rightarrow> fst (commit_trigger now epoch (cycle st) t s));
        s2 = (case (cand, due) of (Some c, Some d) \<Rightarrow> fst (commit_admission now epoch (cycle st) c d s1) | _ \<Rightarrow> s1)
      in s2\<lparr>tcu_flags := flags, tcu_pause := ts_pause st, paused_ticks := ticks\<rparr>)"
      by (rule tcu_step_cases [OF clock_edge.hyps(2)])
    then show ?thesis
      by (simp add: Let_def commit_trigger_def commit_admission_def push split: option.splits)
  qed
  with clock_edge.IH fr st show ?case by simp
next
  case (closing epoch now q s l s')
  then show ?case by (auto simp: tcu_close_def)
next
  case (session_reset epoch now q s origin s' now' epoch')
  then show ?case by (auto simp: tcu_reset_def reset_flags_def split: if_splits)
qed

section \<open>Firing\<close>

text \<open>The tick at which the timer, with the pauses so far, reaches a cycle.\<close>

definition due_tick :: "TcuState \<Rightarrow> TcuCycle \<Rightarrow> Tick" where
  "due_tick s d = start_tick s + paused_ticks s + d * period (tcu_clock (tcu_profile s))"

lemma cycle_at_due:
  assumes "tcu_timed now q s" and "start_tick s \<le> now"
  shows "cycle (current_timing_state now sp s) = d \<longleftrightarrow> now = due_tick s d"
proof -
  have "0 < period (tcu_clock (tcu_profile s))"
    using assms(1) by (simp add: tcu_timed_def Let_def valid_clock_def)
  with timed_cycle(1) [OF assms, of sp] show ?thesis by (auto simp: due_tick_def)
qed

abbreviation timer_stopped :: "Tick \<Rightarrow> bool \<Rightarrow> TcuState \<Rightarrow> bool" where
  "timer_stopped now sp s \<equiv> paused (ts_pause (current_timing_state now sp s))"

definition launch_of :: "Tick \<Rightarrow> Epoch \<Rightarrow> bool \<Rightarrow> request_queue \<Rightarrow> TcuState \<Rightarrow> Trigger option" where
  "launch_of now epoch sp q s =
     (if start_tick s \<le> now \<and> \<not> timer_stopped now sp s \<and> q \<noteq> [] \<and> now = due_tick s (snd (hd q))
      then Some (trigger_of now epoch (tcu_flags s) (fst (hd q))) else None)"

lemma prepare_trigger_launch:
  assumes rel: "tcu_rel epoch q s" and timed: "tcu_timed now q s"
    and p: "prepare_trigger now epoch (current_timing_state now sp s) pf spf s = Inr trigger"
  shows "trigger = launch_of now epoch sp q s"
proof -
  let ?st = "current_timing_state now sp s"
  note h = prepare_trigger_head [OF rel p]
  have run: "running ?st \<longleftrightarrow> start_tick s \<le> now" by (simp add: current_timing_state_def Let_def)
  show ?thesis
  proof (cases trigger)
    case (Some t)
    then have t: "running ?st" "\<not> paused (ts_pause ?st)" "snd (hd q) = cycle ?st" "q \<noteq> []"
      "t = trigger_of now epoch (tcu_flags s) (fst (hd q))"
      using h(1,2) by (simp_all add: head_trigger_def)
    with cycle_at_due [OF timed, of sp "snd (hd q)"] run Some show ?thesis by (simp add: launch_of_def)
  next
    case None
    show ?thesis
    proof (rule ccontr)
      assume "trigger \<noteq> launch_of now epoch sp q s"
      with None have c: "start_tick s \<le> now" "\<not> paused (ts_pause ?st)" "q \<noteq> []"
        "now = due_tick s (snd (hd q))" by (auto simp: launch_of_def split: if_splits)
      with h(3) None run have "cycle ?st < snd (hd q)" by simp
      moreover have "cycle ?st = snd (hd q)" using cycle_at_due [OF timed c(1)] c(4) by simp
      ultimately show False by simp
    qed
  qed
qed

text \<open>
  C1. On a clock edge of any execution the timing control unit launches something exactly when
  its timer runs, some admitted time point is waiting, and the edge is the due tick of the
  earliest one: the start tick, plus the ticks the timer was paused, plus its due cycle times the
  clock period. What it launches are all events of that point whose execution flag is set, in the
  order of the request; its synchronizations go out with them. The queue then loses exactly that
  point, gains exactly the candidate that was admitted, and still represents the port queues.
\<close>

theorem tcu_fires_exactly_when_due:
  assumes "tcu_reach cfg cap epoch now q s" and "tcu_config_ok cfg cap"
    and "tcu_step now epoch cand results pf sp spf s = Inr (s', out, tr)"
    and "now + period (tcu_clock cfg) \<le> tick_max"
  shows "launch out = map_option batch (launch_of now epoch sp q s) \<and>
    out_synchronizations out = (case launch_of now epoch sp q s of None \<Rightarrow> [] | Some t \<Rightarrow> trigger_sync t) \<and>
    tcu_rel epoch (queue_after q (launch_of now epoch sp q s \<noteq> None) (entry_of cand out s')) s'"
proof -
  have prof: "tcu_profile s = cfg" and rel: "tcu_rel epoch q s" and timed: "tcu_timed now q s"
    using reach_invariant [OF assms(1,2)] by blast+
  obtain trigger and due :: "TcuCycle option" and flags :: ExecutionFlags and ticks :: Tick where
    p: "prepare_trigger now epoch (current_timing_state now sp s) pf spf s = Inr trigger"
    and o: "out = \<lparr>admitted = (due \<noteq> None), launch = map_option batch trigger,
      fast_delivered = map reference (current_results epoch results),
      out_synchronizations = (case trigger of None \<Rightarrow> [] | Some t \<Rightarrow> trigger_sync t)\<rparr>"
    by (rule tcu_step_cases [OF assms(3)])
  have "trigger = launch_of now epoch sp q s" by (rule prepare_trigger_launch [OF rel timed p])
  moreover have "tcu_rel epoch (queue_after q (launch out \<noteq> None) (entry_of cand out s')) s'"
    using step_timed [OF rel timed assms(3) _ refl] assms(4) prof by simp
  ultimately show ?thesis by (simp add: o)
qed

text \<open>
  C22. In every execution a time point that was admitted can always be triggered as far as the
  timing control unit itself is concerned. If preparing a trigger fails, the error is the one of
  a preflight check of another component on exactly the events or synchronizations to be
  launched, or a synchronization without a synchronization unit, or an event conditioned on a
  qubit outside the flag file; the internal errors of a missed deadline and of a mismatch between
  the time point's manifest and the port queues never occur.
\<close>

theorem tcu_trigger_errors:
  assumes "tcu_reach cfg cap epoch now q s" and "tcu_config_ok cfg cap"
    and "prepare_trigger now epoch (current_timing_state now sp s) pf spf s = Inl e"
  shows "q \<noteq> [] \<and> now = due_tick s (snd (hd q)) \<and>
    (let t = trigger_of now epoch (tcu_flags s) (fst (hd q)) in
      pf (batch t) = Inl e \<or>
      trigger_sync t \<noteq> [] \<and> (spf = None \<and> e = UnsupportedSynchronization \<or>
        (\<exists>check. spf = Some check \<and> check (trigger_sync t) = Inl e)) \<or>
      e = InvalidOperand \<and>
        (\<exists>x\<in>set (te_events (fst (hd q))). execution_flag (action x) \<noteq> Always \<and>
          unat (tc_qubits (tcu_timing cfg)) \<le> unat (hd (targets (action x)))))"
proof -
  let ?st = "current_timing_state now sp s"
  have rel: "tcu_rel epoch q s" and timed: "tcu_timed now q s"
    using reach_invariant [OF assms(1,2)] by blast+
  have len: "length (tcu_flags s) = unat (tc_qubits (tcu_timing cfg))" using reach_static [OF assms(1)] by simp
  show ?thesis
  proof (cases q)
    case Nil
    then have "timing s = []" using rel by (simp add: tcu_rel_defs)
    with assms(3) show ?thesis by (simp add: prepare_trigger_empty)
  next
    case (Cons r q')
    obtain c d where r: "r = (c, d)" by (cases r)
    note ref = prepare_trigger_refines [of epoch c d q' s now ?st pf spf]
    have due: "due_now ?st s" using ref rel assms(3) Cons r by (auto split: if_splits)
    then have run: "start_tick s \<le> now" by (simp add: due_now_def current_timing_state_def Let_def)
    have "pt_due (hd (timing s)) = d" using rel Cons r by (simp add: tcu_rel_defs)
    with due timed_cycle(2) [OF timed run, of r sp] Cons r have d: "cycle ?st = d" by (simp add: due_now_def)
    have e: "(if \<not> list_all (flags_readable (tcu_flags s)) (te_events c) then Inl InvalidOperand
       else run_checks pf spf (trigger_of now epoch (tcu_flags s) c)) = Inl e"
      using ref rel assms(3) Cons r due d by simp
    have "now = due_tick s d" using cycle_at_due [OF timed run] d by simp
    with e Cons r len show ?thesis
      by (auto simp: run_checks_def Let_def flags_readable_def list_all_iff not_less
          bindE_eq_Inl split: if_splits option.splits)
  qed
qed

section \<open>Bounds and sessions\<close>

text \<open>
  C32. In every execution the timing queue never holds more points than the profile's timing
  capacity, no port queue more events than its event capacity, and the queued synchronizations
  never exceed their capacity; the labels of the queued points are consecutive and end with the
  last admitted label, and their due cycles strictly increase.
\<close>

theorem tcu_queues_bounded:
  assumes "tcu_reach cfg cap epoch now q s" and "tcu_config_ok cfg cap"
  shows "length (timing s) \<le> unat (tcu_timing_capacity cfg) \<and>
    (\<forall>queue\<in>set (port_events s). length queue \<le> unat (tc_event_capacity (tcu_timing cfg))) \<and>
    sync_size s \<le> cap \<and>
    map (\<lambda>p. tp_label (pt_point p)) (timing s) = [last_label s + 1 - length (timing s)..<last_label s + 1] \<and>
    sorted_wrt (<) (map pt_due (timing s))"
proof -
  have prof: "tcu_profile s = cfg" and rel: "tcu_rel epoch q s"
    using reach_invariant [OF assms] by blast+
  have cap: "sync_capacity s = cap" using reach_static [OF assms(1)] by simp
  have t: "timing s = map (\<lambda>(c, d). \<lparr>pt_point = tpoint c, pt_due = d\<rparr>) q"
    using rel by (simp add: tcu_rel_defs)
  have "map (\<lambda>p. tp_label (pt_point p)) (timing s) = map request_label q"
    "map pt_due (timing s) = map snd q" "length (timing s) = length q"
    by (simp_all add: t request_label_def split_beta)
  note eq = this
  show ?thesis
    using rel unfolding tcu_rel_def queues_match_def requests_ok_def bounds_ok_def prof cap eq
    by (auto simp del: upt_Suc)
qed

text \<open>
  A reset leaves nothing of the previous session behind: the unit is in the very state it was
  constructed in, except that the timer starts on the first clock edge at or after the new
  epoch's origin plus the configured start tick.
\<close>

theorem tcu_reset_is_power_on:
  assumes "tcu_reach cfg cap epoch now q s" and "tcu_config_ok cfg cap"
    and "tcu_reset origin s = Inr s'"
  shows "\<exists>s0. tcu_new cfg cap = Inr s0 \<and> s' = s0\<lparr>start_tick := start_tick s'\<rparr> \<and>
    edge (tcu_clock cfg) (start_tick s') \<and> origin + tcu_start cfg \<le> start_tick s' \<and>
    (\<forall>u. edge (tcu_clock cfg) u \<and> origin + tcu_start cfg \<le> u \<longrightarrow> start_tick s' \<le> u)"
proof -
  let ?c = "tcu_clock cfg" and ?p = "origin + tcu_start cfg"
  have clock: "valid_clock ?c" using assms(2) by (simp add: tcu_config_ok_def)
  note st = reach_static [OF assms(1)]
  then have prof: "tcu_profile s = cfg" by blast
  from assms(3) obtain start where
    start: "(if edge ?c ?p then Inr ?p else after ?c ?p 1) = Inr start"
    and s': "s' = s\<lparr>timing := [], port_events := map (\<lambda>_. []) (port_events s),
            tcu_flags := reset_flags (tcu_flags s), last_due := 0, last_label := 0,
            tcu_closed := False, admitted_policy := Strict, triggered_policy := Strict,
            tcu_pause := no_pause, paused_ticks := 0, sync_size := 0, start_tick := start\<rparr>"
    unfolding tcu_reset_def prof bindE_eq_Inr by (auto dest!: checked_add_sum)
  have 1: "edge ?c start \<and> ?p \<le> start \<and> (\<forall>u. edge ?c u \<and> ?p \<le> u \<longrightarrow> start \<le> u)"
  proof (cases "edge ?c ?p")
    case False
    with start have a: "after ?c ?p 1 = Inr start" by simp
    have "start = first_edge ?c ?p" using after_Inr(3) [OF a] by (simp add: after_edge_def)
    then have "start \<le> u" if "edge ?c u" "?p \<le> u" for u
      using that False edges_after [OF clock, of u ?p] by (cases "u = ?p") auto
    with after_later [OF a] show ?thesis by auto
  qed (use start in auto)
  define s0 where "s0 = s'\<lparr>start_tick := tcu_start cfg\<rparr>"
  have "tcu_new cfg cap = Inr s0"
    using st by (simp add: tcu_new_def s0_def s' execution_flags_def reset_flags_def map_replicate_const)
  moreover have "s' = s0\<lparr>start_tick := start_tick s'\<rparr>" by (simp add: s0_def)
  moreover have "start_tick s' = start" by (simp add: s')
  ultimately show ?thesis using 1 by (intro exI [of _ s0]) simp
qed

section \<open>A concrete execution\<close>

text \<open>
  One port, one mapping with an X gate on qubit 0, a 20-tick clock. A request whose point is due
  one cycle after the start is admitted on the edge at tick 0 and fires on the edge at tick 20.
\<close>

definition example_tcu :: TcuConfig where
  "example_tcu = \<lparr>tcu_timing = example_timing,
     tcu_clock = \<lparr>period = 20, phase = 0\<rparr>, tcu_start = 0, tcu_timing_capacity = 4\<rparr>"

definition example_start :: TcuState where
  "example_start = \<lparr>tcu_profile = example_tcu, timing = [], port_events = [[]],
     tcu_flags = [empty_flags], last_due = 0, start_tick = 0, paused_ticks = 0,
     sync_capacity = 1, sync_size = 0, last_label = 0, tcu_closed = False,
     admitted_policy = Strict, triggered_policy = Strict, tcu_pause = no_pause\<rparr>"

definition example_armed :: TcuState where
  "example_armed = example_start\<lparr>timing := [\<lparr>pt_point = tpoint example_request, pt_due = 1\<rparr>],
     port_events := [[example_event]], last_due := 1, last_label := 1\<rparr>"

definition example_fired :: TcuState where
  "example_fired = example_armed\<lparr>timing := [], port_events := [[]]\<rparr>"

definition accept_all :: preflight_check where
  "accept_all _ = Inr ()"

lemma example_config_ok: "tcu_config_ok example_tcu 1"
  by (simp add: tcu_config_ok_def example_tcu_def example_timing_def valid_clock_def edge_def tick_max_def)

lemma example_new: "tcu_new example_tcu 1 = Inr example_start"
  by (simp add: tcu_new_def example_start_def example_tcu_def example_timing_def execution_flags_def)

lemmas example_step_simps = tcu_step_def Let_def edge_def current_timing_state_def paused_def no_pause_def
  prepare_trigger_def prepare_admission_def checked_add_def checked_mul_def tick_max_def sub64_def
  commit_admission_def push_event_def update_pause_state_def current_results_def meets_deadline_def
  queue_space_def policy_after_def on_port_def

lemma example_admit:
  "\<exists>out tr. tcu_step 0 1 (Some example_request) [] accept_all False None example_start =
     Inr (example_armed, out, tr) \<and> admitted out \<and> launch out = None"
  using example_valid
  by (simp add: example_step_simps example_start_def example_armed_def example_request_def
      example_tcu_def example_timing_def example_event_def example_action_def)

lemma example_fire:
  "\<exists>out tr. tcu_step 20 1 None [] accept_all False None example_armed = Inr (example_fired, out, tr)"
  by (simp add: example_step_simps example_start_def example_armed_def example_fired_def example_request_def
      example_tcu_def example_timing_def example_event_def example_action_def gather_queue_def gather_event_def
      select_event_def execution_flag_def om_find_Cons word_size64_def accept_all_def commit_trigger_def)

lemma example_reach_start: "tcu_reach example_tcu 1 1 0 [] example_start"
  using power_on [OF example_new, of 1] by (simp add: example_tcu_def example_timing_def)

lemma example_reach_armed: "tcu_reach example_tcu 1 1 20 [(example_request, 1)] example_armed"
proof -
  obtain out tr where st: "tcu_step 0 1 (Some example_request) [] accept_all False None example_start =
      Inr (example_armed, out, tr)" and out: "admitted out" "launch out = None"
    using example_admit by blast
  have "0 + period (tcu_clock example_tcu) \<le> tick_max" by (simp add: example_tcu_def example_timing_def tick_max_def)
  from clock_edge [OF example_reach_start st this] out show ?thesis
    by (simp add: entry_of_def queue_after_def example_tcu_def example_timing_def example_armed_def)
qed

theorem tcu_fires_exactly_when_due_witness:
  "\<exists>out tr. tcu_step 20 1 None [] accept_all False None example_armed = Inr (example_fired, out, tr) \<and>
     launch out = Some \<lparr>tr_epoch = 1, tr_label = 1, fire_tick = 20, tr_events = [example_event]\<rparr>"
proof -
  obtain out tr where st: "tcu_step 20 1 None [] accept_all False None example_armed = Inr (example_fired, out, tr)"
    using example_fire by blast
  have "20 + period (tcu_clock example_tcu) \<le> tick_max" by (simp add: example_tcu_def example_timing_def tick_max_def)
  from tcu_fires_exactly_when_due [OF example_reach_armed example_config_ok st this] st show ?thesis
    by (simp add: launch_of_def trigger_of_def due_tick_def example_armed_def example_start_def
        example_tcu_def example_timing_def example_request_def example_event_def example_action_def enabled_def
        execution_flag_def current_timing_state_def paused_def)
qed

text \<open>A preflight check that refuses: the only error the unit then reports is that refusal.\<close>

theorem tcu_trigger_errors_witness:
  "prepare_trigger 20 1 (current_timing_state 20 False example_armed) (\<lambda>_. Inl ResourceConflict) None
     example_armed = Inl ResourceConflict \<and> 20 = due_tick example_armed 1"
proof -
  have "prepare_trigger 20 1 (current_timing_state 20 False example_armed) (\<lambda>_. Inl ResourceConflict) None
     example_armed = Inl ResourceConflict"
    by (simp add: example_step_simps example_start_def example_armed_def example_request_def
        example_tcu_def example_timing_def example_event_def example_action_def gather_queue_def gather_event_def
        select_event_def execution_flag_def om_find_Cons word_size64_def)
  with tcu_trigger_errors [OF example_reach_armed example_config_ok this] show ?thesis by simp
qed

theorem tcu_queues_bounded_witness:
  "length (timing example_armed) \<le> 4 \<and> map pt_due (timing example_armed) = [1] \<and> sync_size example_armed \<le> 1"
  using tcu_queues_bounded [OF example_reach_armed example_config_ok]
  by (simp add: example_tcu_def example_timing_def example_armed_def example_start_def)

theorem tcu_reset_is_power_on_witness:
  "\<exists>s'. tcu_reset 30 example_armed = Inr s' \<and> start_tick s' = 40 \<and>
     s' = example_start\<lparr>start_tick := 40\<rparr>"
proof -
  have r: "tcu_reset 30 example_armed = Inr (example_start\<lparr>start_tick := 40\<rparr>)"
    by (simp add: tcu_reset_def example_armed_def example_start_def example_tcu_def example_timing_def checked_add_def
        checked_mul_def tick_max_def edge_def after_def clock_validate_def reset_flags_def
        flip: numeral_2_eq_2)
  from tcu_reset_is_power_on [OF example_reach_armed example_config_ok r] r show ?thesis
    by (simp add: example_start_def)
qed

end
