(* ===== verification/Timing_Control.thy ===== *)
theory Timing_Control
  imports Example_Config Feedback
begin

text \<open>
  The timing control on the CPU side, \<^verbatim>\<open>include/qsbit/timing_control.hpp\<close> and
  \<^verbatim>\<open>src/timing_control.cpp\<close>, with the links to the timing control unit of
  \<^verbatim>\<open>control_links.hpp\<close>. It collects the events of the current time point, submits the point
  when the program moves on, and blocks the program until the unit has acknowledged it. The
  measurement registers and the links are shared objects of the source; every operation takes
  and returns them. The two validators are callbacks given at construction and are arguments.
\<close>

section \<open>Links\<close>

record ControlLinks =
  timing_events :: "TimingEvents Mailbox"
  replies :: "Id Mailbox"
  closure :: "Id Mailbox"
  cpu_results :: "Completion Mailbox"
  fast_results :: "Completion Mailbox"
  fast_credits :: "MeasurementReference Mailbox"

definition control_links :: "TransportConfig \<Rightarrow> ControlLinks result" where
  "control_links p =
     bindE (mailbox 1 (tr_tcu p) (unat (tr_command_latency p))) (\<lambda>te.
     bindE (mailbox 1 (tr_cpu p) (unat (tr_reply_latency p))) (\<lambda>re.
     bindE (mailbox 1 (tr_tcu p) (unat (tr_command_latency p))) (\<lambda>cl.
     bindE (mailbox (unat (tr_result_capacity p)) (tr_cpu p) (unat (tr_cpu_result_latency p))) (\<lambda>cr.
     bindE (mailbox (unat (tr_result_capacity p)) (tr_tcu p) (unat (tr_fast_result_latency p))) (\<lambda>fr.
     bindE (mailbox (unat (tr_result_capacity p)) (tr_cpu p) 1) (\<lambda>fc.
     Inr \<lparr>timing_events = te, replies = re, closure = cl, cpu_results = cr, fast_results = fr,
          fast_credits = fc\<rparr>))))))"

definition links_reset :: "ControlLinks \<Rightarrow> ControlLinks" where
  "links_reset l =
     \<lparr>timing_events = mb_reset (timing_events l), replies = mb_reset (replies l),
      closure = mb_reset (closure l), cpu_results = mb_reset (cpu_results l),
      fast_results = mb_reset (fast_results l), fast_credits = mb_reset (fast_credits l)\<rparr>"

section \<open>State and operations\<close>

record TimingControl =
  ctl_profile :: TimingConfig
  pending_events :: "OperationEvent list"
  pending_sync :: "u32 list"
  enqueue_request :: "TimingEvents option"
  held :: "ControlOperation option"
  time_point :: TcuCycle
  last_enqueued_time :: TcuCycle
  ctl_last_label :: Id
  next_event :: Id
  pending_point :: bool
  enqueued :: bool
  ctl_closed :: bool
  pending_wait_for_next :: bool
  allow_same_time :: bool

type_synonym control_state = "TimingControl \<times> MeasurementRegisters \<times> ControlLinks"

definition timing_control :: "TimingConfig \<Rightarrow> TimingControl" where
  "timing_control cfg =
     \<lparr>ctl_profile = cfg, pending_events = [], pending_sync = [], enqueue_request = None, held = None,
      time_point = 0, last_enqueued_time = 0, ctl_last_label = 0, next_event = 1,
      pending_point = False, enqueued = False, ctl_closed = False,
      pending_wait_for_next = False, allow_same_time = False\<rparr>"

definition receive_reply ::
  "Tick \<Rightarrow> Epoch \<Rightarrow> Id Envelope \<Rightarrow> TimingControl \<Rightarrow> (TimingControl \<times> TraceEvent list) result" where
  "receive_reply now epoch reply t =
     (if env_epoch reply \<noteq> epoch then Inr (t, [])
      else
        require (case enqueue_request t of None \<Rightarrow> False
           | Some r \<Rightarrow> env_value reply = tp_label (tpoint r)) Protocol (
        Inr (t\<lparr>ctl_last_label := env_value reply, last_enqueued_time := time_point t,
               enqueue_request := None, pending_events := [], pending_sync := [],
               pending_point := False, enqueued := True\<rparr>,
             [trace_event now epoch ''EnqueueAcknowledged'' 0 (env_value reply) 0])))"

definition receive_result ::
  "Tick \<Rightarrow> Epoch \<Rightarrow> Completion Envelope \<Rightarrow> MeasurementRegisters \<times> TraceEvent list \<Rightarrow>
   (MeasurementRegisters \<times> TraceEvent list) result" where
  "receive_result now epoch reply = (\<lambda>(m, tr).
     if env_epoch reply \<noteq> epoch
     then Inr (m, tr @ [trace_event now epoch ''StaleCompletionDiscarded'' 0 0 0])
     else
       bindE (deliver (env_value reply) epoch m) (\<lambda>m'.
       let r = reference (env_value reply) in
       Inr (m', tr @ [(trace_event now epoch ''MeasurementRegisterUpdated'' (measurement r) 0 0)
          \<lparr>ev_targets := [ref_target r], ev_value := (if outcome (env_value reply) then 1 else 0)\<rparr>])))"

definition receive_credit ::
  "Epoch \<Rightarrow> MeasurementReference Envelope \<Rightarrow> MeasurementRegisters \<Rightarrow> MeasurementRegisters result" where
  "receive_credit epoch credit m =
     (if env_epoch credit = epoch then acknowledge_fast (env_value credit) epoch m else Inr m)"

definition receive :: "Tick \<Rightarrow> Epoch \<Rightarrow> control_state \<Rightarrow> (control_state \<times> TraceEvent list) result" where
  "receive now epoch = (\<lambda>(t, m, l).
     let (reply, box) = mb_take now (replies l) in
     bindE (case reply of None \<Rightarrow> Inr (t, []) | Some r \<Rightarrow> receive_reply now epoch r t) (\<lambda>(t', tr1).
     let (results, rbox) = take_all now (cpu_results l) in
     bindE (foldE (receive_result now epoch) results (m, [])) (\<lambda>(m1, tr2).
     let (credits, cbox) = take_all now (fast_credits l) in
     bindE (foldE (receive_credit epoch) credits m1) (\<lambda>m2.
     Inr ((t', m2, l\<lparr>replies := box, cpu_results := rbox, fast_credits := cbox\<rparr>), tr1 @ tr2)))))"

text \<open>The request that \<open>enqueue\<close> builds from the collected events.\<close>

definition submission :: "Epoch \<Rightarrow> TimingControl \<Rightarrow> TimingEvents result" where
  "submission epoch t =
     bindE (checked_add (ctl_last_label t) 1) (\<lambda>label.
     let interval = sub64 (time_point t) (last_enqueued_time t) in
     Inr \<lparr>tpoint = \<lparr>tp_epoch = epoch, tp_label = label, tp_interval = interval,
            manifest = map oe_id (pending_events t), synchronizations = pending_sync t,
            underflow_policy = (if pending_wait_for_next t then PauseWhenEmpty
              else if interval > 0 then Strict else Inherit)\<rparr>,
          te_events = map (\<lambda>e. e\<lparr>oe_label := label\<rparr>) (pending_events t),
          te_configuration = tc_configuration (ctl_profile t)\<rparr>)"

definition enqueue ::
  "Tick \<Rightarrow> Epoch \<Rightarrow> TimingControl \<Rightarrow> ControlLinks \<Rightarrow>
   (bool \<times> TimingControl \<times> ControlLinks \<times> TraceEvent list) result" where
  "enqueue now epoch t l =
     (if enqueue_request t \<noteq> None then Inr (False, t, l, [])
      else if \<not> pending_point t then Inr (True, t\<lparr>enqueued := \<not> allow_same_time t\<rparr>, l, [])
      else
        bindE (submission epoch t) (\<lambda>request.
        bindE (validate_timing_events request (ctl_profile t)) (\<lambda>_.
        require (\<not> mb_full (timing_events l)) Protocol (
        bindE (publish now epoch request (timing_events l)) (\<lambda>box.
        Inr (False, t\<lparr>enqueue_request := Some request\<rparr>, l\<lparr>timing_events := box\<rparr>,
             [trace_event now epoch ''TimingPointSubmitted'' 0 (tp_label (tpoint request))
                (time_point t)]))))))"

definition execute_zero_wait ::
  "Tick \<Rightarrow> Epoch \<Rightarrow> TimingControl \<Rightarrow> ControlLinks \<Rightarrow>
   (u32 option \<times> TimingControl \<times> ControlLinks \<times> TraceEvent list) result" where
  "execute_zero_wait now epoch t l =
     (let t0 = (if pending_wait_for_next t then t
                else t\<lparr>pending_wait_for_next := True, pending_point := True\<rparr>) in
      bindE (enqueue now epoch t0 l) (\<lambda>(ok, t1, l1, tr).
      if \<not> ok then Inr (None, t1, l1, tr)
      else Inr (Some 0, t1\<lparr>pending_wait_for_next := False, allow_same_time := True, enqueued := False\<rparr>,
                l1, tr)))"

definition advance_time ::
  "TcuCycle \<Rightarrow> Tick \<Rightarrow> Epoch \<Rightarrow> TimingControl \<Rightarrow> ControlLinks \<Rightarrow>
   (u32 option \<times> TimingControl \<times> ControlLinks \<times> TraceEvent list) result" where
  "advance_time interval now epoch t l =
     bindE (checked_add (time_point t) interval) (\<lambda>destination.
     bindE (enqueue now epoch t l) (\<lambda>(ok, t1, l1, tr).
     if \<not> ok then Inr (None, t1, l1, tr)
     else Inr (Some 0, t1\<lparr>time_point := destination, allow_same_time := False,
                 pending_point := True, enqueued := False\<rparr>, l1, tr)))"

definition count_port :: "u32 \<Rightarrow> u32 list \<Rightarrow> u32 list result" where
  "count_port p counts =
     require (unat p < length counts) Protocol (
     Inr (counts[unat p := counts ! unat p + 1]))"

definition count_action :: "TimingConfig \<Rightarrow> EventSpec \<Rightarrow> u32 list \<Rightarrow> u32 list result" where
  "count_action cfg a counts =
     bindE (count_port (es_port a) counts) (\<lambda>counts'.
     require (counts' ! unat (es_port a) \<le> tc_firing_width cfg \<and>
        counts' ! unat (es_port a) \<le> tc_event_capacity cfg) Capacity (
     Inr counts'))"

definition check_action ::
  "(EventSpec \<Rightarrow> unit result) \<Rightarrow> TimingConfig \<Rightarrow> EventSpec \<Rightarrow> u32 list \<Rightarrow> u32 list result" where
  "check_action validate cfg a ts =
     bindE (validate a) (\<lambda>_.
     require (execution_flag a = Always \<or> tc_fast_feedback cfg) UnsupportedCapability (
     if kind a = Acquire
     then require (targets a \<noteq> []) Protocol (Inr (ts @ [hd (targets a)]))
     else Inr ts))"

definition ctl_codeword ::
  "(EventSpec \<Rightarrow> unit result) \<Rightarrow> Id \<Rightarrow> u32 \<Rightarrow> u32 \<Rightarrow> Tick \<Rightarrow> Epoch \<Rightarrow> TimingControl \<Rightarrow> MeasurementRegisters \<Rightarrow>
   (u32 option \<times> TimingControl \<times> MeasurementRegisters \<times> TraceEvent list) result" where
  "ctl_codeword validate instruction port codeword now epoch t m =
     require (\<not> enqueued t \<and> enqueue_request t = None) Protocol (
     bindE (tc_mapping (ctl_profile t) port codeword) (\<lambda>mp.
     bindE (foldE (check_action validate (ctl_profile t)) (map_actions mp) []) (\<lambda>measurement_targets.
     bindE (checked_add (length (pending_events t)) (length (map_actions mp))) (\<lambda>count.
     require (count \<le> unat (tc_staging_capacity (ctl_profile t))) Capacity (
     bindE (foldE (\<lambda>e. count_port (es_port (action e))) (pending_events t)
        (replicate (unat (tc_ports (ctl_profile t))) 0)) (\<lambda>counts.
     bindE (foldE (count_action (ctl_profile t)) (map_actions mp) counts) (\<lambda>_.
     bindE (checked_add (next_event t) (length (map_actions mp))) (\<lambda>next.
     bindE (prepare_reservation epoch measurement_targets m) (\<lambda>references.
     bindE (decode_codeword (ctl_profile t) port codeword epoch instruction (next_event t) references) (\<lambda>events.
     bindE (commit_reservation references m) (\<lambda>m'.
     Inr (Some 0, t\<lparr>pending_events := pending_events t @ events, pending_point := True, next_event := next\<rparr>, m',
          [(trace_event now epoch ''CodewordQueued'' instruction 0 (time_point t))
             \<lparr>ev_port := port, ev_codeword := codeword\<rparr>]))))))))))))"

definition fetch_measurement ::
  "Id \<Rightarrow> u32 \<Rightarrow> Tick \<Rightarrow> Epoch \<Rightarrow> control_state \<Rightarrow> (u32 option \<times> control_state \<times> TraceEvent list) result" where
  "fetch_measurement instruction qubit now epoch = (\<lambda>(t, m, l).
     require (qubit < tc_qubits (ctl_profile t)) InvalidOperand (
     bindE (enqueue now epoch t l) (\<lambda>(ok, t1, l1, tr).
     if \<not> ok then Inr (None, (t1, m, l1), tr)
     else
       bindE (read_register qubit m) (\<lambda>value.
       Inr (case value of
          None \<Rightarrow> (None, (t1, m, l1), tr)
        | Some b \<Rightarrow> (Some (if b then 1 else 0), (t1, m, l1),
            tr @ [(trace_event now epoch ''MeasurementRegisterRead'' instruction 0 0)
              \<lparr>ev_targets := [qubit], ev_value := (if b then 1 else 0)\<rparr>]))))))"

definition halt_stream ::
  "Tick \<Rightarrow> Epoch \<Rightarrow> TimingControl \<Rightarrow> ControlLinks \<Rightarrow>
   (u32 option \<times> TimingControl \<times> ControlLinks \<times> TraceEvent list) result" where
  "halt_stream now epoch t l =
     bindE (enqueue now epoch t l) (\<lambda>(ok, t1, l1, tr).
     if \<not> ok then Inr (None, t1, l1, tr)
     else
       bindE (publish now epoch (ctl_last_label t1) (closure l1)) (\<lambda>box.
       Inr (Some 0, t1\<lparr>ctl_closed := True\<rparr>, l1\<lparr>closure := box\<rparr>, tr)))"

definition synchronize ::
  "(u32 \<Rightarrow> unit result) option \<Rightarrow> u32 \<Rightarrow> TimingControl \<Rightarrow> (u32 option \<times> TimingControl) result" where
  "synchronize validate_sync target t =
     (case validate_sync of
        None \<Rightarrow> Inl UnsupportedSynchronization
      | Some validate \<Rightarrow>
          require (\<not> enqueued t \<and> enqueue_request t = None) Protocol (
          bindE (validate target) (\<lambda>_.
          require (pending_sync t = []) InvalidOperand (
          Inr (Some 0, t\<lparr>pending_sync := pending_sync t @ [target], pending_point := True\<rparr>)))))"

definition ctl_dispatch ::
  "(EventSpec \<Rightarrow> unit result) \<Rightarrow> (u32 \<Rightarrow> unit result) option \<Rightarrow> ControlOperation \<Rightarrow> Tick \<Rightarrow> Epoch \<Rightarrow>
   control_state \<Rightarrow> (u32 option \<times> control_state \<times> TraceEvent list) result" where
  "ctl_dispatch validate validate_sync op now epoch = (\<lambda>(t, m, l).
     case command op of
       CodewordCommand port codeword \<Rightarrow>
         bindE (ctl_codeword validate (co_instruction op) port codeword now epoch t m) (\<lambda>(r, t', m', tr).
         Inr (r, (t', m', l), tr))
     | WaitCommand cycles \<Rightarrow>
         bindE (if cycles = 0 then execute_zero_wait now epoch t l
                else advance_time (unat cycles) now epoch t l) (\<lambda>(r, t', l', tr).
         Inr (r, (t', m, l'), tr))
     | FetchMeasurementCommand qubit \<Rightarrow>
         fetch_measurement (co_instruction op) qubit now epoch (t, m, l)
     | HaltCommand \<Rightarrow>
         bindE (halt_stream now epoch t l) (\<lambda>(r, t', l', tr). Inr (r, (t', m, l'), tr))
     | SynchronizeCommand target \<Rightarrow>
         bindE (synchronize validate_sync target t) (\<lambda>(r, t'). Inr (r, (t', m, l), [])))"

definition execute ::
  "(EventSpec \<Rightarrow> unit result) \<Rightarrow> (u32 \<Rightarrow> unit result) option \<Rightarrow> ControlOperation \<Rightarrow> Tick \<Rightarrow> Epoch \<Rightarrow>
   control_state \<Rightarrow> (u32 option \<times> control_state \<times> TraceEvent list) result" where
  "execute validate validate_sync op now epoch = (\<lambda>(t, m, l).
     require (\<not> ctl_closed t) Protocol (
     require (held t = None \<or> held t = Some op) Protocol (
     bindE (ctl_dispatch validate validate_sync op now epoch (t\<lparr>held := Some op\<rparr>, m, l))
       (\<lambda>(r, (t', m', l'), tr).
     Inr (r, (if r \<noteq> None then t'\<lparr>held := None\<rparr> else t', m', l'), tr)))))"

definition ctl_reset :: "TimingControl \<Rightarrow> TimingControl" where
  "ctl_reset t =
     t\<lparr>pending_events := [], pending_sync := [], enqueue_request := None, held := None,
       time_point := 0, last_enqueued_time := 0, ctl_last_label := 0, next_event := 1,
       pending_point := False, enqueued := False, ctl_closed := False,
       pending_wait_for_next := False, allow_same_time := False\<rparr>"

section \<open>Port counting\<close>

lemma foldE_map: "foldE (\<lambda>x. f (g x)) xs s = foldE f (map g xs) s"
  by (induction xs arbitrary: s) (auto intro: bindE_cong)

lemma count_ports:
  assumes "foldE count_port ps cs = Inr cs'"
  shows "length cs' = length cs \<and> (\<forall>p\<in>set ps. unat p < length cs) \<and>
    (\<forall>q < length cs. cs' ! q = cs ! q + of_nat (length (filter (\<lambda>p. unat p = q) ps)))"
  using assms
proof (induction ps arbitrary: cs)
  case (Cons p ps)
  then obtain c where c: "count_port p cs = Inr c" "foldE count_port ps c = Inr cs'" by auto
  then have p: "unat p < length cs" "c = cs[unat p := cs ! unat p + 1]" by (auto simp: count_port_def)
  with Cons.IH [OF c(2)] show ?case by (auto simp: nth_list_update)
qed simp

lemma count_actions:
  assumes "foldE (count_action cfg) as cs = Inr cs'"
  shows "foldE count_port (map es_port as) cs = Inr cs' \<and>
    (\<forall>a\<in>set as. cs' ! unat (es_port a) \<le> tc_firing_width cfg \<and> cs' ! unat (es_port a) \<le> tc_event_capacity cfg)"
  using assms
proof (induction as arbitrary: cs' rule: rev_induct)
  case (snoc a as)
  then obtain c where c: "foldE (count_action cfg) as cs = Inr c" "count_action cfg a c = Inr cs'"
    by (auto simp: foldE_append)
  then have a: "count_port (es_port a) c = Inr cs'" "cs' ! unat (es_port a) \<le> tc_firing_width cfg"
    "cs' ! unat (es_port a) \<le> tc_event_capacity cfg" by (auto simp: count_action_def)
  have upd: "cs' ! q = (if q = unat (es_port a) then cs' ! unat (es_port a) else c ! q)" for q
    using a(1) by (auto simp: count_port_def nth_list_update)
  have "cs' ! unat (es_port b) \<le> tc_firing_width cfg \<and> cs' ! unat (es_port b) \<le> tc_event_capacity cfg"
    if "b \<in> set as" for b
    using snoc.IH [OF c(1)] a(2,3) that upd [of "unat (es_port b)"] by (simp split: if_splits)
  with snoc.IH [OF c(1)] a show ?case by (simp add: foldE_append)
qed simp

text \<open>The two counting loops of a codeword keep every port within what one time point may fire.\<close>

lemma counted_ports:
  assumes "foldE (\<lambda>e. count_port (es_port (action e))) old (replicate (unat (tc_ports cfg)) 0) = Inr cs"
    and "foldE (count_action cfg) (map action new) cs = Inr cs'"
    and "length old + length new \<le> unat (tc_staging_capacity cfg)"
    and "\<forall>p. length (filter (on_port p) old) \<le> port_limit cfg"
  shows "length (filter (on_port p) (old @ new)) \<le> port_limit cfg"
    and "e \<in> set new \<Longrightarrow> es_port (action e) < tc_ports cfg"
proof -
  let ?f = "\<lambda>e. es_port (action e)"
  have c1: "foldE count_port (map ?f old) (replicate (unat (tc_ports cfg)) 0) = Inr cs"
    using assms(1) by (simp only: foldE_map [of count_port ?f old])
  note 2 = count_actions [OF assms(2)]
  note n1 = count_ports [OF c1] and n2 = count_ports [OF conjunct1 [OF 2]]
  have count: "cs' ! p = of_nat (length (filter (on_port p) (old @ new)))" if "p < unat (tc_ports cfg)" for p
    using n1 n2 that by (simp add: filter_map o_def on_port_fun)
  show "e \<in> set new \<Longrightarrow> ?f e < tc_ports cfg"
    using n1 n2 by (auto simp: word_less_nat_alt)
  show "length (filter (on_port p) (old @ new)) \<le> port_limit cfg"
  proof (cases "\<exists>e\<in>set new. on_port p e")
    case True
    then obtain e where e: "e \<in> set new" "unat (?f e) = p" by (auto simp: on_port_def)
    let ?n = "length (filter (on_port p) (old @ new))"
    have "?n \<le> length (old @ new)" by (rule length_filter_le)
    then have "?n < 2 ^ LENGTH(32)"
      using assms(3) unsigned_less [where 'b=32 and 'a=nat and w="tc_staging_capacity cfg"] by simp
    moreover have "cs' ! p = of_nat ?n" using count e n1 n2 by auto
    ultimately have "unat (cs' ! p) = ?n" by (simp only: unat_of_nat mod_less)
    then show ?thesis using 2 e by (auto simp: port_limit_def word_le_nat_alt)
  next
    case False
    then have "filter (on_port p) new = []" by (auto simp: filter_empty_conv)
    with assms(4) show ?thesis by simp
  qed
qed

section \<open>What a codeword decodes to\<close>

definition decoded_event ::
  "u32 \<Rightarrow> u32 \<Rightarrow> Epoch \<Rightarrow> Id \<Rightarrow> MeasurementReference list \<Rightarrow> OperationEvent \<Rightarrow> bool" where
  "decoded_event port codeword epoch instruction refs e \<longleftrightarrow>
     oe_epoch e = epoch \<and> oe_instruction e = instruction \<and> source_port e = port \<and>
     oe_codeword e = codeword \<and>
     oe_reference e = (if is_readout (action e) then matching_reference (action e) refs else None) \<and>
     (is_readout (action e) \<longrightarrow> oe_reference e \<noteq> None)"

lemma decode_actions:
  assumes "foldE (decode_action cfg port cw epoch i n refs) as es0 = Inr es"
  shows "\<exists>new. es = es0 @ new \<and> map action new = as \<and>
    map oe_id new = [n + length es0..<n + length es0 + length as] \<and>
    (\<forall>e\<in>set new. decoded_event port cw epoch i refs e)"
  using assms
proof (induction as arbitrary: es0)
  case (Cons a as)
  then obtain es1 where 1: "decode_action cfg port cw epoch i n refs a es0 = Inr es1"
    "foldE (decode_action cfg port cw epoch i n refs) as es1 = Inr es" by auto
  then obtain e where e: "es1 = es0 @ [e]" "action e = a" "oe_id e = n + length es0"
    "decoded_event port cw epoch i refs e"
    by (auto simp: decode_action_def Let_def decoded_event_def dest!: checked_add_sum)
  from Cons.IH [OF 1(2)] obtain new where "es = es1 @ new" "map action new = as"
    "map oe_id new = [n + length es1..<n + length es1 + length as]"
    "\<forall>e\<in>set new. decoded_event port cw epoch i refs e" by blast
  with e upt_conv_Cons [of "n + length es0" "n + length es0 + length (a # as)"] show ?case
    by (intro exI [of _ "e # new"]) (simp del: upt_Suc)
qed simp

lemma decode_codeword_events:
  assumes "decode_codeword cfg port cw epoch i n refs = Inr es" and "tc_mapping cfg port cw = Inr mp"
  shows "map action es = map_actions mp" and "map oe_id es = [n..<n + length es]"
    and "e \<in> set es \<Longrightarrow> decoded_event port cw epoch i refs e"
proof -
  from assms have "foldE (decode_action cfg port cw epoch i n refs) (map_actions mp) [] = Inr es"
    by (auto simp: decode_codeword_def)
  from decode_actions [OF this] have *: "map action es = map_actions mp"
    "map oe_id es = [n..<n + length (map_actions mp)]"
    "\<forall>e\<in>set es. decoded_event port cw epoch i refs e" by auto
  then show "map action es = map_actions mp" and "e \<in> set es \<Longrightarrow> decoded_event port cw epoch i refs e"
    by auto
  from *(1) have "length es = length (map_actions mp)" by (metis length_map)
  with *(2) show "map oe_id es = [n..<n + length es]" by simp
qed

section \<open>Invariant of the timing control\<close>

text \<open>
  What profile validation promises of the mappings: amplitudes are numbers and a time point may
  hold at least one event.
\<close>

definition mappings_ok :: "TimingConfig \<Rightarrow> bool" where
  "mappings_ok cfg \<longleftrightarrow> 0 < tc_staging_capacity cfg \<and>
     (\<forall>m\<in>ran (tc_mappings cfg). \<forall>a\<in>set (map_actions m). amplitude a \<noteq> Some NaN)"

definition staged_ok :: "Epoch \<Rightarrow> TimingControl \<Rightarrow> bool" where
  "staged_ok epoch t \<longleftrightarrow>
     (\<forall>e\<in>set (pending_events t). oe_epoch e = epoch \<and> 0 < oe_id e \<and> oe_id e < next_event t \<and>
        es_port (action e) < tc_ports (ctl_profile t) \<and> mapped (ctl_profile t) e) \<and>
     distinct (map oe_id (pending_events t)) \<and> 0 < next_event t \<and>
     length (pending_events t) \<le> unat (tc_staging_capacity (ctl_profile t)) \<and>
     (\<forall>p. length (filter (on_port p) (pending_events t)) \<le> port_limit (ctl_profile t)) \<and>
     length (pending_sync t) \<le> 1 \<and> (\<forall>x\<in>set (pending_sync t). x \<le> 131071) \<and>
     (\<not> pending_point t \<longrightarrow> pending_events t = [] \<and> pending_sync t = [])"

definition interval_sum :: "TimingEvents list \<Rightarrow> TcuCycle" where
  "interval_sum reqs = sum_list (map (\<lambda>r. tp_interval (tpoint r)) reqs)"

definition labels :: "TimingEvents list \<Rightarrow> Id list" where
  "labels reqs = map (\<lambda>r. tp_label (tpoint r)) reqs"

text \<open>
  \<open>reqs\<close> are the requests submitted in the epoch so far; the last one is outstanding while
  \<open>enqueue_request\<close> holds it.
\<close>

definition submitted_ok :: "Epoch \<Rightarrow> TimingEvents list \<Rightarrow> TimingControl \<Rightarrow> bool" where
  "submitted_ok epoch reqs t \<longleftrightarrow>
     last_enqueued_time t \<le> time_point t \<and> time_point t \<le> tick_max \<and>
     (\<forall>r\<in>set reqs. request_ok (ctl_profile t) r \<and> tp_epoch (tpoint r) = epoch) \<and>
     (case enqueue_request t of
        None \<Rightarrow> labels reqs = [1..<ctl_last_label t + 1] \<and> interval_sum reqs = last_enqueued_time t
      | Some r \<Rightarrow> \<exists>old. reqs = old @ [r] \<and> labels reqs = [1..<ctl_last_label t + 2] \<and>
          interval_sum old = last_enqueued_time t \<and> interval_sum reqs = time_point t)"

definition ctl_inv :: "TimingConfig \<Rightarrow> Epoch \<Rightarrow> TimingEvents list \<Rightarrow> TimingControl \<Rightarrow> bool" where
  "ctl_inv cfg epoch reqs t \<longleftrightarrow> ctl_profile t = cfg \<and> staged_ok epoch t \<and> submitted_ok epoch reqs t"

lemma on_port_relabel [simp]: "on_port p (e\<lparr>oe_label := k\<rparr>) = on_port p e"
  by (simp add: on_port_def)

lemma submission_valid:
  assumes inv: "ctl_inv cfg epoch reqs t" and ok: "mappings_ok cfg" and sub: "submission epoch t = Inr r"
  shows "request_ok cfg r"
    and "tp_label (tpoint r) = ctl_last_label t + 1" and "tp_epoch (tpoint r) = epoch"
    and "tp_interval (tpoint r) = time_point t - last_enqueued_time t"
proof -
  let ?relabel = "\<lambda>e. e\<lparr>oe_label := ctl_last_label t + 1\<rparr>"
  have st: "staged_ok epoch t" and cfg: "ctl_profile t = cfg"
    and le: "last_enqueued_time t \<le> time_point t" "time_point t \<le> tick_max"
    using inv by (simp_all add: ctl_inv_def submitted_ok_def)
  have r: "r = \<lparr>tpoint = \<lparr>tp_epoch = epoch, tp_label = ctl_last_label t + 1,
        tp_interval = time_point t - last_enqueued_time t,
        manifest = map oe_id (pending_events t), synchronizations = pending_sync t,
        underflow_policy = (if pending_wait_for_next t then PauseWhenEmpty
          else if time_point t - last_enqueued_time t > 0 then Strict else Inherit)\<rparr>,
      te_events = map ?relabel (pending_events t), te_configuration = tc_configuration cfg\<rparr>"
    using sub le cfg by (auto simp: submission_def Let_def dest!: checked_add_sum)
  show "tp_label (tpoint r) = ctl_last_label t + 1" and "tp_epoch (tpoint r) = epoch"
    and "tp_interval (tpoint r) = time_point t - last_enqueued_time t"
    by (simp_all add: r)
  have sync: "length (pending_sync t) \<le> unat (tc_staging_capacity cfg)"
  proof -
    have "1 \<le> unat (tc_staging_capacity cfg)" using ok by (simp add: mappings_ok_def word_less_nat_alt)
    moreover have "length (pending_sync t) \<le> 1" using st by (simp add: staged_ok_def)
    ultimately show ?thesis by simp
  qed
  have "event_ok cfg (tpoint r) (?relabel e)" if "e \<in> set (pending_events t)" for e
    using st that cfg by (auto simp: staged_ok_def event_ok_def r mapped_def)
  then show "request_ok cfg r"
    using st cfg sync unfolding request_ok_def staged_ok_def
    by (auto simp: r o_def filter_map)
qed

lemma enqueue_cases:
  assumes "enqueue now epoch t l = Inr (ok, t', l', tr)"
  obtains (outstanding) r where "enqueue_request t = Some r" "\<not> ok" "t' = t" "l' = l"
  | (idle) "enqueue_request t = None" "\<not> pending_point t" "ok" "t' = t\<lparr>enqueued := \<not> allow_same_time t\<rparr>" "l' = l"
  | (submit) r where "enqueue_request t = None" "pending_point t" "\<not> ok" "submission epoch t = Inr r"
      "t' = t\<lparr>enqueue_request := Some r\<rparr>" "publish now epoch r (timing_events l) = Inr (timing_events l')"
  using assms by (auto simp: enqueue_def split: if_splits)

definition new_request :: "TimingControl \<Rightarrow> TimingControl \<Rightarrow> TimingEvents list" where
  "new_request t t' = (case (enqueue_request t, enqueue_request t') of
      (None, Some r) \<Rightarrow> [r] | _ \<Rightarrow> [])"

lemma new_request_simps [simp]:
  "enqueue_request t' = None \<Longrightarrow> new_request t t' = []"
  "enqueue_request t = Some r \<Longrightarrow> new_request t t' = []"
  "enqueue_request t' = enqueue_request t \<Longrightarrow> new_request t t' = []"
  "enqueue_request t = None \<Longrightarrow> enqueue_request t' = Some r \<Longrightarrow> new_request t t' = [r]"
  by (auto simp: new_request_def split: option.splits)

lemma new_request_cong:
  "enqueue_request t = enqueue_request u \<Longrightarrow> enqueue_request t' = enqueue_request u' \<Longrightarrow>
   new_request t t' = new_request u u'"
  by (simp add: new_request_def)

lemma enqueue_inv:
  assumes "ctl_inv cfg epoch reqs t" and "mappings_ok cfg" and "enqueue now epoch t l = Inr (ok, t', l', tr)"
  shows "ctl_inv cfg epoch (reqs @ new_request t t') t'"
    and "ok \<longleftrightarrow> enqueue_request t = None \<and> \<not> pending_point t"
    and "ok \<Longrightarrow> t' = t\<lparr>enqueued := \<not> allow_same_time t\<rparr>"
proof -
  from assms(3) show "ok \<longleftrightarrow> enqueue_request t = None \<and> \<not> pending_point t"
    and "ok \<Longrightarrow> t' = t\<lparr>enqueued := \<not> allow_same_time t\<rparr>"
    by (auto simp: enqueue_def split: if_splits)
  from assms(3) show "ctl_inv cfg epoch (reqs @ new_request t t') t'"
  proof (cases rule: enqueue_cases)
    case (submit r)
    note v = submission_valid [OF assms(1,2) submit(4)]
    have "labels (reqs @ [r]) = [1..<ctl_last_label t + 2]"
      using assms(1) submit(1) v(2) by (simp add: ctl_inv_def submitted_ok_def labels_def)
    moreover have "interval_sum (reqs @ [r]) = time_point t"
      using assms(1) submit(1) v(4) by (simp add: ctl_inv_def submitted_ok_def interval_sum_def)
    ultimately show ?thesis
      using assms(1) submit v(1,3)
      by (auto simp: ctl_inv_def staged_ok_def submitted_ok_def simp del: upt_Suc)
  qed (use assms(1) in \<open>auto simp: ctl_inv_def staged_ok_def submitted_ok_def simp del: upt_Suc\<close>)
qed

lemma codeword_cases:
  assumes "ctl_codeword validate i port cw now epoch t m = Inr (r, t', m', tr)"
  obtains mp ts cs cs' refs es where
    "enqueue_request t = None" "\<not> enqueued t" "tc_mapping (ctl_profile t) port cw = Inr mp"
    "foldE (check_action validate (ctl_profile t)) (map_actions mp) [] = Inr ts"
    "length (pending_events t) + length (map_actions mp) \<le> unat (tc_staging_capacity (ctl_profile t))"
    "foldE (\<lambda>e. count_port (es_port (action e))) (pending_events t)
        (replicate (unat (tc_ports (ctl_profile t))) 0) = Inr cs"
    "foldE (count_action (ctl_profile t)) (map_actions mp) cs = Inr cs'"
    "prepare_reservation epoch ts m = Inr refs" "commit_reservation refs m = Inr m'"
    "decode_codeword (ctl_profile t) port cw epoch i (next_event t) refs = Inr es"
    "t' = t\<lparr>pending_events := pending_events t @ es, pending_point := True,
       next_event := next_event t + length (map_actions mp)\<rparr>" "r = Some 0"
  using assms unfolding ctl_codeword_def require_eq_Inr bindE_eq_Inr
  by (elim exE conjE) (erule that; (assumption | auto dest!: checked_add_sum)?)

lemma codeword_inv:
  assumes inv: "ctl_inv cfg epoch reqs t" and ok: "mappings_ok cfg"
    and cw: "ctl_codeword validate i port cw now epoch t m = Inr (r, t', m', tr)"
  shows "ctl_inv cfg epoch (reqs @ new_request t t') t'"
proof -
  have cfg: "ctl_profile t = cfg" and st: "staged_ok epoch t" using inv by (simp_all add: ctl_inv_def)
  from cw show ?thesis
  proof (cases rule: codeword_cases)
    case (1 mp ts cs cs' refs es)
    note d = decode_codeword_events [OF 1(10,3)]
    have len: "length (map_actions mp) = length es" using d(1) by (metis length_map)
    have acts: "foldE (count_action cfg) (map action es) cs = Inr cs'" using 1(7) d(1) cfg by simp
    have limits: "\<forall>p. length (filter (on_port p) (pending_events t)) \<le> port_limit cfg"
      using st cfg by (simp add: staged_ok_def)
    note c = counted_ports [OF 1(6) [unfolded cfg] acts 1(5) [unfolded cfg len] limits]
    have "mp \<in> ran (tc_mappings cfg)"
      using 1(3) cfg by (auto simp: tc_mapping_def ran_def split: option.splits)
    then have "mapped cfg e" if "e \<in> set es" for e
    proof -
      have "action e \<in> set (map_actions mp)" using that d(1) by (metis image_eqI set_map)
      moreover from this have "event_spec_eq (action e) (action e)"
        using ok \<open>mp \<in> ran (tc_mappings cfg)\<close> by (auto simp: event_spec_eq_def mappings_ok_def)
      ultimately show ?thesis
        using d(3) [OF that] 1(3) cfg unfolding mapped_def decoded_event_def by metis
    qed
    note mapped = this
    have ids: "oe_id e \<in> {next_event t..<next_event t + length es}" if "e \<in> set es" for e
      using that d(2) by (metis image_eqI set_map set_upt)
    have "set (map oe_id es) = {next_event t..<next_event t + length es}" "distinct (map oe_id es)"
      unfolding d(2) by simp_all
    then have dist: "distinct (map oe_id (pending_events t @ es))"
      using st by (auto simp: staged_ok_def)
    have "staged_ok epoch t'"
      using st c mapped dist ids d(3) 1(5) len cfg unfolding staged_ok_def
      by (fastforce simp: 1(11) decoded_event_def)
    with inv 1(1) show ?thesis
      by (auto simp: ctl_inv_def submitted_ok_def 1(11) simp del: upt_Suc)
  qed
qed

lemma synchronize_inv:
  assumes "ctl_inv cfg epoch reqs t" and "target \<le> 131071"
    and "synchronize vs target t = Inr (r, t')"
  shows "ctl_inv cfg epoch (reqs @ new_request t t') t'"
proof -
  have t': "t' = t\<lparr>pending_sync := [target], pending_point := True\<rparr>" "enqueue_request t = None"
    using assms(3) by (auto simp: synchronize_def split: option.splits)
  show ?thesis
    using assms(1,2) t'(2) by (auto simp: t'(1) ctl_inv_def staged_ok_def submitted_ok_def simp del: upt_Suc)
qed

lemma ctl_inv_flags:
  "ctl_inv cfg epoch reqs (t\<lparr>held := h\<rparr>) = ctl_inv cfg epoch reqs t"
  "ctl_inv cfg epoch reqs (t\<lparr>enqueued := b\<rparr>) = ctl_inv cfg epoch reqs t"
  "ctl_inv cfg epoch reqs (t\<lparr>ctl_closed := b\<rparr>) = ctl_inv cfg epoch reqs t"
  "ctl_inv cfg epoch reqs (t\<lparr>allow_same_time := b\<rparr>) = ctl_inv cfg epoch reqs t"
  "ctl_inv cfg epoch reqs (t\<lparr>pending_wait_for_next := b\<rparr>) = ctl_inv cfg epoch reqs t"
  by (simp_all add: ctl_inv_def staged_ok_def submitted_ok_def cong: option.case_cong)

lemma ctl_inv_point: "ctl_inv cfg epoch reqs t \<Longrightarrow> ctl_inv cfg epoch reqs (t\<lparr>pending_point := True\<rparr>)"
  by (auto simp: ctl_inv_def staged_ok_def submitted_ok_def cong: option.case_cong)

lemma zero_wait_inv:
  assumes "ctl_inv cfg epoch reqs t" and "mappings_ok cfg"
    and "execute_zero_wait now epoch t l = Inr (r, t', l', tr)"
  shows "ctl_inv cfg epoch (reqs @ new_request t t') t'"
proof -
  define t0 where "t0 = (if pending_wait_for_next t then t
    else t\<lparr>pending_wait_for_next := True, pending_point := True\<rparr>)"
  obtain ok t1 l1 tr1 where e: "enqueue now epoch t0 l = Inr (ok, t1, l1, tr1)"
    and i: "(if \<not> ok then Inr (None, t1, l1, tr1)
      else Inr (Some 0, t1\<lparr>pending_wait_for_next := False, allow_same_time := True, enqueued := False\<rparr>,
                l1, tr1)) = (Inr (r, t', l', tr) :: _ result)"
    using assms(3) unfolding execute_zero_wait_def t0_def Let_def bindE_eq_Inr by auto
  have t': "t' = (if ok then t1\<lparr>pending_wait_for_next := False, allow_same_time := True, enqueued := False\<rparr> else t1)"
    using i by (auto split: if_splits)
  have inv: "ctl_inv cfg epoch reqs t0"
    using assms(1) by (simp add: t0_def ctl_inv_point ctl_inv_flags)
  have "new_request t t' = new_request t0 t1" by (rule new_request_cong) (simp_all add: t0_def t')
  with enqueue_inv(1) [OF inv assms(2) e] show ?thesis by (simp add: t' ctl_inv_flags)
qed

lemma advance_inv:
  assumes "ctl_inv cfg epoch reqs t" and "mappings_ok cfg"
    and "advance_time n now epoch t l = Inr (r, t', l', tr)"
  shows "ctl_inv cfg epoch (reqs @ new_request t t') t'"
proof -
  obtain ok t1 l1 tr1 d where e: "enqueue now epoch t l = Inr (ok, t1, l1, tr1)"
    and d: "checked_add (time_point t) n = Inr d"
    and i: "(if \<not> ok then Inr (None, t1, l1, tr1)
      else Inr (Some 0, t1\<lparr>time_point := d, allow_same_time := False, pending_point := True,
        enqueued := False\<rparr>, l1, tr1)) = (Inr (r, t', l', tr) :: _ result)"
    using assms(3) unfolding advance_time_def bindE_eq_Inr by auto
  have t': "t' = (if ok then t1\<lparr>time_point := d, allow_same_time := False, pending_point := True, enqueued := False\<rparr>
      else t1)"
    using i by (auto split: if_splits)
  note en = enqueue_inv [OF assms(1,2) e]
  show ?thesis
  proof (cases ok)
    case True
    with en have n: "enqueue_request t = None" and t1: "t1 = t\<lparr>enqueued := \<not> allow_same_time t\<rparr>" by auto
    have "time_point t \<le> tick_max" using assms(1) by (simp add: ctl_inv_def submitted_ok_def)
    then have "time_point t \<le> d" "d \<le> tick_max" using d by simp_all
    with assms(1) n show ?thesis
      by (auto simp: t' True t1 ctl_inv_def staged_ok_def submitted_ok_def simp del: upt_Suc)
  qed (use en(1) t' in simp)
qed

lemma halt_inv:
  assumes "ctl_inv cfg epoch reqs t" and "mappings_ok cfg"
    and "halt_stream now epoch t l = Inr (r, t', l', tr)"
  shows "ctl_inv cfg epoch (reqs @ new_request t t') t'"
proof -
  obtain ok t1 l1 tr1 where e: "enqueue now epoch t l = Inr (ok, t1, l1, tr1)"
    and i: "(if \<not> ok then Inr (None, t1, l1, tr1)
     else
       bindE (publish now epoch (ctl_last_label t1) (closure l1)) (\<lambda>box.
       Inr (Some 0, t1\<lparr>ctl_closed := True\<rparr>, l1\<lparr>closure := box\<rparr>, tr1))) = Inr (r, t', l', tr)"
    using assms(3) unfolding halt_stream_def bindE_eq_Inr [of "enqueue now epoch t l"] by auto
  have t': "t' = (if ok then t1\<lparr>ctl_closed := True\<rparr> else t1)"
    using i by (auto split: if_splits)
  have "new_request t t' = new_request t t1" by (rule new_request_cong) (simp_all add: t')
  with enqueue_inv(1) [OF assms(1,2) e] t' show ?thesis by (simp add: ctl_inv_flags)
qed

lemma fetch_inv:
  assumes "ctl_inv cfg epoch reqs t" and "mappings_ok cfg"
    and "fetch_measurement i q now epoch (t, m, l) = Inr (r, (t', m', l'), tr)"
  shows "ctl_inv cfg epoch (reqs @ new_request t t') t'"
proof -
  obtain ok tr' where "enqueue now epoch t l = Inr (ok, t', l', tr')"
    using assms(3) by (auto simp: fetch_measurement_def split: if_splits option.splits)
  from enqueue_inv(1) [OF assms(1,2) this] show ?thesis .
qed

text \<open>An operation as the core issues it: a \<open>sync\<close> operand has the 17 bits of the instruction.\<close>

definition operation_ok :: "ControlOperation \<Rightarrow> bool" where
  "operation_ok op \<longleftrightarrow> (\<forall>x. command op = SynchronizeCommand x \<longrightarrow> x \<le> 131071)"

lemma dispatch_inv:
  assumes "ctl_inv cfg epoch reqs t" and "mappings_ok cfg" and "operation_ok op"
    and "ctl_dispatch v vs op now epoch (t, m, l) = Inr (r, (t', m', l'), tr)"
  shows "ctl_inv cfg epoch (reqs @ new_request t t') t'"
proof (cases "command op")
  case (WaitCommand n)
  with assms(4) obtain l'' tr' where "(if n = 0 then execute_zero_wait now epoch t l
      else advance_time (unat n) now epoch t l) = Inr (r, t', l'', tr')"
    by (auto simp: ctl_dispatch_def)
  with zero_wait_inv [OF assms(1,2)] advance_inv [OF assms(1,2)] show ?thesis by (auto split: if_splits)
next
  case (SynchronizeCommand x)
  with assms(3) have x: "x \<le> 131071" by (simp add: operation_ok_def)
  have "synchronize vs x t = Inr (r, t')" using assms(4) SynchronizeCommand by (auto simp: ctl_dispatch_def)
  from synchronize_inv [OF assms(1) x this] show ?thesis .
next
  case (CodewordCommand p c)
  with assms(4) obtain m'' tr' where "ctl_codeword v (co_instruction op) p c now epoch t m = Inr (r, t', m'', tr')"
    by (auto simp: ctl_dispatch_def)
  from codeword_inv [OF assms(1,2) this] show ?thesis .
next
  case HaltCommand
  with assms(4) obtain l'' tr' where "halt_stream now epoch t l = Inr (r, t', l'', tr')"
    by (auto simp: ctl_dispatch_def)
  from halt_inv [OF assms(1,2) this] show ?thesis .
next
  case (FetchMeasurementCommand q)
  with assms(4) have "fetch_measurement (co_instruction op) q now epoch (t, m, l) = Inr (r, (t', m', l'), tr)"
    by (simp add: ctl_dispatch_def)
  from fetch_inv [OF assms(1,2) this] show ?thesis .
qed

lemma execute_dispatch:
  assumes "execute v vs op now epoch (t, m, l) = Inr (r, (t', m', l'), tr)"
  obtains t1 where "ctl_dispatch v vs op now epoch (t\<lparr>held := Some op\<rparr>, m, l) = Inr (r, (t1, m', l'), tr)"
    "t' = (if r \<noteq> None then t1\<lparr>held := None\<rparr> else t1)" "\<not> ctl_closed t" "held t = None \<or> held t = Some op"
  using assms by (auto simp: execute_def)

lemma execute_inv:
  assumes "ctl_inv cfg epoch reqs t" and "mappings_ok cfg" and "operation_ok op"
    and "execute v vs op now epoch (t, m, l) = Inr (r, (t', m', l'), tr)"
  shows "ctl_inv cfg epoch (reqs @ new_request t t') t'"
  using assms(4)
proof (cases rule: execute_dispatch)
  case (1 t1)
  have inv: "ctl_inv cfg epoch reqs (t\<lparr>held := Some op\<rparr>)" using assms(1) by (simp add: ctl_inv_flags)
  have "new_request t t' = new_request (t\<lparr>held := Some op\<rparr>) t1" by (rule new_request_cong) (simp_all add: 1(2))
  with dispatch_inv [OF inv assms(2,3) 1(1)] show ?thesis by (simp add: 1(2) ctl_inv_flags)
qed

lemma receive_reply_inv:
  assumes "ctl_inv cfg epoch reqs t" and "receive_reply now epoch x t = Inr (t', tr)"
  shows "ctl_inv cfg epoch reqs t'"
proof (cases "env_epoch x = epoch")
  case True
  with assms(2) obtain r where r: "enqueue_request t = Some r" "env_value x = tp_label (tpoint r)"
    and t': "t' = t\<lparr>ctl_last_label := env_value x, last_enqueued_time := time_point t,
               enqueue_request := None, pending_events := [], pending_sync := [],
               pending_point := False, enqueued := True\<rparr>"
    by (auto simp: receive_reply_def split: option.splits)
  from assms(1) r obtain old where old: "reqs = old @ [r]" "labels reqs = [1..<ctl_last_label t + 2]"
    "interval_sum reqs = time_point t" by (auto simp: ctl_inv_def submitted_ok_def simp del: upt_Suc)
  have "last (labels reqs) = tp_label (tpoint r)" by (simp add: old(1) labels_def)
  then have "tp_label (tpoint r) = ctl_last_label t + 1" by (simp add: old(2))
  with assms(1) r old(2,3) show ?thesis
    by (auto simp: t' ctl_inv_def staged_ok_def submitted_ok_def simp del: upt_Suc)
qed (use assms in \<open>simp add: receive_reply_def\<close>)

lemma receive_inv:
  assumes "ctl_inv cfg epoch reqs t" and "receive now epoch (t, m, l) = Inr ((t', m', l'), tr)"
  shows "ctl_inv cfg epoch reqs t'"
proof -
  obtain tr1 where "(case fst (mb_take now (replies l)) of
      None \<Rightarrow> Inr (t, []) | Some r \<Rightarrow> receive_reply now epoch r t) = Inr (t', tr1)"
    using assms(2) unfolding receive_def by (auto simp: Let_def split_beta cong: option.case_cong)
  with assms(1) receive_reply_inv [OF assms(1)] show ?thesis by (auto split: option.splits)
qed

lemma ctl_new_inv: "ctl_inv cfg epoch [] (timing_control cfg)"
  by (simp add: timing_control_def ctl_inv_def staged_ok_def submitted_ok_def labels_def interval_sum_def)

lemma ctl_reset_new: "ctl_reset t = timing_control (ctl_profile t)"
  by (simp add: ctl_reset_def timing_control_def)

section \<open>Executions\<close>

text \<open>
  Executions of the timing control within one epoch after the other: the core issues operations,
  messages are received, and between the calls other components work on the shared registers and
  links. \<open>reqs\<close> collects the requests submitted in the current epoch.
\<close>

inductive ctl_reach :: "TimingConfig \<Rightarrow> Epoch \<Rightarrow> TimingEvents list \<Rightarrow> control_state \<Rightarrow> bool"
  for cfg where
  built: "ctl_reach cfg epoch [] (timing_control cfg, m, l)"
| issued: "ctl_reach cfg epoch reqs (t, m, l) \<Longrightarrow> operation_ok op \<Longrightarrow>
     execute v vs op now epoch (t, m, l) = Inr (r, (t', m', l'), tr) \<Longrightarrow>
     ctl_reach cfg epoch (reqs @ new_request t t') (t', m', l')"
| received: "ctl_reach cfg epoch reqs (t, m, l) \<Longrightarrow> receive now epoch (t, m, l) = Inr ((t', m', l'), tr) \<Longrightarrow>
     ctl_reach cfg epoch reqs (t', m', l')"
| others: "ctl_reach cfg epoch reqs (t, m, l) \<Longrightarrow> ctl_reach cfg epoch reqs (t, m', l')"
| new_epoch: "ctl_reach cfg epoch reqs (t, m, l) \<Longrightarrow> ctl_reach cfg epoch' [] (ctl_reset t, m', l')"

lemma ctl_reach_inv:
  assumes "ctl_reach cfg epoch reqs s" and "mappings_ok cfg"
  shows "ctl_inv cfg epoch reqs (fst s)"
  using assms(1)
proof induction
  case (issued epoch reqs t m l op v vs now r t' m' l' tr)
  then show ?case using execute_inv [OF _ assms(2)] by simp
next
  case (received epoch reqs t m l now t' m' l' tr)
  then show ?case using receive_inv by simp
next
  case (new_epoch epoch reqs t m l epoch' m' l')
  then have "ctl_profile t = cfg" by (simp add: ctl_inv_def)
  then show ?case by (simp add: ctl_reset_new ctl_new_inv)
qed (simp_all add: ctl_new_inv)


lemma matching_reference_found:
  "matching_reference a refs = Some r \<Longrightarrow> r \<in> set refs \<and> targets a = [ref_target r]"
proof -
  have "fold (\<lambda>r found. if length (targets a) = 1 \<and> ref_target r = hd (targets a) then Some r else found) refs x = Some r
    \<Longrightarrow> x = Some r \<or> r \<in> set refs \<and> targets a = [ref_target r]" for x
    by (induction refs arbitrary: x) (fastforce simp: length_Suc_conv split: if_splits)+
  then show "matching_reference a refs = Some r \<Longrightarrow> r \<in> set refs \<and> targets a = [ref_target r]"
    by (fastforce simp: matching_reference_def)
qed


lemma zero_wait_effect:
  assumes "execute_zero_wait now epoch t l = Inr (r, t', l', tr)"
  shows "time_point t' = time_point t \<and> held t' = held t \<and> (r \<noteq> None \<longrightarrow> enqueue_request t' = None)"
proof -
  define t0 where "t0 = (if pending_wait_for_next t then t
    else t\<lparr>pending_wait_for_next := True, pending_point := True\<rparr>)"
  have t0: "time_point t0 = time_point t" "held t0 = held t" by (simp_all add: t0_def)
  obtain ok t1 l1 tr1 where e: "enqueue now epoch t0 l = Inr (ok, t1, l1, tr1)"
    and i: "(if \<not> ok then Inr (None, t1, l1, tr1)
      else Inr (Some 0, t1\<lparr>pending_wait_for_next := False, allow_same_time := True, enqueued := False\<rparr>,
                l1, tr1)) = (Inr (r, t', l', tr) :: _ result)"
    using assms unfolding execute_zero_wait_def t0_def Let_def bindE_eq_Inr by auto
  from e show ?thesis using i t0 by (cases rule: enqueue_cases) (auto split: if_splits)
qed

lemma advance_effect:
  assumes "advance_time n now epoch t l = Inr (r, t', l', tr)"
  shows "time_point t' = (if r = None then time_point t else time_point t + n) \<and> held t' = held t \<and>
    (r \<noteq> None \<longrightarrow> enqueue_request t' = None)"
proof -
  obtain ok t1 l1 tr1 d where e: "enqueue now epoch t l = Inr (ok, t1, l1, tr1)"
    and d: "checked_add (time_point t) n = Inr d"
    and i: "(if \<not> ok then Inr (None, t1, l1, tr1)
      else Inr (Some 0, t1\<lparr>time_point := d, allow_same_time := False, pending_point := True,
        enqueued := False\<rparr>, l1, tr1)) = (Inr (r, t', l', tr) :: _ result)"
    using assms unfolding advance_time_def bindE_eq_Inr by auto
  have d: "d = time_point t + n" using d by (rule checked_add_sum)
  from e show ?thesis using i d by (cases rule: enqueue_cases) (auto split: if_splits)
qed

lemma fetch_effect:
  assumes "fetch_measurement i q now epoch (t, m, l) = Inr (r, (t', m', l'), tr)"
  shows "m' = m \<and> time_point t' = time_point t \<and> held t' = held t \<and>
    (\<forall>value. r = Some value \<longrightarrow> enqueue_request t' = None \<and> \<not> pending_point t \<and>
      (\<exists>b. read_register q m = Inr (Some b) \<and> value = (if b then 1 else 0)))"
proof -
  obtain ok t1 l1 tr1 where e: "enqueue now epoch t l = Inr (ok, t1, l1, tr1)"
    and i: "(if \<not> ok then Inr (None, (t1, m, l1), tr1)
     else
       bindE (read_register q m) (\<lambda>value.
       Inr (case value of
          None \<Rightarrow> (None, (t1, m, l1), tr1)
        | Some b \<Rightarrow> (Some (if b then 1 else 0), (t1, m, l1),
            tr1 @ [(trace_event now epoch ''MeasurementRegisterRead'' i 0 0)
              \<lparr>ev_targets := [q], ev_value := (if b then 1 else 0)\<rparr>])))) = Inr (r, (t', m', l'), tr)"
    using assms unfolding fetch_measurement_def by auto
  have "m' = m \<and> t' = t1 \<and> (\<forall>value. r = Some value \<longrightarrow> ok \<and>
      (\<exists>b. read_register q m = Inr (Some b) \<and> value = (if b then 1 else 0)))"
  proof (cases ok)
    case True
    then obtain v where v: "read_register q m = Inr v" using i by (cases "read_register q m") simp_all
    with i True show ?thesis by (cases v) (simp, fastforce)
  qed (use i in simp)
  then have "m' = m" "t' = t1" and r: "\<forall>value. r = Some value \<longrightarrow> ok \<and>
      (\<exists>b. read_register q m = Inr (Some b) \<and> value = (if b then 1 else 0))" by blast+
  from e show ?thesis
  proof (cases rule: enqueue_cases)
    case idle
    with \<open>m' = m\<close> \<open>t' = t1\<close> r show ?thesis by simp
  qed (use \<open>m' = m\<close> \<open>t' = t1\<close> r in simp_all)
qed

lemma halt_effect:
  assumes "halt_stream now epoch t l = Inr (r, t', l', tr)"
  shows "time_point t' = time_point t \<and> held t' = held t \<and>
    (r \<noteq> None \<longrightarrow> enqueue_request t' = None \<and> ctl_closed t')"
proof -
  obtain ok t1 l1 tr1 where e: "enqueue now epoch t l = Inr (ok, t1, l1, tr1)"
    and i: "(if \<not> ok then Inr (None, t1, l1, tr1)
     else
       bindE (publish now epoch (ctl_last_label t1) (closure l1)) (\<lambda>box.
       Inr (Some 0, t1\<lparr>ctl_closed := True\<rparr>, l1\<lparr>closure := box\<rparr>, tr1))) = Inr (r, t', l', tr)"
    using assms unfolding halt_stream_def bindE_eq_Inr [of "enqueue now epoch t l"] by auto
  have "t' = (if ok then t1\<lparr>ctl_closed := True\<rparr> else t1) \<and> (r \<noteq> None \<longrightarrow> ok)"
    using i by (cases ok) auto
  with e show ?thesis by (cases rule: enqueue_cases) auto
qed

text \<open>
  C25. An instruction that moves the program past a time point, a \<open>wait\<close>, a measurement read
  or the end of the program, completes only when nothing of the current point is left to submit
  and no request is outstanding, and a \<open>wait\<close> of n cycles moves the time point by exactly n. As
  long as it does not complete, it stays held: every other instruction is refused.
\<close>

theorem blocking_instruction:
  assumes "execute v vs op now epoch (t, m, l) = Inr (r, (t', m', l'), tr)"
    and "\<forall>port cw. command op \<noteq> CodewordCommand port cw" and "\<forall>x. command op \<noteq> SynchronizeCommand x"
  shows "(case r of
      Some value \<Rightarrow> enqueue_request t' = None \<and> held t' = None \<and>
        (\<forall>n. command op = WaitCommand n \<longrightarrow> time_point t' = time_point t + unat n) \<and>
        (command op = HaltCommand \<longrightarrow> ctl_closed t') \<and>
        (\<forall>q. command op = FetchMeasurementCommand q \<longrightarrow> \<not> pending_point t \<and>
           (\<exists>b. read_register q m = Inr (Some b) \<and> value = (if b then 1 else 0)))
    | None \<Rightarrow> held t' = Some op \<and> time_point t' = time_point t \<and> m' = m \<and>
        (\<forall>op'. op' \<noteq> op \<longrightarrow> execute v vs op' now epoch (t', m', l') = Inl Protocol))"
  using assms(1)
proof (cases rule: execute_dispatch)
  case (1 t1)
  have "case r of
      Some value \<Rightarrow> enqueue_request t1 = None \<and>
        (\<forall>n. command op = WaitCommand n \<longrightarrow> time_point t1 = time_point t + unat n) \<and>
        (command op = HaltCommand \<longrightarrow> ctl_closed t1) \<and>
        (\<forall>q. command op = FetchMeasurementCommand q \<longrightarrow> \<not> pending_point t \<and>
           (\<exists>b. read_register q m = Inr (Some b) \<and> value = (if b then 1 else 0)))
    | None \<Rightarrow> held t1 = Some op \<and> time_point t1 = time_point t \<and> m' = m"
  proof (cases "command op")
    case (WaitCommand n)
    with 1(1) obtain l'' tr' where w: "(if n = 0 then execute_zero_wait now epoch (t\<lparr>held := Some op\<rparr>) l
        else advance_time (unat n) now epoch (t\<lparr>held := Some op\<rparr>) l) = Inr (r, t1, l'', tr')" and m: "m' = m"
      by (auto simp: ctl_dispatch_def)
    then have "time_point t1 = (if r = None then time_point t else time_point t + unat n)"
      "held t1 = Some op" "r \<noteq> None \<Longrightarrow> enqueue_request t1 = None"
      using zero_wait_effect [of now epoch "t\<lparr>held := Some op\<rparr>" l r t1 l'' tr']
        advance_effect [of "unat n" now epoch "t\<lparr>held := Some op\<rparr>" l r t1 l'' tr']
      by (simp_all split: if_splits)
    with WaitCommand m show ?thesis by (simp split: option.splits)
  next
    case (FetchMeasurementCommand q)
    with 1(1) have "fetch_measurement (co_instruction op) q now epoch (t\<lparr>held := Some op\<rparr>, m, l) =
      Inr (r, (t1, m', l'), tr)" by (simp add: ctl_dispatch_def)
    from fetch_effect [OF this] FetchMeasurementCommand show ?thesis by (cases r) simp_all
  next
    case HaltCommand
    with 1(1) obtain l'' tr' where w: "halt_stream now epoch (t\<lparr>held := Some op\<rparr>) l = Inr (r, t1, l'', tr')"
      and m: "m' = m" by (auto simp: ctl_dispatch_def)
    from halt_effect [OF w] m HaltCommand show ?thesis by (auto split: option.splits)
  qed (use assms(2,3) in auto)
  note effect = this
  show ?thesis
  proof (cases r)
    case None
    have "execute v vs op' now epoch (t1, m', l') = Inl Protocol" if "op' \<noteq> op" for op'
      using effect None that by (simp add: execute_def require_def)
    with None effect 1(2) show ?thesis by simp
  next
    case (Some x)
    with effect 1(2) show ?thesis by simp
  qed
qed

section \<open>A concrete program\<close>

text \<open>
  Codeword 7 on port 0, then a wait: the wait submits the point with the codeword's event. Waits
  before it have moved the program to time point 1.
\<close>

definition example_registers :: MeasurementRegisters where
  "example_registers = measurement_registers \<lparr>fc_qubits = 1, fc_result_capacity = 2, fc_fast_feedback = False\<rparr>"

definition example_box :: "'a Mailbox" where
  "example_box = \<lparr>mb_capacity = 1, receiver = \<lparr>period = 20, phase = 0\<rparr>, mb_latency = 1, entries = []\<rparr>"

definition example_links :: ControlLinks where
  "example_links = \<lparr>timing_events = example_box, replies = example_box, closure = example_box,
     cpu_results = example_box, fast_results = example_box, fast_credits = example_box\<rparr>"

definition example_cw :: ControlOperation where
  "example_cw = \<lparr>co_instruction = 1, command = CodewordCommand 0 7\<rparr>"

definition example_wait :: ControlOperation where
  "example_wait = \<lparr>co_instruction = 2, command = WaitCommand 3\<rparr>"

definition example_staged :: TimingControl where
  "example_staged = (timing_control example_timing)\<lparr>pending_events := [example_event\<lparr>oe_label := 0\<rparr>],
     pending_point := True, next_event := 2\<rparr>"

definition example_first :: TimingEvents where
  "example_first = example_request\<lparr>tpoint := (tpoint example_request)\<lparr>tp_interval := 0,
     underflow_policy := Inherit\<rparr>\<rparr>"

definition example_sent :: TimingControl where
  "example_sent = example_staged\<lparr>enqueue_request := Some example_first, held := Some example_wait\<rparr>"

lemma example_mappings_ok: "mappings_ok example_timing"
  by (simp add: mappings_ok_def example_timing_def example_action_def amplitude_def)

lemmas example_codeword_simps = ctl_codeword_def timing_control_def example_data tc_mapping_def check_action_def
  execution_flag_def kind_def checked_add_def tick_max_def count_action_def count_port_def
  prepare_reservation_def has_capacity_def example_registers_def measurement_registers_def
  decode_codeword_def decode_action_def is_readout_def commit_reservation_def example_staged_def

lemma example_codeword:
  "\<exists>tr. ctl_codeword (\<lambda>_. Inr ()) 1 0 7 0 1 (timing_control example_timing) example_registers =
     Inr (Some 0, example_staged, example_registers, tr)"
  by (simp add: example_codeword_simps)

lemma example_issue_codeword:
  "\<exists>tr. execute (\<lambda>_. Inr ()) None example_cw 0 1 (timing_control example_timing, example_registers, example_links) =
     Inr (Some 0, (example_staged, example_registers, example_links), tr)"
  by (simp add: execute_def ctl_dispatch_def example_cw_def example_codeword_simps)

lemma example_issue_wait:
  "\<exists>tr l. execute (\<lambda>_. Inr ()) None example_wait 20 1 (example_staged, example_registers, example_links) =
     Inr (None, (example_sent, example_registers, l), tr)"
proof -
  have ok: "validate_timing_events example_first example_timing = Inr ()"
    by (simp add: validate_timing_events_def validate_event_def example_data tc_mapping_def
      event_spec_eq_def amplitude_def example_first_def)
  have sub: "submission 1 (example_staged\<lparr>held := Some example_wait\<rparr>) = Inr example_first"
    by (simp add: submission_def example_staged_def timing_control_def example_first_def example_request_def
        example_event_def example_timing_def checked_add_def tick_max_def sub64_def)
  have pub: "\<exists>b. publish 20 1 x example_box = Inr b" for x :: TimingEvents
    by (simp add: publish_def example_box_def mb_full_def after_def clock_validate_def checked_add_def
        checked_mul_def tick_max_def flip: numeral_2_eq_2)
  have p: "enqueue_request example_staged = None" "pending_point example_staged"
    "time_point example_staged = 0" "ctl_profile example_staged = example_timing"
    "\<not> ctl_closed example_staged" "held example_staged = None"
    by (simp_all add: example_staged_def timing_control_def)
  show ?thesis
    using ok sub pub [of example_first]
    by (auto simp: execute_def ctl_dispatch_def example_wait_def advance_time_def checked_add_def tick_max_def
        enqueue_def p mb_full_def example_links_def example_box_def example_sent_def)
qed



theorem blocking_instruction_witness:
  "\<exists>l. held example_sent = Some example_wait \<and> time_point example_sent = time_point example_staged \<and>
     execute (\<lambda>_. Inr ()) None example_cw 20 1 (example_sent, example_registers, l) = Inl Protocol"
proof -
  obtain tr l where 1: "execute (\<lambda>_. Inr ()) None example_wait 20 1 (example_staged, example_registers, example_links) =
      Inr (None, (example_sent, example_registers, l), tr)" using example_issue_wait by blast
  have 2: "\<forall>port cw. command example_wait \<noteq> CodewordCommand port cw"
    "\<forall>x. command example_wait \<noteq> SynchronizeCommand x" "example_cw \<noteq> example_wait"
    by (simp_all add: example_wait_def example_cw_def)
  show ?thesis
    using blocking_instruction [OF 1 2(1,2)] 2(3) by (intro exI [of _ l]) simp
qed

end
