(* ===== verification/Sync.thy ===== *)
theory Sync
  imports Trace Ordered_Map "HOL-Library.Product_Lexorder"
begin

text \<open>
  Synchronization between controllers, \<^verbatim>\<open>include/qsbit/sync.hpp\<close> and \<^verbatim>\<open>src/sync.cpp\<close>:
  the network of directed signal links and the unit of each core that books a synchronization,
  waits for the neighbour's signal and pauses the core's timer until it has arrived. The network
  is shared by the units; every operation takes and returns it.
\<close>

record SyncConnection =
  sc_first :: u32
  sc_second :: u32
  first_to_second :: Tick
  second_to_first :: Tick
  sc_capacity :: nat

record Signal =
  arrival :: Tick
  consumed :: "Tick option"

record Link =
  link_delay :: Tick
  link_capacity :: nat
  signals :: "Signal list"

record SyncNetwork =
  net_clock :: Clock
  net_links :: "(u32 \<times> u32, Link) omap"

section \<open>The network\<close>

definition add_link ::
  "Clock \<Rightarrow> nat \<Rightarrow> (u32 \<times> u32) \<times> Tick \<Rightarrow> (u32 \<times> u32, Link) omap \<Rightarrow> (u32 \<times> u32, Link) omap result" where
  "add_link clock capacity = (\<lambda>(k, cycles) links.
     bindE (checked_mul cycles (period clock)) (\<lambda>d.
     require (om_find k links = None) InvalidProfile (
     Inr (om_set k \<lparr>link_delay = d, link_capacity = capacity, signals = []\<rparr> links))))"

definition add_connection ::
  "Clock \<Rightarrow> SyncConnection \<Rightarrow> (u32 \<times> u32, Link) omap \<Rightarrow> (u32 \<times> u32, Link) omap result" where
  "add_connection clock c links =
     require (sc_first c \<noteq> sc_second c \<and> sc_capacity c > 0 \<and> first_to_second c > 0 \<and>
        second_to_first c > 0) InvalidProfile (
     foldE (add_link clock (sc_capacity c))
       [((sc_first c, sc_second c), first_to_second c), ((sc_second c, sc_first c), second_to_first c)] links)"

definition sync_network :: "Clock \<Rightarrow> SyncConnection list \<Rightarrow> SyncNetwork result" where
  "sync_network clock connections =
     bindE (clock_validate clock) (\<lambda>_.
     bindE (foldE (add_connection clock) connections []) (\<lambda>links.
     Inr \<lparr>net_clock = clock, net_links = links\<rparr>))"

definition net_delay :: "u32 \<Rightarrow> u32 \<Rightarrow> SyncNetwork \<Rightarrow> Tick result" where
  "net_delay source target n = (case om_find (source, target) (net_links n) of
      None \<Rightarrow> Inl UnsupportedSynchronization
    | Some l \<Rightarrow> Inr (link_delay l))"

definition purge :: "Tick \<Rightarrow> Link \<Rightarrow> Link" where
  "purge now l = l\<lparr>signals := filter (\<lambda>s. \<not> (case consumed s of None \<Rightarrow> False | Some t \<Rightarrow> t < now)) (signals l)\<rparr>"

definition net_preflight :: "u32 \<Rightarrow> u32 \<Rightarrow> Tick \<Rightarrow> SyncNetwork \<Rightarrow> SyncNetwork result" where
  "net_preflight source target now n =
     bindE (net_delay source target n) (\<lambda>_.
     require (edge (net_clock n) now) Protocol (
     case om_find (source, target) (net_links n) of
       None \<Rightarrow> Inl Protocol
     | Some l \<Rightarrow>
         let l' = purge now l in
         require (length (signals l') < link_capacity l') Capacity (
         bindE (checked_add now (link_delay l')) (\<lambda>_.
         Inr (n\<lparr>net_links := om_set (source, target) l' (net_links n)\<rparr>)))))"

definition net_send :: "u32 \<Rightarrow> u32 \<Rightarrow> Tick \<Rightarrow> SyncNetwork \<Rightarrow> SyncNetwork result" where
  "net_send source target now n =
     bindE (net_preflight source target now n) (\<lambda>n'.
     case om_find (source, target) (net_links n') of
       None \<Rightarrow> Inl Protocol
     | Some l \<Rightarrow>
         bindE (checked_add now (link_delay l)) (\<lambda>t.
         Inr (n'\<lparr>net_links := om_set (source, target)
           (l\<lparr>signals := signals l @ [\<lparr>arrival = t, consumed = None\<rparr>]\<rparr>) (net_links n')\<rparr>)))"

fun consume :: "Tick \<Rightarrow> Signal list \<Rightarrow> Tick option \<times> Signal list" where
  "consume now [] = (None, [])"
| "consume now (s # ss) =
     (if consumed s = None \<and> arrival s \<le> now then (Some (arrival s), s\<lparr>consumed := Some now\<rparr> # ss)
      else case consume now ss of (r, ss') \<Rightarrow> (r, s # ss'))"

definition net_receive :: "u32 \<Rightarrow> u32 \<Rightarrow> Tick \<Rightarrow> SyncNetwork \<Rightarrow> (Tick option \<times> SyncNetwork) result" where
  "net_receive source target now n = (case om_find (source, target) (net_links n) of
      None \<Rightarrow> Inl Protocol
    | Some l \<Rightarrow> (case consume now (signals l) of (r, ss) \<Rightarrow>
        Inr (r, n\<lparr>net_links := om_set (source, target) (l\<lparr>signals := ss\<rparr>) (net_links n)\<rparr>)))"

definition net_empty :: "SyncNetwork \<Rightarrow> bool" where
  "net_empty n \<longleftrightarrow> list_all (\<lambda>(k, l). list_all (\<lambda>s. consumed s \<noteq> None) (signals l)) (net_links n)"

definition net_reset :: "SyncNetwork \<Rightarrow> SyncNetwork" where
  "net_reset n = n\<lparr>net_links := map (\<lambda>(k, l). (k, l\<lparr>signals := []\<rparr>)) (net_links n)\<rparr>"

section \<open>The unit of a core\<close>

record Booking =
  bk_target :: u32
  bk_deadline :: Tick
  bk_received :: bool

record SyncUnit =
  su_core :: u32
  su_pending :: "Booking option"

definition sync_unit :: "u32 \<Rightarrow> SyncUnit" where
  "sync_unit core = \<lparr>su_core = core, su_pending = None\<rparr>"

definition su_validate :: "u32 \<Rightarrow> SyncUnit \<Rightarrow> SyncNetwork \<Rightarrow> unit result" where
  "su_validate target u n = bindE (net_delay (su_core u) target n) (\<lambda>_. Inr ())"

definition su_preflight :: "u32 list \<Rightarrow> Tick \<Rightarrow> SyncUnit \<Rightarrow> SyncNetwork \<Rightarrow> SyncNetwork result" where
  "su_preflight ts now u n =
     require (length ts \<le> 1 \<and> (ts = [] \<or> su_pending u = None)) UnsupportedSynchronization (
     foldE (\<lambda>target. net_preflight (su_core u) target now) ts n)"

definition book_one ::
  "Tick \<Rightarrow> Epoch \<Rightarrow> u32 \<Rightarrow> SyncUnit \<times> SyncNetwork \<times> TraceEvent list \<Rightarrow>
   (SyncUnit \<times> SyncNetwork \<times> TraceEvent list) result" where
  "book_one now epoch target = (\<lambda>(u, n, tr).
     bindE (net_delay (su_core u) target n) (\<lambda>d.
     bindE (checked_add now d) (\<lambda>deadline.
     bindE (net_send (su_core u) target now n) (\<lambda>n'.
     Inr (u\<lparr>su_pending := Some \<lparr>bk_target = target, bk_deadline = deadline, bk_received = False\<rparr>\<rparr>, n',
          tr @ [(trace_event now epoch ''SyncBooked'' 0 0 0)\<lparr>ev_value := deadline, ev_targets := [target]\<rparr>])))))"

definition su_book ::
  "u32 list \<Rightarrow> Tick \<Rightarrow> Epoch \<Rightarrow> SyncUnit \<Rightarrow> SyncNetwork \<Rightarrow> (SyncUnit \<times> SyncNetwork \<times> TraceEvent list) result" where
  "su_book ts now epoch u n =
     bindE (su_preflight ts now u n) (\<lambda>n'.
     foldE (book_one now epoch) ts (u, n', []))"

definition su_step ::
  "Tick \<Rightarrow> Epoch \<Rightarrow> SyncUnit \<Rightarrow> SyncNetwork \<Rightarrow> (bool \<times> SyncUnit \<times> SyncNetwork \<times> TraceEvent list) result" where
  "su_step now epoch u n = (case su_pending u of
      None \<Rightarrow> Inr (False, u, n, [])
    | Some p \<Rightarrow>
        bindE (if bk_received p then Inr (p, n, [])
               else bindE (net_receive (bk_target p) (su_core u) now n) (\<lambda>(r, n').
                 case r of
                   None \<Rightarrow> Inr (p, n', [])
                 | Some t \<Rightarrow> Inr (p\<lparr>bk_received := True\<rparr>, n',
                     [(trace_event now epoch ''SyncReceived'' 0 0 0)
                        \<lparr>ev_value := t, ev_targets := [bk_target p]\<rparr>])))
          (\<lambda>(p', n', tr).
        Inr (if bk_deadline p' \<le> now \<and> bk_received p'
             then (False, u\<lparr>su_pending := None\<rparr>, n',
                   tr @ [(trace_event now epoch ''SyncCompleted'' 0 0 0)\<lparr>ev_targets := [bk_target p']\<rparr>])
             else (bk_deadline p' \<le> now, u\<lparr>su_pending := Some p'\<rparr>, n', tr))))"

definition su_drained :: "SyncUnit \<Rightarrow> bool" where
  "su_drained u \<longleftrightarrow> su_pending u = None"

definition su_reset :: "SyncUnit \<Rightarrow> SyncUnit" where
  "su_reset u = u\<lparr>su_pending := None\<rparr>"

section \<open>Signals in flight\<close>

definition unconsumed :: "Signal list \<Rightarrow> Tick list" where
  "unconsumed ss = map arrival (filter (\<lambda>s. consumed s = None) ss)"

definition flight :: "u32 \<Rightarrow> u32 \<Rightarrow> SyncNetwork \<Rightarrow> Tick list" where
  "flight source target n = (case om_find (source, target) (net_links n) of
      None \<Rightarrow> [] | Some l \<Rightarrow> unconsumed (signals l))"

lemma unconsumed_simps [simp]:
  "unconsumed [] = []"
  "unconsumed (s # ss) = (if consumed s = None then arrival s # unconsumed ss else unconsumed ss)"
  "unconsumed (ss @ rs) = unconsumed ss @ unconsumed rs"
  by (simp_all add: unconsumed_def)

lemma unconsumed_purge: "unconsumed (signals (purge now l)) = unconsumed (signals l)"
proof -
  have "filter (\<lambda>s. consumed s = None) (filter (\<lambda>s. \<not> (case consumed s of None \<Rightarrow> False | Some t \<Rightarrow> t < now)) ss) =
    filter (\<lambda>s. consumed s = None) ss" for ss :: "Signal list"
    by (induction ss) (auto split: option.splits)
  then show ?thesis by (simp add: purge_def unconsumed_def del: filter_filter)
qed

lemma consume_result:
  assumes "consume now ss = (r, ss')" and "sorted (unconsumed ss)"
  shows "r = (if unconsumed ss \<noteq> [] \<and> hd (unconsumed ss) \<le> now then Some (hd (unconsumed ss)) else None)"
    and "unconsumed ss' = (if unconsumed ss \<noteq> [] \<and> hd (unconsumed ss) \<le> now then tl (unconsumed ss) else unconsumed ss)"
proof -
  have late: "consume now xs = (None, xs)" if "\<forall>t\<in>set (unconsumed xs). now < t" for xs
    using that by (induction xs) (auto split: if_splits)
  have "r = (if unconsumed ss \<noteq> [] \<and> hd (unconsumed ss) \<le> now then Some (hd (unconsumed ss)) else None) \<and>
    unconsumed ss' = (if unconsumed ss \<noteq> [] \<and> hd (unconsumed ss) \<le> now then tl (unconsumed ss) else unconsumed ss)"
    using assms
  proof (induction ss arbitrary: r ss')
    case (Cons s ss)
    show ?case
    proof (cases "consumed s = None")
      case False
      with Cons show ?thesis by (auto split: prod.splits)
    next
      case True
      show ?thesis
      proof (cases "arrival s \<le> now")
        case False
        with True Cons.prems(2) have "\<forall>t\<in>set (unconsumed ss). now < t" by auto
        from late [OF this] Cons.prems(1) True False show ?thesis by auto
      qed (use True Cons.prems in auto)
    qed
  qed simp
  then show "r = (if unconsumed ss \<noteq> [] \<and> hd (unconsumed ss) \<le> now then Some (hd (unconsumed ss)) else None)"
    and "unconsumed ss' = (if unconsumed ss \<noteq> [] \<and> hd (unconsumed ss) \<le> now then tl (unconsumed ss) else unconsumed ss)"
    by blast+
qed

lemma receive_flight:
  assumes "net_receive s t now n = Inr (r, n')" and "sorted (flight s t n)"
  shows "r = (if flight s t n \<noteq> [] \<and> hd (flight s t n) \<le> now then Some (hd (flight s t n)) else None)"
    and "flight s t n' = (if flight s t n \<noteq> [] \<and> hd (flight s t n) \<le> now then tl (flight s t n) else flight s t n)"
    and "(x, y) \<noteq> (s, t) \<Longrightarrow> flight x y n' = flight x y n"
    and "net_delay x y n' = net_delay x y n" and "net_clock n' = net_clock n"
proof -
  obtain l ss where l: "om_find (s, t) (net_links n) = Some l" "consume now (signals l) = (r, ss)"
    "n' = n\<lparr>net_links := om_set (s, t) (l\<lparr>signals := ss\<rparr>) (net_links n)\<rparr>"
    using assms(1) by (auto simp: net_receive_def split: option.splits prod.splits)
  have f: "flight s t n = unconsumed (signals l)" by (simp add: flight_def l)
  note c = consume_result [OF l(2)] assms(2) [unfolded f]
  show "r = (if flight s t n \<noteq> [] \<and> hd (flight s t n) \<le> now then Some (hd (flight s t n)) else None)"
    unfolding f by (rule c(1) [OF c(3)])
  show "flight s t n' = (if flight s t n \<noteq> [] \<and> hd (flight s t n) \<le> now then tl (flight s t n) else flight s t n)"
    using c(2) [OF c(3)] unfolding f by (simp add: flight_def l(3))
  show "(x, y) \<noteq> (s, t) \<Longrightarrow> flight x y n' = flight x y n" by (auto simp: flight_def l(3))
  show "net_delay x y n' = net_delay x y n" by (auto simp: net_delay_def l)
  show "net_clock n' = net_clock n" by (simp add: l(3))
qed

lemma preflight_flight:
  assumes "net_preflight s t now n = Inr n'"
  shows "flight x y n' = flight x y n" and "net_delay x y n' = net_delay x y n"
    and "net_clock n' = net_clock n" and "edge (net_clock n) now"
proof -
  obtain l where l: "om_find (s, t) (net_links n) = Some l" "edge (net_clock n) now"
    "n' = n\<lparr>net_links := om_set (s, t) (purge now l) (net_links n)\<rparr>"
    using assms by (auto simp: net_preflight_def Let_def split: option.splits)
  show "flight x y n' = flight x y n" by (auto simp: flight_def l unconsumed_purge)
  show "net_delay x y n' = net_delay x y n" by (auto simp: net_delay_def l purge_def)
  show "net_clock n' = net_clock n" and "edge (net_clock n) now" by (simp_all add: l)
qed

lemma send_flight:
  assumes "net_send s t now n = Inr n'" and "net_delay s t n = Inr d"
  shows "flight x y n' = flight x y n @ (if (x, y) = (s, t) then [now + d] else [])"
    and "net_delay x y n' = net_delay x y n" and "net_clock n' = net_clock n"
proof -
  obtain n1 l k where p: "net_preflight s t now n = Inr n1" "om_find (s, t) (net_links n1) = Some l"
    "checked_add now (link_delay l) = Inr k"
    "n' = n1\<lparr>net_links := om_set (s, t) (l\<lparr>signals := signals l @ [\<lparr>arrival = k, consumed = None\<rparr>]\<rparr>) (net_links n1)\<rparr>"
    using assms(1) by (auto simp: net_send_def split: option.splits)
  note f = preflight_flight [OF p(1)]
  have "link_delay l = d" using f(2) [of s t] assms(2) p(2) by (simp add: net_delay_def)
  with p(3) have k: "k = now + d" using checked_add_sum by blast
  show "flight x y n' = flight x y n @ (if (x, y) = (s, t) then [now + d] else [])"
    unfolding f(1) [symmetric] using p(2) by (auto simp: flight_def p(4) k)
  show "net_delay x y n' = net_delay x y n" 
    unfolding f(2) [symmetric] using p(2) by (auto simp: net_delay_def p(4))
  show "net_clock n' = net_clock n" using f(3) by (simp add: p(4))
qed

section \<open>Two cores that synchronize with each other\<close>

text \<open>
  The view one of two cores has of their synchronizations, with the bookings of both as ghost
  lists: \<open>bs\<close> are the ticks at which it booked, \<open>cs\<close> the ticks at which its synchronizations
  completed, \<open>os\<close> the bookings of the other core. \<open>d\<close> and \<open>e\<close> are the delays from and to
  this core, \<open>now\<close> is the tick of its next step and \<open>fl\<close> are the signals on their way to it.
\<close>

definition received_count :: "Tick list \<Rightarrow> Booking option \<Rightarrow> nat" where
  "received_count cs p = length cs + (case p of None \<Rightarrow> 0 | Some b \<Rightarrow> if bk_received b then 1 else 0)"

definition half ::
  "u32 \<Rightarrow> Tick \<Rightarrow> Tick \<Rightarrow> Tick \<Rightarrow> Tick list \<Rightarrow> Tick list \<Rightarrow> Tick list \<Rightarrow> Booking option \<Rightarrow> Tick list \<Rightarrow> bool" where
  "half other d e now bs cs os p fl \<longleftrightarrow>
     (\<forall>b\<in>set bs. b < now) \<and> length cs \<le> length os \<and>
     length bs = length cs + (if p = None then 0 else 1) \<and>
     (\<forall>k < length cs. cs ! k = max (bs ! k + d) (os ! k + e)) \<and>
     fl = map (\<lambda>b. b + e) (drop (received_count cs p) os) \<and>
     (case p of None \<Rightarrow> True
      | Some b \<Rightarrow> bk_target b = other \<and> bk_deadline b = last bs + d \<and>
          (bk_received b \<longrightarrow> length cs < length os \<and> os ! length cs + e < now) \<and>
          (now \<le> last bs + d \<or> length os \<le> length cs \<or> now \<le> os ! length cs + e))"

text \<open>The ticks involved are edges of one clock, so that a later one is at least a period later.\<close>

definition on_grid :: "Clock \<Rightarrow> Tick list \<Rightarrow> bool" where
  "on_grid c ts \<longleftrightarrow> sorted_wrt (<) ts \<and> (\<forall>t\<in>set ts. edge c t)"

definition whole :: "Clock \<Rightarrow> Tick \<Rightarrow> bool" where
  "whole c d \<longleftrightarrow> 0 < d \<and> period c dvd d"

lemma whole_edge: "edge c t \<Longrightarrow> whole c d \<Longrightarrow> edge c (t + d)"
  by (auto simp: whole_def dvd_def mult.commute intro: edge_next)

lemma whole_period: "whole c d \<Longrightarrow> period c \<le> d"
  by (auto simp: whole_def dest: dvd_imp_le)

lemma half_other_books:
  assumes "half other d e now bs cs os p fl" and "now \<le> t + e" and "received_count cs p \<le> length os"
  shows "half other d e now bs cs (os @ [t]) p (fl @ [t + e])"
  using assms by (auto simp: half_def nth_append split: option.splits)

lemma half_received: "half other d e now bs cs os p fl \<Longrightarrow> received_count cs p \<le> length os"
  by (auto simp: half_def received_count_def split: option.splits)

lemma half_books:
  assumes "half other d e (now + P) bs cs os None fl" and "\<forall>b\<in>set bs. b < now" and "0 < P" and "P \<le> d"
  shows "half other d e (now + P) (bs @ [now]) cs os
    (Some \<lparr>bk_target = other, bk_deadline = now + d, bk_received = False\<rparr>) fl"
  using assms by (auto simp: half_def nth_append received_count_def less_Suc_eq)

lemma half_next:
  assumes "half other d e now bs cs os None fl"
  shows "half other d e (now + P) bs cs os None fl"
  using assms by (auto simp: half_def)

lemma su_step_idle:
  assumes "su_step now ep u n = Inr (paused, u1, n1, tr)" and "su_pending u = None"
  shows "u1 = u" and "n1 = n"
  using assms by (auto simp: su_step_def)

lemma su_step_waiting:
  assumes step: "su_step now ep u n = Inr (paused, u1, n1, tr)" and p: "su_pending u = Some p"
    and s: "sorted (flight (bk_target p) (su_core u) n)"
    and fl: "fl = flight (bk_target p) (su_core u) n"
    and got: "got \<longleftrightarrow> bk_received p \<or> fl \<noteq> [] \<and> hd fl \<le> now"
  shows "u1 = u\<lparr>su_pending := if bk_deadline p \<le> now \<and> got then None else Some (p\<lparr>bk_received := got\<rparr>)\<rparr>"
    and "flight (bk_target p) (su_core u) n1 = (if got \<and> \<not> bk_received p then tl fl else fl)"
    and "(x, y) \<noteq> (bk_target p, su_core u) \<Longrightarrow> flight x y n1 = flight x y n"
    and "net_delay x y n1 = net_delay x y n" and "net_clock n1 = net_clock n"
proof -
  have "u1 = u\<lparr>su_pending := if bk_deadline p \<le> now \<and> got then None else Some (p\<lparr>bk_received := got\<rparr>)\<rparr> \<and>
    flight (bk_target p) (su_core u) n1 = (if got \<and> \<not> bk_received p then tl fl else fl) \<and>
    ((x, y) \<noteq> (bk_target p, su_core u) \<longrightarrow> flight x y n1 = flight x y n) \<and>
    net_delay x y n1 = net_delay x y n \<and> net_clock n1 = net_clock n"
  proof (cases "bk_received p")
    case True
    with step p have "u1 = u\<lparr>su_pending := if bk_deadline p \<le> now then None else Some p\<rparr>" "n1 = n"
      by (auto simp: su_step_def split: if_splits)
    moreover have "p\<lparr>bk_received := True\<rparr> = p" using True by (cases p) simp
    ultimately show ?thesis using True got fl by simp
  next
    case False
    with step p obtain r n2 where r: "net_receive (bk_target p) (su_core u) now n = Inr (r, n2)" and n2: "n1 = n2"
      and u1: "u1 = u\<lparr>su_pending := (case r of None \<Rightarrow> Some p
        | Some t \<Rightarrow> if bk_deadline p \<le> now then None else Some (p\<lparr>bk_received := True\<rparr>))\<rparr>"
      by (auto simp: su_step_def split: option.splits if_splits)
    have g: "got \<longleftrightarrow> fl \<noteq> [] \<and> hd fl \<le> now" using got False by simp
    note rf = receive_flight [OF r s]
    have "p\<lparr>bk_received := False\<rparr> = p" using False by (cases p) simp
    moreover have "r = (if got then Some (hd fl) else None)" using rf(1) g fl by simp
    ultimately have "u1 = u\<lparr>su_pending := if bk_deadline p \<le> now \<and> got then None else Some (p\<lparr>bk_received := got\<rparr>)\<rparr>"
      using u1 by (cases got) simp_all
    moreover have "flight (bk_target p) (su_core u) n1 = (if got \<and> \<not> bk_received p then tl fl else fl)"
      using rf(2) g fl n2 False by simp
    ultimately show ?thesis using rf(3,4,5) n2 by blast
  qed
  then show "u1 = u\<lparr>su_pending := if bk_deadline p \<le> now \<and> got then None else Some (p\<lparr>bk_received := got\<rparr>)\<rparr>"
    and "flight (bk_target p) (su_core u) n1 = (if got \<and> \<not> bk_received p then tl fl else fl)"
    and "(x, y) \<noteq> (bk_target p, su_core u) \<Longrightarrow> flight x y n1 = flight x y n"
    and "net_delay x y n1 = net_delay x y n" and "net_clock n1 = net_clock n" by blast+
qed

text \<open>One step of a waiting core, on the ghost view.\<close>

lemma half_waiting_step:
  assumes h: "half other d e now bs cs os (Some p) fl" and c: "valid_clock c" "edge c now"
    and grid: "on_grid c bs" "on_grid c os" and w: "whole c d" "whole c e"
    and got: "got \<longleftrightarrow> bk_received p \<or> fl \<noteq> [] \<and> hd fl \<le> now"
    and fl': "fl' = (if got \<and> \<not> bk_received p then tl fl else fl)"
  shows "if bk_deadline p \<le> now \<and> got then half other d e (now + period c) bs (cs @ [now]) os None fl'
    else half other d e (now + period c) bs cs os (Some (p\<lparr>bk_received := got\<rparr>)) fl'"
proof -
  let ?k = "length cs"
  have P: "0 < period c" using c(1) by (rule valid_clock_period)
  have len: "length bs = Suc ?k" and fl: "fl = map (\<lambda>b. b + e) (drop (received_count cs (Some p)) os)"
    and dl: "bk_deadline p = last bs + d" and tgt: "bk_target p = other"
    and rcv: "bk_received p \<longrightarrow> ?k < length os \<and> os ! ?k + e < now"
    and wait: "now \<le> last bs + d \<or> length os \<le> ?k \<or> now \<le> os ! ?k + e"
    and old: "\<forall>b\<in>set bs. b < now" "?k \<le> length os" "\<forall>k < ?k. cs ! k = max (bs ! k + d) (os ! k + e)"
    using h by (auto simp: half_def)
  have last: "last bs = bs ! ?k" using len by (cases bs rule: rev_cases) (simp_all add: nth_append)
  have gap: "now + period c \<le> t" if "edge c t" "now < t" for t using edge_gap [OF c that] .
  have edl: "edge c (last bs + d)" using grid(1) len whole_edge [OF _ w(1)] by (cases bs) (auto simp: on_grid_def)
  have ear: "edge c (os ! ?k + e)" if "?k < length os"
    using that grid(2) whole_edge [OF _ w(2)] by (auto simp: on_grid_def)
  have hd: "fl \<noteq> [] \<longleftrightarrow> ?k < length os" "?k < length os \<Longrightarrow> hd fl = os ! ?k + e" if "\<not> bk_received p"
    using that old(2) by (auto simp: fl received_count_def hd_map hd_drop_conv_nth)
  have got': "got \<longleftrightarrow> ?k < length os \<and> os ! ?k + e \<le> now"
    using got rcv hd by (cases "bk_received p") auto
  have fl2: "fl' = map (\<lambda>b. b + e) (drop (if got then Suc ?k else ?k) os)"
    using got fl by (cases "bk_received p") (auto simp: fl' received_count_def tl_drop drop_Suc simp flip: map_tl)
  show ?thesis
  proof (cases "bk_deadline p \<le> now \<and> got")
    case True
    then have g: "?k < length os" "os ! ?k + e \<le> now" "last bs + d \<le> now" using got' dl by auto
    then have "now = max (bs ! ?k + d) (os ! ?k + e)" using wait last by linarith
    with old g(1) len True fl2 P show ?thesis
      by (auto simp: half_def received_count_def nth_append less_Suc_eq)
  next
    case False
    have "now + period c \<le> last bs + d \<or> length os \<le> ?k \<or> now + period c \<le> os ! ?k + e"
    proof (cases got)
      case True
      with False dl have "now < last bs + d" by simp
      then show ?thesis using gap [OF edl] by simp
    next
      case no: False
      show ?thesis
      proof (cases "?k < length os")
        case True
        with no got' have "now < os ! ?k + e" by simp
        then show ?thesis using gap ear True by simp
      qed simp
    qed
    moreover have "\<forall>b\<in>set bs. b < now + period c" using old(1) by auto
    moreover have "got \<longrightarrow> ?k < length os \<and> os ! ?k + e < now + period c" using got' P by auto
    ultimately have "half other d e (now + period c) bs cs os (Some (p\<lparr>bk_received := got\<rparr>)) fl'"
      using old(2,3) len dl tgt fl2 by (simp add: half_def received_count_def)
    then show ?thesis unfolding if_not_P [OF False] .
  qed
qed

lemma su_step_core: "su_step now ep u n = Inr (paused, u1, n1, tr) \<Longrightarrow> su_core u1 = su_core u"
  by (auto simp: su_step_def split: option.splits if_splits)

definition ended :: "SyncUnit \<Rightarrow> SyncUnit \<Rightarrow> bool" where
  "ended u u1 \<longleftrightarrow> su_pending u \<noteq> None \<and> su_pending u1 = None"

lemma half_step:
  assumes h: "half other d e now bs cs os (su_pending u) (flight other (su_core u) n)"
    and c: "valid_clock c" "edge c now" and grid: "on_grid c bs" "on_grid c os" and w: "whole c d" "whole c e"
    and step: "su_step now ep u n = Inr (paused, u1, n1, tr)"
  shows "half other d e (now + period c) bs (cs @ (if ended u u1 then [now] else [])) os
      (su_pending u1) (flight other (su_core u) n1)"
    and "(x, y) \<noteq> (other, su_core u) \<Longrightarrow> flight x y n1 = flight x y n"
    and "net_delay x y n1 = net_delay x y n" and "net_clock n1 = net_clock n"
proof -
  have "half other d e (now + period c) bs (cs @ (if ended u u1 then [now] else [])) os
      (su_pending u1) (flight other (su_core u) n1) \<and>
    ((x, y) \<noteq> (other, su_core u) \<longrightarrow> flight x y n1 = flight x y n) \<and>
    net_delay x y n1 = net_delay x y n \<and> net_clock n1 = net_clock n"
  proof (cases "su_pending u")
    case None
    with su_step_idle [OF step] h half_next show ?thesis by (auto simp: ended_def)
  next
    case (Some p)
    let ?fl = "flight other (su_core u) n"
    have t: "bk_target p = other" and fl: "?fl = map (\<lambda>b. b + e) (drop (received_count cs (Some p)) os)"
      using h Some by (auto simp: half_def)
    have "sorted_wrt (\<lambda>x y. x \<le> y) os"
      using grid(2) by (auto simp: on_grid_def intro: sorted_wrt_mono_rel [of _ "(<)"])
    then have "sorted ?fl" unfolding fl by (simp add: sorted_wrt_map sorted_wrt_drop)
    then have s: "sorted (flight (bk_target p) (su_core u) n)" using t by simp
    define got where "got \<longleftrightarrow> bk_received p \<or> ?fl \<noteq> [] \<and> hd ?fl \<le> now"
    note st = su_step_waiting [OF step Some s refl, unfolded t, OF got_def]
    have "half other d e now bs cs os (Some p) ?fl" using h Some by simp
    from half_waiting_step [OF this c grid w got_def refl] st Some show ?thesis
      by (auto simp: ended_def split: if_splits)
  qed
  then show "half other d e (now + period c) bs (cs @ (if ended u u1 then [now] else [])) os
      (su_pending u1) (flight other (su_core u) n1)"
    and "(x, y) \<noteq> (other, su_core u) \<Longrightarrow> flight x y n1 = flight x y n"
    and "net_delay x y n1 = net_delay x y n" and "net_clock n1 = net_clock n" by blast+
qed

lemma su_book_one:
  assumes "su_book [other] now ep u n = Inr (u', n', tr)" and "net_delay (su_core u) other n = Inr d"
  shows "su_pending u = None"
    and "u' = u\<lparr>su_pending := Some \<lparr>bk_target = other, bk_deadline = now + d, bk_received = False\<rparr>\<rparr>"
    and "flight x y n' = flight x y n @ (if (x, y) = (su_core u, other) then [now + d] else [])"
    and "net_delay x y n' = net_delay x y n" and "net_clock n' = net_clock n" and "edge (net_clock n) now"
proof -
  obtain n1 d1 k where b: "su_pending u = None" "net_preflight (su_core u) other now n = Inr n1"
    "net_delay (su_core u) other n1 = Inr d1" "checked_add now d1 = Inr k"
    "net_send (su_core u) other now n1 = Inr n'"
    "u' = u\<lparr>su_pending := Some \<lparr>bk_target = other, bk_deadline = k, bk_received = False\<rparr>\<rparr>"
    using assms(1) by (auto simp: su_book_def su_preflight_def book_one_def)
  note p = preflight_flight [OF b(2)]
  have d: "net_delay (su_core u) other n1 = Inr d" using p(2) assms(2) by simp
  note s = send_flight [OF b(5) d]
  have "k = now + d" using b(3,4) d checked_add_sum by auto
  then show "u' = u\<lparr>su_pending := Some \<lparr>bk_target = other, bk_deadline = now + d, bk_received = False\<rparr>\<rparr>"
    using b(6) by simp
  show "su_pending u = None" "edge (net_clock n) now" using b(1) p(4) .
  show "flight x y n' = flight x y n @ (if (x, y) = (su_core u, other) then [now + d] else [])"
    using s(1) p(1) by simp
  show "net_delay x y n' = net_delay x y n" "net_clock n' = net_clock n" using s p by simp_all
qed

definition appended :: "bool \<Rightarrow> 'a \<Rightarrow> 'a list \<Rightarrow> 'a list" where
  "appended b x xs = xs @ (if b then [x] else [])"

lemma core_edge:
  assumes h: "half other d e now bs cs os (su_pending u) (flight other (su_core u) n)"
    and c: "valid_clock c" "edge c now" and grid: "on_grid c bs" "on_grid c os" and w: "whole c d" "whole c e"
    and ne: "su_core u \<noteq> other" and d: "net_delay (su_core u) other n = Inr d"
    and step: "su_step now ep u n = Inr (paused, u1, n1, tr)"
    and book: "su_book (if wants then [other] else []) now ep u1 n1 = Inr (u2, n2, tr')"
  shows "half other d e (now + period c) (appended wants now bs) (appended (ended u u1) now cs) os
      (su_pending u2) (flight other (su_core u) n2)"
    and "flight (su_core u) other n2 = flight (su_core u) other n @ (if wants then [now + d] else [])"
    and "su_core u2 = su_core u" and "net_delay x y n2 = net_delay x y n"
    and "on_grid c (appended wants now bs)"
proof -
  note hs = half_step [OF h c grid w step]
  have core: "su_core u1 = su_core u" by (rule su_step_core [OF step])
  have old: "\<forall>b\<in>set bs. b < now" using h by (simp add: half_def)
  show "on_grid c (appended wants now bs)"
    using grid(1) old c(2) by (auto simp: on_grid_def appended_def sorted_wrt_append)
  have fl: "flight (su_core u) other n1 = flight (su_core u) other n" using hs(2) ne by simp
  have "half other d e (now + period c) (appended wants now bs) (appended (ended u u1) now cs) os
      (su_pending u2) (flight other (su_core u) n2) \<and>
    flight (su_core u) other n2 = flight (su_core u) other n @ (if wants then [now + d] else []) \<and>
    su_core u2 = su_core u \<and> net_delay x y n2 = net_delay x y n"
  proof (cases wants)
    case True
    have b: "su_book [other] now ep u1 n1 = Inr (u2, n2, tr')" using book True by simp
    have d1: "net_delay (su_core u1) other n1 = Inr d" using hs(3) d core by simp
    note bk = su_book_one [OF b d1]
    have "half other d e (now + period c) bs (appended (ended u u1) now cs) os None (flight other (su_core u) n1)"
      using hs(1) bk(1) by (simp add: appended_def split: if_splits)
    from half_books [OF this old valid_clock_period [OF c(1)] whole_period [OF w(1)]]
    show ?thesis using True bk core hs(3) fl ne by (simp add: appended_def)
  next
    case False
    with book have "u2 = u1" "n2 = n1" by (auto simp: su_book_def su_preflight_def)
    with hs fl core False show ?thesis by (simp add: appended_def)
  qed
  then show "half other d e (now + period c) (appended wants now bs) (appended (ended u u1) now cs) os
      (su_pending u2) (flight other (su_core u) n2)"
    and "flight (su_core u) other n2 = flight (su_core u) other n @ (if wants then [now + d] else [])"
    and "su_core u2 = su_core u" and "net_delay x y n2 = net_delay x y n" by blast+
qed

section \<open>Executions of the pair\<close>

lemma network_links:
  assumes "sync_network c conns = Inr n" and "om_find k (net_links n) = Some l"
  shows "valid_clock c" and "signals l = []" and "whole c (link_delay l)"
proof -
  define ok where "ok l \<longleftrightarrow> signals l = [] \<and> whole c (link_delay l)" for l :: Link
  from assms(1) show v: "valid_clock c" by (auto simp: sync_network_def)
  from assms(1) have f: "foldE (add_connection c) conns [] = Inr (net_links n)"
    by (auto simp: sync_network_def)
  have link: "om_find k m' = Some l \<Longrightarrow> ok l"
    if "add_link c cap (k0, cyc) m = Inr m'" "0 < cyc" "\<forall>k l. om_find k m = Some l \<longrightarrow> ok l" for cap k0 cyc m m' k l
  proof -
    have "m' = om_set k0 \<lparr>link_delay = cyc * period c, link_capacity = cap, signals = []\<rparr> m"
      using that(1) by (auto simp: add_link_def)
    then show "om_find k m' = Some l \<Longrightarrow> ok l"
      using that(2,3) valid_clock_period [OF v]
      by (cases "k = k0") (auto simp: ok_def whole_def simp del: split_paired_All)
  qed
  have "\<forall>k l. om_find k (net_links n) = Some l \<longrightarrow> ok l"
  proof (rule foldE_invariant [OF f])
    fix x s s'
    assume i: "\<forall>k l. om_find k s = Some l \<longrightarrow> ok l" and a: "add_connection c x s = Inr s'"
    then obtain s1 where p: "0 < first_to_second x" "0 < second_to_first x"
      "add_link c (sc_capacity x) ((sc_first x, sc_second x), first_to_second x) s = Inr s1"
      "add_link c (sc_capacity x) ((sc_second x, sc_first x), second_to_first x) s1 = Inr s'"
      by (auto simp: add_connection_def)
    have "\<forall>k l. om_find k s1 = Some l \<longrightarrow> ok l" using link [OF p(3,1) i] by blast
    then show "\<forall>k l. om_find k s' = Some l \<longrightarrow> ok l" using link [OF p(4,2)] by blast
  qed simp
  with assms(2) have "ok l" by blast
  then show "signals l = []" and "whole c (link_delay l)" by (simp_all add: ok_def)
qed

text \<open>
  Executions of two cores \<open>A\<close> and \<open>B\<close> on a network: on every clock edge each core steps its unit
  and then books a synchronization with the other one or not, as the launched time point says.
  The lists record the ticks of bookings and completions of each core.
\<close>

inductive sync_run ::
  "Clock \<Rightarrow> SyncConnection list \<Rightarrow> u32 \<Rightarrow> u32 \<Rightarrow> Tick \<Rightarrow> Tick list \<Rightarrow> Tick list \<Rightarrow> Tick list \<Rightarrow> Tick list \<Rightarrow>
   SyncUnit \<Rightarrow> SyncUnit \<Rightarrow> SyncNetwork \<Rightarrow> bool" for c conns A B where
  sync_start: "sync_network c conns = Inr n \<Longrightarrow> edge c now \<Longrightarrow>
     sync_run c conns A B now [] [] [] [] (sync_unit A) (sync_unit B) n"
| sync_edge: "sync_run c conns A B now bA cA bB cB uA uB n \<Longrightarrow>
     su_step now ep uA n = Inr (pA, uA1, n1, tr1) \<Longrightarrow>
     su_book (if wA then [B] else []) now ep uA1 n1 = Inr (uA2, n2, tr2) \<Longrightarrow>
     su_step now ep uB n2 = Inr (pB, uB1, n3, tr3) \<Longrightarrow>
     su_book (if wB then [A] else []) now ep uB1 n3 = Inr (uB2, n4, tr4) \<Longrightarrow>
     sync_run c conns A B (now + period c)
       (appended wA now bA) (appended (ended uA uA1) now cA)
       (appended wB now bB) (appended (ended uB uB1) now cB) uA2 uB2 n4"

definition pair_inv ::
  "Clock \<Rightarrow> u32 \<Rightarrow> u32 \<Rightarrow> Tick \<Rightarrow> Tick \<Rightarrow> Tick \<Rightarrow> Tick list \<Rightarrow> Tick list \<Rightarrow> Tick list \<Rightarrow> Tick list \<Rightarrow>
   SyncUnit \<Rightarrow> SyncUnit \<Rightarrow> SyncNetwork \<Rightarrow> bool" where
  "pair_inv c A B d e now bA cA bB cB uA uB n \<longleftrightarrow>
     su_core uA = A \<and> su_core uB = B \<and> edge c now \<and>
     net_delay A B n = Inr d \<and> net_delay B A n = Inr e \<and> on_grid c bA \<and> on_grid c bB \<and>
     half B d e now bA cA bB (su_pending uA) (flight B A n) \<and>
     half A e d now bB cB bA (su_pending uB) (flight A B n)"

lemma pair_edge:
  assumes inv: "pair_inv c A B d e now bA cA bB cB uA uB n"
    and c: "valid_clock c" and w: "whole c d" "whole c e" and ne: "A \<noteq> B"
    and a: "su_step now ep uA n = Inr (pA, uA1, n1, tr1)"
      "su_book (if wA then [B] else []) now ep uA1 n1 = Inr (uA2, n2, tr2)"
    and b: "su_step now ep uB n2 = Inr (pB, uB1, n3, tr3)"
      "su_book (if wB then [A] else []) now ep uB1 n3 = Inr (uB2, n4, tr4)"
  shows "pair_inv c A B d e (now + period c) (appended wA now bA) (appended (ended uA uA1) now cA)
    (appended wB now bB) (appended (ended uB uB1) now cB) uA2 uB2 n4"
proof -
  let ?t = "now + period c"
  have i: "su_core uA = A" "su_core uB = B" "edge c now" "net_delay A B n = Inr d" "net_delay B A n = Inr e"
    "on_grid c bA" "on_grid c bB" "half B d e now bA cA bB (su_pending uA) (flight B A n)"
    "half A e d now bB cB bA (su_pending uB) (flight A B n)"
    using inv by (simp_all add: pair_inv_def)
  have hA: "half B d e now bA cA bB (su_pending uA) (flight B (su_core uA) n)" using i by simp
  note ca = core_edge [OF hA c i(3) i(6,7) w _ _ a, unfolded i(1), OF ne i(4)]
  have hB: "half A e d now bB cB (appended wA now bA) (su_pending uB) (flight A (su_core uB) n2)"
    using i(2,9) ca(2) half_other_books [OF i(9) _ half_received [OF i(9)], of now] by (simp add: appended_def)
  have dB: "net_delay B A n2 = Inr e" using ca(4) i(5) by simp
  note cb = core_edge [OF hB c i(3) i(7) ca(5) w(2,1) _ _ b, unfolded i(2), OF ne [symmetric] dB]
  have "flight B A n4 = flight B A n2 @ (if wB then [now + e] else [])" using cb(2) .
  moreover have "?t \<le> now + e" using whole_period [OF w(2)] by simp
  ultimately have "half B d e ?t (appended wA now bA) (appended (ended uA uA1) now cA) (appended wB now bB)
      (su_pending uA2) (flight B A n4)"
    using half_other_books [OF ca(1) _ half_received [OF ca(1)], of now] ca(1) by (simp add: appended_def)
  moreover have "edge c ?t" using edge_next [OF i(3), of 1] by simp
  moreover have "net_delay A B n4 = Inr d" "net_delay B A n4 = Inr e" using cb(4) ca(4) i(4,5) by simp_all
  ultimately show ?thesis using ca(3,5) cb(1,3,5) by (simp add: pair_inv_def)
qed

lemma sync_run_inv:
  assumes "sync_run c conns A B now bA cA bB cB uA uB n" and ne: "A \<noteq> B"
    and n0: "sync_network c conns = Inr n0" "net_delay A B n0 = Inr d" "net_delay B A n0 = Inr e"
  shows "pair_inv c A B d e now bA cA bB cB uA uB n \<and> valid_clock c \<and> whole c d \<and> whole c e"
proof -
  obtain l1 l2 where l: "om_find (A, B) (net_links n0) = Some l1" "d = link_delay l1"
    "om_find (B, A) (net_links n0) = Some l2" "e = link_delay l2"
    using n0(2,3) by (auto simp: net_delay_def split: option.splits)
  note k1 = network_links [OF n0(1) l(1)] and k2 = network_links [OF n0(1) l(3)]
  from assms(1) have "pair_inv c A B d e now bA cA bB cB uA uB n"
  proof induction
    case (sync_start n now)
    then have "n = n0" using n0(1) by simp
    with sync_start n0 k1 k2 l show ?case
      by (simp add: pair_inv_def sync_unit_def on_grid_def half_def flight_def received_count_def)
  next
    case (sync_edge now bA cA bB cB uA uB n ep pA uA1 n1 tr1 wA uA2 n2 tr2 pB uB1 n3 tr3 wB uB2 n4 tr4)
    show ?case
      using pair_edge [OF sync_edge.IH k1(1) _ _ ne sync_edge.hyps(2-5)] k1 k2 l by simp
  qed
  with k1 k2 l show ?thesis by simp
qed

lemma half_completion:
  assumes "half other d e now bs cs os p fl" and "k < length bs" "k < length os"
    and "max (bs ! k + d) (os ! k + e) < now"
  shows "k < length cs"
proof (rule ccontr)
  assume n: "\<not> k < length cs"
  then obtain b where p: "p = Some b" "k = length cs" "length bs = Suc k"
    using assms(1,2) by (cases p) (auto simp: half_def)
  then have "last bs = bs ! k" by (cases bs rule: rev_cases) (simp_all add: nth_append)
  with assms p show False by (auto simp: half_def)
qed

text \<open>
  C5. Zero-skew synchronization. When two connected cores synchronize with each other, the k-th
  synchronizations of both complete on the very same clock edge, whatever the two booking ticks
  and the two link delays are: at the later of the two moments at which one core's booking has
  travelled to the other. Both do complete by then: once that edge has passed, neither core is
  still waiting for its k-th synchronization.
\<close>

theorem sync_zero_skew:
  assumes "sync_run c conns A B now bA cA bB cB uA uB n" and "A \<noteq> B"
    and "sync_network c conns = Inr n0" and "net_delay A B n0 = Inr d" and "net_delay B A n0 = Inr e"
  shows "(\<forall>k. k < length cA \<longrightarrow> cA ! k = max (bA ! k + d) (bB ! k + e)) \<and>
    (\<forall>k. k < length cB \<longrightarrow> cB ! k = max (bA ! k + d) (bB ! k + e)) \<and>
    (\<forall>k. k < length bA \<longrightarrow> k < length bB \<longrightarrow> max (bA ! k + d) (bB ! k + e) < now \<longrightarrow>
       k < length cA \<and> k < length cB)"
proof -
  have h: "half B d e now bA cA bB (su_pending uA) (flight B A n)"
    "half A e d now bB cB bA (su_pending uB) (flight A B n)"
    using sync_run_inv [OF assms] by (simp_all add: pair_inv_def)
  have "\<forall>k. k < length cA \<longrightarrow> cA ! k = max (bA ! k + d) (bB ! k + e)" using h(1) by (simp add: half_def)
  moreover have "\<forall>k. k < length cB \<longrightarrow> cB ! k = max (bA ! k + d) (bB ! k + e)"
    using h(2) by (simp add: half_def max.commute)
  ultimately show ?thesis
    using half_completion [OF h(1)] half_completion [OF h(2)] by (simp add: max.commute)
qed

text \<open>
  Two cores on a 10-tick clock with delays of one cycle in both directions. Core 0 books at tick
  0, core 1 at tick 10; both complete at tick 20.
\<close>

definition example_clock :: Clock where
  "example_clock = \<lparr>period = 10, phase = 0\<rparr>"

definition example_connection :: SyncConnection where
  "example_connection = \<lparr>sc_first = 0, sc_second = 1, first_to_second = 1, second_to_first = 1, sc_capacity = 8\<rparr>"

definition example_link :: "Signal list \<Rightarrow> Link" where
  "example_link ss = \<lparr>link_delay = 10, link_capacity = 8, signals = ss\<rparr>"

definition example_network :: "Signal list \<Rightarrow> Signal list \<Rightarrow> SyncNetwork" where
  "example_network to1 to0 = \<lparr>net_clock = example_clock,
     net_links = [((0, 1), example_link to1), ((1, 0), example_link to0)]\<rparr>"

definition example_unit :: "u32 \<Rightarrow> Booking option \<Rightarrow> SyncUnit" where
  "example_unit i p = \<lparr>su_core = i, su_pending = p\<rparr>"

definition example_booking :: "u32 \<Rightarrow> Tick \<Rightarrow> bool \<Rightarrow> Booking" where
  "example_booking i t r = \<lparr>bk_target = i, bk_deadline = t, bk_received = r\<rparr>"

lemmas example_sync_simps = su_step_def su_book_def su_preflight_def net_preflight_def net_delay_def net_send_def
  net_receive_def book_one_def purge_def om_find_Cons edge_def checked_add_def tick_max_def Let_def
  example_network_def example_link_def example_clock_def example_unit_def example_booking_def

lemma example_sync_network: "sync_network example_clock [example_connection] = Inr (example_network [] [])"
  by (simp add: sync_network_def clock_validate_def add_connection_def add_link_def checked_mul_def
      tick_max_def example_clock_def example_connection_def example_network_def example_link_def om_find_Cons)

lemma example_sync_edges:
  fixes sent0 sent1 :: Signal
  assumes "sent0 = \<lparr>arrival = 10, consumed = None\<rparr>" and "sent1 = \<lparr>arrival = 20, consumed = None\<rparr>"
  shows "\<exists>tr. su_book [1] 0 1 (example_unit 0 None) (example_network [] []) =
      Inr (example_unit 0 (Some (example_booking 1 10 False)), example_network [sent0] [], tr)"
    and "\<exists>tr. su_step 10 1 (example_unit 0 (Some (example_booking 1 10 False))) (example_network [sent0] []) =
      Inr (True, example_unit 0 (Some (example_booking 1 10 False)), example_network [sent0] [], tr)"
    and "\<exists>tr. su_book [0] 10 1 (example_unit 1 None) (example_network [sent0] []) =
      Inr (example_unit 1 (Some (example_booking 0 20 False)), example_network [sent0] [sent1], tr)"
    and "\<exists>tr. su_step 20 1 (example_unit 0 (Some (example_booking 1 10 False))) (example_network [sent0] [sent1]) =
      Inr (False, example_unit 0 None, example_network [sent0] [sent1\<lparr>consumed := Some 20\<rparr>], tr)"
    and "\<exists>tr. su_step 20 1 (example_unit 1 (Some (example_booking 0 20 False)))
        (example_network [sent0] [sent1\<lparr>consumed := Some 20\<rparr>]) =
      Inr (False, example_unit 1 None, example_network [sent0\<lparr>consumed := Some 20\<rparr>] [sent1\<lparr>consumed := Some 20\<rparr>], tr)"
    and "su_step now 1 (example_unit i None) n = Inr (False, example_unit i None, n, [])"
    and "su_book [] now 1 u n = Inr (u, n, [])"
  by (simp_all add: example_sync_simps assms)

lemma example_sync_run:
  "\<exists>n. sync_run example_clock [example_connection] 0 1 30 [0] [20] [10] [20] (example_unit 0 None) (example_unit 1 None) n"
proof -
  let ?r = "sync_run example_clock [example_connection] 0 1"
  have u: "sync_unit i = example_unit i None" for i by (simp add: sync_unit_def example_unit_def)
  have P: "period example_clock = 10" and e: "edge example_clock 0" by (simp_all add: example_clock_def edge_def)
  have en: "\<not> ended (example_unit i None) x" "\<not> ended x (example_unit i (Some b))"
    "ended (example_unit i (Some b)) (example_unit i None)" for i b x
    by (simp_all add: ended_def example_unit_def)
  note ex = example_sync_edges [OF refl refl]
  have 0: "?r 0 [] [] [] [] (example_unit 0 None) (example_unit 1 None) (example_network [] [])"
    using sync_start [OF example_sync_network e, of 0 1] by (simp add: u)
  obtain tr1 where b0: "su_book (if True then [1] else []) 0 1 (example_unit 0 None) (example_network [] []) =
      Inr (example_unit 0 (Some (example_booking 1 10 False)), example_network [\<lparr>arrival = 10, consumed = None\<rparr>] [], tr1)"
    using ex(1) by auto
  have nb: "su_book (if False then [x] else []) now 1 u n = Inr (u, n, [])" for x now u n using ex(7) by simp
  have 1: "?r 10 [0] [] [] [] (example_unit 0 (Some (example_booking 1 10 False))) (example_unit 1 None)
      (example_network [\<lparr>arrival = 10, consumed = None\<rparr>] [])"
    using sync_edge [OF 0 ex(6) b0 ex(6) nb] by (simp add: P appended_def en)
  obtain tr2 where s1: "su_step 10 1 (example_unit 0 (Some (example_booking 1 10 False)))
      (example_network [\<lparr>arrival = 10, consumed = None\<rparr>] []) =
      Inr (True, example_unit 0 (Some (example_booking 1 10 False)), example_network [\<lparr>arrival = 10, consumed = None\<rparr>] [], tr2)"
    using ex(2) by blast
  obtain tr3 where b1: "su_book (if True then [0] else []) 10 1 (example_unit 1 None)
      (example_network [\<lparr>arrival = 10, consumed = None\<rparr>] []) =
      Inr (example_unit 1 (Some (example_booking 0 20 False)),
        example_network [\<lparr>arrival = 10, consumed = None\<rparr>] [\<lparr>arrival = 20, consumed = None\<rparr>], tr3)"
    using ex(3) by auto
  have 2: "?r 20 [0] [] [10] [] (example_unit 0 (Some (example_booking 1 10 False)))
      (example_unit 1 (Some (example_booking 0 20 False)))
      (example_network [\<lparr>arrival = 10, consumed = None\<rparr>] [\<lparr>arrival = 20, consumed = None\<rparr>])"
    using sync_edge [OF 1 s1 nb ex(6) b1] by (simp add: P appended_def en)
  obtain tr4 tr5 n3 n4 where s2: "su_step 20 1 (example_unit 0 (Some (example_booking 1 10 False)))
      (example_network [\<lparr>arrival = 10, consumed = None\<rparr>] [\<lparr>arrival = 20, consumed = None\<rparr>]) =
      Inr (False, example_unit 0 None, n3, tr4)"
    and s3: "su_step 20 1 (example_unit 1 (Some (example_booking 0 20 False))) n3 =
      Inr (False, example_unit 1 None, n4, tr5)"
    using ex(4,5) by blast
  show ?thesis
    using sync_edge [OF 2 s2 nb s3 nb] by (auto simp: P appended_def en)
qed

theorem sync_zero_skew_witness:
  "max (0 + 10) (10 + 10) = (20 :: Tick) \<and>
   (\<exists>n. sync_run example_clock [example_connection] 0 1 30 [0] [20] [10] [20] (example_unit 0 None) (example_unit 1 None) n)"
proof -
  obtain n where r: "sync_run example_clock [example_connection] 0 1 30 [0] [20] [10] [20]
      (example_unit 0 None) (example_unit 1 None) n" using example_sync_run by blast
  have d: "net_delay 0 1 (example_network [] []) = Inr 10" "net_delay 1 0 (example_network [] []) = Inr 10"
    by (simp_all add: net_delay_def example_network_def example_link_def om_find_Cons)
  have "\<forall>k. k < length [20 :: Tick] \<longrightarrow> [20] ! k = max ([0] ! k + 10) ([10] ! k + 10 :: Tick)"
    using sync_zero_skew [OF r _ example_sync_network d] by simp
  with r show ?thesis by auto
qed

end
