(* ===== verification/Isa.thy ===== *)
theory Isa
  imports Events
begin

unbundle bit_operations_syntax

text \<open>
  The instruction set, \<^verbatim>\<open>include/qsbit/isa.hpp\<close>, \<^verbatim>\<open>src/isa.cpp\<close>,
  \<^verbatim>\<open>contracts/isa.hpp\<close> and \<^verbatim>\<open>src/control_command.cpp\<close>: decoding and evaluation of RV32I
  words and of the control words of the custom opcode. Words are \<open>u32\<close> with the wrap-around of
  \<^verbatim>\<open>std::uint32_t\<close>; a \<^verbatim>\<open>std::int32_t\<close> reading is \<open>sint\<close>. The register numbers, which the
  source keeps in eight bits, are below 32.
\<close>

datatype Op =
    Lui | Auipc | Jal | Jalr | Beq | Bne | Blt | Bge | Bltu | Bgeu | Lb | Lh | Lw | Lbu | Lhu
  | Sb | Sh | Sw | Addi | Slti | Sltiu | Xori | Ori | Andi | Slli | Srli | Srai | Add | Sub | Sll
  | Slt | Sltu | Xor | Srl | Sra | Or | And | Fence | Ecall | Ebreak | Quantum

record Decoded =
  dec_op :: Op
  dec_word :: u32
  immediate :: u32
  dec_rd :: u32
  dec_rs1 :: u32
  dec_rs2 :: u32
  reads_rs1 :: bool
  reads_rs2 :: bool
  dec_writes_rd :: bool

datatype MemoryKind = NoMemory | Load | Store

record Effect =
  next_pc :: u32
  eff_value :: u32
  address :: u32
  store_value :: u32
  eff_writes_rd :: bool
  branch_taken :: bool
  sign_extend_load :: bool
  memory :: MemoryKind
  eff_width :: nat

section \<open>Decoding\<close>

definition sign_extend :: "u32 \<Rightarrow> nat \<Rightarrow> u32 result" where
  "sign_extend v bits =
     require (bits > 0 \<and> bits \<le> 32) InvalidOperand (
     if bits = 32 then Inr v
     else let mask = push_bit bits 1 - 1; sign = push_bit (bits - 1) 1 in
       Inr (((v AND mask) XOR sign) - sign))"

definition control_opcode :: u32 where
  "control_opcode = 0x0b"

definition valid_control_word :: "u32 \<Rightarrow> bool" where
  "valid_control_word w \<longleftrightarrow> w AND 127 = control_opcode \<and>
     (let rd = drop_bit 7 w AND 31; rs2 = drop_bit 20 w AND 31; mode = drop_bit 25 w;
          f = drop_bit 12 w AND 7 in
      if f = 0 then mode \<le> 3 \<and> rd = 0
      else if f = 1 then mode = 0 \<and> rd = 0 \<and> rs2 = 0
      else if f = 2 \<or> f = 6 then rd = 0
      else if f = 3 then mode = 0 \<and> rs2 = 0
      else False)"

definition decoded_fields :: "u32 \<Rightarrow> Decoded" where
  "decoded_fields w = \<lparr>dec_op = Fence, dec_word = w, immediate = 0, dec_rd = drop_bit 7 w AND 31,
     dec_rs1 = drop_bit 15 w AND 31, dec_rs2 = drop_bit 20 w AND 31,
     reads_rs1 = False, reads_rs2 = False, dec_writes_rd = False\<rparr>"

abbreviation illegal :: "'a result" where
  "illegal \<equiv> Inl IllegalInstruction"

definition decode_jal :: "u32 \<Rightarrow> Decoded result" where
  "decode_jal w =
     bindE (sign_extend (push_bit 20 (drop_bit 31 w) OR (w AND 0xff000) OR
        push_bit 11 (drop_bit 20 w AND 1) OR push_bit 1 (drop_bit 21 w AND 1023)) 21) (\<lambda>i.
     Inr ((decoded_fields w)\<lparr>dec_op := Jal, dec_writes_rd := True, immediate := i\<rparr>))"

definition decode_jalr :: "u32 \<Rightarrow> Decoded result" where
  "decode_jalr w =
     (if drop_bit 12 w AND 7 \<noteq> 0 then illegal
      else bindE (sign_extend (drop_bit 20 w) 12) (\<lambda>i.
        Inr ((decoded_fields w)\<lparr>dec_op := Jalr, dec_writes_rd := True, reads_rs1 := True, immediate := i\<rparr>)))"

definition branch_op :: "u32 \<Rightarrow> Op result" where
  "branch_op f3 = (if f3 = 0 then Inr Beq else if f3 = 1 then Inr Bne else if f3 = 4 then Inr Blt
     else if f3 = 5 then Inr Bge else if f3 = 6 then Inr Bltu else if f3 = 7 then Inr Bgeu else illegal)"

definition decode_branch :: "u32 \<Rightarrow> Decoded result" where
  "decode_branch w =
     bindE (branch_op (drop_bit 12 w AND 7)) (\<lambda>o1.
     bindE (sign_extend (push_bit 12 (drop_bit 31 w) OR push_bit 11 (drop_bit 7 w AND 1) OR
        push_bit 5 (drop_bit 25 w AND 63) OR push_bit 1 (drop_bit 8 w AND 15)) 13) (\<lambda>i.
     Inr ((decoded_fields w)\<lparr>dec_op := o1, reads_rs1 := True, reads_rs2 := True, immediate := i\<rparr>)))"

definition load_op :: "u32 \<Rightarrow> Op result" where
  "load_op f3 = (if f3 = 0 then Inr Lb else if f3 = 1 then Inr Lh else if f3 = 2 then Inr Lw
     else if f3 = 4 then Inr Lbu else if f3 = 5 then Inr Lhu else illegal)"

definition decode_load :: "u32 \<Rightarrow> Decoded result" where
  "decode_load w =
     bindE (load_op (drop_bit 12 w AND 7)) (\<lambda>o1.
     bindE (sign_extend (drop_bit 20 w) 12) (\<lambda>i.
     Inr ((decoded_fields w)\<lparr>dec_op := o1, reads_rs1 := True, dec_writes_rd := True, immediate := i\<rparr>)))"

definition store_op :: "u32 \<Rightarrow> Op result" where
  "store_op f3 = (if f3 = 0 then Inr Sb else if f3 = 1 then Inr Sh else if f3 = 2 then Inr Sw else illegal)"

definition decode_store :: "u32 \<Rightarrow> Decoded result" where
  "decode_store w =
     bindE (store_op (drop_bit 12 w AND 7)) (\<lambda>o1.
     bindE (sign_extend (push_bit 5 (drop_bit 25 w) OR (drop_bit 7 w AND 31)) 12) (\<lambda>i.
     Inr ((decoded_fields w)\<lparr>dec_op := o1, reads_rs1 := True, reads_rs2 := True, immediate := i\<rparr>)))"

definition decode_op_imm :: "u32 \<Rightarrow> Decoded result" where
  "decode_op_imm w =
     (let f3 = drop_bit 12 w AND 7; f7 = drop_bit 25 w;
          base = (decoded_fields w)\<lparr>reads_rs1 := True, dec_writes_rd := True\<rparr> in
      bindE (sign_extend (drop_bit 20 w) 12) (\<lambda>i.
      let d = base\<lparr>immediate := i\<rparr>; shift = base\<lparr>immediate := dec_rs2 base\<rparr> in
      if f3 = 0 then Inr (d\<lparr>dec_op := Addi\<rparr>)
      else if f3 = 2 then Inr (d\<lparr>dec_op := Slti\<rparr>)
      else if f3 = 3 then Inr (d\<lparr>dec_op := Sltiu\<rparr>)
      else if f3 = 4 then Inr (d\<lparr>dec_op := Xori\<rparr>)
      else if f3 = 6 then Inr (d\<lparr>dec_op := Ori\<rparr>)
      else if f3 = 7 then Inr (d\<lparr>dec_op := Andi\<rparr>)
      else if f3 = 1 then (if f7 \<noteq> 0 then illegal else Inr (shift\<lparr>dec_op := Slli\<rparr>))
      else if f3 = 5 then (if f7 \<noteq> 0 \<and> f7 \<noteq> 32 then illegal
        else Inr (shift\<lparr>dec_op := if f7 = 0 then Srli else Srai\<rparr>))
      else illegal))"

definition decode_op :: "u32 \<Rightarrow> Decoded result" where
  "decode_op w =
     (let f3 = drop_bit 12 w AND 7; f7 = drop_bit 25 w;
          d = (decoded_fields w)\<lparr>reads_rs1 := True, reads_rs2 := True, dec_writes_rd := True\<rparr> in
      if f7 \<noteq> 0 \<and> \<not> ((f3 = 0 \<or> f3 = 5) \<and> f7 = 32) then illegal
      else Inr (d\<lparr>dec_op :=
        if f3 = 0 then (if f7 = 0 then Add else Sub)
        else if f3 = 1 then Sll else if f3 = 2 then Slt else if f3 = 3 then Sltu
        else if f3 = 4 then Xor else if f3 = 5 then (if f7 = 0 then Srl else Sra)
        else if f3 = 6 then Or else And\<rparr>))"

definition decode_quantum :: "u32 \<Rightarrow> Decoded result" where
  "decode_quantum w =
     (let f3 = drop_bit 12 w AND 7; f7 = drop_bit 25 w in
      if \<not> valid_control_word w then illegal
      else Inr ((decoded_fields w)\<lparr>dec_op := Quantum,
        reads_rs1 := (f3 = 0 \<and> f7 AND 1 = 0) \<or> f3 = 1, reads_rs2 := f3 = 0 \<and> f7 AND 2 = 0,
        dec_writes_rd := f3 = 3\<rparr>))"

definition decode :: "u32 \<Rightarrow> Decoded result" where
  "decode w =
     (let opcode = w AND 127 in
      if opcode = 0x37 then Inr ((decoded_fields w)\<lparr>dec_op := Lui, immediate := w AND 0xfffff000, dec_writes_rd := True\<rparr>)
      else if opcode = 0x17 then Inr ((decoded_fields w)\<lparr>dec_op := Auipc, immediate := w AND 0xfffff000, dec_writes_rd := True\<rparr>)
      else if opcode = 0x6f then decode_jal w
      else if opcode = 0x67 then decode_jalr w
      else if opcode = 0x63 then decode_branch w
      else if opcode = 0x03 then decode_load w
      else if opcode = 0x23 then decode_store w
      else if opcode = 0x13 then decode_op_imm w
      else if opcode = 0x33 then decode_op w
      else if opcode = 0x0f then
        (if drop_bit 12 w AND 7 \<noteq> 0 then illegal else Inr ((decoded_fields w)\<lparr>dec_op := Fence\<rparr>))
      else if opcode = 0x73 then
        (if w = 0x00000073 then Inr ((decoded_fields w)\<lparr>dec_op := Ecall\<rparr>)
         else if w = 0x00100073 then Inr ((decoded_fields w)\<lparr>dec_op := Ebreak\<rparr>)
         else illegal)
      else if opcode = control_opcode then decode_quantum w
      else illegal)"

section \<open>Evaluation\<close>

definition sar :: "u32 \<Rightarrow> u32 \<Rightarrow> u32" where
  "sar x amount = word_of_int (drop_bit (unat (amount AND 31)) (sint x))"

definition word_of_bool :: "bool \<Rightarrow> u32" where
  "word_of_bool b = (if b then 1 else 0)"

definition is_branch :: "Op \<Rightarrow> bool" where
  "is_branch o1 \<longleftrightarrow> o1 \<in> {Beq, Bne, Blt, Bge, Bltu, Bgeu}"

definition alu :: "Op \<Rightarrow> u32 \<Rightarrow> u32 \<Rightarrow> u32 \<Rightarrow> u32 \<Rightarrow> u32" where
  "alu o1 pc i a b = (case o1 of
      Lui \<Rightarrow> i | Auipc \<Rightarrow> pc + i | Jal \<Rightarrow> pc + 4 | Jalr \<Rightarrow> pc + 4
    | Addi \<Rightarrow> a + i | Slti \<Rightarrow> word_of_bool (sint a < sint i) | Sltiu \<Rightarrow> word_of_bool (a < i)
    | Xori \<Rightarrow> a XOR i | Ori \<Rightarrow> a OR i | Andi \<Rightarrow> a AND i
    | Slli \<Rightarrow> push_bit (unat (i AND 31)) a | Srli \<Rightarrow> drop_bit (unat (i AND 31)) a | Srai \<Rightarrow> sar a i
    | Add \<Rightarrow> a + b | Sub \<Rightarrow> a - b | Sll \<Rightarrow> push_bit (unat (b AND 31)) a
    | Slt \<Rightarrow> word_of_bool (sint a < sint b) | Sltu \<Rightarrow> word_of_bool (a < b)
    | Xor \<Rightarrow> a XOR b | Srl \<Rightarrow> drop_bit (unat (b AND 31)) a | Sra \<Rightarrow> sar a b
    | Or \<Rightarrow> a OR b | And \<Rightarrow> a AND b | _ \<Rightarrow> 0)"

definition taken :: "Op \<Rightarrow> u32 \<Rightarrow> u32 \<Rightarrow> bool" where
  "taken o1 a b = (case o1 of
      Jal \<Rightarrow> True | Jalr \<Rightarrow> True | Beq \<Rightarrow> a = b | Bne \<Rightarrow> a \<noteq> b | Blt \<Rightarrow> sint a < sint b
    | Bge \<Rightarrow> sint b \<le> sint a | Bltu \<Rightarrow> a < b | Bgeu \<Rightarrow> b \<le> a | _ \<Rightarrow> False)"

definition access :: "Op \<Rightarrow> MemoryKind \<times> nat \<times> bool" where
  "access o1 = (case o1 of
      Lb \<Rightarrow> (Load, 1, True) | Lh \<Rightarrow> (Load, 2, True) | Lw \<Rightarrow> (Load, 4, False)
    | Lbu \<Rightarrow> (Load, 1, False) | Lhu \<Rightarrow> (Load, 2, False)
    | Sb \<Rightarrow> (Store, 1, False) | Sh \<Rightarrow> (Store, 2, False) | Sw \<Rightarrow> (Store, 4, False)
    | _ \<Rightarrow> (NoMemory, 0, False))"

definition evaluate :: "Decoded \<Rightarrow> u32 \<Rightarrow> u32 \<Rightarrow> u32 \<Rightarrow> Effect result" where
  "evaluate d pc a b =
     require (pc AND 3 = 0) InstructionMisaligned (
     let i = immediate d; (kind, width, signed) = access (dec_op d);
         e = \<lparr>next_pc = (if dec_op d = Jal then pc + i else if dec_op d = Jalr then (a + i) AND NOT 1
                else if is_branch (dec_op d) \<and> taken (dec_op d) a b then pc + i else pc + 4),
              eff_value = alu (dec_op d) pc i a b,
              address = (if kind = NoMemory then 0 else a + i),
              store_value = (if kind = Store then b else 0),
              eff_writes_rd = dec_writes_rd d, branch_taken = taken (dec_op d) a b,
              sign_extend_load = signed, memory = kind, eff_width = width\<rparr> in
     if dec_op d = Ecall then Inl EnvironmentCall
     else if dec_op d = Ebreak then Inl Breakpoint
     else require (next_pc e AND 3 = 0) InstructionMisaligned (Inr e))"

section \<open>Control operations\<close>

definition adapt_quantum :: "Decoded \<Rightarrow> Id \<Rightarrow> u32 \<Rightarrow> u32 \<Rightarrow> ControlOperation result" where
  "adapt_quantum d i lhs rhs =
     require (dec_op d = Quantum) Protocol (
     let w = dec_word d; f = drop_bit 12 w AND 7; mode = drop_bit 25 w in
     if f = 0 then Inr \<lparr>co_instruction = i, command = CodewordCommand
        (if mode AND 1 \<noteq> 0 then dec_rs1 d else lhs) (if mode AND 2 \<noteq> 0 then dec_rs2 d else rhs)\<rparr>
     else if f = 1 then Inr \<lparr>co_instruction = i, command = WaitCommand lhs\<rparr>
     else if f = 2 then Inr \<lparr>co_instruction = i, command = WaitCommand (drop_bit 15 w)\<rparr>
     else if f = 3 then Inr \<lparr>co_instruction = i, command = FetchMeasurementCommand (dec_rs1 d)\<rparr>
     else if f = 6 then Inr \<lparr>co_instruction = i, command = SynchronizeCommand (drop_bit 15 w)\<rparr>
     else Inl IllegalInstruction)"

section \<open>Bits of words\<close>

lemma low_positions:
  "(n :: nat) < 32 \<Longrightarrow> n \<in> {0,1,2,3,4,5,6,7,8,9,10,11,12,13,14,15,16,17,18,19,20,21,22,23,24,25,26,27,28,29,30,31}"
  by (simp; presburger)

lemma word32_eqI:
  "(\<And>n. n \<in> {0,1,2,3,4,5,6,7,8,9,10,11,12,13,14,15,16,17,18,19,20,21,22,23,24,25,26,27,28,29,30,31} \<Longrightarrow>
     bit a n = bit b n) \<Longrightarrow> (a :: u32) = b"
  by (rule bit_word_eqI) (use low_positions in simp)

lemma field_masks:
  "w AND 127 = take_bit 7 (w :: u32)" "w AND 31 = take_bit 5 w" "w AND 7 = take_bit 3 w" "w AND 1 = take_bit 1 w"
  "w AND 1023 = take_bit 10 w" "w AND 15 = take_bit 4 w" "w AND 63 = take_bit 6 w"
  by (simp_all add: take_bit_eq_mask mask_eq_exp_minus_1)

lemma sign_extend_signed:
  assumes "0 < bits" and "bits \<le> 32"
  shows "sign_extend v bits = Inr (signed_take_bit (bits - 1) v)"
proof (cases "bits = 32")
  case True
  have m: "min 31 n = n" "min n 31 = n" if "n < 32" for n :: nat using that by auto
  have "signed_take_bit 31 v = v" by (rule bit_word_eqI) (simp add: bit_signed_take_bit_iff m)
  with True show ?thesis by (simp add: sign_extend_def)
next
  case False
  define n where "n = bits - 1"
  have n: "bits = Suc n" "n < 31" using assms False by (auto simp: n_def)
  have mask: "v AND (push_bit bits 1 - 1) = take_bit (Suc n) v"
    by (simp add: n take_bit_eq_mask mask_eq_exp_minus_1 push_bit_eq_mult)
  have sgn: "push_bit n (1 :: u32) = 2 ^ n" by (simp add: push_bit_eq_mult)
  have "(take_bit (Suc n) v XOR 2 ^ n) - 2 ^ n = signed_take_bit n v"
  proof (cases "bit v n")
    case True
    have "take_bit (Suc n) v XOR 2 ^ n = take_bit n v"
      using True n by (intro bit_word_eqI) (auto simp: bit_simps less_Suc_eq)
    then have x: "(take_bit (Suc n) v XOR 2 ^ n) - 2 ^ n = take_bit n v - 2 ^ n" by simp
    have "signed_take_bit n v = take_bit n v OR NOT (mask n)"
      using True by (simp add: signed_take_bit_def)
    also have "\<dots> = take_bit n v + NOT (mask n)"
      by (rule disjunctive_add [symmetric]) (auto simp: bit_simps)
    also have "NOT (mask n :: u32) = - (2 ^ n)" by (simp add: not_eq_complement mask_eq_exp_minus_1)
    finally show ?thesis using x by simp
  next
    case False
    have "take_bit (Suc n) v XOR 2 ^ n = take_bit n v OR 2 ^ n"
      using False n by (intro bit_word_eqI) (auto simp: bit_simps less_Suc_eq)
    also have "\<dots> = take_bit n v + 2 ^ n"
      by (rule disjunctive_add [symmetric]) (auto simp: bit_simps)
    finally show ?thesis using False by (simp add: signed_take_bit_def)
  qed
  then show ?thesis using assms False mask sgn by (simp add: sign_extend_def n)
qed

section \<open>The instruction formats\<close>

definition fmt_r :: "u32 \<Rightarrow> u32 \<Rightarrow> u32 \<Rightarrow> u32 \<Rightarrow> u32 \<Rightarrow> u32 \<Rightarrow> u32" where
  "fmt_r f7 rs2 rs1 f3 rd opc = push_bit 25 f7 OR push_bit 20 rs2 OR push_bit 15 rs1 OR push_bit 12 f3 OR
     push_bit 7 rd OR opc"

definition fmt_i :: "u32 \<Rightarrow> u32 \<Rightarrow> u32 \<Rightarrow> u32 \<Rightarrow> u32 \<Rightarrow> u32" where
  "fmt_i i rs1 f3 rd opc = push_bit 20 i OR push_bit 15 rs1 OR push_bit 12 f3 OR push_bit 7 rd OR opc"

definition fmt_s :: "u32 \<Rightarrow> u32 \<Rightarrow> u32 \<Rightarrow> u32 \<Rightarrow> u32 \<Rightarrow> u32" where
  "fmt_s i rs2 rs1 f3 opc = push_bit 25 (drop_bit 5 i) OR push_bit 20 rs2 OR push_bit 15 rs1 OR
     push_bit 12 f3 OR push_bit 7 (take_bit 5 i) OR opc"

definition fmt_b :: "u32 \<Rightarrow> u32 \<Rightarrow> u32 \<Rightarrow> u32 \<Rightarrow> u32 \<Rightarrow> u32" where
  "fmt_b i rs2 rs1 f3 opc = push_bit 31 (drop_bit 12 i) OR push_bit 25 (take_bit 6 (drop_bit 5 i)) OR
     push_bit 20 rs2 OR push_bit 15 rs1 OR push_bit 12 f3 OR push_bit 8 (take_bit 4 (drop_bit 1 i)) OR
     push_bit 7 (take_bit 1 (drop_bit 11 i)) OR opc"

definition fmt_u :: "u32 \<Rightarrow> u32 \<Rightarrow> u32 \<Rightarrow> u32" where
  "fmt_u i rd opc = i OR push_bit 7 rd OR opc"

definition fmt_j :: "u32 \<Rightarrow> u32 \<Rightarrow> u32 \<Rightarrow> u32" where
  "fmt_j i rd opc = push_bit 31 (drop_bit 20 i) OR push_bit 21 (take_bit 10 (drop_bit 1 i)) OR
     push_bit 20 (take_bit 1 (drop_bit 11 i)) OR push_bit 12 (take_bit 8 (drop_bit 12 i)) OR
     push_bit 7 rd OR opc"

lemmas bit_unfold = bit_or_iff bit_push_bit_iff bit_drop_bit_eq comp_apply bit_take_bit_iff bit_signed_take_bit_iff

lemma fmt_r_fields:
  "fmt_r (drop_bit 25 w) (take_bit 5 (drop_bit 20 w)) (take_bit 5 (drop_bit 15 w)) (take_bit 3 (drop_bit 12 w))
     (take_bit 5 (drop_bit 7 w)) (take_bit 7 w) = w"
proof (rule word32_eqI, goal_cases)
  case (1 n)
  then show ?case
    unfolding fmt_r_def bit_unfold insert_iff empty_iff by (elim disjE) simp_all
qed

lemma fmt_i_fields:
  "fmt_i (signed_take_bit 11 (drop_bit 20 w)) (take_bit 5 (drop_bit 15 w)) (take_bit 3 (drop_bit 12 w))
     (take_bit 5 (drop_bit 7 w)) (take_bit 7 w) = w"
proof (rule word32_eqI, goal_cases)
  case (1 n)
  then show ?case
    unfolding fmt_i_def bit_unfold insert_iff empty_iff by (elim disjE) simp_all
qed

lemma fmt_s_fields:
  "fmt_s (signed_take_bit 11 (push_bit 5 (drop_bit 25 w) OR take_bit 5 (drop_bit 7 w))) (take_bit 5 (drop_bit 20 w))
     (take_bit 5 (drop_bit 15 w)) (take_bit 3 (drop_bit 12 w)) (take_bit 7 w) = w"
proof (rule word32_eqI, goal_cases)
  case (1 n)
  then show ?case
    unfolding fmt_s_def bit_unfold insert_iff empty_iff by (elim disjE) simp_all
qed

lemma fmt_b_fields:
  "fmt_b (signed_take_bit 12 (push_bit 12 (drop_bit 31 w) OR push_bit 11 (take_bit 1 (drop_bit 7 w)) OR
        push_bit 5 (take_bit 6 (drop_bit 25 w)) OR push_bit 1 (take_bit 4 (drop_bit 8 w))))
     (take_bit 5 (drop_bit 20 w)) (take_bit 5 (drop_bit 15 w)) (take_bit 3 (drop_bit 12 w)) (take_bit 7 w) = w"
proof (rule word32_eqI, goal_cases)
  case (1 n)
  then show ?case
    unfolding fmt_b_def bit_unfold insert_iff empty_iff by (elim disjE) simp_all
qed

lemma mask_u: "w AND 0xfffff000 = push_bit 12 (drop_bit 12 (w :: u32))"
proof -
  have "(0xfffff000 :: u32) = NOT (mask 12)" by (simp add: mask_eq_exp_minus_1)
  then show ?thesis by (simp add: bit_eq_iff bit_simps) auto
qed

lemma mask_j: "w AND 0xff000 = push_bit 12 (take_bit 8 (drop_bit 12 (w :: u32)))"
proof -
  have "(0xff000 :: u32) = push_bit 12 (mask 8)" by (simp add: mask_eq_exp_minus_1 push_bit_eq_mult)
  then show ?thesis by (simp add: bit_eq_iff bit_simps) auto
qed

lemma fmt_u_fields: "fmt_u (push_bit 12 (drop_bit 12 w)) (take_bit 5 (drop_bit 7 w)) (take_bit 7 w) = w"
proof (rule word32_eqI, goal_cases)
  case (1 n)
  then show ?case
    unfolding fmt_u_def bit_unfold insert_iff empty_iff by (elim disjE) simp_all
qed

lemma fmt_j_fields:
  "fmt_j (signed_take_bit 20 (push_bit 20 (drop_bit 31 w) OR push_bit 12 (take_bit 8 (drop_bit 12 w)) OR
        push_bit 11 (take_bit 1 (drop_bit 20 w)) OR push_bit 1 (take_bit 10 (drop_bit 21 w))))
     (take_bit 5 (drop_bit 7 w)) (take_bit 7 w) = w"
proof (rule word32_eqI, goal_cases)
  case (1 n)
  then show ?case
    unfolding fmt_j_def bit_unfold insert_iff empty_iff by (elim disjE) simp_all
qed

section \<open>Re-encoding\<close>

text \<open>The word of an instruction, from its operation, register numbers and immediate alone.\<close>

definition encode :: "Decoded \<Rightarrow> u32" where
  "encode d = (let
     i = immediate d; rd = dec_rd d; rs1 = dec_rs1 d; rs2 = dec_rs2 d;
     branch = (\<lambda>f3. fmt_b i rs2 rs1 f3 0x63); load = (\<lambda>f3. fmt_i i rs1 f3 rd 0x03);
     store = (\<lambda>f3. fmt_s i rs2 rs1 f3 0x23); arith_i = (\<lambda>f3. fmt_i i rs1 f3 rd 0x13);
     shift_i = (\<lambda>f7 f3. fmt_r f7 i rs1 f3 rd 0x13); arith = (\<lambda>f7 f3. fmt_r f7 rs2 rs1 f3 rd 0x33) in
     case dec_op d of
       Lui \<Rightarrow> fmt_u i rd 0x37 | Auipc \<Rightarrow> fmt_u i rd 0x17 | Jal \<Rightarrow> fmt_j i rd 0x6f | Jalr \<Rightarrow> fmt_i i rs1 0 rd 0x67
     | Beq \<Rightarrow> branch 0 | Bne \<Rightarrow> branch 1 | Blt \<Rightarrow> branch 4 | Bge \<Rightarrow> branch 5 | Bltu \<Rightarrow> branch 6 | Bgeu \<Rightarrow> branch 7
     | Lb \<Rightarrow> load 0 | Lh \<Rightarrow> load 1 | Lw \<Rightarrow> load 2 | Lbu \<Rightarrow> load 4 | Lhu \<Rightarrow> load 5
     | Sb \<Rightarrow> store 0 | Sh \<Rightarrow> store 1 | Sw \<Rightarrow> store 2
     | Addi \<Rightarrow> arith_i 0 | Slti \<Rightarrow> arith_i 2 | Sltiu \<Rightarrow> arith_i 3 | Xori \<Rightarrow> arith_i 4 | Ori \<Rightarrow> arith_i 6 | Andi \<Rightarrow> arith_i 7
     | Slli \<Rightarrow> shift_i 0 1 | Srli \<Rightarrow> shift_i 0 5 | Srai \<Rightarrow> shift_i 32 5
     | Add \<Rightarrow> arith 0 0 | Sub \<Rightarrow> arith 32 0 | Sll \<Rightarrow> arith 0 1 | Slt \<Rightarrow> arith 0 2 | Sltu \<Rightarrow> arith 0 3
     | Xor \<Rightarrow> arith 0 4 | Srl \<Rightarrow> arith 0 5 | Sra \<Rightarrow> arith 32 5 | Or \<Rightarrow> arith 0 6 | And \<Rightarrow> arith 0 7
     | Ecall \<Rightarrow> 0x73 | Ebreak \<Rightarrow> 0x100073 | Fence \<Rightarrow> dec_word d | Quantum \<Rightarrow> dec_word d)"

lemma below_eight: "(n :: nat) < 8 \<Longrightarrow> n \<in> {0, 1, 2, 3, 4, 5, 6, 7}"
  by (simp; presburger)

lemma funct3_range: "take_bit 3 (x :: u32) \<in> {0, 1, 2, 3, 4, 5, 6, 7}"
proof -
  have "unat (take_bit 3 x) = take_bit 3 (unat x)" by (simp add: unsigned_take_bit_eq)
  also have "take_bit 3 (unat x) < 8" using take_bit_nat_less_exp [of 3 "unat x"] by simp
  finally have "unat (take_bit 3 x) \<in> {0, 1, 2, 3, 4, 5, 6, 7}" by (rule below_eight)
  then have "of_nat (unat (take_bit 3 x)) \<in> (of_nat ` {0, 1, 2, 3, 4, 5, 6, 7} :: u32 set)" by (rule imageI)
  then show ?thesis by simp
qed

lemma decoded_fields_simps [simp]:
  "dec_op (decoded_fields w) = Fence" "dec_word (decoded_fields w) = w"
  "dec_rd (decoded_fields w) = take_bit 5 (drop_bit 7 w)"
  "dec_rs1 (decoded_fields w) = take_bit 5 (drop_bit 15 w)"
  "dec_rs2 (decoded_fields w) = take_bit 5 (drop_bit 20 w)"
  by (simp_all add: decoded_fields_def field_masks)

lemma decode_jal_encode:
  assumes "take_bit 7 w = 0x6f"
  shows "\<forall>d. decode_jal w = Inr d \<longrightarrow> encode d = w"
  using fmt_j_fields [of w, unfolded assms]
  by (simp add: decode_jal_def sign_extend_signed encode_def field_masks mask_j)

lemma decode_jalr_encode:
  assumes "take_bit 7 w = 0x67"
  shows "\<forall>d. decode_jalr w = Inr d \<longrightarrow> encode d = w"
proof (cases "take_bit 3 (drop_bit 12 w) = 0")
  case True
  show ?thesis
    using fmt_i_fields [of w, unfolded assms True] True
    by (simp add: decode_jalr_def sign_extend_signed encode_def field_masks)
qed (simp add: decode_jalr_def field_masks)

lemma decode_funct3_encode:
  assumes "take_bit 3 (drop_bit 12 w) = f" and "f \<in> {0, 1, 2, 3, 4, 5, 6, 7}"
  shows "take_bit 7 w = 0x63 \<Longrightarrow> \<forall>d. decode_branch w = Inr d \<longrightarrow> encode d = w"
    and "take_bit 7 w = 0x03 \<Longrightarrow> \<forall>d. decode_load w = Inr d \<longrightarrow> encode d = w"
    and "take_bit 7 w = 0x23 \<Longrightarrow> \<forall>d. decode_store w = Inr d \<longrightarrow> encode d = w"
proof -
  have f: "drop_bit 12 w AND 7 = f" using assms(1) by (simp add: field_masks)
  show "\<forall>d. decode_branch w = Inr d \<longrightarrow> encode d = w" if "take_bit 7 w = 0x63"
    using assms(2) fmt_b_fields [of w, unfolded that assms(1)]
    unfolding decode_branch_def f insert_iff empty_iff
    by (elim disjE) (simp_all add: branch_op_def sign_extend_signed encode_def field_masks)
  show "\<forall>d. decode_load w = Inr d \<longrightarrow> encode d = w" if "take_bit 7 w = 0x03"
    using assms(2) fmt_i_fields [of w, unfolded that assms(1)]
    unfolding decode_load_def f insert_iff empty_iff
    by (elim disjE) (simp_all add: load_op_def sign_extend_signed encode_def field_masks)
  show "\<forall>d. decode_store w = Inr d \<longrightarrow> encode d = w" if "take_bit 7 w = 0x23"
    using assms(2) fmt_s_fields [of w, unfolded that assms(1)]
    unfolding decode_store_def f insert_iff empty_iff
    by (elim disjE) (simp_all add: store_op_def sign_extend_signed encode_def field_masks)
qed

lemma decode_arith_encode:
  assumes "take_bit 3 (drop_bit 12 w) = f" and "f \<in> {0, 1, 2, 3, 4, 5, 6, 7}"
  shows "take_bit 7 w = 0x13 \<Longrightarrow> \<forall>d. decode_op_imm w = Inr d \<longrightarrow> encode d = w"
    and "take_bit 7 w = 0x33 \<Longrightarrow> \<forall>d. decode_op w = Inr d \<longrightarrow> encode d = w"
proof -
  have f: "drop_bit 12 w AND 7 = f" using assms(1) by (simp add: field_masks)
  consider "drop_bit 25 w = 0" | "drop_bit 25 w = 32" | "drop_bit 25 w \<noteq> 0" "drop_bit 25 w \<noteq> 32" by blast
  note f7 = this
  show "\<forall>d. decode_op_imm w = Inr d \<longrightarrow> encode d = w" if opc: "take_bit 7 w = 0x13"
  proof (cases rule: f7)
    case 1
    show ?thesis
      using assms(2) fmt_i_fields [of w, unfolded opc assms(1)] fmt_r_fields [of w, unfolded opc assms(1) 1]
      unfolding decode_op_imm_def f 1 insert_iff empty_iff
      by (elim disjE) (simp_all add: sign_extend_signed encode_def field_masks)
  next
    case 2
    show ?thesis
      using assms(2) fmt_i_fields [of w, unfolded opc assms(1)] fmt_r_fields [of w, unfolded opc assms(1) 2]
      unfolding decode_op_imm_def f 2 insert_iff empty_iff
      by (elim disjE) (simp_all add: sign_extend_signed encode_def field_masks)
  next
    case 3
    show ?thesis
      using assms(2) fmt_i_fields [of w, unfolded opc assms(1)] 3
      unfolding decode_op_imm_def f insert_iff empty_iff
      by (elim disjE) (simp_all add: sign_extend_signed encode_def field_masks)
  qed
  show "\<forall>d. decode_op w = Inr d \<longrightarrow> encode d = w" if opc: "take_bit 7 w = 0x33"
  proof (cases rule: f7)
    case 1
    show ?thesis
      using assms(2) fmt_r_fields [of w, unfolded opc assms(1) 1]
      unfolding decode_op_def f 1 insert_iff empty_iff
      by (elim disjE) (simp_all add: encode_def)
  next
    case 2
    show ?thesis
      using assms(2) fmt_r_fields [of w, unfolded opc assms(1) 2]
      unfolding decode_op_def f 2 insert_iff empty_iff
      by (elim disjE) (simp_all add: encode_def)
  next
    case 3
    then show ?thesis by (simp add: decode_op_def Let_def)
  qed
qed

lemma decode_opcode:
  "take_bit 7 w = 0x37 \<Longrightarrow> decode w =
     Inr ((decoded_fields w)\<lparr>dec_op := Lui, immediate := w AND 0xfffff000, dec_writes_rd := True\<rparr>)"
  "take_bit 7 w = 0x17 \<Longrightarrow> decode w =
     Inr ((decoded_fields w)\<lparr>dec_op := Auipc, immediate := w AND 0xfffff000, dec_writes_rd := True\<rparr>)"
  "take_bit 7 w = 0x6f \<Longrightarrow> decode w = decode_jal w"
  "take_bit 7 w = 0x67 \<Longrightarrow> decode w = decode_jalr w"
  "take_bit 7 w = 0x63 \<Longrightarrow> decode w = decode_branch w"
  "take_bit 7 w = 0x03 \<Longrightarrow> decode w = decode_load w"
  "take_bit 7 w = 0x23 \<Longrightarrow> decode w = decode_store w"
  "take_bit 7 w = 0x13 \<Longrightarrow> decode w = decode_op_imm w"
  "take_bit 7 w = 0x33 \<Longrightarrow> decode w = decode_op w"
  "take_bit 7 w = 0x0f \<Longrightarrow> decode w =
     (if drop_bit 12 w AND 7 \<noteq> 0 then illegal else Inr ((decoded_fields w)\<lparr>dec_op := Fence\<rparr>))"
  "take_bit 7 w = 0x73 \<Longrightarrow> decode w =
     (if w = 0x00000073 then Inr ((decoded_fields w)\<lparr>dec_op := Ecall\<rparr>)
      else if w = 0x00100073 then Inr ((decoded_fields w)\<lparr>dec_op := Ebreak\<rparr>) else illegal)"
  "take_bit 7 w = 0x0b \<Longrightarrow> decode w = decode_quantum w"
  by (simp_all add: decode_def field_masks control_opcode_def)

lemma legal_opcode:
  "decode w = Inr d \<Longrightarrow>
     take_bit 7 w \<in> {0x37, 0x17, 0x6f, 0x67, 0x63, 0x03, 0x23, 0x13, 0x33, 0x0f, 0x73, 0x0b}"
  by (auto simp: decode_def field_masks control_opcode_def Let_def split: if_splits)

text \<open>
  C15. Decoding loses nothing: from the operation, the register numbers and the sign-extended
  immediate that \<open>decode\<close> extracts, the instruction word can be rebuilt bit by bit, for every
  legal word; only \<open>fence\<close> and the control words, whose operand bits are read later from the
  word itself, are rebuilt from the stored word. In particular two different instruction words
  never decode to the same operation and operands, and no scrambled branch, jump or store
  immediate is assembled wrongly.
\<close>

theorem decode_lossless:
  assumes "decode w = Inr d"
  shows "encode d = w"
proof -
  note f = refl [of "take_bit 3 (drop_bit 12 w)"] funct3_range [of "drop_bit 12 w"]
  note f3 = decode_funct3_encode [OF f] and ar = decode_arith_encode [OF f]
  from legal_opcode [OF assms] show ?thesis
    unfolding insert_iff empty_iff
  proof (elim disjE)
    assume o1: "take_bit 7 w = 0x37"
    with assms have "d = (decoded_fields w)\<lparr>dec_op := Lui, immediate := w AND 0xfffff000, dec_writes_rd := True\<rparr>"
      by (simp add: decode_opcode(1))
    with fmt_u_fields [of w, unfolded o1] show ?thesis by (simp add: encode_def mask_u)
  next
    assume o1: "take_bit 7 w = 0x17"
    with assms have "d = (decoded_fields w)\<lparr>dec_op := Auipc, immediate := w AND 0xfffff000, dec_writes_rd := True\<rparr>"
      by (simp add: decode_opcode(2))
    with fmt_u_fields [of w, unfolded o1] show ?thesis by (simp add: encode_def mask_u)
  next
    assume o1: "take_bit 7 w = 0x6f"
    with assms decode_jal_encode [OF o1] show ?thesis by (simp add: decode_opcode(3) [OF o1])
  next
    assume o1: "take_bit 7 w = 0x67"
    with assms decode_jalr_encode [OF o1] show ?thesis by (simp add: decode_opcode(4) [OF o1])
  next
    assume o1: "take_bit 7 w = 0x63"
    with assms f3(1) [OF o1] show ?thesis by (simp add: decode_opcode(5) [OF o1])
  next
    assume o1: "take_bit 7 w = 0x03"
    with assms f3(2) [OF o1] show ?thesis by (simp add: decode_opcode(6) [OF o1])
  next
    assume o1: "take_bit 7 w = 0x23"
    with assms f3(3) [OF o1] show ?thesis by (simp add: decode_opcode(7) [OF o1])
  next
    assume o1: "take_bit 7 w = 0x13"
    with assms ar(1) [OF o1] show ?thesis by (simp add: decode_opcode(8) [OF o1])
  next
    assume o1: "take_bit 7 w = 0x33"
    with assms ar(2) [OF o1] show ?thesis by (simp add: decode_opcode(9) [OF o1])
  next
    assume o1: "take_bit 7 w = 0x0f"
    with assms show ?thesis unfolding decode_opcode(10) [OF o1] by (auto simp: encode_def split: if_splits)
  next
    assume o1: "take_bit 7 w = 0x73"
    with assms show ?thesis unfolding decode_opcode(11) [OF o1] by (auto simp: encode_def split: if_splits)
  next
    assume o1: "take_bit 7 w = 0x0b"
    with assms have "decode_quantum w = Inr d" by (simp add: decode_opcode(12) [OF o1])
    then show ?thesis by (auto simp: decode_quantum_def encode_def Let_def split: if_splits)
  qed simp
qed

text \<open>\<^verbatim>\<open>bne x5, x6, -8\<close>.\<close>

theorem decode_lossless_witness:
  "\<exists>d. decode 0xfe629ce3 = Inr d \<and> dec_op d = Bne \<and> immediate d = - 8 \<and> encode d = 0xfe629ce3"
proof -
  have "\<exists>d. decode 0xfe629ce3 = Inr d \<and> dec_op d = Bne \<and> immediate d = - 8"
    by (simp add: decode_def decode_branch_def branch_op_def sign_extend_def push_bit_eq_mult drop_bit_eq_div
        Let_def)
  then obtain d where "decode 0xfe629ce3 = Inr d" "dec_op d = Bne" "immediate d = - 8" by blast
  with decode_lossless [of "0xfe629ce3" d] show ?thesis by blast
qed

section \<open>Evaluation against integer arithmetic\<close>

text \<open>
  The values of the operations as the RISC-V manual defines them, on the integers that the
  register contents denote, reduced modulo \<open>2 ^ 32\<close>.
\<close>

definition rv32_value :: "Op \<Rightarrow> int \<Rightarrow> u32 \<Rightarrow> u32 \<Rightarrow> u32 \<Rightarrow> int" where
  "rv32_value o1 pc i a b = (case o1 of
      Lui \<Rightarrow> uint i
    | Auipc \<Rightarrow> (pc + uint i) mod 2 ^ 32
    | Jal \<Rightarrow> (pc + 4) mod 2 ^ 32
    | Jalr \<Rightarrow> (pc + 4) mod 2 ^ 32
    | Addi \<Rightarrow> (uint a + uint i) mod 2 ^ 32
    | Add \<Rightarrow> (uint a + uint b) mod 2 ^ 32
    | Sub \<Rightarrow> (uint a - uint b) mod 2 ^ 32
    | Slti \<Rightarrow> of_bool (sint a < sint i)
    | Slt \<Rightarrow> of_bool (sint a < sint b)
    | Sltiu \<Rightarrow> of_bool (uint a < uint i)
    | Sltu \<Rightarrow> of_bool (uint a < uint b)
    | Slli \<Rightarrow> (uint a * 2 ^ (unat i mod 32)) mod 2 ^ 32
    | Sll \<Rightarrow> (uint a * 2 ^ (unat b mod 32)) mod 2 ^ 32
    | Srli \<Rightarrow> uint a div 2 ^ (unat i mod 32)
    | Srl \<Rightarrow> uint a div 2 ^ (unat b mod 32)
    | Srai \<Rightarrow> (sint a div 2 ^ (unat i mod 32)) mod 2 ^ 32
    | Sra \<Rightarrow> (sint a div 2 ^ (unat b mod 32)) mod 2 ^ 32
    | Xori \<Rightarrow> uint a XOR uint i | Xor \<Rightarrow> uint a XOR uint b
    | Ori \<Rightarrow> uint a OR uint i | Or \<Rightarrow> uint a OR uint b
    | Andi \<Rightarrow> uint a AND uint i | And \<Rightarrow> uint a AND uint b
    | _ \<Rightarrow> 0)"

lemma shift_amount: "unat (x AND (31 :: u32)) = unat x mod 32"
  using take_bit_eq_mod [of 5 "unat x"] by (simp add: field_masks(2) unsigned_take_bit_eq)

lemma uint_shift_left: "uint (push_bit n (a :: u32)) = (uint a * 2 ^ n) mod 2 ^ 32"
  by (simp add: unsigned_push_bit_eq) (simp add: push_bit_eq_mult take_bit_eq_mod)

lemma uint_shift_right: "uint (drop_bit n (a :: u32)) = uint a div 2 ^ n"
proof -
  have "take_bit 32 (uint a) = uint a"
    using uint_range_size [of a] by (simp add: take_bit_int_eq_self_iff word_size)
  then show ?thesis by (simp add: unsigned_drop_bit_eq) (simp add: drop_bit_eq_div)
qed

lemma uint_bitwise:
  "uint (a XOR b) = uint a XOR uint b" "uint (a OR b) = uint a OR uint b" "uint (a AND b) = uint a AND uint (b :: u32)"
  by (simp_all add: unsigned_xor_eq unsigned_or_eq unsigned_and_eq)

lemma uint_sar: "uint (sar a x) = (sint a div 2 ^ (unat x mod 32)) mod 2 ^ 32"
  by (simp add: sar_def shift_amount drop_bit_eq_div unsigned_of_int take_bit_eq_mod)

lemma uint_word_of_bool: "uint (word_of_bool b) = of_bool b"
  by (simp add: word_of_bool_def)

lemma alu_value: "uint (alu o1 pc i a b) = rv32_value o1 (uint pc) i a b"
  by (cases o1)
    (simp_all add: alu_def rv32_value_def uint_word_ariths shift_amount uint_shift_left uint_shift_right
      uint_sar uint_word_of_bool word_less_def uint_bitwise)

lemma aligned_word: "pc AND 3 = 0 \<longleftrightarrow> 4 dvd uint (pc :: u32)"
proof -
  have "pc AND 3 = take_bit 2 pc" by (simp add: take_bit_eq_mask mask_eq_exp_minus_1)
  moreover have "take_bit 2 pc = 0 \<longleftrightarrow> uint (take_bit 2 pc) = 0" by (rule uint_0_iff [symmetric])
  ultimately show ?thesis by (simp add: unsigned_take_bit_eq take_bit_eq_0_iff)
qed

lemma aligned_next: "pc AND 3 = 0 \<Longrightarrow> (pc + 4) AND 3 = (0 :: u32)"
proof -
  assume "pc AND 3 = 0"
  then have d: "4 dvd uint pc" by (simp add: aligned_word)
  have "uint (pc + 4) = (uint pc + 4) mod 2 ^ 32" by (simp add: uint_word_ariths)
  with d have "4 dvd uint (pc + 4)" by (simp add: dvd_mod)
  then show ?thesis by (simp add: aligned_word)
qed

lemma clear_low_bit: "uint (x AND NOT (1 :: u32)) = 2 * (uint x div 2)"
proof -
  have "x AND NOT 1 = push_bit 1 (drop_bit 1 x)"
    by (rule bit_word_eqI) (auto simp: bit_and_iff bit_not_iff bit_1_iff bit_push_bit_iff bit_drop_bit_eq
        simp del: push_bit_Suc push_bit_of_1 push_bit_double)
  then have "uint (x AND NOT 1) = (2 * (uint x div 2)) mod 2 ^ 32"
    using uint_shift_left [of 1 "drop_bit 1 x"] uint_shift_right [of 1 x] by (simp add: mult.commute)
  moreover have "2 * (uint x div 2) < 2 ^ 32"
    using uint_range_size [of x] by (simp add: word_size)
  ultimately show ?thesis by simp
qed

text \<open>The target of a jump or a taken branch, on integers.\<close>

definition rv32_target :: "Op \<Rightarrow> int \<Rightarrow> u32 \<Rightarrow> u32 \<Rightarrow> int" where
  "rv32_target o1 pc i a =
     (if o1 = Jalr then 2 * ((uint a + uint i) mod 2 ^ 32 div 2) else (pc + uint i) mod 2 ^ 32)"



section \<open>Control words\<close>

text \<open>
  C33. Every control word that the decoder accepts is accepted by the adapter as well: the
  reserved functions are rejected at decode, so that the adapter's own rejection is unreachable.
  The operands are the registers exactly when the decoder said that it reads them, and the target
  of a \<open>sync\<close> fits the 17 bits that the validation of a time point allows.
\<close>

theorem quantum_words_adapt:
  assumes "decode w = Inr d" and "dec_op d = Quantum"
  shows "\<exists>op. adapt_quantum d i lhs rhs = Inr op \<and> co_instruction op = i \<and>
    (\<forall>x. command op = SynchronizeCommand x \<longrightarrow> x \<le> 131071) \<and>
    (\<not> reads_rs1 d \<longrightarrow> (\<forall>l. adapt_quantum d i l rhs = Inr op)) \<and>
    (\<not> reads_rs2 d \<longrightarrow> (\<forall>r. adapt_quantum d i lhs r = Inr op)) \<and>
    (dec_writes_rd d \<longleftrightarrow> (\<exists>q. command op = FetchMeasurementCommand q))"
proof -
  have "take_bit 7 w = 0x0b"
  proof (rule ccontr)
    assume n: "take_bit 7 w \<noteq> 0x0b"
    have "dec_op d \<noteq> Quantum"
      using assms(1) n legal_opcode [OF assms(1)]
      by (auto simp: decode_opcode decode_jal_def decode_jalr_def decode_branch_def branch_op_def decode_load_def
          load_op_def decode_store_def store_op_def decode_op_imm_def decode_op_def Let_def split: if_splits)
    with assms(2) show False by simp
  qed
  with assms(1) have q: "decode_quantum w = Inr d" by (simp add: decode_opcode(12))
  let ?f = "drop_bit 12 w AND 7" and ?m = "drop_bit 25 w"
  have d: "dec_word d = w" "dec_op d = Quantum" "reads_rs1 d \<longleftrightarrow> (?f = 0 \<and> ?m AND 1 = 0) \<or> ?f = 1"
    "reads_rs2 d \<longleftrightarrow> ?f = 0 \<and> ?m AND 2 = 0" "dec_writes_rd d \<longleftrightarrow> ?f = 3"
    using q by (auto simp: decode_quantum_def Let_def split: if_splits)
  have f: "?f \<in> {0, 1, 2, 3, 6}"
    using q by (auto simp: decode_quantum_def valid_control_word_def Let_def split: if_splits)
  have "uint w < 2 ^ 32" using unsigned_less [where 'b=32 and 'a=int and w=w] by simp
  then have "uint w div 2 ^ 15 \<le> 131071" by simp
  then have s: "drop_bit 15 w \<le> 131071" by (simp only: word_le_def uint_shift_right) simp
  show ?thesis
    using f s unfolding insert_iff empty_iff by (elim disjE) (simp_all add: adapt_quantum_def d Let_def)
qed

theorem quantum_words_adapt_witness:
  "\<exists>d op. decode 0x0200600b = Inr d \<and> adapt_quantum d 9 0 0 = Inr op \<and> command op = SynchronizeCommand 0x400"
proof -
  obtain d where d: "decode 0x0200600b = Inr d" "dec_op d = Quantum" "dec_word d = 0x0200600b"
    by (simp add: decode_def decode_quantum_def valid_control_word_def control_opcode_def drop_bit_eq_div Let_def
        decoded_fields_def)
  from quantum_words_adapt [OF d(1,2), of 9 0 0] obtain op where op: "adapt_quantum d 9 0 0 = Inr op" by blast
  moreover from this d(2,3) have "command op = SynchronizeCommand 0x400"
    by (auto simp: adapt_quantum_def Let_def drop_bit_eq_div)
  ultimately show ?thesis using d(1) by blast
qed

end
