(* ===== verification/Image.thy ===== *)
theory Image
  imports Time
begin

unbundle bit_operations_syntax

text \<open>
  Program images, \<^verbatim>\<open>include/qsbit/image.hpp\<close> and \<^verbatim>\<open>src/image.cpp\<close>: the memory of a core
  with the segments of its program, loaded from an ELF file or a raw file, and the checked
  accesses to it. Bytes are \<open>8 word\<close>, addresses \<open>u32\<close>; the sums that the source forms in 64 bits
  cannot wrap and are sums of natural numbers.
\<close>

type_synonym byte = "8 word"

record Segment =
  seg_address :: u32
  seg_size :: u32
  readable :: bool
  writable :: bool
  executable :: bool

record ProgramImage =
  img_base :: u32
  entry :: u32
  img_bytes :: "byte list"
  segments :: "Segment list"

text \<open>The little-endian value of \<open>width\<close> bytes from position \<open>p\<close>, as the loops of \<open>field\<close> and \<open>read\<close> form it.\<close>

definition assemble :: "byte list \<Rightarrow> nat \<Rightarrow> nat \<Rightarrow> u32" where
  "assemble bs p width = fold (\<lambda>i v. v OR push_bit (8 * i) (ucast (bs ! (p + i)))) [0..<width] 0"

definition field :: "byte list \<Rightarrow> nat \<Rightarrow> nat \<Rightarrow> u32 result" where
  "field b p width =
     require (p \<le> length b \<and> width \<le> length b - p) InvalidImage (Inr (assemble b p width))"

definition program_image :: "u32 \<Rightarrow> u32 \<Rightarrow> ProgramImage result" where
  "program_image base extent =
     require (extent > 0 \<and> unat base + unat extent \<le> 2 ^ 32) InvalidImage (
     Inr \<lparr>img_base = base, entry = 0, img_bytes = replicate (unat extent) 0, segments = []\<rparr>)"

text \<open>\<^verbatim>\<open>std::copy\<close> of \<open>src\<close> to position \<open>p\<close>.\<close>

definition copy_at :: "nat \<Rightarrow> byte list \<Rightarrow> byte list \<Rightarrow> byte list" where
  "copy_at p src bs = take p bs @ src @ drop (p + length src) bs"

definition image_raw :: "byte list \<Rightarrow> u32 \<Rightarrow> u32 \<Rightarrow> u32 \<Rightarrow> ProgramImage result" where
  "image_raw file addr base extent =
     require (file \<noteq> [] \<and> length file mod 4 = 0 \<and> addr mod 4 = 0) InvalidImage (
     require (base \<le> addr \<and> unat (addr - base) + length file \<le> unat extent) InvalidImage (
     bindE (program_image base extent) (\<lambda>img.
     Inr (img\<lparr>entry := addr, img_bytes := copy_at (unat (addr - base)) file (img_bytes img),
       segments := [\<lparr>seg_address = addr, seg_size = of_nat (length file),
         readable = True, writable = True, executable = True\<rparr>]\<rparr>))))"

definition apart :: "u32 \<Rightarrow> u32 \<Rightarrow> Segment \<Rightarrow> bool" where
  "apart addr memsz s \<longleftrightarrow>
     unat addr + unat memsz \<le> unat (seg_address s) \<or> unat (seg_address s) + unat (seg_size s) \<le> unat addr"

record LoadHeader =
  lh_off :: u32
  lh_addr :: u32
  lh_filesz :: u32
  lh_memsz :: u32
  lh_flags :: u32
  lh_align :: u32

definition load_header :: "byte list \<Rightarrow> nat \<Rightarrow> LoadHeader result" where
  "load_header file p =
     bindE (field file (p + 4) 4) (\<lambda>off.
     bindE (field file (p + 8) 4) (\<lambda>addr.
     bindE (field file (p + 16) 4) (\<lambda>filesz.
     bindE (field file (p + 20) 4) (\<lambda>memsz.
     bindE (field file (p + 24) 4) (\<lambda>flags.
     bindE (field file (p + 28) 4) (\<lambda>align.
     Inr \<lparr>lh_off = off, lh_addr = addr, lh_filesz = filesz, lh_memsz = memsz, lh_flags = flags,
          lh_align = align\<rparr>))))))"

definition load_segment :: "byte list \<Rightarrow> u32 \<Rightarrow> u32 \<Rightarrow> LoadHeader \<Rightarrow> ProgramImage \<Rightarrow> ProgramImage result" where
  "load_segment file base extent h img =
     require (lh_filesz h \<le> lh_memsz h \<and> unat (lh_off h) + unat (lh_filesz h) \<le> length file \<and>
        base \<le> lh_addr h \<and> unat (lh_addr h - base) + unat (lh_memsz h) \<le> unat extent) InvalidImage (
     require (lh_align h \<le> 1 \<or>
        (lh_align h AND (lh_align h - 1) = 0 \<and> lh_addr h mod lh_align h = lh_off h mod lh_align h)) InvalidImage (
     if lh_memsz h = 0 then Inr img
     else require (list_all (apart (lh_addr h) (lh_memsz h)) (segments img)) InvalidImage (
       Inr (img\<lparr>segments := segments img @ [\<lparr>seg_address = lh_addr h, seg_size = lh_memsz h,
            readable = (lh_flags h AND 4 \<noteq> 0), writable = (lh_flags h AND 2 \<noteq> 0),
            executable = (lh_flags h AND 1 \<noteq> 0)\<rparr>],
          img_bytes := copy_at (unat (lh_addr h - base))
            (take (unat (lh_filesz h)) (drop (unat (lh_off h)) file)) (img_bytes img)\<rparr>))))"

definition program_header ::
  "byte list \<Rightarrow> u32 \<Rightarrow> u32 \<Rightarrow> u32 \<Rightarrow> nat \<Rightarrow> ProgramImage \<Rightarrow> ProgramImage result" where
  "program_header file phoff base extent n img =
     (let p = unat phoff + n * 32 in
      bindE (field file p 4) (\<lambda>kind.
      if kind \<noteq> 1 then Inr img
      else bindE (load_header file p) (\<lambda>h. load_segment file base extent h img)))"

definition fetchable :: "u32 \<Rightarrow> Segment \<Rightarrow> bool" where
  "fetchable a s \<longleftrightarrow> executable s \<and> seg_address s \<le> a \<and>
     unat a + 4 \<le> unat (seg_address s) + unat (seg_size s)"

definition elf_identified :: "byte list \<Rightarrow> bool result" where
  "elf_identified file =
     (if length file < 52 then Inr False
      else bindE (field file 0 4) (\<lambda>magic.
        Inr (magic = 0x464c457f \<and> file ! 4 = 1 \<and> file ! 5 = 1 \<and> file ! 6 = 1)))"

definition elf_executable :: "byte list \<Rightarrow> bool result" where
  "elf_executable file =
     bindE (field file 16 2) (\<lambda>kind. bindE (field file 18 2) (\<lambda>machine.
     bindE (field file 20 4) (\<lambda>version. bindE (field file 40 2) (\<lambda>header_size.
     bindE (field file 36 4) (\<lambda>flags.
     Inr (kind = 2 \<and> machine = 243 \<and> version = 1 \<and> header_size = 52 \<and> flags = 0))))))"

definition image_elf :: "byte list \<Rightarrow> u32 \<Rightarrow> u32 \<Rightarrow> ProgramImage result" where
  "image_elf file base extent =
     bindE (elf_identified file) (\<lambda>ok1.
     require ok1 InvalidImage (
     bindE (elf_executable file) (\<lambda>ok2.
     require ok2 InvalidImage (
     bindE (field file 28 4) (\<lambda>phoff.
     bindE (field file 44 2) (\<lambda>count.
     bindE (field file 42 2) (\<lambda>entry_size.
     require (entry_size = 32 \<and> count > 0 \<and> unat phoff + unat count * 32 \<le> length file) InvalidImage (
     bindE (program_image base extent) (\<lambda>img.
     bindE (field file 24 4) (\<lambda>start.
     bindE (foldE (program_header file phoff base extent) [0..<unat count] (img\<lparr>entry := start\<rparr>)) (\<lambda>img'.
     require (entry img' mod 4 = 0 \<and> list_ex (fetchable (entry img')) (segments img')) InvalidImage (
     Inr img'))))))))))))"

section \<open>Checked accesses\<close>

datatype Access = Fetch | LoadAccessKind | StoreAccessKind

definition access_kind :: "bool \<Rightarrow> bool \<Rightarrow> Access" where
  "access_kind store instruction = (if instruction then Fetch else if store then StoreAccessKind else LoadAccessKind)"

fun access_error :: "Access \<Rightarrow> ErrorCode" where
  "access_error Fetch = InstructionAccess"
| "access_error LoadAccessKind = LoadAccess"
| "access_error StoreAccessKind = StoreAccess"

fun alignment_error :: "Access \<Rightarrow> ErrorCode" where
  "alignment_error Fetch = InstructionMisaligned"
| "alignment_error LoadAccessKind = LoadMisaligned"
| "alignment_error StoreAccessKind = StoreMisaligned"

fun permitted :: "Access \<Rightarrow> Segment \<Rightarrow> bool" where
  "permitted Fetch s = executable s"
| "permitted LoadAccessKind s = readable s"
| "permitted StoreAccessKind s = writable s"

definition touches :: "u32 \<Rightarrow> nat \<Rightarrow> Segment \<Rightarrow> bool" where
  "touches a width s \<longleftrightarrow> unat a < unat (seg_address s) + unat (seg_size s) \<and> unat (seg_address s) < unat a + width"

definition check_segment :: "Access \<Rightarrow> u32 \<Rightarrow> nat \<Rightarrow> Segment \<Rightarrow> bool \<Rightarrow> bool result" where
  "check_segment k a width s ex =
     (if touches a width s then
        require (seg_address s \<le> a \<and> unat a + width \<le> unat (seg_address s) + unat (seg_size s)) (access_error k) (
        require (permitted k s) (access_error k) (
        Inr (executable s)))
      else Inr ex)"

definition img_offset :: "u32 \<Rightarrow> nat \<Rightarrow> Access \<Rightarrow> ProgramImage \<Rightarrow> nat result" where
  "img_offset a width k img =
     require (width = 1 \<or> width = 2 \<or> width = 4) (access_error k) (
     require (unat a mod width = 0) (alignment_error k) (
     require (img_base img \<le> a \<and> unat (a - img_base img) + width \<le> length (img_bytes img)) (access_error k) (
     bindE (foldE (check_segment k a width) (segments img) False) (\<lambda>ex.
     require (k \<noteq> Fetch \<or> ex) (access_error k) (
     Inr (unat (a - img_base img)))))))"

definition image_read :: "u32 \<Rightarrow> nat \<Rightarrow> bool \<Rightarrow> ProgramImage \<Rightarrow> u32 result" where
  "image_read a width instruction img =
     bindE (img_offset a width (access_kind False instruction) img) (\<lambda>p.
     Inr (assemble (img_bytes img) p width))"

definition image_write :: "u32 \<Rightarrow> nat \<Rightarrow> u32 \<Rightarrow> ProgramImage \<Rightarrow> ProgramImage result" where
  "image_write a width v img =
     bindE (img_offset a width (access_kind True False) img) (\<lambda>p.
     Inr (img\<lparr>img_bytes := fold (\<lambda>n bs. bs[p + n := ucast (drop_bit (n * 8) v)]) [0..<width] (img_bytes img)\<rparr>))"

section \<open>Bytes and words\<close>

lemma assemble_bits:
  "width \<le> 4 \<Longrightarrow> bit (assemble bs p width) k \<longleftrightarrow> k < 8 * width \<and> bit (bs ! (p + k div 8)) (k mod 8)"
proof (induction width)
  case 0
  then show ?case by (simp add: assemble_def)
next
  case (Suc width)
  have step: "assemble bs p (Suc width) = assemble bs p width OR push_bit (8 * width) (ucast (bs ! (p + width)))"
    by (simp add: assemble_def)
  have d: "k div 8 = width \<and> k mod 8 = k - 8 * width" if "8 * width \<le> k" "k < 8 * Suc width"
    using that by (simp add: div_nat_eqI modulo_nat_def)
  have b: "bit (ucast x :: u32) j \<longleftrightarrow> j < 8 \<and> bit x j" for x :: byte and j
    by (auto simp: bit_simps dest: bit_imp_le_length)
  show ?case
  proof (cases "8 * width \<le> k \<and> k < 8 * Suc width")
    case True
    then have "k < 32" "k - 8 * width < 8" using Suc.prems by (simp_all, arith)
    with True d Suc b show ?thesis by (simp add: step bit_or_iff bit_push_bit_iff)
  next
    case False
    then show ?thesis using Suc b by (auto simp: step bit_or_iff bit_push_bit_iff)
  qed
qed

definition put_bytes :: "nat \<Rightarrow> nat \<Rightarrow> u32 \<Rightarrow> byte list \<Rightarrow> byte list" where
  "put_bytes p width v bs = fold (\<lambda>n bs. bs[p + n := ucast (drop_bit (n * 8) v)]) [0..<width] bs"

lemma put_bytes_nth:
  "length (put_bytes p width v bs) = length bs"
  "p + width \<le> length bs \<Longrightarrow> put_bytes p width v bs ! j =
     (if p \<le> j \<and> j < p + width then ucast (drop_bit ((j - p) * 8) v) else bs ! j)"
proof (induction width)
  case (Suc width)
  have step: "put_bytes p (Suc width) v bs = (put_bytes p width v bs)[p + width := ucast (drop_bit (width * 8) v)]"
    by (simp add: put_bytes_def)
  {
    case 1
    with Suc show ?case by (simp add: step)
  next
    case 2
    with Suc show ?case by (auto simp: step nth_list_update less_Suc_eq)
  }
qed (auto simp: put_bytes_def)

lemma assemble_put:
  assumes "width \<le> 4" and "p + width \<le> length bs"
  shows "assemble (put_bytes p width v bs) p width = take_bit (8 * width) v"
proof (rule bit_word_eqI)
  fix k :: nat
  assume "k < LENGTH(32)"
  have "bit (ucast (drop_bit (n * 8) v) :: byte) j \<longleftrightarrow> j < 8 \<and> bit v (n * 8 + j)" for n j
    by (auto simp: bit_simps)
  moreover have "k div 8 < width" if "k < 8 * width" using that by (simp add: less_mult_imp_div_less mult.commute)
  ultimately show "bit (assemble (put_bytes p width v bs) p width) k = bit (take_bit (8 * width) v) k"
    using assms by (auto simp: assemble_bits bit_take_bit_iff put_bytes_nth(2))
qed

lemma assemble_cong:
  assumes "\<forall>i < width. bs ! (p + i) = bs' ! (p + i)"
  shows "assemble bs p width = assemble bs' p width"
proof -
  have "fold (\<lambda>i v. v OR push_bit (8 * i) (ucast (bs ! (p + i)))) [0..<width] x =
    fold (\<lambda>i v. v OR push_bit (8 * i) (ucast (bs' ! (p + i)))) [0..<width] (x :: u32)" for x
    by (rule fold_cong) (use assms in auto)
  then show ?thesis by (simp add: assemble_def)
qed

section \<open>Accesses\<close>

lemma offset_facts:
  assumes "img_offset a width k img = Inr p"
  shows "p = unat a - unat (img_base img)" and "unat (img_base img) \<le> unat a" and "p + width \<le> length (img_bytes img)"
    and "width \<le> 4" and "0 < width"
    and "s \<in> set (segments img) \<Longrightarrow> touches a width s \<Longrightarrow> permitted k s"
proof -
  from assms have w: "width = 1 \<or> width = 2 \<or> width = 4" and b: "img_base img \<le> a"
    and l: "unat (a - img_base img) + width \<le> length (img_bytes img)"
    and seg: "\<exists>ex. foldE (check_segment k a width) (segments img) False = Inr ex"
    and p: "p = unat (a - img_base img)"
    by (auto simp: img_offset_def)
  have sub: "unat (a - img_base img) = unat a - unat (img_base img)" using b by (simp add: unat_sub)
  show "p = unat a - unat (img_base img)" "unat (img_base img) \<le> unat a" "p + width \<le> length (img_bytes img)"
    "width \<le> 4" "0 < width" using w b l p sub by (auto simp: word_le_nat_alt)
  have "permitted k s" if "\<exists>ex. foldE (check_segment k a width) ss x = Inr ex" "s \<in> set ss" "touches a width s" for ss x
    using that by (induction ss arbitrary: x) (auto simp: check_segment_def split: if_splits)
  with seg show "s \<in> set (segments img) \<Longrightarrow> touches a width s \<Longrightarrow> permitted k s" by blast
qed

lemma offset_bytes: "img_offset a width k (img\<lparr>img_bytes := bs\<rparr>) = img_offset a width k img"
  if "length bs = length (img_bytes img)"
  using that by (simp add: img_offset_def)

text \<open>The byte at an absolute address.\<close>

definition byte_at :: "ProgramImage \<Rightarrow> nat \<Rightarrow> byte" where
  "byte_at img x = img_bytes img ! (x - unat (img_base img))"

lemma write_bytes:
  assumes "image_write a width v img = Inr img'"
  obtains p where "img_offset a width StoreAccessKind img = Inr p"
    "img' = img\<lparr>img_bytes := put_bytes p width v (img_bytes img)\<rparr>"
  using assms by (auto simp: image_write_def access_kind_def put_bytes_def)


text \<open>A half-word store into a 16-byte memory with a writable and a read-only segment.\<close>

definition example_image :: ProgramImage where
  "example_image = \<lparr>img_base = 0x100, entry = 0x100, img_bytes = replicate 16 0,
     segments = [\<lparr>seg_address = 0x100, seg_size = 8, readable = True, writable = False, executable = True\<rparr>,
       \<lparr>seg_address = 0x108, seg_size = 8, readable = True, writable = True, executable = False\<rparr>]\<rparr>"


section \<open>Loaded programs\<close>

definition seg_of :: "LoadHeader \<Rightarrow> Segment" where
  "seg_of h = \<lparr>seg_address = lh_addr h, seg_size = lh_memsz h, readable = (lh_flags h AND 4 \<noteq> 0),
     writable = (lh_flags h AND 2 \<noteq> 0), executable = (lh_flags h AND 1 \<noteq> 0)\<rparr>"

text \<open>The nonempty load segments among the first \<open>n\<close> program headers of a file.\<close>

definition load_at :: "byte list \<Rightarrow> u32 \<Rightarrow> nat \<Rightarrow> LoadHeader list" where
  "load_at file phoff n = (let p = unat phoff + n * 32 in
     case (field file p 4, load_header file p) of
       (Inr kind, Inr h) \<Rightarrow> if kind = 1 \<and> lh_memsz h \<noteq> 0 then [h] else []
     | _ \<Rightarrow> [])"

definition loads :: "byte list \<Rightarrow> u32 \<Rightarrow> nat \<Rightarrow> LoadHeader list" where
  "loads file phoff n = concat (map (load_at file phoff) [0..<n])"

definition disjoint_segs :: "Segment \<Rightarrow> Segment \<Rightarrow> bool" where
  "disjoint_segs s t \<longleftrightarrow> unat (seg_address s) + unat (seg_size s) \<le> unat (seg_address t) \<or>
     unat (seg_address t) + unat (seg_size t) \<le> unat (seg_address s)"

definition in_seg :: "Segment \<Rightarrow> nat \<Rightarrow> bool" where
  "in_seg s x \<longleftrightarrow> unat (seg_address s) \<le> x \<and> x < unat (seg_address s) + unat (seg_size s)"

definition image_wf :: "u32 \<Rightarrow> u32 \<Rightarrow> ProgramImage \<Rightarrow> bool" where
  "image_wf base extent img \<longleftrightarrow>
     img_base img = base \<and> length (img_bytes img) = unat extent \<and>
     (\<forall>s\<in>set (segments img). base \<le> seg_address s \<and>
        unat (seg_address s) + unat (seg_size s) \<le> unat base + unat extent) \<and>
     sorted_wrt disjoint_segs (segments img)"

definition loaded :: "byte list \<Rightarrow> LoadHeader \<Rightarrow> ProgramImage \<Rightarrow> bool" where
  "loaded file h img \<longleftrightarrow> (\<forall>i < unat (lh_memsz h). byte_at img (unat (lh_addr h) + i) =
     (if i < unat (lh_filesz h) then file ! (unat (lh_off h) + i) else 0))"

definition elf_inv :: "byte list \<Rightarrow> u32 \<Rightarrow> u32 \<Rightarrow> LoadHeader list \<Rightarrow> ProgramImage \<Rightarrow> bool" where
  "elf_inv file base extent hs img \<longleftrightarrow> image_wf base extent img \<and> segments img = map seg_of hs \<and>
     (\<forall>h\<in>set hs. loaded file h img) \<and>
     (\<forall>x. unat base \<le> x \<and> x < unat base + unat extent \<and> (\<forall>s\<in>set (segments img). \<not> in_seg s x) \<longrightarrow>
        byte_at img x = 0)"

lemma copy_at_nth:
  assumes "p + length src \<le> length bs"
  shows "length (copy_at p src bs) = length bs"
    and "j < length bs \<Longrightarrow> copy_at p src bs ! j = (if p \<le> j \<and> j < p + length src then src ! (j - p) else bs ! j)"
  using assms by (auto simp: copy_at_def nth_append min_def)

lemma apart_disjoint: "apart (lh_addr h) (lh_memsz h) s \<longleftrightarrow> disjoint_segs s (seg_of h)"
  by (auto simp: apart_def disjoint_segs_def seg_of_def)

lemma load_segment_inv:
  assumes inv: "elf_inv file base extent hs img" and ld: "load_segment file base extent h img = Inr img'"
  shows "elf_inv file base extent (hs @ (if lh_memsz h = 0 then [] else [h])) img'"
proof (cases "lh_memsz h = 0")
  case True
  with ld inv show ?thesis by (simp add: load_segment_def)
next
  case False
  let ?src = "take (unat (lh_filesz h)) (drop (unat (lh_off h)) file)"
  let ?p = "unat (lh_addr h - base)"
  from ld False have img': "img' = img\<lparr>segments := segments img @ [seg_of h],
      img_bytes := copy_at ?p ?src (img_bytes img)\<rparr>"
    and ap: "\<forall>s\<in>set (segments img). apart (lh_addr h) (lh_memsz h) s"
    and c: "lh_filesz h \<le> lh_memsz h" "unat (lh_off h) + unat (lh_filesz h) \<le> length file" "base \<le> lh_addr h"
      "?p + unat (lh_memsz h) \<le> unat extent"
    by (auto simp: load_segment_def seg_of_def list_all_iff)
  have wf: "img_base img = base" "length (img_bytes img) = unat extent"
    "\<forall>s\<in>set (segments img). base \<le> seg_address s \<and> unat (seg_address s) + unat (seg_size s) \<le> unat base + unat extent"
    "sorted_wrt disjoint_segs (segments img)" "segments img = map seg_of hs"
    using inv unfolding elf_inv_def image_wf_def by blast+
  have p: "?p = unat (lh_addr h) - unat base" "unat base \<le> unat (lh_addr h)"
    using c(3) by (simp_all add: unat_sub word_le_nat_alt)
  have fz: "unat (lh_filesz h) \<le> unat (lh_memsz h)" using c(1) by (simp add: word_le_nat_alt)
  have src: "length ?src = unat (lh_filesz h)" using c(2) by simp
  have fits: "?p + length ?src \<le> length (img_bytes img)" using src fz c(4) wf(2) by simp
  note cp = copy_at_nth [OF fits]
  have bytes: "byte_at img' x = (if unat (lh_addr h) \<le> x \<and> x < unat (lh_addr h) + unat (lh_filesz h)
      then file ! (unat (lh_off h) + (x - unat (lh_addr h))) else byte_at img x)"
    if "unat base \<le> x" "x < unat base + unat extent" for x
  proof -
    have j: "x - unat base < length (img_bytes img)" using that wf(2) by simp
    have pos: "?p \<le> x - unat base \<longleftrightarrow> unat (lh_addr h) \<le> x"
      "x - unat base < ?p + length ?src \<longleftrightarrow> x < unat (lh_addr h) + unat (lh_filesz h)"
      "x - unat base - ?p = x - unat (lh_addr h)"
      using that(1) p src by auto
    have L: "byte_at img' x = copy_at ?p ?src (img_bytes img) ! (x - unat base)"
      "byte_at img x = img_bytes img ! (x - unat base)" by (simp_all add: byte_at_def img' wf(1))
    have S: "?src ! k = file ! (unat (lh_off h) + k)" if "k < unat (lh_filesz h)" for k
      using that c(2) by simp
    show ?thesis unfolding L cp(2) [OF j] pos
      by (rule if_cong [OF refl _ refl]) (rule S, arith)
  qed
  have dis: "\<forall>s\<in>set (segments img). disjoint_segs s (seg_of h)" using ap by (simp add: apart_disjoint)
  have "length (img_bytes img') = unat extent" using cp(1) wf(2) by (simp add: img')
  moreover have "base \<le> seg_address (seg_of h) \<and>
      unat (seg_address (seg_of h)) + unat (seg_size (seg_of h)) \<le> unat base + unat extent"
    using p c(3,4) by (simp add: seg_of_def)
  moreover have "sorted_wrt disjoint_segs (segments img')"
    using wf(4) dis by (simp add: img' sorted_wrt_append)
  ultimately have "image_wf base extent img'"
    using wf(1,3) unfolding image_wf_def by (simp add: img')
  moreover have "loaded file h img'"
    unfolding loaded_def
  proof (intro allI impI)
    fix i assume i: "i < unat (lh_memsz h)"
    let ?x = "unat (lh_addr h) + i"
    have "\<forall>s\<in>set (segments img). \<not> in_seg s ?x"
      using dis i by (auto simp: disjoint_segs_def in_seg_def seg_of_def)
    then have "byte_at img ?x = 0" using inv i p c(4) by (auto simp: elf_inv_def)
    then show "byte_at img' ?x = (if i < unat (lh_filesz h) then file ! (unat (lh_off h) + i) else 0)"
      using bytes [of ?x] p i c(4) by simp
  qed
  moreover have "loaded file g img'" if g: "g \<in> set hs" for g
    unfolding loaded_def
  proof (intro allI impI)
    fix i assume i: "i < unat (lh_memsz g)"
    let ?x = "unat (lh_addr g) + i"
    have s: "seg_of g \<in> set (segments img)" using g wf(5) by simp
    then have "disjoint_segs (seg_of g) (seg_of h)" using dis by blast
    then have "\<not> (unat (lh_addr h) \<le> ?x \<and> ?x < unat (lh_addr h) + unat (lh_filesz h))"
      using i fz by (auto simp: disjoint_segs_def seg_of_def)
    note out = this
    have "base \<le> lh_addr g" "unat (lh_addr g) + unat (lh_memsz g) \<le> unat base + unat extent"
      using wf(3) s by (auto simp: seg_of_def)
    then have "unat base \<le> ?x" "?x < unat base + unat extent"
      using i by (simp_all add: word_le_nat_alt trans_le_add1)
    from bytes [OF this] have "byte_at img' ?x = byte_at img ?x" unfolding if_not_P [OF out] .
    then show "byte_at img' ?x = (if i < unat (lh_filesz g) then file ! (unat (lh_off g) + i) else 0)"
      using inv g i by (simp add: elf_inv_def loaded_def)
  qed
  moreover have "byte_at img' x = 0" if x: "unat base \<le> x" "x < unat base + unat extent"
      "\<forall>s\<in>set (segments img'). \<not> in_seg s x" for x
  proof -
    have "\<not> in_seg (seg_of h) x" using x(3) by (simp add: img')
    then have "\<not> (unat (lh_addr h) \<le> x \<and> x < unat (lh_addr h) + unat (lh_filesz h))"
      using fz by (auto simp: in_seg_def seg_of_def)
    with bytes [OF x(1,2)] have "byte_at img' x = byte_at img x" by simp
    then show ?thesis using inv x by (auto simp: elf_inv_def img')
  qed
  ultimately show ?thesis
    using wf(5) False by (simp add: elf_inv_def img')
qed

lemma program_headers_inv:
  assumes "foldE (program_header file phoff base extent) [0..<n] img = Inr img'" and "elf_inv file base extent [] img"
  shows "elf_inv file base extent (loads file phoff n) img' \<and> entry img' = entry img"
  using assms(1)
proof (induction n arbitrary: img')
  case 0
  with assms(2) show ?case by (simp add: loads_def)
next
  case (Suc n)
  then obtain im where im: "foldE (program_header file phoff base extent) [0..<n] img = Inr im"
    "program_header file phoff base extent n im = Inr img'" by (auto simp: foldE_append)
  note ih = Suc.IH [OF im(1)]
  let ?p = "unat phoff + n * 32"
  obtain kind where k: "field file ?p 4 = Inr kind"
    "(if kind \<noteq> 1 then Inr im else bindE (load_header file ?p) (\<lambda>h. load_segment file base extent h im)) = Inr img'"
    using im(2) by (auto simp: program_header_def Let_def)
  have l: "loads file phoff (Suc n) = loads file phoff n @ load_at file phoff n" by (simp add: loads_def)
  show ?case
  proof (cases "kind = 1")
    case False
    then have "load_at file phoff n = []" "img' = im"
      using k by (auto simp: load_at_def Let_def split: sum.splits)
    with ih l show ?thesis by simp
  next
    case True
    then obtain h where h: "load_header file ?p = Inr h" "load_segment file base extent h im = Inr img'"
      using k(2) by auto
    have "load_at file phoff n = (if lh_memsz h = 0 then [] else [h])"
      using k(1) h(1) True by (simp add: load_at_def Let_def)
    moreover have "entry img' = entry im" using h(2) by (auto simp: load_segment_def split: if_splits)
    ultimately show ?thesis using load_segment_inv [OF conjunct1 [OF ih] h(2)] ih l by simp
  qed
qed

lemma check_segments:
  assumes "\<forall>s\<in>set ss. touches a w s \<longrightarrow>
      seg_address s \<le> a \<and> unat a + w \<le> unat (seg_address s) + unat (seg_size s) \<and> executable s"
  shows "foldE (check_segment Fetch a w) ss ex = Inr (ex \<and> (\<forall>s\<in>set ss. \<not> touches a w s) \<or> (\<exists>s\<in>set ss. touches a w s))"
  using assms by (induction ss arbitrary: ex) (auto simp: check_segment_def)

text \<open>
  C16. An ELF file that is accepted is loaded as its program headers say. The segments of the
  image are exactly the nonempty load segments of the file, in order; they lie within the memory
  and do not overlap; each holds its bytes of the file followed by zeros; and the entry point can
  be fetched, so that a program never starts with an access fault.
\<close>

theorem image_elf_loads:
  assumes "image_elf file base extent = Inr img"
  shows "\<exists>phoff count. field file 28 4 = Inr phoff \<and> field file 44 2 = Inr count \<and>
    segments img = map seg_of (loads file phoff (unat count)) \<and> image_wf base extent img \<and>
    (\<forall>h\<in>set (loads file phoff (unat count)). loaded file h img) \<and>
    (\<exists>word. image_read (entry img) 4 True img = Inr word)"
proof -
  from assms obtain phoff count im start where
    e: "field file 28 4 = Inr phoff" "field file 44 2 = Inr count" "program_image base extent = Inr im"
    "foldE (program_header file phoff base extent) [0..<unat count] (im\<lparr>entry := start\<rparr>) = Inr img"
    and en: "entry img mod 4 = 0" "list_ex (fetchable (entry img)) (segments img)"
    unfolding image_elf_def require_eq_Inr bindE_eq_Inr sum.inject
    by (elim exE conjE, hypsubst) (rule that; assumption)
  have im: "im = \<lparr>img_base = base, entry = 0, img_bytes = replicate (unat extent) 0, segments = []\<rparr>"
    using e(3) by (auto simp: program_image_def)
  have "elf_inv file base extent [] (im\<lparr>entry := start\<rparr>)"
    by (auto simp: elf_inv_def image_wf_def im byte_at_def)
  from program_headers_inv [OF e(4) this] have inv: "elf_inv file base extent (loads file phoff (unat count)) img" by simp
  then have wf: "image_wf base extent img" and sg: "segments img = map seg_of (loads file phoff (unat count))"
    and ld: "\<forall>h\<in>set (loads file phoff (unat count)). loaded file h img" by (simp_all add: elf_inv_def)
  from en(2) obtain s where s: "s \<in> set (segments img)" "fetchable (entry img) s" by (auto simp: list_ex_iff)
  then obtain i where i: "i < length (segments img)" "segments img ! i = s" by (auto simp: in_set_conv_nth)
  have only: "t = s" if t: "t \<in> set (segments img)" "touches (entry img) 4 t" for t
  proof -
    obtain j where j: "j < length (segments img)" "segments img ! j = t" using t(1) by (auto simp: in_set_conv_nth)
    have sym: "disjoint_segs x y \<Longrightarrow> disjoint_segs y x" for x y by (auto simp: disjoint_segs_def)
    have "i = j"
    proof (rule ccontr)
      assume "i \<noteq> j"
      moreover have srt: "sorted_wrt disjoint_segs (segments img)" using wf by (simp add: image_wf_def)
      ultimately have "disjoint_segs s t"
        using i j sorted_wrt_nth_less [OF srt, of i j] sorted_wrt_nth_less [OF srt, of j i] sym
        by (cases "i < j") auto
      with s(2) t(2) show False by (auto simp: disjoint_segs_def touches_def fetchable_def word_le_nat_alt)
    qed
    with i j show ?thesis by simp
  qed
  have f: "seg_address s \<le> entry img" "unat (entry img) + 4 \<le> unat (seg_address s) + unat (seg_size s)" "executable s"
    using s(2) by (simp_all add: fetchable_def)
  have touched: "touches (entry img) 4 s" using f by (auto simp: touches_def word_le_nat_alt)
  have "foldE (check_segment Fetch (entry img) 4) (segments img) False = Inr True"
  proof -
    have "\<forall>t\<in>set (segments img). touches (entry img) 4 t \<longrightarrow> seg_address t \<le> entry img \<and>
        unat (entry img) + 4 \<le> unat (seg_address t) + unat (seg_size t) \<and> executable t"
      using only f by metis
    moreover have "\<exists>t\<in>set (segments img). touches (entry img) 4 t" using s(1) touched by (rule bexI [rotated])
    ultimately show ?thesis using check_segments [of "segments img" "entry img" 4 False] by simp
  qed
  moreover have "base \<le> seg_address s" "unat (seg_address s) + unat (seg_size s) \<le> unat base + unat extent"
    "img_base img = base" "length (img_bytes img) = unat extent"
    using wf s(1) by (auto simp: image_wf_def)
  moreover from this f(1) have "base \<le> entry img" by simp
  moreover from this have "unat (entry img - base) = unat (entry img) - unat base" "unat base \<le> unat (entry img)"
    by (simp_all add: unat_sub word_le_nat_alt)
  moreover have "unat (entry img) mod 4 = 0"
  proof -
    have "unat (entry img mod 4) = 0" unfolding en(1) by simp
    then show ?thesis by (simp add: unat_mod_distrib)
  qed
  ultimately have "img_offset (entry img) 4 Fetch img = Inr (unat (entry img - base))"
    using f(2) by (simp add: img_offset_def)
  then have "\<exists>word. image_read (entry img) 4 True img = Inr word"
    by (simp add: image_read_def access_kind_def)
  with e sg wf ld show ?thesis by blast
qed

text \<open>
  A file with one load segment of four bytes, the instruction \<^verbatim>\<open>nop\<close>, that takes eight
  bytes of memory.
\<close>

definition example_elf :: "byte list" where
  "example_elf = [
     127, 69, 76, 70, 1, 1, 1, 0, 0, 0, 0, 0, 0, 0, 0, 0,
     2, 0, 243, 0, 1, 0, 0, 0, 0, 0, 0, 0, 52, 0, 0, 0,
     0, 0, 0, 0, 0, 0, 0, 0, 52, 0, 32, 0, 1, 0, 0, 0,
     0, 0, 0, 0, 1, 0, 0, 0, 84, 0, 0, 0, 0, 0, 0, 0,
     0, 0, 0, 0, 4, 0, 0, 0, 8, 0, 0, 0, 5, 0, 0, 0,
     4, 0, 0, 0, 19, 0, 0, 0]"

lemma assemble_unrolled:
  "assemble bs p 2 = ucast (bs ! p) OR push_bit 8 (ucast (bs ! (p + 1)))"
  "assemble bs p 4 = ucast (bs ! p) OR push_bit 8 (ucast (bs ! (p + 1))) OR
     push_bit 16 (ucast (bs ! (p + 2))) OR push_bit 24 (ucast (bs ! (p + 3)))"
  by (simp_all add: assemble_def upt_rec numeral_3_eq_3 or.assoc)

lemma example_elf_fields:
  "length example_elf = 88" "field example_elf 0 4 = Inr 0x464c457f" "example_elf ! 4 = 1" "example_elf ! 5 = 1"
  "example_elf ! 6 = 1" "field example_elf 16 2 = Inr 2" "field example_elf 18 2 = Inr 243"
  "field example_elf 20 4 = Inr 1" "field example_elf 24 4 = Inr 0" "field example_elf 28 4 = Inr 52"
  "field example_elf 36 4 = Inr 0" "field example_elf 40 2 = Inr 52" "field example_elf 42 2 = Inr 32"
  "field example_elf 44 2 = Inr 1" "field example_elf 52 4 = Inr 1" "field example_elf 56 4 = Inr 84"
  "field example_elf 60 4 = Inr 0" "field example_elf 68 4 = Inr 4" "field example_elf 72 4 = Inr 8"
  "field example_elf 76 4 = Inr 5" "field example_elf 80 4 = Inr 4"
  by (simp_all add: field_def example_elf_def assemble_unrolled push_bit_eq_mult)

lemma example_elf_accepted: "\<exists>img. image_elf example_elf 0 16 = Inr img"
  by (simp add: image_elf_def elf_identified_def elf_executable_def example_elf_fields program_image_def
      program_header_def load_header_def load_segment_def fetchable_def)

theorem image_elf_loads_witness:
  "\<exists>img word. image_elf example_elf 0 16 = Inr img \<and> image_read (entry img) 4 True img = Inr word"
proof -
  obtain img where "image_elf example_elf 0 16 = Inr img" using example_elf_accepted by blast
  with image_elf_loads [OF this] show ?thesis by blast
qed

end
