(* ===== verification/Memory.thy ===== *)
theory Memory
  imports Image Mailbox
begin

text \<open>
  The memory of a core, \<^verbatim>\<open>include/qsbit/memory.hpp\<close> and \<^verbatim>\<open>src/memory.cpp\<close>: two ports,
  one for instruction fetches and one for data, each with one request under way at a time, in front
  of the program image and of an optional memory-mapped device. The device is a callback with a
  state of its own; a call returns the outcome, which may be an error, and the new state.
\<close>

record MemoryRequest =
  mr_id :: Id
  mr_address :: u32
  mr_value :: u32
  mr_width :: nat
  mr_write :: bool
  mr_instruction :: bool

record MemoryResponse =
  rs_id :: Id
  rs_value :: u32
  rs_fault :: "ErrorCode option"

record MemoryPort =
  requests :: "MemoryRequest Mailbox"
  responses :: "MemoryResponse Mailbox"

record Pending =
  pd_request :: MemoryRequest
  pd_completion :: Tick
  pd_epoch :: Epoch

record MemoryModel =
  mem_image :: ProgramImage
  mem_clock :: Clock
  mem_latency :: u32
  mem_pending :: "Pending option list"
  last_id :: "Id list"

text \<open>The two callbacks of \<open>attach_device\<close>.\<close>

type_synonym 'd device =
  "((u32 \<Rightarrow> bool) \<times> (MemoryRequest \<Rightarrow> Tick \<Rightarrow> Epoch \<Rightarrow> 'd \<Rightarrow> u32 option result \<times> 'd)) option"

definition memory_port :: "Clock \<Rightarrow> MemoryPort result" where
  "memory_port clock =
     bindE (mailbox 1 clock 1) (\<lambda>rq. bindE (mailbox 1 clock 1) (\<lambda>rs.
     Inr \<lparr>requests = rq, responses = rs\<rparr>))"

definition port_reset :: "MemoryPort \<Rightarrow> MemoryPort" where
  "port_reset p = \<lparr>requests = mb_reset (requests p), responses = mb_reset (responses p)\<rparr>"

definition memory_model :: "ProgramImage \<Rightarrow> Clock \<Rightarrow> u32 \<Rightarrow> MemoryModel result" where
  "memory_model img clock latency =
     bindE (clock_validate clock) (\<lambda>_.
     require (latency > 0) InvalidProfile (
     Inr \<lparr>mem_image = img, mem_clock = clock, mem_latency = latency,
          mem_pending = [None, None], last_id = [0, 0]\<rparr>))"

definition memory_reset :: "MemoryModel \<Rightarrow> MemoryModel" where
  "memory_reset m = m\<lparr>mem_pending := [None, None], last_id := [0, 0]\<rparr>"

definition memory_idle :: "MemoryModel \<Rightarrow> bool" where
  "memory_idle m \<longleftrightarrow> mem_pending m ! 0 = None \<and> mem_pending m ! 1 = None"

text \<open>The \<^verbatim>\<open>try\<close> block: the response to a request, or none while a device is not ready.\<close>

definition respond ::
  "'d device \<Rightarrow> Tick \<Rightarrow> Epoch \<Rightarrow> MemoryRequest \<Rightarrow> ProgramImage \<Rightarrow> 'd \<Rightarrow>
   MemoryResponse option \<times> ProgramImage \<times> 'd" where
  "respond device now epoch r img d =
     (let ok = (\<lambda>v. \<lparr>rs_id = mr_id r, rs_value = v, rs_fault = None\<rparr>);
          fail = (\<lambda>e. \<lparr>rs_id = mr_id r, rs_value = 0, rs_fault = Some e\<rparr>);
          ram = (if mr_write r
            then (case image_write (mr_address r) (mr_width r) (mr_value r) img of
                Inl e \<Rightarrow> (Some (fail e), img, d) | Inr img' \<Rightarrow> (Some (ok 0), img', d))
            else (case image_read (mr_address r) (mr_width r) (mr_instruction r) img of
                Inl e \<Rightarrow> (Some (fail e), img, d) | Inr v \<Rightarrow> (Some (ok v), img, d))) in
      case device of
        None \<Rightarrow> ram
      | Some (contains, access) \<Rightarrow>
          (if contains (mr_address r)
           then (case access r now epoch d of
               (Inl e, d') \<Rightarrow> (Some (fail e), img, d')
             | (Inr None, d') \<Rightarrow> (None, img, d')
             | (Inr (Some v), d') \<Rightarrow> (Some (ok v), img, d'))
           else ram))"

definition finish_request ::
  "'d device \<Rightarrow> Tick \<Rightarrow> Epoch \<Rightarrow> nat \<Rightarrow> Pending \<Rightarrow> MemoryPort \<Rightarrow> MemoryModel \<Rightarrow> 'd \<Rightarrow>
   (MemoryModel \<times> MemoryPort \<times> 'd) result" where
  "finish_request device now epoch index p port m d =
     (if pd_epoch p \<noteq> epoch then Inr (m\<lparr>mem_pending := (mem_pending m)[index := None]\<rparr>, port, d)
      else case respond device now epoch (pd_request p) (mem_image m) d of
        (None, img, d') \<Rightarrow> Inr (m\<lparr>mem_image := img\<rparr>, port, d')
      | (Some r, img, d') \<Rightarrow>
          bindE (publish now epoch r (responses port)) (\<lambda>box.
          Inr (m\<lparr>mem_image := img, mem_pending := (mem_pending m)[index := None]\<rparr>,
               port\<lparr>responses := box\<rparr>, d')))"

definition accept_request ::
  "Tick \<Rightarrow> Epoch \<Rightarrow> nat \<Rightarrow> MemoryPort \<Rightarrow> MemoryModel \<Rightarrow> (MemoryModel \<times> MemoryPort) result" where
  "accept_request now epoch index port m = (case mb_take now (requests port) of
      (None, _) \<Rightarrow> Inr (m, port)
    | (Some msg, box) \<Rightarrow>
        (if env_epoch msg \<noteq> epoch then Inr (m, port\<lparr>requests := box\<rparr>)
         else let r = env_value msg in
           require (last_id m ! index < mr_id r \<and> mr_id r \<noteq> 0) Protocol (
           require (mr_instruction r = (index = 0) \<and> \<not> (mr_instruction r \<and> mr_write r)) Protocol (
           bindE (checked_mul (unat (mem_latency m)) (period (mem_clock m))) (\<lambda>delay.
           bindE (checked_add now delay) (\<lambda>completion.
           Inr (m\<lparr>last_id := (last_id m)[index := mr_id r],
                  mem_pending := (mem_pending m)[index :=
                    Some \<lparr>pd_request = r, pd_completion = completion, pd_epoch = epoch\<rparr>]\<rparr>,
                port\<lparr>requests := box\<rparr>))))))) "

definition step_port ::
  "'d device \<Rightarrow> Tick \<Rightarrow> Epoch \<Rightarrow> nat \<Rightarrow> MemoryPort \<Rightarrow> MemoryModel \<Rightarrow> 'd \<Rightarrow>
   (MemoryModel \<times> MemoryPort \<times> 'd) result" where
  "step_port device now epoch index port m d = (case mem_pending m ! index of
      Some p \<Rightarrow>
        (if pd_completion p \<le> now \<and> \<not> mb_full (responses port)
         then finish_request device now epoch index p port m d else Inr (m, port, d))
    | None \<Rightarrow>
        (if \<not> mb_full (responses port)
         then bindE (accept_request now epoch index port m) (\<lambda>(m', port'). Inr (m', port', d))
         else Inr (m, port, d)))"

definition memory_step ::
  "'d device \<Rightarrow> Tick \<Rightarrow> Epoch \<Rightarrow> MemoryPort \<Rightarrow> MemoryPort \<Rightarrow> MemoryModel \<Rightarrow> 'd \<Rightarrow>
   (MemoryModel \<times> MemoryPort \<times> MemoryPort \<times> 'd) result" where
  "memory_step device now epoch fetch data m d =
     require (edge (mem_clock m) now) Protocol (
     bindE (step_port device now epoch 0 fetch m d) (\<lambda>(m1, fetch', d1).
     bindE (step_port device now epoch 1 data m1 d1) (\<lambda>(m2, data', d2).
     Inr (m2, fetch', data', d2))))"

section \<open>One request at a time, in order\<close>

text \<open>
  Executions of one port within an epoch. The port's mailboxes belong to the core as well and may
  be anything at each step, the other port works in between, and
  the device changes by itself. \<open>acc\<close> are the requests taken on,
  with their ticks, \<open>ans\<close> the responses given.
\<close>

definition took :: "nat \<Rightarrow> Tick \<Rightarrow> MemoryModel \<Rightarrow> MemoryModel \<Rightarrow> (Tick \<times> MemoryRequest) list" where
  "took index now m m' = (case (mem_pending m ! index, mem_pending m' ! index) of
      (None, Some p) \<Rightarrow> [(now, pd_request p)] | _ \<Rightarrow> [])"

definition gave :: "Tick \<Rightarrow> MemoryPort \<Rightarrow> MemoryPort \<Rightarrow> (Tick \<times> MemoryResponse) list" where
  "gave now port port' = map (\<lambda>e. (now, env_value e))
     (drop (length (entries (responses port))) (entries (responses port')))"

inductive port_run ::
  "nat \<Rightarrow> Epoch \<Rightarrow> (Tick \<times> MemoryRequest) list \<Rightarrow> (Tick \<times> MemoryResponse) list \<Rightarrow> MemoryModel \<Rightarrow> 'd \<Rightarrow> bool"
  for index epoch where
  port_start: "index < 2 \<Longrightarrow> length (mem_pending m) = 2 \<Longrightarrow> length (last_id m) = 2 \<Longrightarrow>
     mem_pending m ! index = None \<Longrightarrow> port_run index epoch [] [] m d"
| port_step: "port_run index epoch acc ans m d \<Longrightarrow>
     step_port device now epoch index port m d = Inr (m', port', d') \<Longrightarrow>
     port_run index epoch (acc @ took index now m m') (ans @ gave now port port') m' d'"
| port_other: "port_run index epoch acc ans m d \<Longrightarrow> i \<noteq> index \<Longrightarrow>
     step_port device now epoch i port m d = Inr (m', port', d') \<Longrightarrow> port_run index epoch acc ans m' d'"
| port_device: "port_run index epoch acc ans m d \<Longrightarrow> port_run index epoch acc ans m d'"

definition latency_of :: "MemoryModel \<Rightarrow> Tick" where
  "latency_of m = unat (mem_latency m) * period (mem_clock m)"

definition port_inv ::
  "nat \<Rightarrow> Epoch \<Rightarrow> (Tick \<times> MemoryRequest) list \<Rightarrow> (Tick \<times> MemoryResponse) list \<Rightarrow> MemoryModel \<Rightarrow> bool" where
  "port_inv index epoch acc ans m \<longleftrightarrow>
     index < 2 \<and> length (mem_pending m) = 2 \<and> length (last_id m) = 2 \<and>
     length acc = length ans + (if mem_pending m ! index = None then 0 else 1) \<and>
     (\<forall>i < length ans. rs_id (snd (ans ! i)) = mr_id (snd (acc ! i)) \<and>
        fst (acc ! i) + latency_of m \<le> fst (ans ! i)) \<and>
     (\<forall>p. mem_pending m ! index = Some p \<longrightarrow> pd_epoch p = epoch \<and> pd_request p = snd (last acc) \<and>
        pd_completion p = fst (last acc) + latency_of m) \<and>
     sorted_wrt (<) (map (\<lambda>a. mr_id (snd a)) acc) \<and>
     (\<forall>a\<in>set acc. mr_id (snd a) \<le> last_id m ! index)"

lemma respond_id: "respond device now epoch r img d = (Some x, img', d') \<Longrightarrow> rs_id x = mr_id r"
  by (auto simp: respond_def Let_def split: option.splits sum.splits if_splits prod.splits)

lemma step_port_frame:
  assumes "step_port device now epoch i port m d = Inr (m', port', d')" and "j \<noteq> i"
  shows "mem_pending m' ! j = mem_pending m ! j" and "last_id m' ! j = last_id m ! j"
    and "length (mem_pending m') = length (mem_pending m)" and "length (last_id m') = length (last_id m)"
    and "latency_of m' = latency_of m"
  using assms
  by (auto simp: step_port_def finish_request_def accept_request_def Let_def latency_of_def
      split: option.splits if_splits prod.splits)

lemma accept_request_effect:
  assumes "accept_request now epoch index port m = Inr (m', port')"
  shows "m' = m \<or> (\<exists>r. last_id m ! index < mr_id r \<and>
    m' = m\<lparr>last_id := (last_id m)[index := mr_id r], mem_pending := (mem_pending m)[index :=
       Some \<lparr>pd_request = r, pd_completion = now + latency_of m, pd_epoch = epoch\<rparr>]\<rparr>)"
proof (cases "mb_take now (requests port)")
  case (Pair msg box)
  show ?thesis
  proof (cases msg)
    case None
    with assms Pair show ?thesis by (simp add: accept_request_def)
  next
    case (Some x)
    show ?thesis
    proof (cases "env_epoch x = epoch")
      case False
      with assms Pair Some show ?thesis by (simp add: accept_request_def)
    next
      case True
      with assms Pair Some obtain delay completion where
        "checked_mul (unat (mem_latency m)) (period (mem_clock m)) = Inr delay"
        "checked_add now delay = Inr completion" and id: "last_id m ! index < mr_id (env_value x)"
        and m': "m' = m\<lparr>last_id := (last_id m)[index := mr_id (env_value x)],
                  mem_pending := (mem_pending m)[index := Some \<lparr>pd_request = env_value x,
                    pd_completion = completion, pd_epoch = epoch\<rparr>]\<rparr>"
        unfolding accept_request_def by (auto simp: Let_def simp del: checked_add_Inr)
      then have "completion = now + latency_of m"
        using checked_add_sum by (auto simp: latency_of_def checked_mul_def)
      with id m' show ?thesis by blast
    qed
  qed
qed

lemma port_inv_step:
  assumes inv: "port_inv index epoch acc ans m"
    and step: "step_port device now epoch index port m d = Inr (m', port', d')"
  shows "port_inv index epoch (acc @ took index now m m') (ans @ gave now port port') m'"
proof -
  have same: "port_inv index epoch (acc @ took index now m m) (ans @ gave now port port) m"
    using inv by (simp add: took_def gave_def split: option.split)
  have i: "index < length (mem_pending m)" "index < length (last_id m)" using inv by (simp_all add: port_inv_def)
  show ?thesis
  proof (cases "mem_pending m ! index")
    case (Some p)
    have p: "pd_epoch p = epoch" "pd_request p = snd (last acc)" "pd_completion p = fst (last acc) + latency_of m"
      "length acc = Suc (length ans)"
      using inv Some by (simp_all add: port_inv_def)
    show ?thesis
    proof (cases "pd_completion p \<le> now \<and> \<not> mb_full (responses port)")
      case False
      with step Some have "m' = m" "port' = port" by (auto simp: step_port_def)
      with same show ?thesis by simp
    next
      case True
      with step Some have f: "finish_request device now epoch index p port m d = Inr (m', port', d')"
        by (simp add: step_port_def)
      obtain r img d2 where r: "respond device now epoch (pd_request p) (mem_image m) d = (r, img, d2)"
        by (cases "respond device now epoch (pd_request p) (mem_image m) d")
      show ?thesis
      proof (cases r)
        case None
        with f r p(1) have "m' = m\<lparr>mem_image := img\<rparr>" "port' = port" by (simp_all add: finish_request_def)
        with same show ?thesis by (simp add: port_inv_def took_def latency_of_def)
      next
        case r1: (Some x)
        with f r p(1) obtain box where b: "publish now epoch x (responses port) = Inr box"
          "m' = m\<lparr>mem_image := img, mem_pending := (mem_pending m)[index := None]\<rparr>" "port' = port\<lparr>responses := box\<rparr>"
          by (auto simp: finish_request_def)
        have g: "gave now port port' = [(now, x)]"
          using publish_entries [OF b(1)] by (simp add: gave_def b(3))
        have t: "took index now m m' = []" using Some by (simp add: took_def)
        have last: "last acc = acc ! length ans" using p(4) last_conv_nth [of acc] by fastforce
        have "rs_id x = mr_id (snd (acc ! length ans))" "fst (acc ! length ans) + latency_of m \<le> now"
          using respond_id [of device now epoch "pd_request p"] r r1 p(2,3) True last by simp_all
        then show ?thesis
          using inv p(4) i unfolding port_inv_def g t
          by (simp add: b(2) nth_append less_Suc_eq latency_of_def Some)
      qed
    qed
  next
    case None
    have len: "length acc = length ans" using inv None by (simp add: port_inv_def)
    show ?thesis
    proof (cases "mb_full (responses port)")
      case True
      with step None have "m' = m" "port' = port" by (auto simp: step_port_def)
      with same show ?thesis by simp
    next
      case False
      with step None have a: "accept_request now epoch index port m = Inr (m', port')"
        by (auto simp: step_port_def)
      have resp: "responses port' = responses port"
        using a by (auto simp: accept_request_def Let_def split: prod.splits option.splits if_splits)
      have g: "gave now port port' = []" using resp by (simp add: gave_def)
      have "m' = m \<or> (\<exists>r. last_id m ! index < mr_id r \<and>
          m' = m\<lparr>last_id := (last_id m)[index := mr_id r], mem_pending := (mem_pending m)[index :=
             Some \<lparr>pd_request = r, pd_completion = now + latency_of m, pd_epoch = epoch\<rparr>]\<rparr>)"
        by (rule accept_request_effect [OF a])
      then consider "m' = m" | r where "last_id m ! index < mr_id r"
          "m' = m\<lparr>last_id := (last_id m)[index := mr_id r], mem_pending := (mem_pending m)[index :=
             Some \<lparr>pd_request = r, pd_completion = now + latency_of m, pd_epoch = epoch\<rparr>]\<rparr>" by blast
      then show ?thesis
      proof cases
        case 1
        with same g show ?thesis by (simp add: gave_def)
      next
        case (2 r)
        have t: "took index now m m' = [(now, r)]" using None i by (simp add: took_def 2(2))
        have ids: "\<forall>a\<in>set acc. mr_id (snd a) < mr_id r" using inv 2(1) by (fastforce simp: port_inv_def)
        show ?thesis
          using inv ids len i unfolding port_inv_def g t
          by (auto simp: 2(2) nth_append latency_of_def sorted_wrt_append)
      qed
    qed
  qed
qed

text \<open>
  C18. Within an epoch a memory port answers every request it takes on exactly once, in the order
  it took them and with the request's identity, never earlier than the configured latency after
  the tick at which it took the request, and it takes on at most one request at a time. That holds
  whatever the core does with the mailboxes, whatever the other port does, and however long a
  device keeps a request waiting.
\<close>

theorem memory_port_in_order:
  assumes "port_run index epoch acc ans m d"
  shows "length ans \<le> length acc \<and> length acc \<le> length ans + 1 \<and>
    (length acc = length ans \<longleftrightarrow> mem_pending m ! index = None) \<and>
    map (\<lambda>a. rs_id (snd a)) ans = map (\<lambda>a. mr_id (snd a)) (take (length ans) acc) \<and>
    distinct (map (\<lambda>a. mr_id (snd a)) acc) \<and>
    (\<forall>i < length ans. fst (acc ! i) + unat (mem_latency m) * period (mem_clock m) \<le> fst (ans ! i))"
proof -
  from assms have inv: "port_inv index epoch acc ans m"
  proof induction
    case (port_start m d)
    then show ?case by (simp add: port_inv_def)
  next
    case (port_step acc ans m d device now port m' port' d')
    show ?case by (rule port_inv_step [OF port_step.IH port_step.hyps(2)])
  next
    case (port_other acc ans m d i device now port m' port' d')
    from port_other.hyps(2) have "index \<noteq> i" by simp
    note f = step_port_frame [OF port_other.hyps(3) this]
    show ?case using port_other.IH by (simp add: port_inv_def f)
  qed simp
  have "map (\<lambda>a. rs_id (snd a)) ans = map (\<lambda>a. mr_id (snd a)) (take (length ans) acc)"
    using inv by (intro nth_equalityI) (auto simp: port_inv_def split: if_splits)
  moreover have "distinct (map (\<lambda>a. mr_id (snd a)) acc)"
    using inv strict_sorted_iff by (auto simp: port_inv_def)
  ultimately show ?thesis using inv by (auto simp: port_inv_def latency_of_def)
qed

text \<open>A fetch at tick 0 with a latency of two cycles, answered at tick 20.\<close>

definition request_box :: "'a list \<Rightarrow> 'a Mailbox" where
  "request_box vs = \<lparr>mb_capacity = 1, receiver = \<lparr>period = 10, phase = 0\<rparr>, mb_latency = 1,
     entries = map (\<lambda>v. \<lparr>published = 0, eligible = 0, env_epoch = 1, env_value = v\<rparr>) vs\<rparr>"

definition example_port :: "MemoryRequest list \<Rightarrow> MemoryPort" where
  "example_port rs = \<lparr>requests = request_box rs, responses = request_box []\<rparr>"

definition example_fetch :: MemoryRequest where
  "example_fetch = \<lparr>mr_id = 1, mr_address = 0x100, mr_value = 0, mr_width = 4, mr_write = False,
     mr_instruction = True\<rparr>"

definition example_memory :: MemoryModel where
  "example_memory = \<lparr>mem_image = example_image, mem_clock = \<lparr>period = 10, phase = 0\<rparr>, mem_latency = 2,
     mem_pending = [None, None], last_id = [0, 0]\<rparr>"

definition example_busy :: MemoryModel where
  "example_busy = example_memory\<lparr>mem_pending := [Some \<lparr>pd_request = example_fetch, pd_completion = 20,
     pd_epoch = 1\<rparr>, None], last_id := [1, 0]\<rparr>"

lemma example_taken:
  "step_port None 0 1 0 (example_port [example_fetch]) example_memory () = Inr (example_busy, example_port [], ())"
  by (simp add: step_port_def accept_request_def mb_take_def peek_def mb_full_def example_port_def request_box_def
      example_memory_def example_fetch_def example_busy_def checked_mul_def checked_add_def tick_max_def)

lemma example_answered:
  "\<exists>port r. step_port None 20 1 0 (example_port []) example_busy () =
     Inr (example_busy\<lparr>mem_pending := [None, None]\<rparr>, port, ()) \<and>
     gave 20 (example_port []) port = [(20, r)]"
  by (simp add: step_port_def finish_request_def respond_def image_read_def img_offset_def check_segment_def
      touches_def access_kind_def publish_def after_def clock_validate_def mb_full_def example_port_def request_box_def
      example_memory_def example_fetch_def example_busy_def example_image_def checked_mul_def checked_add_def
      tick_max_def gave_def)

theorem memory_port_in_order_witness:
  "\<exists>r. port_run 0 1 [(0, example_fetch)] [(20, r)] (example_busy\<lparr>mem_pending := [None, None]\<rparr>) () \<and> rs_id r = 1"
proof -
  have 0: "port_run 0 1 [] [] example_memory ()" by (rule port_start) (simp_all add: example_memory_def)
  have "took 0 0 example_memory example_busy = [(0, example_fetch)]"
    "gave 0 (example_port [example_fetch]) (example_port []) = []"
    by (simp_all add: took_def gave_def example_memory_def example_busy_def example_port_def)
  with port_step [OF 0 example_taken] have 1: "port_run 0 1 [(0, example_fetch)] [] example_busy ()" by simp
  obtain port r where s: "step_port None 20 1 0 (example_port []) example_busy () =
     Inr (example_busy\<lparr>mem_pending := [None, None]\<rparr>, port, ())" "gave 20 (example_port []) port = [(20, r)]"
    using example_answered by blast
  have "took 0 20 example_busy (example_busy\<lparr>mem_pending := [None, None]\<rparr>) = []"
    by (simp add: took_def example_busy_def)
  with port_step [OF 1 s(1)] s(2) have
    2: "port_run 0 1 [(0, example_fetch)] [(20, r)] (example_busy\<lparr>mem_pending := [None, None]\<rparr>) ()" by simp
  from memory_port_in_order [OF 2] have "rs_id r = 1" by (simp add: example_fetch_def)
  with 2 show ?thesis by blast
qed

end
