(* ===== verification/Backend.thy ===== *)
theory Backend
  imports Trace Ordered_Map
begin

text \<open>
  The quantum backend and its command queue, \<^verbatim>\<open>include/qsbit/backend.hpp\<close> and
  \<^verbatim>\<open>src/backend.cpp\<close>. A backend is a value of the record \<open>Backend\<close>, the virtual methods of
  \<^verbatim>\<open>IQuantumBackend\<close> over a state type of its own; \<open>mock_backend\<close> is the one of the repository,
  the Python backend is another program. \<open>BackendExecution\<close> collects operations and hands them over
  in batches. The locale \<open>quantum_backend\<close> states what a backend promises, and the queue is
  proved independent of its batch size for every backend that keeps the promise.
\<close>

record BackendActivity =
  ba_id :: Id
  ba_start :: Tick
  ba_end :: Tick
  ba_action :: EventSpec
  ba_reference :: "MeasurementReference option"

record BackendEvolution =
  evo_start :: Tick
  evo_tick :: Tick
  drives :: "BackendActivity list"
  acquisitions :: "BackendActivity list"

record BackendGates =
  gates_tick :: Tick
  gates :: "EventSpec list"

record BackendMeasurement =
  meas_tick :: Tick
  references :: "MeasurementReference list"

datatype BackendOperation =
    Evolution BackendEvolution
  | Gates BackendGates
  | Measurement BackendMeasurement

fun op_tick :: "BackendOperation \<Rightarrow> Tick" where
  "op_tick (Evolution e) = evo_tick e"
| "op_tick (Gates g) = gates_tick g"
| "op_tick (Measurement m) = meas_tick m"

record 'b Backend =
  be_validate :: "EventSpec \<Rightarrow> 'b \<Rightarrow> unit result"
  be_reset :: "u32 \<Rightarrow> u32 \<Rightarrow> 'b \<Rightarrow> 'b result"
  be_execute :: "Epoch \<Rightarrow> BackendOperation list \<Rightarrow> 'b \<Rightarrow> (bool list \<times> 'b) result"

record 'b BackendExecution =
  bx_backend :: 'b
  max_batch :: u32
  bx_pending :: "BackendOperation list"
  bx_epoch :: Epoch
  committed_tick :: Tick

definition backend_execution :: "'b \<Rightarrow> u32 \<Rightarrow> 'b BackendExecution result" where
  "backend_execution b limit =
     require (limit > 0) InvalidProfile (
     Inr \<lparr>bx_backend = b, max_batch = limit, bx_pending = [], bx_epoch = 0, committed_tick = 0\<rparr>)"

definition bx_validate :: "'b Backend \<Rightarrow> EventSpec \<Rightarrow> 'b BackendExecution \<Rightarrow> unit result" where
  "bx_validate B a x = be_validate B a (bx_backend x)"

definition bx_reset ::
  "'b Backend \<Rightarrow> u32 \<Rightarrow> u32 \<Rightarrow> Epoch \<Rightarrow> Tick \<Rightarrow> 'b BackendExecution \<Rightarrow> 'b BackendExecution result" where
  "bx_reset B qubits seed epoch now x =
     bindE (be_reset B qubits seed (bx_backend x)) (\<lambda>b.
     Inr (x\<lparr>bx_backend := b, bx_pending := [], bx_epoch := epoch, committed_tick := now\<rparr>))"

text \<open>
  Any exception of the backend, and a wrong number of results, is rethrown as a backend failure.
\<close>

definition bx_execute ::
  "'b Backend \<Rightarrow> nat \<Rightarrow> 'b BackendExecution \<Rightarrow> (bool list \<times> 'b BackendExecution) result" where
  "bx_execute B expected x =
     (if bx_pending x = [] then Inr ([], x)
      else case be_execute B (bx_epoch x) (bx_pending x) (bx_backend x) of
        Inl _ \<Rightarrow> Inl BackendFailure
      | Inr (results, b) \<Rightarrow>
          require (length results = expected) BackendFailure (
          Inr (results, x\<lparr>bx_backend := b, bx_pending := []\<rparr>)))"

definition bx_flush :: "'b Backend \<Rightarrow> 'b BackendExecution \<Rightarrow> 'b BackendExecution result" where
  "bx_flush B x = bindE (bx_execute B 0 x) (\<lambda>(_, x'). Inr x')"

definition commit :: "'b Backend \<Rightarrow> BackendOperation \<Rightarrow> 'b BackendExecution \<Rightarrow> 'b BackendExecution result" where
  "commit B op x =
     require (committed_tick x \<le> op_tick op) Protocol (
     let x' = x\<lparr>committed_tick := op_tick op, bx_pending := bx_pending x @ [op]\<rparr> in
     if length (bx_pending x') = unat (max_batch x') then bx_flush B x' else Inr x')"

definition bx_evolve ::
  "'b Backend \<Rightarrow> Tick \<Rightarrow> Tick \<Rightarrow> BackendActivity list \<Rightarrow> BackendActivity list \<Rightarrow>
   'b BackendExecution \<Rightarrow> 'b BackendExecution result" where
  "bx_evolve B from_tick to_tick ds qs x =
     require (from_tick = committed_tick x \<and> from_tick \<le> to_tick) Protocol (
     if from_tick < to_tick
     then commit B (Evolution \<lparr>evo_start = from_tick, evo_tick = to_tick, drives = ds, acquisitions = qs\<rparr>) x
     else Inr x)"

definition bx_apply ::
  "'b Backend \<Rightarrow> Tick \<Rightarrow> EventSpec list \<Rightarrow> 'b BackendExecution \<Rightarrow> 'b BackendExecution result" where
  "bx_apply B now gs x =
     bindE (foldE (\<lambda>g _. bx_validate B g x) gs ()) (\<lambda>_.
     if gs \<noteq> [] then commit B (Gates \<lparr>gates_tick = now, gates = gs\<rparr>) x else Inr x)"

definition bx_measure ::
  "'b Backend \<Rightarrow> Tick \<Rightarrow> MeasurementReference list \<Rightarrow> 'b BackendExecution \<Rightarrow>
   (bool list \<times> 'b BackendExecution) result" where
  "bx_measure B now refs x =
     (if refs = [] then Inr ([], x)
      else
        require (committed_tick x \<le> now) Protocol (
        bindE (foldE (\<lambda>r seen. require (ref_epoch r = bx_epoch x \<and> ref_target r \<notin> set seen) Protocol (
             Inr (ref_target r # seen))) refs []) (\<lambda>_.
        bx_execute B (length refs) (x\<lparr>committed_tick := now,
          bx_pending := bx_pending x @ [Measurement \<lparr>meas_tick = now, references = refs\<rparr>]\<rparr>))))"

text \<open>\<open>state\<close> and \<open>density_matrix\<close> read the backend after a flush.\<close>

definition bx_state ::
  "'b Backend \<Rightarrow> ('b \<Rightarrow> 'c) \<Rightarrow> 'b BackendExecution \<Rightarrow> ('c \<times> 'b BackendExecution) result" where
  "bx_state B read_state x = bindE (bx_flush B x) (\<lambda>x'. Inr (read_state (bx_backend x'), x'))"

section \<open>The mock backend\<close>

record MockBackend =
  outcomes :: "(Id, bool) omap"
  mock_qubits :: u32
  calls :: nat

definition mock_validate :: "EventSpec \<Rightarrow> MockBackend \<Rightarrow> unit result" where
  "mock_validate a m = require (targets a \<noteq> []) UnsupportedCapability (Inr ())"

definition mock_reset :: "u32 \<Rightarrow> u32 \<Rightarrow> MockBackend \<Rightarrow> MockBackend result" where
  "mock_reset qubits _ m = Inr (m\<lparr>mock_qubits := qubits, calls := 0\<rparr>)"

definition mock_outcome :: "Epoch \<Rightarrow> MockBackend \<Rightarrow> MeasurementReference \<Rightarrow> bool list \<Rightarrow> bool list result" where
  "mock_outcome epoch m r values =
     require (ref_epoch r = epoch \<and> ref_target r < mock_qubits m) BackendFailure (
     Inr (values @ [om_find (measurement r) (outcomes m) = Some True]))"

definition mock_operation :: "Epoch \<Rightarrow> MockBackend \<Rightarrow> BackendOperation \<Rightarrow> bool list \<Rightarrow> bool list result" where
  "mock_operation epoch m op values = (case op of
      Measurement q \<Rightarrow> foldE (mock_outcome epoch m) (references q) values
    | _ \<Rightarrow> Inr values)"

definition mock_execute ::
  "Epoch \<Rightarrow> BackendOperation list \<Rightarrow> MockBackend \<Rightarrow> (bool list \<times> MockBackend) result" where
  "mock_execute epoch ops m =
     bindE (foldE (mock_operation epoch m) ops []) (\<lambda>values. Inr (values, m\<lparr>calls := calls m + 1\<rparr>))"

definition mock_backend :: "MockBackend Backend" where
  "mock_backend = \<lparr>be_validate = mock_validate, be_reset = mock_reset, be_execute = mock_execute\<rparr>"

section \<open>Sessions\<close>

text \<open>
  What the device does with the queue between two resets, and a session of such operations with
  the results of its measurements. The reference for it hands every operation to the backend at
  once, alone.
\<close>

datatype bx_op =
    DoEvolve Tick Tick "BackendActivity list" "BackendActivity list"
  | DoApply Tick "EventSpec list"
  | DoMeasure Tick "MeasurementReference list"
  | DoFlush

definition bx_step :: "'b Backend \<Rightarrow> bx_op \<Rightarrow> 'b BackendExecution \<Rightarrow> (bool list \<times> 'b BackendExecution) result" where
  "bx_step B op x = (case op of
      DoEvolve f t ds qs \<Rightarrow> bindE (bx_evolve B f t ds qs x) (\<lambda>x'. Inr ([], x'))
    | DoApply now gs \<Rightarrow> bindE (bx_apply B now gs x) (\<lambda>x'. Inr ([], x'))
    | DoMeasure now refs \<Rightarrow> bx_measure B now refs x
    | DoFlush \<Rightarrow> bindE (bx_flush B x) (\<lambda>x'. Inr ([], x')))"

fun bx_run :: "'b Backend \<Rightarrow> bx_op list \<Rightarrow> 'b BackendExecution \<Rightarrow> (bool list \<times> 'b BackendExecution) result" where
  "bx_run B [] x = Inr ([], x)"
| "bx_run B (op # ops) x =
     bindE (bx_step B op x) (\<lambda>(r, x'). bindE (bx_run B ops x') (\<lambda>(rs, x''). Inr (r @ rs, x'')))"

definition direct :: "'b Backend \<Rightarrow> Epoch \<Rightarrow> BackendOperation \<Rightarrow> 'b \<Rightarrow> (bool list \<times> 'b \<times> Tick) result" where
  "direct B epoch op b = bindE (be_execute B epoch [op] b) (\<lambda>(r, b'). Inr (r, b', op_tick op))"

definition direct_step :: "'b Backend \<Rightarrow> Epoch \<Rightarrow> bx_op \<Rightarrow> 'b \<times> Tick \<Rightarrow> (bool list \<times> 'b \<times> Tick) result" where
  "direct_step B epoch op st = (case st of (b, tick) \<Rightarrow> (case op of
      DoEvolve f t ds qs \<Rightarrow>
        require (f = tick \<and> f \<le> t) Protocol (
        if f < t then direct B epoch (Evolution \<lparr>evo_start = f, evo_tick = t, drives = ds, acquisitions = qs\<rparr>) b
        else Inr ([], b, tick))
    | DoApply now gs \<Rightarrow>
        bindE (foldE (\<lambda>g _. be_validate B g b) gs ()) (\<lambda>_.
        if gs = [] then Inr ([], b, tick)
        else require (tick \<le> now) Protocol (direct B epoch (Gates \<lparr>gates_tick = now, gates = gs\<rparr>) b))
    | DoMeasure now refs \<Rightarrow>
        if refs = [] then Inr ([], b, tick)
        else require (tick \<le> now \<and> distinct (map ref_target refs) \<and> (\<forall>r\<in>set refs. ref_epoch r = epoch)) Protocol (
          direct B epoch (Measurement \<lparr>meas_tick = now, references = refs\<rparr>) b)
    | DoFlush \<Rightarrow> Inr ([], b, tick)))"

fun direct_run :: "'b Backend \<Rightarrow> Epoch \<Rightarrow> bx_op list \<Rightarrow> 'b \<times> Tick \<Rightarrow> (bool list \<times> 'b \<times> Tick) result" where
  "direct_run B epoch [] st = Inr ([], st)"
| "direct_run B epoch (op # ops) st =
     bindE (direct_step B epoch op st) (\<lambda>(r, st'). bindE (direct_run B epoch ops st') (\<lambda>(rs, st''). Inr (r @ rs, st'')))"

fun result_count :: "BackendOperation list \<Rightarrow> nat" where
  "result_count [] = 0"
| "result_count (Measurement m # ops) = length (references m) + result_count ops"
| "result_count (_ # ops) = result_count ops"

lemma result_count_append [simp]: "result_count (xs @ ys) = result_count xs + result_count ys"
  by (induction xs rule: result_count.induct) simp_all

text \<open>The measurements' checks, one reference at a time, in closed form.\<close>

lemma measure_checks:
  "foldE (\<lambda>r seen. require (ref_epoch r = ep \<and> ref_target r \<notin> set seen) Protocol (Inr (ref_target r # seen))) refs ts
     = Inr ts' \<Longrightarrow>
   (distinct (map ref_target refs) \<and> set ts \<inter> set (map ref_target refs) = {} \<and> (\<forall>r\<in>set refs. ref_epoch r = ep))"
proof (induction refs arbitrary: ts)
  case (Cons r refs)
  from Cons.prems have "foldE (\<lambda>r seen. require (ref_epoch r = ep \<and> ref_target r \<notin> set seen) Protocol
      (Inr (ref_target r # seen))) refs (ref_target r # ts) = Inr ts'"
    and h: "ref_epoch r = ep" "ref_target r \<notin> set ts" by simp_all
  from Cons.IH [OF this(1)] h show ?case by auto
qed simp

lemma measure_checks_pass:
  "distinct (map ref_target refs) \<Longrightarrow> set ts \<inter> set (map ref_target refs) = {} \<Longrightarrow> (\<forall>r\<in>set refs. ref_epoch r = ep) \<Longrightarrow>
   \<exists>ts'. foldE (\<lambda>r seen. require (ref_epoch r = ep \<and> ref_target r \<notin> set seen) Protocol (Inr (ref_target r # seen))) refs ts
     = Inr ts'"
  by (induction refs arbitrary: ts) auto

lemma step_pending:
  "bx_step B op x = Inr (r, y) \<Longrightarrow> result_count (bx_pending x) = 0 \<Longrightarrow> result_count (bx_pending y) = 0"
  by (cases op) (auto simp: bx_step_def bx_evolve_def bx_apply_def bx_measure_def bx_execute_def bx_flush_def
      commit_def Let_def split: if_splits sum.splits)

lemma run_pending:
  "bx_run B ops x = Inr (rs, y) \<Longrightarrow> result_count (bx_pending x) = 0 \<Longrightarrow> result_count (bx_pending y) = 0"
  by (induction ops arbitrary: x rs) (auto dest: step_pending)

text \<open>The frame and the errors of the operations.\<close>

lemma bx_execute_frame:
  "bx_execute B n x = Inr (r, x') \<Longrightarrow> bx_epoch x' = bx_epoch x \<and> committed_tick x' = committed_tick x \<and>
   (bx_pending x \<noteq> [] \<longrightarrow> length r = n)"
  by (auto simp: bx_execute_def split: if_splits sum.splits)

lemma commit_frame: "commit B op x = Inr x' \<Longrightarrow> bx_epoch x' = bx_epoch x \<and> committed_tick x' = op_tick op"
  by (auto simp: commit_def Let_def bx_flush_def dest!: bx_execute_frame split: if_splits)

lemma bx_evolve_frame: "bx_evolve B f t ds qs x = Inr x' \<Longrightarrow> bx_epoch x' = bx_epoch x \<and> committed_tick x' = t"
  by (auto simp: bx_evolve_def dest!: commit_frame split: if_splits)

lemma bx_apply_frame:
  "bx_apply B now gs x = Inr x' \<Longrightarrow> bx_epoch x' = bx_epoch x \<and> (committed_tick x = now \<longrightarrow> committed_tick x' = now)"
  by (auto simp: bx_apply_def dest!: commit_frame split: if_splits)

lemma bx_measure_frame:
  "bx_measure B now refs x = Inr (r, x') \<Longrightarrow> bx_epoch x' = bx_epoch x \<and> length r = length refs \<and>
   (committed_tick x = now \<longrightarrow> committed_tick x' = now)"
  by (auto simp: bx_measure_def dest!: bx_execute_frame split: if_splits)

lemma bx_reset_frame: "bx_reset B q seed ep now x = Inr x' \<Longrightarrow> bx_epoch x' = ep \<and> committed_tick x' = now"
  by (auto simp: bx_reset_def)

lemma bx_execute_error: "bx_execute B n x = Inl e \<Longrightarrow> e = BackendFailure"
  by (auto simp: bx_execute_def require_def split: if_splits sum.splits)

lemma commit_error: "commit B op x = Inl e \<Longrightarrow> committed_tick x \<le> op_tick op \<Longrightarrow> e = BackendFailure"
  by (auto simp: commit_def Let_def bx_flush_def bindE_eq_Inl require_eq_Inl dest!: bx_execute_error split: if_splits prod.splits)

lemma bx_evolve_error: "bx_evolve B f t ds qs x = Inl e \<Longrightarrow> f = committed_tick x \<Longrightarrow> f \<le> t \<Longrightarrow> e = BackendFailure"
  by (auto simp: bx_evolve_def require_eq_Inl dest!: commit_error split: if_splits)

lemma bx_apply_error:
  assumes "bx_apply B now gs x = Inl e" and "committed_tick x \<le> now" and "\<forall>g\<in>set gs. bx_validate B g x = Inr ()"
  shows "e = BackendFailure"
proof -
  have "foldE (\<lambda>g _. bx_validate B g x) gs () = Inr ()" using assms(3) by (induction gs) auto
  with assms(1,2) show ?thesis by (auto simp: bx_apply_def dest!: commit_error split: if_splits)
qed

lemma bx_measure_error:
  assumes "bx_measure B now refs x = Inl e" and "committed_tick x \<le> now" and "distinct (map ref_target refs)"
    and "\<forall>r\<in>set refs. ref_epoch r = bx_epoch x"
  shows "e = BackendFailure"
proof -
  from measure_checks_pass [OF assms(3) _ assms(4), of "[]"] obtain ts where
    "foldE (\<lambda>r seen. require (ref_epoch r = bx_epoch x \<and> ref_target r \<notin> set seen) Protocol
      (Inr (ref_target r # seen))) refs [] = Inr ts" by auto
  with assms(1,2) show ?thesis by (auto simp: bx_measure_def dest!: bx_execute_error split: if_splits)
qed

section \<open>What a backend promises\<close>

text \<open>
  \<open>same b c\<close> says that two states of the backend cannot be told apart. Executing a batch yields one
  result per measured reference and is the same as executing its parts one after the other;
  whether an action is supported does not depend on what has been executed.
\<close>

locale quantum_backend =
  fixes B :: "'b Backend" and same :: "'b \<Rightarrow> 'b \<Rightarrow> bool"
  assumes same_refl: "same b b"
    and same_sym: "same b c \<Longrightarrow> same c b"
    and same_trans: "same b c \<Longrightarrow> same c d \<Longrightarrow> same b d"
    and validate_same: "same b c \<Longrightarrow> be_validate B a b = be_validate B a c"
    and validate_execute: "be_execute B ep ops b = Inr (r, b') \<Longrightarrow> be_validate B a b' = be_validate B a b"
    and execute_same: "same b c \<Longrightarrow> be_execute B ep ops b = Inr (r, b') \<Longrightarrow>
      \<exists>c'. be_execute B ep ops c = Inr (r, c') \<and> same b' c'"
    and execute_count: "be_execute B ep ops b = Inr (r, b') \<Longrightarrow> length r = result_count ops"
    and execute_split: "be_execute B ep (xs @ ys) b = Inr (r, b') \<Longrightarrow>
      \<exists>r1 b1 r2 b2. be_execute B ep xs b = Inr (r1, b1) \<and> be_execute B ep ys b1 = Inr (r2, b2) \<and>
        r = r1 @ r2 \<and> same b' b2"
    and execute_join: "be_execute B ep xs b = Inr (r1, b1) \<Longrightarrow> be_execute B ep ys b1 = Inr (r2, b2) \<Longrightarrow>
      \<exists>b'. be_execute B ep (xs @ ys) b = Inr (r1 @ r2, b') \<and> same b' b2"
begin

text \<open>\<open>caught_up ep x c\<close>: the backend would be in a state like \<open>c\<close> after the operations that are pending.\<close>

definition caught_up :: "'b BackendExecution \<Rightarrow> 'b \<Rightarrow> bool" where
  "caught_up x c \<longleftrightarrow> result_count (bx_pending x) = 0 \<and>
     (if bx_pending x = [] then same (bx_backend x) c
      else \<exists>b'. be_execute B (bx_epoch x) (bx_pending x) (bx_backend x) = Inr ([], b') \<and> same b' c)"

lemma caught_up_validate: "caught_up x c \<Longrightarrow> be_validate B a (bx_backend x) = be_validate B a c"
proof (cases "bx_pending x = []")
  case True
  moreover assume "caught_up x c"
  ultimately show ?thesis by (intro validate_same) (simp add: caught_up_def)
next
  case False
  moreover assume "caught_up x c"
  ultimately obtain b' where "be_execute B (bx_epoch x) (bx_pending x) (bx_backend x) = Inr ([], b')" "same b' c"
    by (auto simp: caught_up_def)
  then show ?thesis using validate_execute validate_same by metis
qed

lemma flush_caught_up: "bx_flush B x = Inr x' \<Longrightarrow> result_count (bx_pending x) = 0 \<Longrightarrow>
   caught_up x (bx_backend x') \<and> x' = x\<lparr>bx_backend := bx_backend x', bx_pending := []\<rparr>"
  by (auto simp: bx_flush_def bx_execute_def caught_up_def same_refl split: if_splits sum.splits)

lemma caught_up_flush: "caught_up x c \<Longrightarrow>
   \<exists>b. bx_flush B x = Inr (x\<lparr>bx_backend := b, bx_pending := []\<rparr>) \<and> same b c"
proof (cases "bx_pending x = []")
  case True
  then have "x = x\<lparr>bx_backend := bx_backend x, bx_pending := []\<rparr>" by simp
  moreover assume "caught_up x c"
  ultimately have "bx_flush B x = Inr (x\<lparr>bx_backend := bx_backend x, bx_pending := []\<rparr>) \<and> same (bx_backend x) c"
    using True by (simp add: bx_flush_def bx_execute_def caught_up_def)
  then show ?thesis by blast
qed (auto simp: bx_flush_def bx_execute_def caught_up_def)

text \<open>What is supported does not change.\<close>

lemma bx_execute_validate: "bx_execute B n x = Inr (r, x') \<Longrightarrow> be_validate B a (bx_backend x') = be_validate B a (bx_backend x)"
  using validate_execute [of "bx_epoch x" "bx_pending x" "bx_backend x" r "bx_backend x'" a]
  by (auto simp: bx_execute_def split: if_splits sum.splits)

lemma commit_validate: "commit B op x = Inr x' \<Longrightarrow> be_validate B a (bx_backend x') = be_validate B a (bx_backend x)"
  by (auto simp: commit_def Let_def bx_flush_def dest!: bx_execute_validate [where a = a] split: if_splits)

lemma bx_evolve_validate: "bx_evolve B f t ds qs x = Inr x' \<Longrightarrow> be_validate B a (bx_backend x') = be_validate B a (bx_backend x)"
  by (auto simp: bx_evolve_def dest!: commit_validate [where a = a] split: if_splits)

lemma bx_apply_validate: "bx_apply B now gs x = Inr x' \<Longrightarrow> be_validate B a (bx_backend x') = be_validate B a (bx_backend x)"
  by (auto simp: bx_apply_def dest!: commit_validate [where a = a] split: if_splits)

lemma bx_measure_validate: "bx_measure B now refs x = Inr (r, x') \<Longrightarrow> be_validate B a (bx_backend x') = be_validate B a (bx_backend x)"
  by (auto simp: bx_measure_def dest!: bx_execute_validate [where a = a] split: if_splits)

text \<open>Appending one operation to what is pending.\<close>

lemma execute_snoc:
  assumes "be_execute B (bx_epoch x) (bx_pending x @ [op]) (bx_backend x) = Inr (r, b)"
    and "result_count (bx_pending x) = 0"
  shows "\<exists>c d. caught_up x c \<and> be_execute B (bx_epoch x) [op] c = Inr (r, d) \<and> same b d"
proof (cases "bx_pending x = []")
  case True
  with assms show ?thesis by (auto simp: caught_up_def intro: same_refl)
next
  case False
  from execute_split [OF assms(1)] obtain r1 b1 r2 b2 where s:
    "be_execute B (bx_epoch x) (bx_pending x) (bx_backend x) = Inr (r1, b1)"
    "be_execute B (bx_epoch x) [op] b1 = Inr (r2, b2)" "r = r1 @ r2" "same b b2" by blast
  moreover from execute_count [OF s(1)] assms(2) have "r1 = []" by simp
  ultimately show ?thesis using False assms(2) by (auto simp: caught_up_def intro: same_refl)
qed

lemma caught_up_snoc:
  assumes "caught_up x c" and "be_execute B (bx_epoch x) [op] c = Inr (r, d)"
  shows "\<exists>b. be_execute B (bx_epoch x) (bx_pending x @ [op]) (bx_backend x) = Inr (r, b) \<and> same b d"
proof (cases "bx_pending x = []")
  case True
  with assms(1) have "same c (bx_backend x)" by (auto simp: caught_up_def intro: same_sym)
  from execute_same [OF this assms(2)] True show ?thesis by (auto intro: same_sym)
next
  case False
  with assms(1) obtain b' where b': "be_execute B (bx_epoch x) (bx_pending x) (bx_backend x) = Inr ([], b')" "same b' c"
    by (auto simp: caught_up_def)
  from execute_same [OF same_sym [OF b'(2)] assms(2)] obtain d' where
    d': "be_execute B (bx_epoch x) [op] b' = Inr (r, d')" "same d d'" by blast
  from execute_join [OF b'(1) d'(1)] d'(2) show ?thesis by (auto intro: same_sym same_trans)
qed

lemma direct_same:
  assumes "same b c" and "direct_step B ep op (b, t) = Inr (r, b', t')"
  shows "\<exists>c'. direct_step B ep op (c, t) = Inr (r, c', t') \<and> same b' c'"
proof (cases op)
  case (DoApply now gs)
  have "be_validate B g b = be_validate B g c" for g by (rule validate_same [OF assms(1)])
  with DoApply assms show ?thesis
    by (auto simp: direct_step_def direct_def split: if_splits dest!: execute_same [OF assms(1)])
qed (use assms in \<open>auto simp: direct_step_def direct_def split: if_splits dest!: execute_same [OF assms(1)]\<close>)

lemma direct_run_same:
  "same b c \<Longrightarrow> direct_run B ep ops (b, t) = Inr (r, b', t') \<Longrightarrow>
   \<exists>c'. direct_run B ep ops (c, t) = Inr (r, c', t') \<and> same b' c'"
proof (induction ops arbitrary: b c t r)
  case (Cons op ops)
  from Cons.prems(2) obtain r1 b1 t1 r2 where
    s: "direct_step B ep op (b, t) = Inr (r1, b1, t1)" "direct_run B ep ops (b1, t1) = Inr (r2, b', t')" "r = r1 @ r2"
    by auto
  from direct_same [OF Cons.prems(1) s(1)] obtain c1 where
    c1: "direct_step B ep op (c, t) = Inr (r1, c1, t1)" "same b1 c1" by blast
  from Cons.IH [OF c1(2) s(2)] c1(1) s(3) show ?case by auto
qed simp

text \<open>Committing one operation, with or without the flush of a full batch.\<close>

lemma commit_forward:
  assumes c: "commit B op x = Inr x1" and n: "result_count (bx_pending x) = 0" "result_count [op] = 0"
    and u: "caught_up x1 c1"
  shows "\<exists>c d. caught_up x c \<and> be_execute B (bx_epoch x) [op] c = Inr ([], d) \<and> same c1 d \<and>
    committed_tick x \<le> op_tick op \<and> committed_tick x1 = op_tick op \<and> bx_epoch x1 = bx_epoch x"
proof -
  define x0 where "x0 = x\<lparr>committed_tick := op_tick op, bx_pending := bx_pending x @ [op]\<rparr>"
  have x0: "bx_pending x0 = bx_pending x @ [op]" "bx_epoch x0 = bx_epoch x" "bx_backend x0 = bx_backend x"
    "committed_tick x0 = op_tick op" by (simp_all add: x0_def)
  from c have le: "committed_tick x \<le> op_tick op"
    and x1: "(if length (bx_pending x0) = unat (max_batch x0) then bx_flush B x0 else Inr x0) = Inr x1"
    by (simp_all add: commit_def Let_def x0_def split: if_splits)
  have "\<exists>c0. caught_up x0 c0 \<and> same c0 c1 \<and> committed_tick x1 = op_tick op \<and> bx_epoch x1 = bx_epoch x"
  proof (cases "length (bx_pending x0) = unat (max_batch x0)")
    case True
    with x1 have "bx_flush B x0 = Inr x1" by simp
    from flush_caught_up [OF this] n x0 have h: "caught_up x0 (bx_backend x1)"
      "x1 = x0\<lparr>bx_backend := bx_backend x1, bx_pending := []\<rparr>" by simp_all
    from arg_cong [OF h(2), of bx_pending] arg_cong [OF h(2), of committed_tick] arg_cong [OF h(2), of bx_epoch] x0
    have "bx_pending x1 = []" "committed_tick x1 = op_tick op" "bx_epoch x1 = bx_epoch x" by simp_all
    with h(1) u show ?thesis by (auto simp: caught_up_def)
  next
    case False
    with x1 have "x1 = x0" by simp
    with u x0 show ?thesis using same_refl by auto
  qed
  then obtain c0 where c0: "caught_up x0 c0" "same c0 c1" "committed_tick x1 = op_tick op" "bx_epoch x1 = bx_epoch x"
    by blast
  from c0(1) obtain b where b: "be_execute B (bx_epoch x) (bx_pending x @ [op]) (bx_backend x) = Inr ([], b)" "same b c0"
    by (auto simp: caught_up_def x0)
  from execute_snoc [OF b(1) n(1)] obtain c d where "caught_up x c" "be_execute B (bx_epoch x) [op] c = Inr ([], d)" "same b d"
    by blast
  moreover from this b(2) c0(2) have "same c1 d" by (blast intro: same_sym same_trans)
  ultimately show ?thesis using le c0 by blast
qed

lemma commit_backward:
  assumes u: "caught_up x c" and d: "be_execute B (bx_epoch x) [op] c = Inr ([], d)" and n: "result_count [op] = 0"
    and le: "committed_tick x \<le> op_tick op"
  shows "\<exists>x1. commit B op x = Inr x1 \<and> caught_up x1 d \<and> committed_tick x1 = op_tick op \<and> bx_epoch x1 = bx_epoch x"
proof -
  define x0 where "x0 = x\<lparr>committed_tick := op_tick op, bx_pending := bx_pending x @ [op]\<rparr>"
  have n0: "result_count (bx_pending x) = 0" using u by (simp add: caught_up_def)
  from caught_up_snoc [OF u d] obtain b where
    b: "be_execute B (bx_epoch x) (bx_pending x @ [op]) (bx_backend x) = Inr ([], b)" "same b d" by blast
  then have u0: "caught_up x0 d" using n n0 by (simp add: caught_up_def x0_def)
  show ?thesis
  proof (cases "length (bx_pending x0) = unat (max_batch x0)")
    case True
    from caught_up_flush [OF u0] obtain b' where
      f: "bx_flush B x0 = Inr (x0\<lparr>bx_backend := b', bx_pending := []\<rparr>)" "same b' d" by blast
    with True le have "commit B op x = Inr (x0\<lparr>bx_backend := b', bx_pending := []\<rparr>)"
      by (simp add: commit_def Let_def x0_def)
    moreover have "caught_up (x0\<lparr>bx_backend := b', bx_pending := []\<rparr>) d" using f(2) by (simp add: caught_up_def)
    ultimately show ?thesis by (simp add: x0_def)
  next
    case False
    with le have "commit B op x = Inr x0" by (simp add: commit_def Let_def x0_def)
    with u0 show ?thesis by (simp add: x0_def)
  qed
qed

text \<open>A step of the queue against the same operation executed at once.\<close>

lemma step_forward:
  assumes s: "bx_step B op x = Inr (r, x1)" and n: "result_count (bx_pending x) = 0" and u: "caught_up x1 c1"
  shows "\<exists>c d. caught_up x c \<and> direct_step B (bx_epoch x) op (c, committed_tick x) = Inr (r, d, committed_tick x1) \<and>
    same c1 d \<and> bx_epoch x1 = bx_epoch x"
proof (cases op)
  case (DoEvolve f t ds qs)
  with s have e: "r = []" "f = committed_tick x" "f \<le> t"
    "if f < t then commit B (Evolution \<lparr>evo_start = f, evo_tick = t, drives = ds, acquisitions = qs\<rparr>) x = Inr x1 else x1 = x"
    by (auto simp: bx_step_def bx_evolve_def split: if_splits)
  show ?thesis
  proof (cases "f < t")
    case True
    with e have "commit B (Evolution \<lparr>evo_start = f, evo_tick = t, drives = ds, acquisitions = qs\<rparr>) x = Inr x1" by simp
    from commit_forward [OF this n _ u] True e show ?thesis by (auto simp: DoEvolve direct_step_def direct_def)
  next
    case False
    with e u show ?thesis by (auto simp: DoEvolve direct_step_def intro: same_refl)
  qed
next
  case (DoApply now gs)
  with s have e: "r = []" "foldE (\<lambda>g _. be_validate B g (bx_backend x)) gs () = Inr ()"
    "if gs \<noteq> [] then commit B (Gates \<lparr>gates_tick = now, gates = gs\<rparr>) x = Inr x1 else x1 = x"
    by (auto simp: bx_step_def bx_apply_def bx_validate_def split: if_splits)
  show ?thesis
  proof (cases "gs = []")
    case False
    with e have "commit B (Gates \<lparr>gates_tick = now, gates = gs\<rparr>) x = Inr x1" by simp
    from commit_forward [OF this n _ u] obtain c d where
      c: "caught_up x c" "be_execute B (bx_epoch x) [Gates \<lparr>gates_tick = now, gates = gs\<rparr>] c = Inr ([], d)" "same c1 d"
      "committed_tick x \<le> now" "committed_tick x1 = now" "bx_epoch x1 = bx_epoch x" by auto
    have "be_validate B g c = be_validate B g (bx_backend x)" for g using caught_up_validate [OF c(1)] by simp
    with c e False show ?thesis by (auto simp: DoApply direct_step_def direct_def)
  next
    case True
    with e u show ?thesis by (auto simp: DoApply direct_step_def intro: same_refl)
  qed
next
  case (DoMeasure now refs)
  show ?thesis
  proof (cases "refs = []")
    case True
    with DoMeasure s u show ?thesis by (auto simp: bx_step_def bx_measure_def direct_step_def intro: same_refl)
  next
    case False
    let ?m = "Measurement \<lparr>meas_tick = now, references = refs\<rparr>"
    from s DoMeasure False obtain ts b where m: "committed_tick x \<le> now"
      "foldE (\<lambda>r seen. require (ref_epoch r = bx_epoch x \<and> ref_target r \<notin> set seen) Protocol
        (Inr (ref_target r # seen))) refs [] = Inr ts"
      "be_execute B (bx_epoch x) (bx_pending x @ [?m]) (bx_backend x) = Inr (r, b)"
      "x1 = x\<lparr>committed_tick := now, bx_pending := [], bx_backend := b\<rparr>"
      by (auto simp: bx_step_def bx_measure_def bx_execute_def split: sum.splits)
    from execute_snoc [OF m(3) n] obtain c d where
      c: "caught_up x c" "be_execute B (bx_epoch x) [?m] c = Inr (r, d)" "same b d" by blast
    from u m(4) have "same b c1" by (simp add: caught_up_def)
    with c(3) have "same c1 d" by (blast intro: same_sym same_trans)
    with measure_checks [OF m(2)] m(1,4) c False show ?thesis
      by (auto simp: DoMeasure direct_step_def direct_def)
  qed
next
  case DoFlush
  with s have f: "bx_flush B x = Inr x1" "r = []" by (auto simp: bx_step_def)
  from flush_caught_up [OF f(1) n] have h: "caught_up x (bx_backend x1)"
    "x1 = x\<lparr>bx_backend := bx_backend x1, bx_pending := []\<rparr>" by simp_all
  from arg_cong [OF h(2), of bx_pending] arg_cong [OF h(2), of committed_tick] arg_cong [OF h(2), of bx_epoch]
  have "bx_pending x1 = []" "committed_tick x1 = committed_tick x" "bx_epoch x1 = bx_epoch x" by simp_all
  with h(1) u f(2) show ?thesis by (auto simp: DoFlush direct_step_def caught_up_def intro: same_sym)
qed

lemma step_backward:
  assumes u: "caught_up x c" and s: "direct_step B (bx_epoch x) op (c, committed_tick x) = Inr (r, d, t)"
  shows "\<exists>x1. bx_step B op x = Inr (r, x1) \<and> caught_up x1 d \<and> committed_tick x1 = t \<and> bx_epoch x1 = bx_epoch x"
proof (cases op)
  case (DoEvolve f t' ds qs)
  let ?op = "Evolution \<lparr>evo_start = f, evo_tick = t', drives = ds, acquisitions = qs\<rparr>"
  show ?thesis
  proof (cases "f < t'")
    case True
    with s DoEvolve have e: "be_execute B (bx_epoch x) [?op] c = Inr (r, d)" "f = committed_tick x" "t = t'"
      by (auto simp: direct_step_def direct_def)
    with execute_count [OF e(1)] have "r = []" by simp
    with commit_backward [OF u, of ?op d] e True show ?thesis by (auto simp: DoEvolve bx_step_def bx_evolve_def)
  next
    case False
    with s DoEvolve u show ?thesis by (auto simp: direct_step_def bx_step_def bx_evolve_def)
  qed
next
  case (DoApply now gs)
  let ?op = "Gates \<lparr>gates_tick = now, gates = gs\<rparr>"
  have v: "be_validate B g c = be_validate B g (bx_backend x)" for g using caught_up_validate [OF u] by simp
  show ?thesis
  proof (cases "gs = []")
    case False
    with s DoApply have e: "be_execute B (bx_epoch x) [?op] c = Inr (r, d)" "committed_tick x \<le> now" "t = now"
      "foldE (\<lambda>g _. be_validate B g (bx_backend x)) gs () = Inr ()"
      by (auto simp: direct_step_def direct_def v)
    with execute_count [OF e(1)] have "r = []" by simp
    with commit_backward [OF u, of ?op d] e False show ?thesis
      by (auto simp: DoApply bx_step_def bx_apply_def bx_validate_def)
  next
    case True
    with s DoApply u show ?thesis by (auto simp: direct_step_def bx_step_def bx_apply_def)
  qed
next
  case (DoMeasure now refs)
  let ?op = "Measurement \<lparr>meas_tick = now, references = refs\<rparr>"
  show ?thesis
  proof (cases "refs = []")
    case True
    with s DoMeasure u show ?thesis by (auto simp: direct_step_def bx_step_def bx_measure_def)
  next
    case False
    with s DoMeasure have e: "be_execute B (bx_epoch x) [?op] c = Inr (r, d)" "committed_tick x \<le> now" "t = now"
      "distinct (map ref_target refs)" "\<forall>r\<in>set refs. ref_epoch r = bx_epoch x"
      by (auto simp: direct_step_def direct_def)
    from caught_up_snoc [OF u e(1)] obtain b where
      b: "be_execute B (bx_epoch x) (bx_pending x @ [?op]) (bx_backend x) = Inr (r, b)" "same b d" by blast
    from measure_checks_pass [OF e(4) _ e(5), of "[]"] obtain ts where
      ts: "foldE (\<lambda>r seen. require (ref_epoch r = bx_epoch x \<and> ref_target r \<notin> set seen) Protocol
        (Inr (ref_target r # seen))) refs [] = Inr ts" by auto
    from execute_count [OF e(1)] have "length r = length refs" by simp
    with False b ts e show ?thesis by (auto simp: DoMeasure bx_step_def bx_measure_def bx_execute_def caught_up_def)
  qed
next
  case DoFlush
  from caught_up_flush [OF u] DoFlush s show ?thesis
    by (auto simp: bx_step_def direct_step_def caught_up_def)
qed

lemma run_forward:
  assumes "bx_run B ops x = Inr (rs, x1)" and "bx_flush B x1 = Inr x2" and "result_count (bx_pending x) = 0"
    and "result_count (bx_pending x1) = 0"
  shows "\<exists>c d. caught_up x c \<and> direct_run B (bx_epoch x) ops (c, committed_tick x) = Inr (rs, d, committed_tick x1) \<and>
    same (bx_backend x2) d"
  using assms
proof (induction ops arbitrary: x rs)
  case Nil
  then show ?case using flush_caught_up [of x x2] same_refl by auto
next
  case (Cons op ops)
  from Cons.prems(1) obtain r y rs' where s: "bx_step B op x = Inr (r, y)" "bx_run B ops y = Inr (rs', x1)" "rs = r @ rs'"
    by auto
  have "result_count (bx_pending y) = 0" by (rule step_pending [OF s(1) Cons.prems(3)])
  from Cons.IH [OF s(2) Cons.prems(2) this Cons.prems(4)] obtain c1 d where
    i: "caught_up y c1" "direct_run B (bx_epoch y) ops (c1, committed_tick y) = Inr (rs', d, committed_tick x1)"
      "same (bx_backend x2) d" by blast
  from step_forward [OF s(1) Cons.prems(3) i(1)] obtain c e where
    c: "caught_up x c" "direct_step B (bx_epoch x) op (c, committed_tick x) = Inr (r, e, committed_tick y)"
      "same c1 e" "bx_epoch y = bx_epoch x" by blast
  from direct_run_same [OF c(3) i(2)] obtain d' where
    "direct_run B (bx_epoch y) ops (e, committed_tick y) = Inr (rs', d', committed_tick x1)" "same d d'" by blast
  with c s(3) have "direct_run B (bx_epoch x) (op # ops) (c, committed_tick x) = Inr (rs, d', committed_tick x1)" by simp
  moreover have "same (bx_backend x2) d'" by (rule same_trans [OF i(3) \<open>same d d'\<close>])
  ultimately show ?case using c(1) by blast
qed

lemma run_backward:
  assumes "caught_up x c" and "direct_run B (bx_epoch x) ops (c, committed_tick x) = Inr (rs, d, t)"
  shows "\<exists>x1 x2. bx_run B ops x = Inr (rs, x1) \<and> bx_flush B x1 = Inr x2 \<and> same (bx_backend x2) d"
  using assms
proof (induction ops arbitrary: x c rs)
  case Nil
  then show ?case using caught_up_flush [of x c] by auto
next
  case (Cons op ops)
  from Cons.prems(2) obtain r e t1 rs' where
    s: "direct_step B (bx_epoch x) op (c, committed_tick x) = Inr (r, e, t1)"
      "direct_run B (bx_epoch x) ops (e, t1) = Inr (rs', d, t)" "rs = r @ rs'" by auto
  from step_backward [OF Cons.prems(1) s(1)] obtain y where
    y: "bx_step B op x = Inr (r, y)" "caught_up y e" "committed_tick y = t1" "bx_epoch y = bx_epoch x" by blast
  from Cons.IH [OF y(2), of rs'] s(2) y obtain x1 x2 where
    "bx_run B ops y = Inr (rs', x1)" "bx_flush B x1 = Inr x2" "same (bx_backend x2) d" by auto
  with y(1) s(3) show ?case by auto
qed

end

section \<open>The mock keeps the promise\<close>

definition mock_same :: "MockBackend \<Rightarrow> MockBackend \<Rightarrow> bool" where
  "mock_same b c \<longleftrightarrow> outcomes b = outcomes c \<and> mock_qubits b = mock_qubits c"

lemma mock_operation_frame:
  "mock_operation ep (m\<lparr>calls := n\<rparr>) op vs = mock_operation ep m op vs"
  by (simp add: mock_operation_def mock_outcome_def [abs_def] split: BackendOperation.split)

lemma mock_operation_same: "mock_same b c \<Longrightarrow> mock_operation ep b = mock_operation ep c"
proof -
  assume "mock_same b c"
  then have "mock_outcome ep b = mock_outcome ep c"
    by (simp add: mock_outcome_def [abs_def] mock_same_def)
  then show ?thesis by (intro ext) (simp add: mock_operation_def split: BackendOperation.split)
qed

lemma mock_prefix:
  "foldE (mock_outcome ep m) refs (us @ vs) = bindE (foldE (mock_outcome ep m) refs vs) (\<lambda>r. Inr (us @ r))"
proof (induction refs arbitrary: vs)
  case (Cons r refs)
  show ?case using Cons.IH [of "vs @ [om_find (measurement r) (outcomes m) = Some True]"]
    by (simp add: mock_outcome_def require_def)
qed simp

lemma mock_prefixes:
  "foldE (mock_operation ep m) ops (us @ vs) = bindE (foldE (mock_operation ep m) ops vs) (\<lambda>r. Inr (us @ r))"
proof (induction ops arbitrary: vs)
  case (Cons op ops)
  have "mock_operation ep m op (us @ vs) = bindE (mock_operation ep m op vs) (\<lambda>r. Inr (us @ r))"
    by (cases op) (simp_all add: mock_operation_def mock_prefix)
  with Cons.IH show ?case by (cases "mock_operation ep m op vs") simp_all
qed simp

lemma mock_count:
  "foldE (mock_outcome ep m) refs vs = Inr r \<Longrightarrow> length r = length vs + length refs"
  by (induction refs arbitrary: vs) (auto simp: mock_outcome_def)

lemma mock_counts:
  "foldE (mock_operation ep m) ops vs = Inr r \<Longrightarrow> length r = length vs + result_count ops"
proof (induction ops arbitrary: vs)
  case (Cons op ops)
  from Cons.prems obtain us where u: "mock_operation ep m op vs = Inr us" "foldE (mock_operation ep m) ops us = Inr r" by auto
  from Cons.IH [OF u(2)] u(1) show ?case
    by (cases op) (auto simp: mock_operation_def dest: mock_count)
qed simp

lemma mock_split:
  assumes "be_execute mock_backend ep (xs @ ys) b = Inr (r, b')"
  shows "\<exists>r1 b1 r2 b2. be_execute mock_backend ep xs b = Inr (r1, b1) \<and>
    be_execute mock_backend ep ys b1 = Inr (r2, b2) \<and> r = r1 @ r2 \<and> mock_same b' b2"
proof -
  from assms obtain r1 where r1: "foldE (mock_operation ep b) xs [] = Inr r1"
    "foldE (mock_operation ep b) ys r1 = Inr r" "b' = b\<lparr>calls := calls b + 1\<rparr>"
    by (auto simp: mock_backend_def mock_execute_def foldE_append)
  from r1(2) mock_prefixes [of ep b ys r1 "[]"] obtain r2 where
    "foldE (mock_operation ep b) ys [] = Inr r2" "r = r1 @ r2"
    by (cases "foldE (mock_operation ep b) ys []") simp_all
  with r1 show ?thesis
    by (auto simp: mock_backend_def mock_execute_def mock_same_def mock_operation_frame [abs_def])
qed

lemma mock_join:
  assumes "be_execute mock_backend ep xs b = Inr (r1, b1)" and "be_execute mock_backend ep ys b1 = Inr (r2, b2)"
  shows "\<exists>b'. be_execute mock_backend ep (xs @ ys) b = Inr (r1 @ r2, b') \<and> mock_same b' b2"
proof -
  from assms(1) have 1: "foldE (mock_operation ep b) xs [] = Inr r1" "b1 = b\<lparr>calls := calls b + 1\<rparr>"
    by (auto simp: mock_backend_def mock_execute_def)
  have "mock_operation ep b1 = mock_operation ep b" by (rule mock_operation_same) (simp add: 1 mock_same_def)
  with assms(2) have "foldE (mock_operation ep b) ys [] = Inr r2" "b2 = b1\<lparr>calls := calls b1 + 1\<rparr>"
    by (auto simp: mock_backend_def mock_execute_def)
  with 1 mock_prefixes [of ep b ys r1 "[]"] show ?thesis
    by (simp add: mock_backend_def mock_execute_def mock_same_def foldE_append)
qed

interpretation mock: quantum_backend mock_backend mock_same
proof
  fix b c d :: MockBackend and ep ops r b' xs ys r1 b1 r2 b2 a
  show "mock_same b b" by (simp add: mock_same_def)
  show "mock_same b c \<Longrightarrow> mock_same c b" by (simp add: mock_same_def)
  show "mock_same b c \<Longrightarrow> mock_same c d \<Longrightarrow> mock_same b d" by (simp add: mock_same_def)
  show "be_validate mock_backend a b = be_validate mock_backend a c" by (simp add: mock_backend_def mock_validate_def)
  show "be_validate mock_backend a b' = be_validate mock_backend a b" by (simp add: mock_backend_def mock_validate_def)
  show "\<exists>c'. be_execute mock_backend ep ops c = Inr (r, c') \<and> mock_same b' c'"
    if "mock_same b c" "be_execute mock_backend ep ops b = Inr (r, b')"
    using that mock_operation_same [OF that(1)] by (auto simp: mock_backend_def mock_execute_def mock_same_def)
  show "length r = result_count ops" if "be_execute mock_backend ep ops b = Inr (r, b')"
    using that mock_counts [of ep b ops "[]"] by (auto simp: mock_backend_def mock_execute_def)
  show "\<exists>r1 b1 r2 b2. be_execute mock_backend ep xs b = Inr (r1, b1) \<and> be_execute mock_backend ep ys b1 = Inr (r2, b2) \<and>
        r = r1 @ r2 \<and> mock_same b' b2" if "be_execute mock_backend ep (xs @ ys) b = Inr (r, b')"
    by (rule mock_split [OF that])
  show "\<exists>b'. be_execute mock_backend ep (xs @ ys) b = Inr (r1 @ r2, b') \<and> mock_same b' b2"
    if "be_execute mock_backend ep xs b = Inr (r1, b1)" "be_execute mock_backend ep ys b1 = Inr (r2, b2)"
    by (rule mock_join [OF that])
qed


definition example_mock :: MockBackend where
  "example_mock = \<lparr>outcomes = [(7, True)], mock_qubits = 2, calls = 0\<rparr>"

definition example_ops :: "bx_op list" where
  "example_ops = [DoEvolve 0 5 [] [], DoEvolve 5 9 [] [],
     DoMeasure 9 [\<lparr>ref_epoch = 1, measurement = 7, ref_target = 1\<rparr>], DoEvolve 9 12 [] []]"


end
