(* ===== verification/Device.thy ===== *)
theory Device
  imports Profiles Ordered_Map
begin

text \<open>
  The tables of the control electronics: output reservations (\<^verbatim>\<open>src/device/resources.cpp\<close>),
  readouts under way (\<^verbatim>\<open>src/device/readouts.cpp\<close>) and two-qubit gates assembled from the
  outputs of two controllers (\<^verbatim>\<open>src/device/gates.cpp\<close>).
\<close>

definition is_arm :: "EventSpec \<Rightarrow> bool" where
  "is_arm a \<longleftrightarrow> kind a = DiscriminatorArm"

definition is_gate :: "EventSpec \<Rightarrow> bool" where
  "is_gate a \<longleftrightarrow> kind a = IdealGate \<or> kind a = GateOutput"

section \<open>Resource reservations\<close>

definition common_target :: "EventSpec \<Rightarrow> EventSpec \<Rightarrow> bool" where
  "common_target a b \<longleftrightarrow> list_ex (\<lambda>q. q \<in> set (targets b)) (targets a)"

definition overlapping :: "ScheduledEvent \<Rightarrow> ScheduledEvent \<Rightarrow> bool" where
  "overlapping a b \<longleftrightarrow> sch_start a < sch_end b \<and> sch_start b < sch_end a"

text \<open>The gate that two outputs both belong to.\<close>

definition same_gate :: "EventSpec \<Rightarrow> EventSpec \<Rightarrow> bool" where
  "same_gate a b = (case (spec a, spec b) of
      (SpecOutput g, SpecOutput h) \<Rightarrow> output_gate g = output_gate h
    | _ \<Rightarrow> False)"

definition exclusive_clash :: "EventSpec \<Rightarrow> EventSpec \<Rightarrow> bool" where
  "exclusive_clash x y \<longleftrightarrow> list_ex (\<lambda>rx. list_ex (\<lambda>ry.
     res_id rx = res_id ry \<and> (exclusive rx \<or> exclusive ry)) (resources y)) (resources x)"

definition measurement_gate :: "ScheduledEvent \<Rightarrow> ScheduledEvent \<Rightarrow> bool" where
  "measurement_gate a b \<longleftrightarrow>
     (kind (resolved a) = Acquire \<and> is_gate (resolved b) \<and> sch_end a = sch_start b) \<or>
     (kind (resolved b) = Acquire \<and> is_gate (resolved a) \<and> sch_end b = sch_start a)"

definition pair :: "ScheduledEvent \<Rightarrow> ScheduledEvent \<Rightarrow> unit result" where
  "pair a b =
     (let x = resolved a; y = resolved b;
          boundary = require (\<not> (common_target x y \<and> measurement_gate a b)) ResourceConflict (Inr ()) in
      if overlapping a b
      then require (es_port x \<noteq> es_port y) ResourceConflict (
           if same_gate (action (sch_event a)) (action (sch_event b))
           then require (sch_start a = sch_start b \<and> sch_end a = sch_end b) GateInputMismatch (Inr ())
           else require (\<not> exclusive_clash x y) ResourceConflict (
                require (is_arm x \<or> is_arm y \<or> \<not> common_target x y \<or> (kind x = Pulse \<and> kind y = Pulse))
                  ResourceConflict boundary))
      else boundary)"

definition check_one ::
  "ScheduledEvent list \<Rightarrow> ScheduledEvent \<Rightarrow> ScheduledEvent list \<Rightarrow> ScheduledEvent list result" where
  "check_one reserved a seen =
     require (list_all (\<lambda>b. oe_id (sch_event b) \<noteq> oe_id (sch_event a)) seen) Protocol (
     bindE (foldE (\<lambda>old _. require (oe_id (sch_event old) \<noteq> oe_id (sch_event a)) Protocol (pair a old)) reserved ()) (\<lambda>_.
     bindE (foldE (\<lambda>b _. pair a b) seen ()) (\<lambda>_.
     Inr (seen @ [a]))))"

definition rs_check :: "ScheduledEvent list \<Rightarrow> ScheduledEvent list \<Rightarrow> unit result" where
  "rs_check actions reserved = bindE (foldE (check_one reserved) actions []) (\<lambda>_. Inr ())"

definition rs_reserve :: "ScheduledEvent list \<Rightarrow> ScheduledEvent list \<Rightarrow> ScheduledEvent list result" where
  "rs_reserve actions reserved = bindE (rs_check actions reserved) (\<lambda>_. Inr (reserved @ actions))"

definition discard_before :: "Tick \<Rightarrow> ScheduledEvent list \<Rightarrow> ScheduledEvent list" where
  "discard_before now reserved = filter (\<lambda>a. \<not> sch_end a < now) reserved"

section \<open>Readouts\<close>

record Readout =
  ro_reference :: MeasurementReference
  ro_end :: Tick
  ro_arm :: Tick
  ro_ready :: Tick
  ro_sample :: "bool option"
  ro_core :: "u32 option"

type_synonym Readouts = "(Id, Readout) omap"

text \<open>The counts of acquisitions and arms and the identity of each measurement in a launch.\<close>

type_synonym readout_counts = "(Id, nat) omap \<times> (Id, nat) omap \<times> (Id, MeasurementReference) omap"

definition om_incr :: "Id \<Rightarrow> (Id, nat) omap \<Rightarrow> (Id, nat) omap" where
  "om_incr k m = om_set k ((case om_find k m of None \<Rightarrow> 0 | Some n \<Rightarrow> n) + 1) m"

definition om_count_of :: "Id \<Rightarrow> (Id, nat) omap \<Rightarrow> nat" where
  "om_count_of k m = (case om_find k m of None \<Rightarrow> 0 | Some n \<Rightarrow> n)"

definition count_readout :: "Epoch \<Rightarrow> ScheduledEvent \<Rightarrow> readout_counts \<Rightarrow> readout_counts result" where
  "count_readout epoch a = (\<lambda>(acqs, arms, identities). let e = sch_event a in
     if kind (action e) = Acquire \<or> is_arm (action e)
     then (case oe_reference e of
         None \<Rightarrow> Inl InvalidMeasurement
       | Some r \<Rightarrow>
           require (ref_epoch r = epoch) InvalidMeasurement (
           require (length (targets (action e)) = 1 \<and> hd (targets (action e)) = ref_target r) InvalidMeasurement (
           require (om_find (measurement r) identities = None \<or> om_find (measurement r) identities = Some r)
             InvalidMeasurement (
           let ids = om_emplace (measurement r) r identities in
           if is_arm (action e) then Inr (acqs, om_incr (measurement r) arms, ids)
           else Inr (om_incr (measurement r) acqs, arms, ids)))))
     else Inr (acqs, arms, identities))"

text \<open>The start of the last separate arm with the acquisition's reference.\<close>

definition arm_tick :: "ScheduledEvent list \<Rightarrow> ScheduledEvent \<Rightarrow> Tick" where
  "arm_tick actions a = fold (\<lambda>b t.
     if is_arm (action (sch_event b)) \<and> oe_reference (sch_event b) = oe_reference (sch_event a)
     then sch_start b else t) actions (sch_start a)"

definition prepare_readout ::
  "ScheduledEvent list \<Rightarrow> (Id, nat) omap \<Rightarrow> (Id, nat) omap \<Rightarrow> Readouts \<Rightarrow> ScheduledEvent \<Rightarrow> Readout list \<Rightarrow>
   Readout list result" where
  "prepare_readout actions acqs arms pending a result =
     (case (spec (action (sch_event a)), oe_reference (sch_event a)) of
        (SpecAcquire q, Some r) \<Rightarrow>
          require (om_count_of (measurement r) acqs = 1 \<and> om_find (measurement r) pending = None \<and>
             om_count_of (measurement r) arms = (if separate_arm q then 1 else 0)) Protocol (
          let arm = (if separate_arm q then arm_tick actions a else sch_start a) in
          bindE (checked_add (max (sch_end a) arm) (discriminator_delay q)) (\<lambda>ready.
          Inr (result @ [\<lparr>ro_reference = r, ro_end = sch_end a, ro_arm = arm, ro_ready = ready,
             ro_sample = None, ro_core = oe_core (sch_event a)\<rparr>])))
      | _ \<Rightarrow> Inr result)"

definition ro_prepare :: "ScheduledEvent list \<Rightarrow> Epoch \<Rightarrow> Readouts \<Rightarrow> Readout list result" where
  "ro_prepare actions epoch pending =
     bindE (foldE (count_readout epoch) actions ([], [], [])) (\<lambda>(acqs, arms, _).
     bindE (foldE (prepare_readout actions acqs arms pending) actions []) (\<lambda>result.
     require (list_all (\<lambda>(i, n). n > 0 \<longrightarrow> om_count_of i acqs = 1) arms) Protocol (
     Inr result)))"

definition ro_insert :: "Readout list \<Rightarrow> Readouts \<Rightarrow> Readouts result" where
  "ro_insert readouts pending = foldE (\<lambda>r m.
     require (om_find (measurement (ro_reference r)) m = None) Protocol (
     Inr (om_set (measurement (ro_reference r)) r m))) readouts pending"

definition ro_at :: "Id \<Rightarrow> Readouts \<Rightarrow> Readout result" where
  "ro_at i pending = (case om_find i pending of None \<Rightarrow> Inl Protocol | Some r \<Rightarrow> Inr r)"

definition ro_sample_value :: "Id \<Rightarrow> bool \<Rightarrow> Readouts \<Rightarrow> Readouts result" where
  "ro_sample_value i v pending = bindE (ro_at i pending) (\<lambda>r. Inr (om_set i (r\<lparr>ro_sample := Some v\<rparr>) pending))"

definition ro_result :: "Id \<Rightarrow> Readouts \<Rightarrow> Completion result" where
  "ro_result i pending =
     bindE (ro_at i pending) (\<lambda>r.
     case ro_sample r of
       None \<Rightarrow> Inl Protocol
     | Some v \<Rightarrow> Inr \<lparr>reference = ro_reference r, outcome = v\<rparr>)"

definition ro_erase :: "Id \<Rightarrow> Readouts \<Rightarrow> Readouts" where
  "ro_erase = om_erase"

section \<open>Two-qubit gates\<close>

text \<open>
  Gate names are strings, ordered as \<^verbatim>\<open>std::string\<close> orders them, by the code of the
  first character that differs.
\<close>

fun name_less :: "string \<Rightarrow> string \<Rightarrow> bool" where
  "name_less _ [] = False"
| "name_less [] (_ # _) = True"
| "name_less (a # s) (b # t) =
     (of_char a < (of_char b :: nat) \<or> of_char a = (of_char b :: nat) \<and> name_less s t)"

record DeviceProfile =
  dp_qubits :: u32
  dp_seed :: u32
  dp_gates :: "TwoQubitGate list"

fun gate_insert :: "TwoQubitGate \<Rightarrow> TwoQubitGate list \<Rightarrow> TwoQubitGate list" where
  "gate_insert g [] = [g]"
| "gate_insert g (h # gs) = (if name_less (tq_name g) (tq_name h) then g # h # gs else h # gate_insert g gs)"

definition device_profile :: "Profile \<Rightarrow> DeviceProfile result" where
  "device_profile p =
     bindE (foldE (\<lambda>g gs. require (list_all (\<lambda>h. tq_name h \<noteq> tq_name g) gs) InvalidProfile (
              Inr (gate_insert g gs))) (two_qubit_gates p) []) (\<lambda>gs.
     Inr \<lparr>dp_qubits = pf_qubits p, dp_seed = pf_seed p, dp_gates = gs\<rparr>)"

definition dp_gate :: "DeviceProfile \<Rightarrow> string \<Rightarrow> TwoQubitGate result" where
  "dp_gate p name = (case find (\<lambda>g. tq_name g = name) (dp_gates p) of
      None \<Rightarrow> Inl InvalidProfile | Some g \<Rightarrow> Inr g)"

text \<open>The amplitude of a default gate specification, 0.0.\<close>

definition gate_action :: "DeviceProfile \<Rightarrow> string \<Rightarrow> EventSpec result" where
  "gate_action p name =
     bindE (dp_gate p name) (\<lambda>g.
     Inr \<lparr>es_port = 0, es_delay = 0, es_duration = tq_duration g,
          spec = SpecGate \<lparr>gate_operation = tq_operation g,
            gate_operands = \<lparr>op_targets = tq_targets g, op_resources = tq_resources g\<rparr>,
            gate_amplitude = Finite 0 0, gate_flag = Always\<rparr>\<rparr>)"

definition input_of :: "OperationEvent \<Rightarrow> GateInput" where
  "input_of e = \<lparr>in_core = (case oe_core e of None \<Rightarrow> 0 | Some c \<Rightarrow> c), in_port = source_port e,
     in_codeword = oe_codeword e\<rparr>"

definition check_input ::
  "Tick \<Rightarrow> TwoQubitGate \<Rightarrow> ScheduledEvent list \<Rightarrow> GateInput \<Rightarrow> unit \<Rightarrow> unit result" where
  "check_input now g outs i _ =
     bindE (foldE (\<lambda>s n. if i = input_of (sch_event s)
        then bindE (checked_add now (tq_duration g)) (\<lambda>t. Inr (if sch_end s = t then n + 1 else n))
        else Inr n) outs (0 :: nat)) (\<lambda>n.
     require (n = 1) GateInputMismatch (Inr ()))"

definition resolve_one ::
  "DeviceProfile \<Rightarrow> Tick \<Rightarrow> string \<times> ScheduledEvent list \<Rightarrow> EventSpec list \<Rightarrow> EventSpec list result" where
  "resolve_one p now = (\<lambda>(name, outs) gs.
     bindE (dp_gate p name) (\<lambda>g.
     require (length outs = length (tq_inputs g)) GateInputMismatch (
     bindE (foldE (check_input now g outs) (tq_inputs g) ()) (\<lambda>_.
     bindE (gate_action p name) (\<lambda>a.
     Inr (gs @ [a]))))))"

definition resolve_gate_outputs ::
  "DeviceProfile \<Rightarrow> Tick \<Rightarrow> (string \<times> ScheduledEvent list) list \<Rightarrow> EventSpec list result" where
  "resolve_gate_outputs p now outs = foldE (resolve_one p now) outs []"

text \<open>An output joins the others of its gate, \<^verbatim>\<open>gate_outputs[name].push_back\<close>, names in order.\<close>

fun add_output ::
  "string \<Rightarrow> ScheduledEvent \<Rightarrow> (string \<times> ScheduledEvent list) list \<Rightarrow> (string \<times> ScheduledEvent list) list" where
  "add_output name s [] = [(name, [s])]"
| "add_output name s ((n, ss) # m) =
     (if n = name then (n, ss @ [s]) # m
      else if name_less name n then (name, [s]) # (n, ss) # m
      else (n, ss) # add_output name s m)"

end
