(* ===== verification/Electronics.thy ===== *)
theory Electronics
  imports Backend Device
begin

text \<open>
  The control electronics, \<^verbatim>\<open>include/qsbit/device.hpp\<close> and
  \<^verbatim>\<open>src/device/control_electronics.cpp\<close>: launches of the timing control units become
  starts, ends and results on a time line of boundaries, and each boundary is executed on the
  backend. The delivery callback has a state of its own and may fail; operations return the
  trace events they emit.
\<close>

record Boundary =
  bd_starts :: "ScheduledEvent list"
  bd_ends :: "Id list"
  bd_ready :: "Id list"

record 'b ControlElectronics =
  ce_profile :: DeviceProfile
  ce_backend :: "'b BackendExecution"
  reservations :: "ScheduledEvent list"
  boundaries :: "(Tick, Boundary) omap"
  active :: "(Id, ScheduledEvent) omap"
  readouts :: Readouts
  last_tick :: Tick
  processed_tick :: "Tick option"

type_synonym 'e delivery = "Completion \<Rightarrow> 'e \<Rightarrow> (TraceEvent list \<times> 'e) result"

definition control_electronics :: "'b Backend \<Rightarrow> DeviceProfile \<Rightarrow> 'b \<Rightarrow> u32 \<Rightarrow> 'b ControlElectronics result" where
  "control_electronics B p b limit =
     bindE (backend_execution b limit) (\<lambda>x.
     bindE (bx_reset B (dp_qubits p) (dp_seed p) 1 0 x) (\<lambda>x'.
     Inr \<lparr>ce_profile = p, ce_backend = x', reservations = [], boundaries = [], active = [], readouts = [],
          last_tick = 0, processed_tick = None\<rparr>))"

definition ce_validate :: "'b Backend \<Rightarrow> EventSpec \<Rightarrow> 'b ControlElectronics \<Rightarrow> unit result" where
  "ce_validate B a s = (case spec a of
      SpecOutput g \<Rightarrow> bindE (gate_action (ce_profile s) (output_gate g)) (\<lambda>a'. bx_validate B a' (ce_backend s))
    | _ \<Rightarrow> bx_validate B a (ce_backend s))"

section \<open>Launches\<close>

definition resolve_output :: "'b ControlElectronics \<Rightarrow> OperationEvent \<Rightarrow> EventSpec result" where
  "resolve_output s e = (case spec (action e) of
      SpecOutput o1 \<Rightarrow>
        bindE (dp_gate (ce_profile s) (output_gate o1)) (\<lambda>g.
        require (input_of e \<in> set (tq_inputs g) \<and> es_duration (action e) = tq_duration g) GateInputMismatch (
        bindE (gate_action (ce_profile s) (tq_name g)) (\<lambda>a.
        Inr ((action e)\<lparr>spec := spec a\<rparr>))))
    | _ \<Rightarrow> Inr (action e))"

definition resolve_event ::
  "'b Backend \<Rightarrow> TriggeredEvents \<Rightarrow> 'b ControlElectronics \<Rightarrow> OperationEvent \<Rightarrow> ScheduledEvent result" where
  "resolve_event B b s e =
     require (oe_epoch e = tr_epoch b \<and> oe_label e = tr_label b) Protocol (
     bindE (ce_validate B (action e) s) (\<lambda>_.
     bindE (checked_add (fire_tick b) (es_delay (action e))) (\<lambda>start.
     bindE (resolve_output s e) (\<lambda>a.
     bindE (checked_add start (es_duration (action e))) (\<lambda>stop.
     Inr \<lparr>sch_event = e, sch_start = start, sch_end = stop, resolved = a\<rparr>)))))"

definition ce_resolve :: "'b Backend \<Rightarrow> TriggeredEvents \<Rightarrow> 'b ControlElectronics \<Rightarrow> ScheduledEvent list result" where
  "ce_resolve B b s = mapE (resolve_event B b s) (tr_events b)"

definition ce_prepare ::
  "'b Backend \<Rightarrow> TriggeredEvents \<Rightarrow> 'b ControlElectronics \<Rightarrow> (ScheduledEvent list \<times> Readout list) result" where
  "ce_prepare B b s =
     bindE (ce_resolve B b s) (\<lambda>actions.
     bindE (rs_check actions (reservations s)) (\<lambda>_.
     bindE (ro_prepare actions (tr_epoch b) (readouts s)) (\<lambda>rs.
     require (case processed_tick s of None \<Rightarrow> True | Some t \<Rightarrow> t < fire_tick b) Protocol (
     Inr (actions, rs)))))"

definition ce_preflight :: "'b Backend \<Rightarrow> TriggeredEvents \<Rightarrow> 'b ControlElectronics \<Rightarrow> unit result" where
  "ce_preflight B b s = bindE (ce_prepare B b s) (\<lambda>_. Inr ())"

text \<open>\<^verbatim>\<open>boundaries_[tick]\<close>, which creates an empty boundary when there is none.\<close>

definition boundary_at :: "Tick \<Rightarrow> (Tick, Boundary) omap \<Rightarrow> Boundary" where
  "boundary_at t m = (case om_find t m of None \<Rightarrow> \<lparr>bd_starts = [], bd_ends = [], bd_ready = []\<rparr> | Some b \<Rightarrow> b)"

definition add_ready :: "Readout \<Rightarrow> (Tick, Boundary) omap \<Rightarrow> (Tick, Boundary) omap" where
  "add_ready r m = (let b = boundary_at (ro_ready r) m in
     om_set (ro_ready r) (b\<lparr>bd_ready := bd_ready b @ [measurement (ro_reference r)]\<rparr>) m)"

definition add_start :: "ScheduledEvent \<Rightarrow> (Tick, Boundary) omap \<Rightarrow> (Tick, Boundary) omap" where
  "add_start a m = (let b = boundary_at (sch_start a) m in
     om_set (sch_start a) (b\<lparr>bd_starts := bd_starts b @ [a]\<rparr>) m)"

definition add_end :: "ScheduledEvent \<Rightarrow> (Tick, Boundary) omap \<Rightarrow> (Tick, Boundary) omap" where
  "add_end a m = (let b = boundary_at (sch_end a) m in
     om_set (sch_end a) (b\<lparr>bd_ends := bd_ends b @ [oe_id (sch_event a)]\<rparr>) m)"

definition triggered_event :: "TriggeredEvents \<Rightarrow> ScheduledEvent \<Rightarrow> TraceEvent" where
  "triggered_event b a = (let e = sch_event a in
     (trace_event (fire_tick b) (tr_epoch b) ''CodewordTriggered'' (oe_id e) (tr_label b) 0)
       \<lparr>ev_core := oe_core e, ev_port := es_port (action e), ev_codeword := oe_codeword e,
        ev_targets := targets (resolved a), ev_operation := operation (resolved a)\<rparr>)"

definition ce_accept ::
  "'b Backend \<Rightarrow> TriggeredEvents \<Rightarrow> 'b ControlElectronics \<Rightarrow> ('b ControlElectronics \<times> TraceEvent list) result" where
  "ce_accept B b s =
     bindE (ce_prepare B b s) (\<lambda>(actions, rs).
     bindE (rs_reserve actions (reservations s)) (\<lambda>reserved.
     bindE (ro_insert rs (readouts s)) (\<lambda>ros.
     Inr (s\<lparr>reservations := reserved, readouts := ros,
            boundaries := fold (\<lambda>a m. add_end a (add_start a m)) actions (fold add_ready rs (boundaries s))\<rparr>,
          map (triggered_event b) actions))))"

section \<open>Boundaries\<close>

definition activity :: "ScheduledEvent \<Rightarrow> MeasurementReference option \<Rightarrow> Id \<Rightarrow> BackendActivity" where
  "activity a r i = \<lparr>ba_id = i, ba_start = sch_start a, ba_end = sch_end a, ba_action = action (sch_event a),
     ba_reference = r\<rparr>"

definition active_drives :: "(Id, ScheduledEvent) omap \<Rightarrow> BackendActivity list" where
  "active_drives m = map (\<lambda>(i, a). activity a None i) (filter (\<lambda>(i, a). kind (action (sch_event a)) = Pulse) m)"

definition active_acquisitions :: "(Id, ScheduledEvent) omap \<Rightarrow> BackendActivity list" where
  "active_acquisitions m = map (\<lambda>(i, a). activity a (oe_reference (sch_event a)) i)
     (filter (\<lambda>(i, a). kind (action (sch_event a)) = Acquire) m)"

text \<open>The references of the acquisitions that end; one without a reference is undefined behaviour in C++.\<close>

definition gather_sample ::
  "(Id, ScheduledEvent) omap \<Rightarrow> Id \<Rightarrow> MeasurementReference list \<Rightarrow> MeasurementReference list result" where
  "gather_sample act i samples = (case om_find i act of
      None \<Rightarrow> Inl Protocol
    | Some a \<Rightarrow>
        if kind (action (sch_event a)) = Acquire
        then (case oe_reference (sch_event a) of None \<Rightarrow> Inl Protocol | Some r \<Rightarrow> Inr (samples @ [r]))
        else Inr samples)"

type_synonym start_gates = "EventSpec list \<times> (string \<times> ScheduledEvent list) list"

definition check_start ::
  "'b Backend \<Rightarrow> Epoch \<Rightarrow> u32 list \<Rightarrow> 'b ControlElectronics \<Rightarrow> ScheduledEvent \<Rightarrow> start_gates \<Rightarrow> start_gates result" where
  "check_start B epoch sampled s a = (\<lambda>(gs, outs). let e = sch_event a in
     require (oe_epoch e = epoch) Protocol (
     bindE (ce_validate B (action e) s) (\<lambda>_.
     if is_gate (action e)
     then require (list_all (\<lambda>t. t \<notin> set sampled) (targets (resolved a))) ResourceConflict (
          case spec (action e) of
            SpecOutput o1 \<Rightarrow> Inr (gs, add_output (output_gate o1) a outs)
          | _ \<Rightarrow> Inr (gs @ [action e], outs))
     else Inr (gs, outs))))"

definition sample_readout ::
  "Tick \<Rightarrow> Epoch \<Rightarrow> MeasurementReference \<times> bool \<Rightarrow> Readouts \<times> TraceEvent list \<Rightarrow> (Readouts \<times> TraceEvent list) result" where
  "sample_readout now epoch = (\<lambda>(r, v) (ros, tr).
     bindE (ro_sample_value (measurement r) v ros) (\<lambda>ros'.
     bindE (ro_at (measurement r) ros') (\<lambda>ro.
     Inr (ros', tr @ [(trace_event now epoch ''MeasurementSampled'' (measurement r) 0 0)
       \<lparr>ev_core := ro_core ro, ev_targets := [ref_target r], ev_value := of_bool v\<rparr>]))))"

definition end_action ::
  "Tick \<Rightarrow> Epoch \<Rightarrow> Id \<Rightarrow> (Id, ScheduledEvent) omap \<times> TraceEvent list \<Rightarrow>
   ((Id, ScheduledEvent) omap \<times> TraceEvent list) result" where
  "end_action now epoch i = (\<lambda>(act, tr). case om_find i act of
      None \<Rightarrow> Inl Protocol
    | Some a \<Rightarrow> Inr (om_erase i act, tr @ [(trace_event now epoch ''OperationEnd'' i (oe_label (sch_event a)) 0)
        \<lparr>ev_core := oe_core (sch_event a), ev_port := es_port (action (sch_event a)),
         ev_targets := targets (resolved a), ev_operation := operation (resolved a)\<rparr>]))"

definition gate_event :: "Tick \<Rightarrow> Epoch \<Rightarrow> DeviceProfile \<Rightarrow> string \<times> ScheduledEvent list \<Rightarrow> TraceEvent result" where
  "gate_event now epoch p = (\<lambda>(name, _). bindE (dp_gate p name) (\<lambda>g.
     Inr ((trace_event now epoch ''GateApplied'' 0 0 0)
       \<lparr>ev_operation := tq_operation g, ev_targets := tq_targets g, ev_value := tq_duration g, ev_detail := name\<rparr>)))"

definition start_action ::
  "Tick \<Rightarrow> Epoch \<Rightarrow> ScheduledEvent \<Rightarrow> (Id, ScheduledEvent) omap \<times> TraceEvent list \<Rightarrow>
   ((Id, ScheduledEvent) omap \<times> TraceEvent list) result" where
  "start_action now epoch a = (\<lambda>(act, tr). let e = sch_event a in
     require (om_find (oe_id e) act = None) Protocol (
     Inr (om_set (oe_id e) a act, tr @ [(trace_event now epoch ''OperationStart'' (oe_id e) (oe_label e) 0)
       \<lparr>ev_core := oe_core e, ev_port := es_port (action e), ev_codeword := oe_codeword e,
        ev_targets := targets (resolved a), ev_operation := operation (resolved a),
        ev_value := sub64 (sch_end a) (sch_start a)\<rparr>])))"

definition deliver_ready ::
  "Tick \<Rightarrow> Epoch \<Rightarrow> 'e delivery \<Rightarrow> Id \<Rightarrow> Readouts \<times> 'e \<times> TraceEvent list \<Rightarrow> (Readouts \<times> 'e \<times> TraceEvent list) result" where
  "deliver_ready now epoch deliver i = (\<lambda>(ros, env, tr).
     bindE (ro_at i ros) (\<lambda>ro.
     bindE (ro_result i ros) (\<lambda>c.
     bindE (deliver c env) (\<lambda>(tr', env').
     Inr (ro_erase i ros, env', tr @ tr' @ [(trace_event now epoch ''ResultReady'' i 0 0)
       \<lparr>ev_core := ro_core ro, ev_targets := [ref_target (ro_reference ro)], ev_value := of_bool (outcome c)\<rparr>])))))"

text \<open>The checks of \<open>process\<close> that precede the first change, and what they collect.\<close>

definition inspect ::
  "'b Backend \<Rightarrow> Tick \<Rightarrow> Epoch \<Rightarrow> Boundary \<Rightarrow> 'b ControlElectronics \<Rightarrow>
   (MeasurementReference list \<times> EventSpec list \<times> (string \<times> ScheduledEvent list) list) result" where
  "inspect B now epoch bd s =
     bindE (foldE (gather_sample (active s)) (bd_ends bd) []) (\<lambda>samples.
     require (distinct (map ref_target samples)) ResourceConflict (
     bindE (foldE (check_start B epoch (map ref_target samples) s) (bd_starts bd) ([], [])) (\<lambda>(gs, outs).
     bindE (resolve_gate_outputs (ce_profile s) now outs) (\<lambda>paired.
     Inr (samples, gs @ paired, outs)))))"

definition ce_boundary ::
  "'b Backend \<Rightarrow> Tick \<Rightarrow> Epoch \<Rightarrow> 'e delivery \<Rightarrow> Boundary \<Rightarrow> 'b ControlElectronics \<Rightarrow> 'e \<Rightarrow>
   ('b ControlElectronics \<times> 'e \<times> TraceEvent list) result" where
  "ce_boundary B now epoch deliver bd s env =
     bindE (inspect B now epoch bd s) (\<lambda>(samples, gs, outs).
     bindE (if last_tick s < now
            then bx_evolve B (last_tick s) now (active_drives (active s)) (active_acquisitions (active s)) (ce_backend s)
            else Inr (ce_backend s)) (\<lambda>x1.
     bindE (bx_measure B now samples x1) (\<lambda>(results, x2).
     bindE (foldE (sample_readout now epoch) (zip samples results) (readouts s, [])) (\<lambda>(ros, tr1).
     bindE (foldE (end_action now epoch) (bd_ends bd) (active s, tr1)) (\<lambda>(act, tr2).
     bindE (bx_apply B now gs x2) (\<lambda>x3.
     bindE (mapE (gate_event now epoch (ce_profile s)) outs) (\<lambda>tr3.
     bindE (foldE (start_action now epoch) (bd_starts bd) (act, tr2 @ tr3)) (\<lambda>(act', tr4).
     bindE (foldE (deliver_ready now epoch deliver) (bd_ready bd) (ros, env, tr4)) (\<lambda>(ros', env', tr5).
     Inr (s\<lparr>ce_backend := x3, active := act', readouts := ros', last_tick := now, processed_tick := Some now,
            boundaries := om_erase now (boundaries s),
            reservations := discard_before now (reservations s)\<rparr>, env', tr5))))))))))"

definition ce_process ::
  "'b Backend \<Rightarrow> Tick \<Rightarrow> Epoch \<Rightarrow> 'e delivery \<Rightarrow> 'b ControlElectronics \<Rightarrow> 'e \<Rightarrow>
   ('b ControlElectronics \<times> 'e \<times> TraceEvent list) result" where
  "ce_process B now epoch deliver s env =
     require (last_tick s \<le> now \<and> (case processed_tick s of None \<Rightarrow> True | Some t \<Rightarrow> t < now)) Protocol (
     case om_find now (boundaries s) of
       None \<Rightarrow> Inr (s, env, [])
     | Some bd \<Rightarrow> ce_boundary B now epoch deliver bd s env)"

definition next_boundary :: "'b ControlElectronics \<Rightarrow> Tick option" where
  "next_boundary s = (case boundaries s of [] \<Rightarrow> None | (t, _) # _ \<Rightarrow> Some t)"

definition ce_drained :: "'b ControlElectronics \<Rightarrow> bool" where
  "ce_drained s \<longleftrightarrow> boundaries s = [] \<and> active s = [] \<and> readouts s = []"

definition ce_finalize :: "'b Backend \<Rightarrow> Tick \<Rightarrow> 'b ControlElectronics \<Rightarrow> 'b ControlElectronics result" where
  "ce_finalize B now s =
     require (ce_drained s) Protocol (
     require (last_tick s \<le> now) Protocol (
     bindE (if last_tick s < now then bx_evolve B (last_tick s) now [] [] (ce_backend s) else Inr (ce_backend s)) (\<lambda>x.
     bindE (bx_flush B x) (\<lambda>x'.
     Inr (s\<lparr>ce_backend := x', last_tick := now\<rparr>)))))"

definition ce_reset ::
  "'b Backend \<Rightarrow> Tick \<Rightarrow> Epoch \<Rightarrow> 'b ControlElectronics \<Rightarrow> ('b ControlElectronics \<times> TraceEvent list) result" where
  "ce_reset B now epoch s =
     bindE (bx_reset B (dp_qubits (ce_profile s)) (dp_seed (ce_profile s)) epoch now (ce_backend s)) (\<lambda>x.
     Inr (s\<lparr>ce_backend := x, reservations := [], boundaries := [], active := [], readouts := [],
            last_tick := now, processed_tick := None\<rparr>,
          map (\<lambda>a. trace_event now epoch ''ResetAborted'' (oe_id (sch_event a)) (oe_label (sch_event a)) 0)
            (filter (\<lambda>a. now \<le> sch_end a) (reservations s))))"

end
