(* ===== verification/Electronics_Properties.thy ===== *)
theory Electronics_Properties
  imports Electronics
begin

text \<open>
  What the control electronics guarantee: a launch that passed the preflight is accepted, the
  outputs that are reserved at any time do not conflict, and every acquisition's result is
  delivered once, at its ready tick. Here are the invariant of a session, its preservation
  by launches and boundaries, and the analysis of what can fail at a boundary; the theory Electronics_Session
  draws the conclusions.
\<close>

section \<open>Preparing readouts\<close>

definition acquires :: "ScheduledEvent \<Rightarrow> bool" where
  "acquires a \<longleftrightarrow> kind (action (sch_event a)) = Acquire"

definition meas_ref :: "ScheduledEvent \<Rightarrow> MeasurementReference" where
  "meas_ref a = the (oe_reference (sch_event a))"

definition acq_ids :: "ScheduledEvent list \<Rightarrow> Id list" where
  "acq_ids actions = map (\<lambda>a. measurement (meas_ref a)) (filter acquires actions)"

lemma acq_ids_simps [simp]:
  "acq_ids [] = []"
  "acq_ids (a # as) = (if acquires a then measurement (meas_ref a) # acq_ids as else acq_ids as)"
  "acq_ids (as @ bs) = acq_ids as @ acq_ids bs"
  by (simp_all add: acq_ids_def)

lemma om_count_of_incr [simp]: "om_count_of k (om_incr i m) = om_count_of k m + (if k = i then 1 else 0)"
  by (simp add: om_count_of_def om_incr_def split: option.split)

lemma acquires_not_arm: "acquires a \<Longrightarrow> \<not> is_arm (action (sch_event a))"
  by (simp add: acquires_def is_arm_def)

lemma count_readout_step:
  assumes "count_readout epoch a (acqs, arms, ids) = Inr (acqs', arms', ids')"
  shows "om_count_of k acqs' = om_count_of k acqs + count_list (acq_ids [a]) k"
    and "acquires a \<Longrightarrow> oe_reference (sch_event a) = Some (meas_ref a) \<and> ref_epoch (meas_ref a) = epoch \<and>
      targets (action (sch_event a)) = [ref_target (meas_ref a)]"
  using assms
  by (auto simp: count_readout_def Let_def acquires_def meas_ref_def is_arm_def length_Suc_conv
      split: if_splits option.splits)

lemma count_readouts:
  assumes "foldE (count_readout epoch) actions (acqs, arms, ids) = Inr (acqs', arms', ids')"
  shows "om_count_of k acqs' = om_count_of k acqs + count_list (acq_ids actions) k"
    and "\<forall>a\<in>set actions. acquires a \<longrightarrow> oe_reference (sch_event a) = Some (meas_ref a) \<and>
      ref_epoch (meas_ref a) = epoch \<and> targets (action (sch_event a)) = [ref_target (meas_ref a)]"
  using assms
proof (induction actions arbitrary: acqs arms ids)
  case (Cons a actions)
  {
    case 1
    then obtain x y z where f: "count_readout epoch a (acqs, arms, ids) = Inr (x, y, z)"
      "foldE (count_readout epoch) actions (x, y, z) = Inr (acqs', arms', ids')" by auto
    from Cons.IH(1) [OF f(2)] count_readout_step(1) [OF f(1), of k] show ?case by simp
  next
    case 2
    then obtain x y z where f: "count_readout epoch a (acqs, arms, ids) = Inr (x, y, z)"
      "foldE (count_readout epoch) actions (x, y, z) = Inr (acqs', arms', ids')" by auto
    from Cons.IH(2) [OF f(2)] count_readout_step(2) [OF f(1)] show ?case by simp
  }
qed simp_all

definition readout_of :: "ScheduledEvent \<Rightarrow> Readout \<Rightarrow> bool" where
  "readout_of a r \<longleftrightarrow> ro_reference r = meas_ref a \<and> ro_end r = sch_end a \<and> sch_end a \<le> ro_ready r \<and> ro_sample r = None"

lemma prepare_readout_step:
  assumes "prepare_readout actions acqs arms pending a rs = Inr rs'"
    and "acquires a \<longrightarrow> oe_reference (sch_event a) = Some (meas_ref a)"
  shows "if acquires a then \<exists>r. rs' = rs @ [r] \<and> readout_of a r \<and> om_count_of (measurement (meas_ref a)) acqs = 1 \<and>
      om_find (measurement (meas_ref a)) pending = None else rs' = rs"
proof (cases "acquires a")
  case True
  then obtain q where q: "spec (action (sch_event a)) = SpecAcquire q"
    by (auto simp: acquires_def kind_def elim: spec_kind.elims)
  with assms True show ?thesis
    by (auto simp: prepare_readout_def Let_def readout_of_def dest!: checked_add_sum split: if_splits)
next
  case False
  then have "\<forall>q. spec (action (sch_event a)) \<noteq> SpecAcquire q" by (auto simp: acquires_def kind_def)
  with assms(1) False show ?thesis
    by (cases "spec (action (sch_event a))") (auto simp: prepare_readout_def)
qed

lemma prepare_readouts:
  assumes "foldE (prepare_readout actions acqs arms pending) as rs = Inr rs'"
    and "\<forall>a\<in>set as. acquires a \<longrightarrow> oe_reference (sch_event a) = Some (meas_ref a)"
  shows "\<exists>new. rs' = rs @ new \<and> list_all2 readout_of (filter acquires as) new \<and>
    (\<forall>i\<in>set (acq_ids as). om_count_of i acqs = 1 \<and> om_find i pending = None)"
  using assms
proof (induction as arbitrary: rs)
  case (Cons a as)
  from Cons.prems(1) obtain m where f: "prepare_readout actions acqs arms pending a rs = Inr m"
    "foldE (prepare_readout actions acqs arms pending) as m = Inr rs'" by auto
  from Cons.IH [OF f(2)] Cons.prems(2) obtain new where
    i: "rs' = m @ new" "list_all2 readout_of (filter acquires as) new"
    "\<forall>i\<in>set (acq_ids as). om_count_of i acqs = 1 \<and> om_find i pending = None" by auto
  from prepare_readout_step [OF f(1)] Cons.prems(2) i show ?case by (cases "acquires a") auto
qed simp

lemma readout_of_ids:
  "list_all2 readout_of as rs \<Longrightarrow> map (\<lambda>r. measurement (ro_reference r)) rs = map (\<lambda>a. measurement (meas_ref a)) as"
  by (induction as rs rule: list_all2_induct) (auto simp: readout_of_def)

lemma count_list_distinct: "(\<And>x. x \<in> set xs \<Longrightarrow> count_list xs x = 1) \<Longrightarrow> distinct xs"
proof (induction xs)
  case (Cons a xs)
  have "a \<notin> set xs" using Cons.prems [of a] by (simp add: count_list_0_iff)
  moreover have "count_list xs x = 1" if "x \<in> set xs" for x using Cons.prems [of x] that calculation by (cases "a = x") auto
  ultimately show ?case using Cons.IH by simp
qed simp

text \<open>The readouts of a launch: one per acquisition, with new identities.\<close>

lemma ro_prepare_facts:
  assumes "ro_prepare actions epoch pending = Inr rs"
  shows "list_all2 readout_of (filter acquires actions) rs"
    and "distinct (map (\<lambda>r. measurement (ro_reference r)) rs)"
    and "\<forall>r\<in>set rs. om_find (measurement (ro_reference r)) pending = None"
    and "\<forall>a\<in>set actions. acquires a \<longrightarrow> oe_reference (sch_event a) = Some (meas_ref a) \<and>
      ref_epoch (meas_ref a) = epoch \<and> targets (action (sch_event a)) = [ref_target (meas_ref a)]"
proof -
  from assms obtain acqs arms ids where
    c: "foldE (count_readout epoch) actions ([], [], []) = Inr (acqs, arms, ids)"
    and p: "foldE (prepare_readout actions acqs arms pending) actions [] = Inr rs"
    by (auto simp: ro_prepare_def)
  from count_readouts(2) [OF c] show r: "\<forall>a\<in>set actions. acquires a \<longrightarrow> oe_reference (sch_event a) = Some (meas_ref a) \<and>
      ref_epoch (meas_ref a) = epoch \<and> targets (action (sch_event a)) = [ref_target (meas_ref a)]" .
  from prepare_readouts [OF p] r have f: "list_all2 readout_of (filter acquires actions) rs"
    "\<forall>i\<in>set (acq_ids actions). om_count_of i acqs = 1 \<and> om_find i pending = None" by auto
  from f(1) show "list_all2 readout_of (filter acquires actions) rs" .
  from readout_of_ids [OF f(1)] have ids: "map (\<lambda>r. measurement (ro_reference r)) rs = acq_ids actions"
    by (simp add: acq_ids_def)
  have "count_list (acq_ids actions) i = 1" if "i \<in> set (acq_ids actions)" for i
    using f(2) that count_readouts(1) [OF c, of i] by (simp add: om_count_of_def)
  with ids show "distinct (map (\<lambda>r. measurement (ro_reference r)) rs)" by (simp add: count_list_distinct)
  have "measurement (ro_reference r) \<in> set (acq_ids actions)" if "r \<in> set rs" for r
    using that by (simp flip: ids)
  with f(2) show "\<forall>r\<in>set rs. om_find (measurement (ro_reference r)) pending = None" by blast
qed

lemma ro_insert_eq:
  assumes "distinct (map (\<lambda>r. measurement (ro_reference r)) rs)"
    and "\<forall>r\<in>set rs. om_find (measurement (ro_reference r)) pending = None"
  shows "ro_insert rs pending = Inr (fold (\<lambda>r. om_set (measurement (ro_reference r)) r) rs pending)"
  using assms
proof (induction rs arbitrary: pending)
  case (Cons r rs)
  from Cons.prems have "\<forall>r'\<in>set rs. om_find (measurement (ro_reference r')) (om_set (measurement (ro_reference r)) r pending) = None"
    by (auto simp: image_iff)
  from Cons.IH [OF _ this] Cons.prems show ?case by (simp add: ro_insert_def)
qed (simp add: ro_insert_def)

text \<open>What an accepted launch does to the tables.\<close>

lemma ce_accept_eq:
  "ce_accept B b s = bindE (ce_prepare B b s) (\<lambda>(actions, rs).
     Inr (s\<lparr>reservations := reservations s @ actions,
            readouts := fold (\<lambda>r. om_set (measurement (ro_reference r)) r) rs (readouts s),
            boundaries := fold (\<lambda>a m. add_end a (add_start a m)) actions (fold add_ready rs (boundaries s))\<rparr>,
          map (triggered_event b) actions))"
proof (cases "ce_prepare B b s")
  case (Inr p)
  obtain actions rs where p: "p = (actions, rs)" by (cases p)
  with Inr have c: "rs_check actions (reservations s) = Inr ()" "ro_prepare actions (tr_epoch b) (readouts s) = Inr rs"
    by (auto simp: ce_prepare_def)
  from ro_insert_eq [OF ro_prepare_facts(2,3) [OF c(2)]] c(1) Inr p show ?thesis
    by (simp add: ce_accept_def rs_reserve_def)
qed (simp add: ce_accept_def)

text \<open>
  C28. A launch that passed the preflight is accepted. The preflight of the timing control unit and
  the acceptance by the control electronics run the same checks, and nothing that the acceptance does
  after them can fail: in the same state the two succeed together, and fail together with
  the same error.
\<close>

theorem preflight_decides_accept:
  "(ce_preflight B b s = Inr ()) = (\<exists>s' tr. ce_accept B b s = Inr (s', tr)) \<and>
   (ce_preflight B b s = Inl e) = (ce_accept B b s = Inl e)"
  by (cases "ce_prepare B b s") (auto simp: ce_preflight_def ce_accept_eq split: prod.splits)

section \<open>The state of a session\<close>

text \<open>
  Ticks that no boundary has been processed at or after.
\<close>

definition todo :: "'b ControlElectronics \<Rightarrow> Tick \<Rightarrow> bool" where
  "todo s t \<longleftrightarrow> (case processed_tick s of None \<Rightarrow> True | Some p \<Rightarrow> p < t)"

definition event_id :: "ScheduledEvent \<Rightarrow> Id" where
  "event_id a = oe_id (sch_event a)"

text \<open>An output that the electronics accepted in the session.\<close>

definition scheduled_ok :: "'b Backend \<Rightarrow> Epoch \<Rightarrow> 'b ControlElectronics \<Rightarrow> ScheduledEvent \<Rightarrow> bool" where
  "scheduled_ok B epoch s a \<longleftrightarrow>
     oe_epoch (sch_event a) = epoch \<and> ce_validate B (action (sch_event a)) s = Inr () \<and>
     sch_start a < sch_end a \<and> sch_end a \<le> tick_max \<and> sch_end a = sch_start a + es_duration (action (sch_event a)) \<and>
     resolve_output s (sch_event a) = Inr (resolved a) \<and>
     (acquires a \<longrightarrow> oe_reference (sch_event a) = Some (meas_ref a) \<and> ref_epoch (meas_ref a) = epoch \<and>
        targets (action (sch_event a)) = [ref_target (meas_ref a)])"

definition compatible :: "ScheduledEvent list \<Rightarrow> bool" where
  "compatible R \<longleftrightarrow> distinct (map event_id R) \<and> sorted_wrt (\<lambda>old new. pair new old = Inr ()) R"

text \<open>
  The time line holds exactly what the tables say is still to come: the starts and ends of the
  reserved outputs and the results of the pending readouts, each at its tick.
\<close>

definition timeline_ok :: "'b ControlElectronics \<Rightarrow> bool" where
  "timeline_ok s \<longleftrightarrow> (\<forall>t.
     (let b = boundary_at t (boundaries s) in
      if todo s t
      then mset (bd_starts b) = mset (filter (\<lambda>a. sch_start a = t) (reservations s)) \<and>
           mset (bd_ends b) = mset (map event_id (filter (\<lambda>a. sch_end a = t) (reservations s))) \<and>
           mset (bd_ready b) = mset (map fst (filter (\<lambda>e. ro_ready (snd e) = t) (readouts s)))
      else om_find t (boundaries s) = None))"

definition active_ok :: "'b ControlElectronics \<Rightarrow> bool" where
  "active_ok s \<longleftrightarrow> (\<forall>i a. om_find i (active s) = Some a \<longleftrightarrow>
     a \<in> set (reservations s) \<and> event_id a = i \<and> \<not> todo s (sch_start a) \<and> todo s (sch_end a))"

definition readouts_ok :: "'b ControlElectronics \<Rightarrow> bool" where
  "readouts_ok s \<longleftrightarrow>
     (\<forall>i r. om_find i (readouts s) = Some r \<longrightarrow> measurement (ro_reference r) = i \<and> todo s (ro_ready r) \<and>
        ro_end r \<le> ro_ready r \<and>
        (ro_sample r = None \<longrightarrow> (\<exists>a\<in>set (reservations s). acquires a \<and> meas_ref a = ro_reference r \<and>
           sch_end a = ro_end r \<and> todo s (sch_end a)))) \<and>
     (\<forall>a\<in>set (reservations s). acquires a \<and> todo s (sch_end a) \<longrightarrow>
        (\<exists>r. om_find (measurement (meas_ref a)) (readouts s) = Some r \<and> ro_reference r = meas_ref a \<and>
           ro_end r = sch_end a))"

definition tables_ok :: "'b ControlElectronics \<Rightarrow> bool" where
  "tables_ok s \<longleftrightarrow> om_ok (boundaries s) \<and> om_ok (active s) \<and> om_ok (readouts s) \<and>
     (\<forall>t b. om_find t (boundaries s) = Some b \<longrightarrow> last_tick s \<le> t) \<and>
     (processed_tick s = None \<or> processed_tick s = Some (last_tick s)) \<and>
     committed_tick (ce_backend s) = last_tick s"

definition device_inv :: "'b Backend \<Rightarrow> Epoch \<Rightarrow> 'b ControlElectronics \<Rightarrow> bool" where
  "device_inv B epoch s \<longleftrightarrow> tables_ok s \<and> bx_epoch (ce_backend s) = epoch \<and>
     compatible (reservations s) \<and> (\<forall>a\<in>set (reservations s). scheduled_ok B epoch s a) \<and>
     timeline_ok s \<and> active_ok s \<and> readouts_ok s"

section \<open>Boundaries of a launch\<close>

lemma boundary_at_set [simp]: "boundary_at t (om_set u b m) = (if t = u then b else boundary_at t m)"
  by (simp add: boundary_at_def)

lemma boundary_at_ready:
  "boundary_at t (fold add_ready rs m) = (boundary_at t m)\<lparr>bd_ready := bd_ready (boundary_at t m) @
     map (\<lambda>r. measurement (ro_reference r)) (filter (\<lambda>r. ro_ready r = t) rs)\<rparr>"
  by (induction rs arbitrary: m) (simp_all add: add_ready_def Let_def)

lemma boundary_at_actions:
  "boundary_at t (fold (\<lambda>a m. add_end a (add_start a m)) as m) = (boundary_at t m)
     \<lparr>bd_starts := bd_starts (boundary_at t m) @ filter (\<lambda>a. sch_start a = t) as,
      bd_ends := bd_ends (boundary_at t m) @ map event_id (filter (\<lambda>a. sch_end a = t) as)\<rparr>"
  by (induction as arbitrary: m) (simp_all add: add_start_def add_end_def Let_def event_id_def)

lemma om_find_empty: "om_find t (m :: (Tick, Boundary) omap) = None \<Longrightarrow> boundary_at t m = \<lparr>bd_starts = [], bd_ends = [], bd_ready = []\<rparr>"
  by (simp add: boundary_at_def)

lemma ready_keys:
  "om_find t (fold add_ready rs m) \<noteq> None \<longleftrightarrow> om_find t m \<noteq> None \<or> (\<exists>r\<in>set rs. ro_ready r = t)"
  by (induction rs arbitrary: m) (auto simp: add_ready_def Let_def)

lemma action_keys:
  "om_find t (fold (\<lambda>a m. add_end a (add_start a m)) as m) \<noteq> None \<longleftrightarrow>
     om_find t m \<noteq> None \<or> (\<exists>a\<in>set as. sch_start a = t \<or> sch_end a = t)"
  by (induction as arbitrary: m) (auto simp: add_start_def add_end_def Let_def)

lemma launch_om_ok:
  "om_ok m \<Longrightarrow> om_ok (fold (\<lambda>a m. add_end a (add_start a m)) as (fold add_ready rs m))"
proof -
  have r: "om_ok m \<Longrightarrow> om_ok (fold add_ready rs m)" for m
    by (induction rs arbitrary: m) (simp_all add: add_ready_def Let_def)
  have a: "om_ok m \<Longrightarrow> om_ok (fold (\<lambda>a m. add_end a (add_start a m)) as m)" for m
    by (induction as arbitrary: m) (simp_all add: add_start_def add_end_def Let_def)
  show "om_ok m \<Longrightarrow> ?thesis" by (intro a r)
qed

lemma mset_om_set: "om_find k m = None \<Longrightarrow> mset (om_set k v m) = add_mset (k, v) (mset m)"
  by (induction k v m rule: om_set.induct) (auto simp: om_find_Cons split: if_splits)

lemma mset_om_sets:
  assumes "distinct (map f rs)" and "\<forall>r\<in>set rs. om_find (f r) m = None"
  shows "mset (fold (\<lambda>r. om_set (f r) r) rs m) = mset m + mset (map (\<lambda>r. (f r, r)) rs)"
  using assms
proof (induction rs arbitrary: m)
  case (Cons r rs)
  from Cons.prems have "\<forall>r'\<in>set rs. om_find (f r') (om_set (f r) r m) = None" by (auto simp: image_iff)
  from Cons.IH [OF _ this] Cons.prems show ?case by (simp add: mset_om_set)
qed simp

lemma om_find_sets:
  assumes "distinct (map f rs)"
  shows "om_find k (fold (\<lambda>r. om_set (f r) r) rs m) = Some r \<longleftrightarrow>
    (r \<in> set rs \<and> f r = k) \<or> (k \<notin> f ` set rs \<and> om_find k m = Some r)"
  using assms
proof (induction rs arbitrary: m)
  case (Cons x rs)
  then have d: "f x \<notin> f ` set rs" "distinct (map f rs)" by simp_all
  show ?case using Cons.IH [OF d(2), of "om_set (f x) x m"] d(1) by auto
qed simp

lemma om_sets_ok: "om_ok m \<Longrightarrow> om_ok (fold (\<lambda>r. om_set (f r) r) rs m)"
  by (induction rs arbitrary: m) simp_all

section \<open>Launches keep the invariant\<close>

lemma pair_all:
  "foldE (\<lambda>b _. pair a b) seen () = Inr () \<longleftrightarrow> (\<forall>b\<in>set seen. pair a b = Inr ())"
  by (induction seen) auto

lemma pair_reserved:
  "foldE (\<lambda>old _. require (event_id old \<noteq> i) Protocol (pair a old)) R () = Inr () \<longleftrightarrow>
     (\<forall>b\<in>set R. event_id b \<noteq> i \<and> pair a b = Inr ())"
  by (induction R) auto

lemma check_one_iff:
  "check_one R a seen = Inr seen' \<longleftrightarrow>
     seen' = seen @ [a] \<and> (\<forall>b\<in>set (R @ seen). event_id b \<noteq> event_id a \<and> pair a b = Inr ())"
  using pair_reserved [of "event_id a" a R] pair_all [of a seen]
  by (auto simp: check_one_def event_id_def list_all_iff)

lemma check_compatible:
  assumes "foldE (check_one R) actions seen = Inr seen'" and "compatible (R @ seen)"
  shows "seen' = seen @ actions \<and> compatible (R @ seen @ actions)"
  using assms
proof (induction actions arbitrary: seen)
  case (Cons a actions)
  from Cons.prems(1) obtain m where m: "check_one R a seen = Inr m" "foldE (check_one R) actions m = Inr seen'" by auto
  from m(1) have a: "m = seen @ [a]" "\<forall>b\<in>set (R @ seen). event_id b \<noteq> event_id a \<and> pair a b = Inr ()"
    unfolding check_one_iff by (rule conjunct1, rule conjunct2)
  with Cons.prems(2) have "compatible (R @ m)"
    by (auto simp: compatible_def sorted_wrt_append)
  from Cons.IH [OF m(2) this] a(1) show ?case by simp
qed simp

lemma rs_check_compatible: "rs_check actions R = Inr () \<Longrightarrow> compatible R \<Longrightarrow> compatible (R @ actions)"
  using check_compatible [of R actions "[]"] by (auto simp: rs_check_def)

text \<open>Two different outputs of a compatible set have been checked against each other.\<close>

lemma pair_sym:
  "pair a b = Inr () \<longleftrightarrow> pair b a = Inr ()"
proof -
  have o: "overlapping a b = overlapping b a" by (auto simp: overlapping_def)
  have t: "common_target x y = common_target y x" for x y
    by (auto simp: common_target_def list_ex_iff)
  have g: "same_gate x y = same_gate y x" for x y
    by (auto simp: same_gate_def split: ActionSpec.splits)
  have x: "exclusive_clash x y = exclusive_clash y x" for x y
    unfolding exclusive_clash_def list_ex_iff by metis
  have m: "measurement_gate a b = measurement_gate b a" by (auto simp: measurement_gate_def)
  show ?thesis
    by (auto simp: pair_def Let_def o t [of "resolved a"] g [of "action (sch_event a)"] x [of "resolved a"] m)
qed

lemma compatible_pair:
  assumes "compatible R" and "a \<in> set R" and "b \<in> set R" and "event_id a \<noteq> event_id b"
  shows "pair a b = Inr ()"
proof -
  from assms(2,3) obtain i j where ij: "i < length R" "R ! i = a" "j < length R" "R ! j = b" by (auto simp: in_set_conv_nth)
  with assms(4) have "i \<noteq> j" by auto
  then consider "i < j" | "j < i" by linarith
  then show ?thesis
  proof cases
    case 1
    with assms(1) ij have "pair b a = Inr ()" by (auto simp: compatible_def sorted_wrt_iff_nth_less)
    then show ?thesis by (simp add: pair_sym)
  next
    case 2
    with assms(1) ij show ?thesis by (auto simp: compatible_def sorted_wrt_iff_nth_less)
  qed
qed

lemma compatible_inj: "compatible R \<Longrightarrow> a \<in> set R \<Longrightarrow> b \<in> set R \<Longrightarrow> event_id a = event_id b \<Longrightarrow> a = b"
  by (auto simp: compatible_def distinct_map dest: inj_onD)

lemma compatible_filter: "compatible R \<Longrightarrow> compatible (filter P R)"
  by (auto simp: compatible_def distinct_map sorted_wrt_filter intro: inj_on_subset)

lemma mapE_in: "mapE f xs = Inr ys \<Longrightarrow> y \<in> set ys \<Longrightarrow> \<exists>x\<in>set xs. f x = Inr y"
  by (induction xs arbitrary: ys) auto

lemma resolve_scheduled:
  assumes "ce_resolve B b s = Inr actions" and "\<forall>e\<in>set (tr_events b). 0 < es_duration (action e)"
    and "a \<in> set actions"
  shows "oe_epoch (sch_event a) = tr_epoch b" and "ce_validate B (action (sch_event a)) s = Inr ()"
    and "sch_start a < sch_end a" and "sch_end a = sch_start a + es_duration (action (sch_event a))"
    and "resolve_output s (sch_event a) = Inr (resolved a)" and "fire_tick b \<le> sch_start a" and "sch_end a \<le> tick_max"
proof -
  from mapE_in [OF assms(1) [unfolded ce_resolve_def] assms(3)] obtain e where
    e: "e \<in> set (tr_events b)" "resolve_event B b s e = Inr a" by blast
  with assms(2) have d: "0 < es_duration (action e)" by blast
  from e(2) show "oe_epoch (sch_event a) = tr_epoch b" "ce_validate B (action (sch_event a)) s = Inr ()"
    "resolve_output s (sch_event a) = Inr (resolved a)"
    by (auto simp: resolve_event_def)
  from e(2) d show "sch_start a < sch_end a" "sch_end a = sch_start a + es_duration (action (sch_event a))"
    "fire_tick b \<le> sch_start a" "sch_end a \<le> tick_max"
    by (auto simp: resolve_event_def checked_add_def)
qed

lemma launch_frame [simp]:
  "todo (s\<lparr>reservations := R, readouts := ros, boundaries := m\<rparr>) = todo s"
  "resolve_output (s\<lparr>reservations := R, readouts := ros, boundaries := m\<rparr>) = resolve_output s"
  "ce_validate B a (s\<lparr>reservations := R, readouts := ros, boundaries := m\<rparr>) = ce_validate B a s"
  by (auto simp: fun_eq_iff todo_def resolve_output_def ce_validate_def split: ActionSpec.split)

lemma scheduled_frame:
  "scheduled_ok B epoch (s\<lparr>reservations := R, readouts := ros, boundaries := m\<rparr>) = scheduled_ok B epoch s"
  by (simp add: fun_eq_iff scheduled_ok_def)

lemma accept_state:
  assumes "ce_accept B b s = Inr (s', tr)"
  obtains actions rs where "ce_resolve B b s = Inr actions" "rs_check actions (reservations s) = Inr ()"
    "ro_prepare actions (tr_epoch b) (readouts s) = Inr rs" "todo s (fire_tick b)"
    "s' = s\<lparr>reservations := reservations s @ actions,
        readouts := fold (\<lambda>r. om_set (measurement (ro_reference r)) r) rs (readouts s),
        boundaries := fold (\<lambda>a m. add_end a (add_start a m)) actions (fold add_ready rs (boundaries s))\<rparr>"
    "ce_prepare B b s = Inr (actions, rs)"
proof -
  from assms obtain actions rs where p: "ce_prepare B b s = Inr (actions, rs)"
    unfolding ce_accept_eq bindE_eq_Inr by (metis prod.exhaust)
  with assms have s': "s' = s\<lparr>reservations := reservations s @ actions,
        readouts := fold (\<lambda>r. om_set (measurement (ro_reference r)) r) rs (readouts s),
        boundaries := fold (\<lambda>a m. add_end a (add_start a m)) actions (fold add_ready rs (boundaries s))\<rparr>"
    by (simp add: ce_accept_eq)
  from p have "ce_resolve B b s = Inr actions" "rs_check actions (reservations s) = Inr ()"
    "ro_prepare actions (tr_epoch b) (readouts s) = Inr rs" "todo s (fire_tick b)"
    by (auto simp: ce_prepare_def todo_def)
  then show thesis by (rule that) (rule s', rule p)
qed

lemma todo_later: "todo s t \<Longrightarrow> t \<le> u \<Longrightarrow> todo s u"
  by (auto simp: todo_def split: option.splits)

lemma list_all2_right: "list_all2 P xs ys \<Longrightarrow> y \<in> set ys \<Longrightarrow> \<exists>x\<in>set xs. P x y"
  by (induction xs ys rule: list_all2_induct) auto

lemma list_all2_left: "list_all2 P xs ys \<Longrightarrow> x \<in> set xs \<Longrightarrow> \<exists>y\<in>set ys. P x y"
  by (induction xs ys rule: list_all2_induct) auto

lemma accept_inv:
  assumes inv: "device_inv B epoch s" and acc: "ce_accept B b s = Inr (s', tr)"
    and e: "tr_epoch b = epoch" and pos: "\<forall>e\<in>set (tr_events b). 0 < es_duration (action e)"
    and time: "last_tick s \<le> fire_tick b"
  shows "device_inv B epoch s'"
proof -
  from accept_state [OF acc] obtain actions rs where
    r: "ce_resolve B b s = Inr actions" and c: "rs_check actions (reservations s) = Inr ()"
    and p: "ro_prepare actions (tr_epoch b) (readouts s) = Inr rs" and td: "todo s (fire_tick b)"
    and s': "s' = s\<lparr>reservations := reservations s @ actions,
        readouts := fold (\<lambda>r. om_set (measurement (ro_reference r)) r) rs (readouts s),
        boundaries := fold (\<lambda>a m. add_end a (add_start a m)) actions (fold add_ready rs (boundaries s))\<rparr>" .
  note sch = resolve_scheduled [OF r pos]
  note ros = ro_prepare_facts [OF p]
  have act: "scheduled_ok B epoch s a" if "a \<in> set actions" for a
    using sch [OF that] ros(4) that e by (auto simp: scheduled_ok_def)
  have late: "todo s (sch_start a)" "todo s (sch_end a)" "last_tick s \<le> sch_start a" "last_tick s \<le> sch_end a"
    if "a \<in> set actions" for a
    using sch(3,6) [OF that] td time by (auto intro: todo_later)
  have ro: "\<exists>a\<in>set actions. acquires a \<and> readout_of a x" if "x \<in> set rs" for x
    using list_all2_right [OF ros(1) that] by auto
  have acq: "\<exists>x\<in>set rs. readout_of a x" if "a \<in> set actions" "acquires a" for a
    using list_all2_left [OF ros(1), of a] that by simp
  have rlate: "todo s (ro_ready x)" "last_tick s \<le> ro_ready x" if "x \<in> set rs" for x
    using ro [OF that] late by (auto simp: readout_of_def intro: todo_later) (metis le_trans)
  from inv have T: "tables_ok s" "bx_epoch (ce_backend s) = epoch" "compatible (reservations s)"
    "\<forall>a\<in>set (reservations s). scheduled_ok B epoch s a" "timeline_ok s" "active_ok s" "readouts_ok s"
    by (simp_all add: device_inv_def)
  have td': "todo s' = todo s" by (simp add: s')
  let ?ros = "fold (\<lambda>r. om_set (measurement (ro_reference r)) r) rs (readouts s)"
  let ?m = "fold (\<lambda>a m. add_end a (add_start a m)) actions (fold add_ready rs (boundaries s))"
  have keys: "last_tick s \<le> t \<and> (todo s t \<or> om_find t (boundaries s) \<noteq> None)" if "om_find t ?m \<noteq> None" for t
  proof -
    from that consider "om_find t (boundaries s) \<noteq> None" | r where "r \<in> set rs" "ro_ready r = t"
      | a where "a \<in> set actions" "sch_start a = t \<or> sch_end a = t"
      unfolding action_keys ready_keys by blast
    then show ?thesis using T(1) late rlate by cases (auto simp: tables_ok_def)
  qed
  have "tables_ok s'"
    using T(1) keys by (auto simp: tables_ok_def s' launch_om_ok om_sets_ok)
  moreover have "compatible (reservations s')"
    using rs_check_compatible [OF c T(3)] by (simp add: s')
  moreover have "\<forall>a\<in>set (reservations s'). scheduled_ok B epoch s' a"
    using T(4) act by (auto simp: s' scheduled_frame)
  moreover have "timeline_ok s'"
  proof -
    have m: "mset ?ros = mset (readouts s) + mset (map (\<lambda>r. (measurement (ro_reference r), r)) rs)"
      by (rule mset_om_sets [OF ros(2,3)])
    have ready: "mset (map fst (filter (\<lambda>e. ro_ready (snd e) = t) ?ros)) =
        mset (map fst (filter (\<lambda>e. ro_ready (snd e) = t) (readouts s))) +
        mset (map (\<lambda>r. measurement (ro_reference r)) (filter (\<lambda>r. ro_ready r = t) rs))" for t
    proof -
      have "mset (map fst (filter (\<lambda>e. ro_ready (snd e) = t) ?ros)) =
          image_mset fst (filter_mset (\<lambda>e. ro_ready (snd e) = t) (mset ?ros))" by simp
      also have "\<dots> = image_mset fst (filter_mset (\<lambda>e. ro_ready (snd e) = t) (mset (readouts s))) +
          image_mset fst (filter_mset (\<lambda>e. ro_ready (snd e) = t) (mset (map (\<lambda>r. (measurement (ro_reference r), r)) rs)))"
        by (simp only: m filter_union_mset image_mset_union)
      also have "image_mset fst (filter_mset (\<lambda>e. ro_ready (snd e) = t) (mset (map (\<lambda>r. (measurement (ro_reference r), r)) rs))) =
          mset (map (\<lambda>r. measurement (ro_reference r)) (filter (\<lambda>r. ro_ready r = t) rs))"
        by (induction rs) simp_all
      finally show ?thesis by simp
    qed
    show ?thesis
      unfolding timeline_ok_def Let_def
    proof (intro allI)
      fix t
      show "if todo s' t
        then mset (bd_starts (boundary_at t (boundaries s'))) = mset (filter (\<lambda>a. sch_start a = t) (reservations s')) \<and>
             mset (bd_ends (boundary_at t (boundaries s'))) = mset (map event_id (filter (\<lambda>a. sch_end a = t) (reservations s'))) \<and>
             mset (bd_ready (boundary_at t (boundaries s'))) = mset (map fst (filter (\<lambda>e. ro_ready (snd e) = t) (readouts s')))
        else om_find t (boundaries s') = None"
      proof (cases "todo s t")
        case True
        with T(5) have "mset (bd_starts (boundary_at t (boundaries s))) = mset (filter (\<lambda>a. sch_start a = t) (reservations s))"
          "mset (bd_ends (boundary_at t (boundaries s))) = mset (map event_id (filter (\<lambda>a. sch_end a = t) (reservations s)))"
          "mset (bd_ready (boundary_at t (boundaries s))) = mset (map fst (filter (\<lambda>e. ro_ready (snd e) = t) (readouts s)))"
          by (simp_all add: timeline_ok_def Let_def)
        with True ready [of t] show ?thesis
          by (simp add: s' boundary_at_actions boundary_at_ready del: mset_map mset_filter)
      next
        case False
        with T(5) have "om_find t (boundaries s) = None" by (auto simp: timeline_ok_def Let_def split: if_splits)
        with False keys [of t] show ?thesis by (cases "om_find t ?m") (auto simp: s')
      qed
    qed
  qed
  moreover have "active_ok s'"
  proof -
    have "\<not> (a \<in> set actions \<and> \<not> todo s (sch_start a))" for a using late(1) by blast
    with T(6) show ?thesis by (auto simp: active_ok_def s')
  qed
  moreover have "readouts_ok s'"
  proof -
    have find: "om_find k ?ros = Some r \<longleftrightarrow> (r \<in> set rs \<and> measurement (ro_reference r) = k) \<or>
      (k \<notin> (\<lambda>r. measurement (ro_reference r)) ` set rs \<and> om_find k (readouts s) = Some r)" for k r
      by (rule om_find_sets [OF ros(2)])
    have "measurement (ro_reference r) = i \<and> todo s (ro_ready r) \<and> ro_end r \<le> ro_ready r \<and>
        (ro_sample r = None \<longrightarrow> (\<exists>a\<in>set (reservations s @ actions). acquires a \<and> meas_ref a = ro_reference r \<and>
           sch_end a = ro_end r \<and> todo s (sch_end a)))" if "om_find i ?ros = Some r" for i r
      using that [unfolded find]
    proof
      assume h: "r \<in> set rs \<and> measurement (ro_reference r) = i"
      with ro [of r] obtain a where "a \<in> set actions" "acquires a" "readout_of a r" by blast
      with h late(2) rlate(1) show ?thesis by (auto simp: readout_of_def)
    next
      assume "i \<notin> (\<lambda>r. measurement (ro_reference r)) ` set rs \<and> om_find i (readouts s) = Some r"
      then have "om_find i (readouts s) = Some r" ..
      with T(7) have "measurement (ro_reference r) = i \<and> todo s (ro_ready r) \<and> ro_end r \<le> ro_ready r \<and>
        (ro_sample r = None \<longrightarrow> (\<exists>a\<in>set (reservations s). acquires a \<and> meas_ref a = ro_reference r \<and>
           sch_end a = ro_end r \<and> todo s (sch_end a)))"
        unfolding readouts_ok_def by blast
      then show ?thesis by auto
    qed
    moreover have "\<exists>r. om_find (measurement (meas_ref a)) ?ros = Some r \<and> ro_reference r = meas_ref a \<and> ro_end r = sch_end a"
      if a: "a \<in> set (reservations s @ actions)" "acquires a" "todo s (sch_end a)" for a
    proof (cases "a \<in> set actions")
      case True
      with acq [of a] a(2) obtain x where "x \<in> set rs" "readout_of a x" by blast
      then show ?thesis by (auto simp: find readout_of_def)
    next
      case False
      with a T(7) obtain r where r: "om_find (measurement (meas_ref a)) (readouts s) = Some r" "ro_reference r = meas_ref a"
        "ro_end r = sch_end a" unfolding readouts_ok_def by auto
      with ros(3) have "measurement (meas_ref a) \<notin> (\<lambda>r. measurement (ro_reference r)) ` set rs" by force
      with r show ?thesis by (auto simp: find)
    qed
    ultimately show ?thesis unfolding readouts_ok_def by (simp add: s')
  qed
  ultimately show ?thesis using T(2) by (simp add: device_inv_def s')
qed

section \<open>The stages of a boundary\<close>

text \<open>Recording what is delivered, with the tick.\<close>

definition logged :: "Tick \<Rightarrow> 'e delivery \<Rightarrow> ('e \<times> (Tick \<times> Completion) list) delivery" where
  "logged now deliver c = (\<lambda>(env, log). bindE (deliver c env) (\<lambda>(tr, env'). Inr (tr, env', log @ [(now, c)])))"

lemma end_action_step: "end_action now ep i (act, tr) = Inr m \<Longrightarrow> \<exists>a tr1. om_find i act = Some a \<and> m = (om_erase i act, tr1)"
  by (auto simp: end_action_def split: option.splits)

lemma end_action_ok: "om_find i act = Some a \<Longrightarrow> \<exists>tr1. end_action now ep i (act, tr) = Inr (om_erase i act, tr1)"
  by (simp add: end_action_def)

lemma start_action_step: "start_action now ep a (act, tr) = Inr m \<Longrightarrow>
  om_find (event_id a) act = None \<and> (\<exists>tr1. m = (om_set (event_id a) a act, tr1))"
  by (auto simp: start_action_def Let_def event_id_def)

lemma start_action_ok: "om_find (event_id a) act = None \<Longrightarrow>
  \<exists>tr1. start_action now ep a (act, tr) = Inr (om_set (event_id a) a act, tr1)"
  by (simp add: start_action_def Let_def event_id_def)

lemma sample_step: "sample_readout now ep (x, v) (ros, tr) = Inr m \<Longrightarrow>
  \<exists>r tr1. om_find (measurement x) ros = Some r \<and> m = (om_set (measurement x) (r\<lparr>ro_sample := Some v\<rparr>) ros, tr1)"
  by (auto simp: sample_readout_def ro_sample_value_def ro_at_def split: option.splits)

lemma sample_ok: "om_find (measurement x) ros = Some r \<Longrightarrow>
  \<exists>tr1. sample_readout now ep (x, v) (ros, tr) = Inr (om_set (measurement x) (r\<lparr>ro_sample := Some v\<rparr>) ros, tr1)"
  by (simp add: sample_readout_def ro_sample_value_def ro_at_def)

lemma delivery_step: "deliver_ready now ep (logged now deliver) i (ros, (env, log), tr) = Inr m \<Longrightarrow>
  \<exists>r v env1 tr1. om_find i ros = Some r \<and> ro_sample r = Some v \<and>
    m = (om_erase i ros, (env1, log @ [(now, \<lparr>reference = ro_reference r, outcome = v\<rparr>)]), tr1)"
  by (auto simp: deliver_ready_def ro_at_def ro_result_def ro_erase_def logged_def split: option.splits)

lemma delivery_ok: "om_find i ros = Some r \<Longrightarrow> ro_sample r = Some v \<Longrightarrow>
  deliver \<lparr>reference = ro_reference r, outcome = v\<rparr> env = Inr (tr1, env1) \<Longrightarrow>
  \<exists>tr2. deliver_ready now ep deliver i (ros, env, tr) = Inr (om_erase i ros, env1, tr2)"
  by (simp add: deliver_ready_def ro_at_def ro_result_def ro_erase_def)

lemma end_actions_effect:
  assumes "foldE (end_action now ep) is (act, tr) = Inr (act', tr')" and "om_ok act"
  shows "om_ok act' \<and> (\<forall>i. om_find i act' = (if i \<in> set is then None else om_find i act))"
  using assms
proof (induction "is" arbitrary: act tr)
  case (Cons i js)
  from Cons.prems(1) obtain m where m: "end_action now ep i (act, tr) = Inr m" "foldE (end_action now ep) js m = Inr (act', tr')"
    by auto
  from end_action_step [OF m(1)] m(2) obtain tr1 where
    "foldE (end_action now ep) js (om_erase i act, tr1) = Inr (act', tr')" by blast
  from Cons.IH [OF this] Cons.prems(2) show ?case by simp
qed simp

lemma end_actions_succeed:
  assumes "distinct is" and "\<forall>i\<in>set is. om_find i act \<noteq> None"
  shows "\<exists>act' tr'. foldE (end_action now ep) is (act, tr) = Inr (act', tr')"
  using assms
proof (induction "is" arbitrary: act tr)
  case (Cons i js)
  from Cons.prems(2) obtain a where a: "om_find i act = Some a" by auto
  from Cons.prems have "\<forall>j\<in>set js. om_find j (om_erase i act) \<noteq> None" by auto
  from Cons.IH [OF _ this] Cons.prems(1) end_action_ok [OF a, of now ep tr] show ?case by fastforce
qed simp

lemma start_actions_new:
  assumes "foldE (start_action now ep) as (act, tr) = Inr (act', tr')"
  shows "\<forall>a\<in>set as. om_find (event_id a) act = None"
  using assms
proof (induction as arbitrary: act tr)
  case (Cons b as)
  from Cons.prems obtain m where m: "start_action now ep b (act, tr) = Inr m" "foldE (start_action now ep) as m = Inr (act', tr')"
    by auto
  from start_action_step [OF m(1)] m(2) obtain tr1 where n: "om_find (event_id b) act = None" and
    f: "foldE (start_action now ep) as (om_set (event_id b) b act, tr1) = Inr (act', tr')" by blast
  from Cons.IH [OF f] n show ?case by (auto split: if_splits)
qed simp

lemma start_actions_succeed:
  assumes "distinct (map event_id as)" and "\<forall>a\<in>set as. om_find (event_id a) act = None"
  shows "\<exists>act' tr'. foldE (start_action now ep) as (act, tr) = Inr (act', tr')"
  using assms
proof (induction as arbitrary: act tr)
  case (Cons b as)
  from Cons.prems have "\<forall>a\<in>set as. om_find (event_id a) (om_set (event_id b) b act) = None" by (auto simp: image_iff)
  from Cons.IH [OF _ this] Cons.prems start_action_ok [of b act now ep tr] show ?case by fastforce
qed simp

lemma start_actions_effect:
  assumes "foldE (start_action now ep) as (act, tr) = Inr (act', tr')" and "om_ok act"
  shows "om_ok act' \<and> (\<forall>i a. om_find i act' = Some a \<longleftrightarrow>
    (a \<in> set as \<and> event_id a = i) \<or> (i \<notin> event_id ` set as \<and> om_find i act = Some a))"
  using assms
proof (induction as arbitrary: act tr)
  case (Cons b as)
  from Cons.prems(1) obtain m where m: "start_action now ep b (act, tr) = Inr m" "foldE (start_action now ep) as m = Inr (act', tr')"
    by auto
  from start_action_step [OF m(1)] m(2) obtain tr1 where n: "om_find (event_id b) act = None" and
    f: "foldE (start_action now ep) as (om_set (event_id b) b act, tr1) = Inr (act', tr')" by blast
  from Cons.IH [OF f] Cons.prems(2) have h: "om_ok act'" "om_find i act' = Some a \<longleftrightarrow>
    (a \<in> set as \<and> event_id a = i) \<or> (i \<notin> event_id ` set as \<and> om_find i (om_set (event_id b) b act) = Some a)" for i a
    by auto
  have "event_id b \<notin> event_id ` set as" using start_actions_new [OF f] by auto
  with h n show ?case by auto
qed auto

text \<open>What identifies a readout, whether or not it has been sampled.\<close>

definition ro_key :: "Readout \<Rightarrow> MeasurementReference \<times> Tick \<times> Tick" where
  "ro_key r = (ro_reference r, ro_end r, ro_ready r)"

lemma om_set_same_keys:
  "om_find k m = Some r \<Longrightarrow> om_ok m \<Longrightarrow> f r' = f r \<Longrightarrow>
   map (\<lambda>e. (fst e, f (snd e))) (om_set k r' m) = map (\<lambda>e. (fst e, f (snd e))) m"
proof (induction k r' m rule: om_set.induct)
  case (2 k v a b m)
  have lt: "x \<in> set m \<Longrightarrow> a < fst x" for x using 2(3) by (auto simp: om_ok_def)
  have "\<not> k < a"
  proof
    assume "k < a"
    with 2(2) have "om_find k m = Some r" by (auto simp: om_find_Cons split: if_splits)
    then have "k \<in> fst ` set m" using om_find_None [of k m] by force
    with lt \<open>k < a\<close> show False by force
  qed
  with 2 show ?case by (auto simp: om_find_Cons om_ok_def)
qed simp

lemma samples_effect:
  assumes "foldE (sample_readout now ep) (zip refs vs) (ros, tr) = Inr (ros', tr')" and "length vs = length refs"
    and "om_ok ros"
  shows "om_ok ros' \<and> map (\<lambda>e. (fst e, ro_key (snd e))) ros' = map (\<lambda>e. (fst e, ro_key (snd e))) ros \<and>
    (\<forall>k r'. om_find k ros' = Some r' \<longrightarrow> (\<exists>r. om_find k ros = Some r \<and> ro_key r' = ro_key r \<and>
      (ro_sample r' = None \<longleftrightarrow> ro_sample r = None \<and> k \<notin> measurement ` set refs))) \<and>
    (\<forall>k. om_find k ros \<noteq> None \<longrightarrow> om_find k ros' \<noteq> None)"
  using assms
proof (induction refs vs arbitrary: ros tr rule: list_induct2')
  case (4 x refs v vs)
  from 4(2) obtain m where m: "sample_readout now ep (x, v) (ros, tr) = Inr m"
    "foldE (sample_readout now ep) (zip refs vs) m = Inr (ros', tr')" by auto
  from sample_step [OF m(1)] m(2) obtain r tr1 where r: "om_find (measurement x) ros = Some r" and
    f: "foldE (sample_readout now ep) (zip refs vs) (om_set (measurement x) (r\<lparr>ro_sample := Some v\<rparr>) ros, tr1) = Inr (ros', tr')"
    by blast
  let ?m = "om_set (measurement x) (r\<lparr>ro_sample := Some v\<rparr>) ros"
  have k: "map (\<lambda>e. (fst e, ro_key (snd e))) ?m = map (\<lambda>e. (fst e, ro_key (snd e))) ros"
    by (rule om_set_same_keys [OF r 4(4)]) (simp add: ro_key_def)
  from 4(1) [OF f] 4(3,4) have i: "om_ok ros'" "map (\<lambda>e. (fst e, ro_key (snd e))) ros' = map (\<lambda>e. (fst e, ro_key (snd e))) ?m"
    "\<And>k r'. om_find k ros' = Some r' \<Longrightarrow> (\<exists>r. om_find k ?m = Some r \<and> ro_key r' = ro_key r \<and>
      (ro_sample r' = None \<longleftrightarrow> ro_sample r = None \<and> k \<notin> measurement ` set refs))"
    "\<And>k. om_find k ?m \<noteq> None \<Longrightarrow> om_find k ros' \<noteq> None" by auto
  have "\<exists>r. om_find k ros = Some r \<and> ro_key r' = ro_key r \<and>
      (ro_sample r' = None \<longleftrightarrow> ro_sample r = None \<and> k \<notin> measurement ` set (x # refs))" if "om_find k ros' = Some r'" for k r'
    using i(3) [OF that] r by (cases "k = measurement x") (auto simp: ro_key_def)
  moreover have "om_find k ros' \<noteq> None" if "om_find k ros \<noteq> None" for k
    by (rule i(4)) (use that in simp)
  ultimately show ?case using i(1,2) k by simp
qed auto

lemma samples_succeed:
  assumes "\<forall>x\<in>set refs. om_find (measurement x) ros \<noteq> None"
  shows "\<exists>ros' tr'. foldE (sample_readout now ep) (zip refs vs) (ros, tr) = Inr (ros', tr')"
  using assms
proof (induction refs vs arbitrary: ros tr rule: list_induct2')
  case (4 x refs v vs)
  then obtain r where r: "om_find (measurement x) ros = Some r" by auto
  have "\<forall>y\<in>set refs. om_find (measurement y) (om_set (measurement x) (r\<lparr>ro_sample := Some v\<rparr>) ros) \<noteq> None"
    using 4(2) by auto
  from 4(1) [OF this] sample_ok [OF r, of now ep v tr] show ?case by fastforce
qed simp_all

lemma om_erase_mset:
  "om_find k m = Some r \<Longrightarrow> om_ok m \<Longrightarrow> mset m = add_mset (k, r) (mset (om_erase k m))"
proof (induction m)
  case (Cons e m)
  obtain a b where e: "e = (a, b)" by (cases e)
  show ?case
  proof (cases "a = k")
    case True
    with Cons.prems e have "\<forall>x\<in>set m. fst x \<noteq> k" by (auto simp: om_ok_def)
    then have "om_erase k m = m" by (simp add: om_erase_def filter_id_conv)
    with True Cons.prems e show ?thesis by (simp add: om_erase_def om_find_Cons)
  next
    case False
    with Cons e show ?thesis by (simp add: om_erase_def om_find_Cons om_ok_def)
  qed
qed simp

lemma deliveries_effect:
  assumes "foldE (deliver_ready now ep (logged now deliver)) is (ros, (env, log), tr) = Inr (ros', (env', log'), tr')"
    and "om_ok ros"
  shows "om_ok ros' \<and> (\<forall>k. om_find k ros' = (if k \<in> set is then None else om_find k ros)) \<and>
    (\<exists>rs. log' = log @ map (\<lambda>r. (now, \<lparr>reference = ro_reference r, outcome = the (ro_sample r)\<rparr>)) rs \<and>
       mset ros = mset (zip is rs) + mset ros' \<and> length rs = length is)"
  using assms
proof (induction "is" arbitrary: ros env log tr)
  case (Cons i js)
  from Cons.prems(1) obtain m where m: "deliver_ready now ep (logged now deliver) i (ros, (env, log), tr) = Inr m"
    "foldE (deliver_ready now ep (logged now deliver)) js m = Inr (ros', (env', log'), tr')" by auto
  from delivery_step [OF m(1)] m(2) obtain r v env1 tr1 where r: "om_find i ros = Some r" "ro_sample r = Some v" and
    f: "foldE (deliver_ready now ep (logged now deliver)) js
      (om_erase i ros, (env1, log @ [(now, \<lparr>reference = ro_reference r, outcome = v\<rparr>)]), tr1) = Inr (ros', (env', log'), tr')"
    by blast
  from Cons.IH [OF f] Cons.prems(2) obtain rs where i: "om_ok ros'"
    "\<forall>k. om_find k ros' = (if k \<in> set js then None else om_find k (om_erase i ros))"
    "log' = (log @ [(now, \<lparr>reference = ro_reference r, outcome = v\<rparr>)]) @
       map (\<lambda>r. (now, \<lparr>reference = ro_reference r, outcome = the (ro_sample r)\<rparr>)) rs"
    "mset (om_erase i ros) = mset (zip js rs) + mset ros'" "length rs = length js" by auto
  have "log' = log @ map (\<lambda>r. (now, \<lparr>reference = ro_reference r, outcome = the (ro_sample r)\<rparr>)) (r # rs)"
    using i(3) r(2) by simp
  moreover have "mset ros = mset (zip (i # js) (r # rs)) + mset ros'"
    using om_erase_mset [OF r(1) Cons.prems(2)] i(4) by simp
  ultimately show ?case using i(1,2,5) by (intro conjI exI [of _ "r # rs"]) auto
qed simp

lemma deliveries_succeed:
  assumes "distinct is" and "\<forall>i\<in>set is. \<exists>r. om_find i ros = Some r \<and> ro_sample r \<noteq> None"
    and "\<forall>c e. \<exists>r. deliver c e = Inr r"
  shows "\<exists>z. foldE (deliver_ready now ep deliver) is (ros, env, tr) = Inr z"
  using assms(1,2)
proof (induction "is" arbitrary: ros env tr)
  case (Cons i js)
  from Cons.prems(2) obtain r v where r: "om_find i ros = Some r" "ro_sample r = Some v" by auto
  from assms(3) obtain tr1 env1 where d: "deliver \<lparr>reference = ro_reference r, outcome = v\<rparr> env = Inr (tr1, env1)"
    by (metis prod.exhaust)
  from Cons.prems have "\<forall>j\<in>set js. \<exists>r. om_find j (om_erase i ros) = Some r \<and> ro_sample r \<noteq> None" by auto
  from Cons.IH [OF _ this] Cons.prems(1) r d
      delivery_ok [of i ros r v deliver env tr1 env1 now ep tr] show ?case by fastforce
qed simp

section \<open>The next boundary\<close>

lemma first_boundary:
  assumes "device_inv B epoch s" and "next_boundary s = Some now"
  obtains bd where "om_find now (boundaries s) = Some bd" and "todo s now" and "last_tick s \<le> now"
    and "\<forall>t. om_find t (boundaries s) \<noteq> None \<longrightarrow> now \<le> t"
proof -
  from assms(1) have ok: "om_ok (boundaries s)" "\<And>t b. om_find t (boundaries s) = Some b \<Longrightarrow> last_tick s \<le> t"
    and tl: "timeline_ok s" by (auto simp: device_inv_def tables_ok_def)
  from assms(2) obtain bd m where m: "boundaries s = (now, bd) # m"
    by (auto simp: next_boundary_def split: list.splits)
  have f: "om_find now (boundaries s) = Some bd" by (simp add: m om_find_Cons)
  moreover from f tl have "todo s now" unfolding timeline_ok_def Let_def by (metis option.distinct(1))
  moreover from f ok have "last_tick s \<le> now" by blast
  moreover have "now \<le> t" if t: "om_find t (boundaries s) \<noteq> None" for t
  proof -
    from t have "t \<in> fst ` set (boundaries s)" by (simp add: om_find_None)
    with ok(1) m show ?thesis by (auto simp: om_ok_def)
  qed
  ultimately show thesis by (intro that) blast+
qed

text \<open>What a boundary holds, and that nothing to come is earlier.\<close>

lemma boundary_contents:
  assumes inv: "device_inv B epoch s" and bd: "om_find now (boundaries s) = Some bd"
    and first: "\<forall>t. om_find t (boundaries s) \<noteq> None \<longrightarrow> now \<le> t" and td: "todo s now"
  shows "set (bd_starts bd) = {a \<in> set (reservations s). sch_start a = now}" and "distinct (map event_id (bd_starts bd))"
    and "set (bd_ends bd) = event_id ` {a \<in> set (reservations s). sch_end a = now}" and "distinct (bd_ends bd)"
    and "set (bd_ready bd) = {i. \<exists>r. om_find i (readouts s) = Some r \<and> ro_ready r = now}" and "distinct (bd_ready bd)"
    and "mset (bd_ready bd) = mset (map fst (filter (\<lambda>e. ro_ready (snd e) = now) (readouts s)))"
    and "\<And>a. a \<in> set (reservations s) \<Longrightarrow> todo s (sch_start a) \<Longrightarrow> now \<le> sch_start a"
    and "\<And>a. a \<in> set (reservations s) \<Longrightarrow> todo s (sch_end a) \<Longrightarrow> now \<le> sch_end a"
    and "\<And>i r. om_find i (readouts s) = Some r \<Longrightarrow> now \<le> ro_ready r"
proof -
  from inv have tl: "timeline_ok s" and cp: "compatible (reservations s)" and ok: "om_ok (readouts s)" and ro: "readouts_ok s"
    by (auto simp: device_inv_def tables_ok_def)
  have at: "boundary_at now (boundaries s) = bd" by (simp add: boundary_at_def bd)
  have tlt: "mset (bd_starts (boundary_at t (boundaries s))) = mset (filter (\<lambda>a. sch_start a = t) (reservations s))"
    "mset (bd_ends (boundary_at t (boundaries s))) = mset (map event_id (filter (\<lambda>a. sch_end a = t) (reservations s)))"
    "mset (bd_ready (boundary_at t (boundaries s))) = mset (map fst (filter (\<lambda>e. ro_ready (snd e) = t) (readouts s)))"
    if "todo s t" for t
    using tl that by (simp_all add: timeline_ok_def Let_def)
  note m = tlt [OF td, unfolded at]
  from m(3) show "mset (bd_ready bd) = mset (map fst (filter (\<lambda>e. ro_ready (snd e) = now) (readouts s)))" .
  from mset_eq_setD [OF m(1)] show "set (bd_starts bd) = {a \<in> set (reservations s). sch_start a = now}" by auto
  from mset_eq_setD [OF m(2)] show "set (bd_ends bd) = event_id ` {a \<in> set (reservations s). sch_end a = now}" by auto
  from mset_eq_setD [OF m(3)] have "set (bd_ready bd) = {i. \<exists>r. (i, r) \<in> set (readouts s) \<and> ro_ready r = now}" by force
  then show "set (bd_ready bd) = {i. \<exists>r. om_find i (readouts s) = Some r \<and> ro_ready r = now}" by (simp add: om_find_iff [OF ok])
  have d: "distinct (map event_id (filter P (reservations s)))" for P
    using compatible_filter [OF cp, of P] by (simp add: compatible_def)
  have "mset (map event_id (bd_starts bd)) = mset (map event_id (filter (\<lambda>a. sch_start a = now) (reservations s)))"
    using m(1) by simp
  then show "distinct (map event_id (bd_starts bd))" using d mset_eq_imp_distinct_iff by blast
  from m(2) show "distinct (bd_ends bd)" using d mset_eq_imp_distinct_iff by blast
  have "distinct (map fst (filter P (readouts s)))" for P
    using ok by (auto simp: om_ok_def strict_sorted_iff distinct_map intro: inj_on_subset)
  with m(3) show "distinct (bd_ready bd)" using mset_eq_imp_distinct_iff by blast
  have none: "boundary_at t (boundaries s) = \<lparr>bd_starts = [], bd_ends = [], bd_ready = []\<rparr>" if "t < now" for t
    using first [rule_format, of t] that by (cases "om_find t (boundaries s)") (auto simp: om_find_empty)
  show "now \<le> sch_start a" if "a \<in> set (reservations s)" "todo s (sch_start a)" for a
  proof (rule ccontr)
    assume "\<not> now \<le> sch_start a"
    with none [of "sch_start a"] tlt(1) [OF that(2)] have "filter (\<lambda>b. sch_start b = sch_start a) (reservations s) = []" by simp
    with that(1) show False by (auto simp: filter_empty_conv)
  qed
  show "now \<le> sch_end a" if "a \<in> set (reservations s)" "todo s (sch_end a)" for a
  proof (rule ccontr)
    assume "\<not> now \<le> sch_end a"
    with none [of "sch_end a"] tlt(2) [OF that(2)] have "filter (\<lambda>b. sch_end b = sch_end a) (reservations s) = []" by simp
    with that(1) show False by (auto simp: filter_empty_conv)
  qed
  show "now \<le> ro_ready r" if r: "om_find i (readouts s) = Some r" for i r
  proof (rule ccontr)
    assume n: "\<not> now \<le> ro_ready r"
    from ro r have "todo s (ro_ready r)" by (simp add: readouts_ok_def)
    from tlt(3) [OF this] none [of "ro_ready r"] n have "filter (\<lambda>e. ro_ready (snd e) = ro_ready r) (readouts s) = []"
      by (auto simp: filter_empty_conv)
    with r show False using om_find_iff [OF ok] by (auto simp: filter_empty_conv)
  qed
qed

section \<open>Executing a boundary keeps the invariant\<close>

lemma inspect_samples:
  assumes "foldE (gather_sample act) is samples = Inr samples'"
  shows "\<forall>i\<in>set is. om_find i act \<noteq> None"
    and "samples' = samples @ concat (map (\<lambda>i. case om_find i act of None \<Rightarrow> [] | Some a \<Rightarrow>
      if acquires a then [meas_ref a] else []) is)"
  using assms
proof (induction "is" arbitrary: samples)
  case (Cons i js)
  {
    case 1
    then obtain m where m: "gather_sample act i samples = Inr m" "foldE (gather_sample act) js m = Inr samples'" by auto
    from Cons.IH(1) [OF m(2)] m(1) show ?case by (auto simp: gather_sample_def split: option.splits)
  next
    case 2
    then obtain m where m: "gather_sample act i samples = Inr m" "foldE (gather_sample act) js m = Inr samples'" by auto
    from m(1) have "m = samples @ (case om_find i act of None \<Rightarrow> [] | Some a \<Rightarrow> if acquires a then [meas_ref a] else [])"
      by (auto simp: gather_sample_def acquires_def meas_ref_def split: option.splits if_splits)
    with Cons.IH(2) [OF m(2)] show ?case by simp
  }
qed simp_all

lemma boundary_state:
  assumes "ce_boundary B now ep deliver bd s env = Inr (s', env', tr)"
  obtains samples gs outs x1 results x2 ros tr1 act tr2 x3 tr3 act' tr4 ros' where
    "inspect B now ep bd s = Inr (samples, gs, outs)"
    "(if last_tick s < now
      then bx_evolve B (last_tick s) now (active_drives (active s)) (active_acquisitions (active s)) (ce_backend s)
      else Inr (ce_backend s)) = Inr x1"
    "bx_measure B now samples x1 = Inr (results, x2)"
    "foldE (sample_readout now ep) (zip samples results) (readouts s, []) = Inr (ros, tr1)"
    "foldE (end_action now ep) (bd_ends bd) (active s, tr1) = Inr (act, tr2)"
    "bx_apply B now gs x2 = Inr x3"
    "foldE (start_action now ep) (bd_starts bd) (act, tr2 @ tr3) = Inr (act', tr4)"
    "foldE (deliver_ready now ep deliver) (bd_ready bd) (ros, env, tr4) = Inr (ros', env', tr)"
    "s' = s\<lparr>ce_backend := x3, active := act', readouts := ros', last_tick := now, processed_tick := Some now,
            boundaries := om_erase now (boundaries s),
            reservations := discard_before now (reservations s)\<rparr>"
proof -
  from assms obtain samples gs outs x1 results x2 ros tr1 act tr2 x3 tr3 act' tr4 ros' where
    "inspect B now ep bd s = Inr (samples, gs, outs)"
    "(if last_tick s < now
      then bx_evolve B (last_tick s) now (active_drives (active s)) (active_acquisitions (active s)) (ce_backend s)
      else Inr (ce_backend s)) = Inr x1"
    "bx_measure B now samples x1 = Inr (results, x2)"
    "foldE (sample_readout now ep) (zip samples results) (readouts s, []) = Inr (ros, tr1)"
    "foldE (end_action now ep) (bd_ends bd) (active s, tr1) = Inr (act, tr2)"
    "bx_apply B now gs x2 = Inr x3"
    "mapE (gate_event now ep (ce_profile s)) outs = Inr tr3"
    "foldE (start_action now ep) (bd_starts bd) (act, tr2 @ tr3) = Inr (act', tr4)"
    "foldE (deliver_ready now ep deliver) (bd_ready bd) (ros, env, tr4) = Inr (ros', env', tr)"
    "s' = s\<lparr>ce_backend := x3, active := act', readouts := ros', last_tick := now, processed_tick := Some now,
            boundaries := om_erase now (boundaries s),
            reservations := discard_before now (reservations s)\<rparr>"
    unfolding ce_boundary_def by (clarsimp simp only: bindE_eq_Inr split_paired_Ex prod.case sum.inject prod.inject)
  then show thesis by (intro that)
qed

text \<open>What the session has promised: the readouts of its launches, and those it has delivered.\<close>

definition due_of :: "Readout \<Rightarrow> Tick \<times> MeasurementReference" where
  "due_of r = (ro_ready r, ro_reference r)"

definition done_of :: "Tick \<times> Completion \<Rightarrow> Tick \<times> MeasurementReference" where
  "done_of d = (fst d, reference (snd d))"

lemma scheduled_pos: "scheduled_ok B ep s a \<Longrightarrow> sch_start a < sch_end a"
  unfolding scheduled_ok_def by (elim conjE)

lemma scheduled_cong:
  "(\<And>u. ce_validate B u s' = ce_validate B u s) \<Longrightarrow> resolve_output s' = resolve_output s \<Longrightarrow>
   scheduled_ok B ep s' a = scheduled_ok B ep s a"
  by (simp add: scheduled_ok_def)

lemma ends_active:
  assumes inv: "device_inv B ep s" and a: "a \<in> set (reservations s)" "sch_end a = now" and td: "todo s now"
    and first: "todo s (sch_start a) \<Longrightarrow> now \<le> sch_start a"
  shows "om_find (event_id a) (active s) = Some a"
proof -
  from inv a(1) have "scheduled_ok B ep s a" by (simp add: device_inv_def)
  then have "sch_start a < sch_end a" by (rule scheduled_pos)
  with first a(2) have "\<not> todo s (sch_start a)" by auto
  with inv a td show ?thesis by (simp add: device_inv_def active_ok_def)
qed

lemma keys_filter:
  "map (\<lambda>e. (fst e, ro_key (snd e))) m = map (\<lambda>e. (fst e, ro_key (snd e))) m' \<Longrightarrow>
   map fst (filter (\<lambda>e. ro_ready (snd e) = t) m) = map fst (filter (\<lambda>e. ro_ready (snd e) = t) m')"
  by (induction m m' rule: list_induct2') (auto simp: ro_key_def)

lemma keys_due:
  "map (\<lambda>e. (fst e, ro_key (snd e))) m = map (\<lambda>e. (fst e, ro_key (snd e))) m' \<Longrightarrow>
   map (\<lambda>e. due_of (snd e)) m = map (\<lambda>e. due_of (snd e)) m'"
  by (induction m m' rule: list_induct2') (auto simp: ro_key_def due_of_def)

context quantum_backend
begin

lemma boundary_inv:
  assumes inv: "device_inv B ep s" and next_b: "next_boundary s = Some now" and bd: "om_find now (boundaries s) = Some bd"
    and run: "ce_boundary B now ep (logged now deliver) bd s (env, log) = Inr (s', (env', log'), tr)"
  shows "device_inv B ep s' \<and> (\<exists>new. log' = log @ new \<and>
    mset (map (\<lambda>e. due_of (snd e)) (readouts s)) = mset (map done_of new) + mset (map (\<lambda>e. due_of (snd e)) (readouts s')))"
proof -
  obtain td: "todo s now" and le: "last_tick s \<le> now" and first: "\<forall>t. om_find t (boundaries s) \<noteq> None \<longrightarrow> now \<le> t"
    using first_boundary [OF inv next_b] by blast
  note c = boundary_contents [OF inv bd first td]
  note act_at = ends_active [OF inv _ _ td c(8)]
  from inv have I: "tables_ok s" "bx_epoch (ce_backend s) = ep" "compatible (reservations s)"
    "\<forall>a\<in>set (reservations s). scheduled_ok B ep s a" "timeline_ok s" "active_ok s" "readouts_ok s"
    by (simp_all add: device_inv_def)
  from boundary_state [OF run] obtain samples gs outs x1 results x2 ros tr1 act tr2 x3 tr3 act' tr4 ros' where
    st: "inspect B now ep bd s = Inr (samples, gs, outs)"
    "(if last_tick s < now
      then bx_evolve B (last_tick s) now (active_drives (active s)) (active_acquisitions (active s)) (ce_backend s)
      else Inr (ce_backend s)) = Inr x1"
    "bx_measure B now samples x1 = Inr (results, x2)"
    "foldE (sample_readout now ep) (zip samples results) (readouts s, []) = Inr (ros, tr1)"
    "foldE (end_action now ep) (bd_ends bd) (active s, tr1) = Inr (act, tr2)"
    "bx_apply B now gs x2 = Inr x3"
    "foldE (start_action now ep) (bd_starts bd) (act, tr2 @ tr3) = Inr (act', tr4)"
    "foldE (deliver_ready now ep (logged now deliver)) (bd_ready bd) (ros, (env, log), tr4) = Inr (ros', (env', log'), tr)"
    and s': "s' = s\<lparr>ce_backend := x3, active := act', readouts := ros', last_tick := now, processed_tick := Some now,
            boundaries := om_erase now (boundaries s), reservations := discard_before now (reservations s)\<rparr>" .
  have x: "bx_epoch x3 = ep" "committed_tick x3 = now" "length results = length samples"
    "be_validate B a (bx_backend x3) = be_validate B a (bx_backend (ce_backend s))" for a
  proof -
    have 1: "bx_epoch x1 = ep" "committed_tick x1 = now"
      "be_validate B a (bx_backend x1) = be_validate B a (bx_backend (ce_backend s))" for a
      using st(2) I(1,2) le bx_evolve_validate
      by (auto simp: tables_ok_def dest!: bx_evolve_frame split: if_splits)
    from bx_measure_frame [OF st(3)] bx_apply_frame [OF st(6)] 1 bx_measure_validate [OF st(3)] bx_apply_validate [OF st(6)]
    show "bx_epoch x3 = ep" "committed_tick x3 = now" "length results = length samples"
      "be_validate B a (bx_backend x3) = be_validate B a (bx_backend (ce_backend s))" for a by simp_all
  qed
  have todo': "todo s' t \<longleftrightarrow> now < t" for t by (simp add: todo_def s')
  have R': "reservations s' = filter (\<lambda>a. \<not> sch_end a < now) (reservations s)" by (simp add: s' discard_before_def)
  have pos: "sch_start a < sch_end a" if "a \<in> set (reservations s)" for a using I(4) that scheduled_pos by blast
  have past: "u < now" if "\<not> todo s u" for u using that td by (auto simp: todo_def split: option.splits)
  from I(1) have ok: "om_ok (boundaries s)" "om_ok (active s)" "om_ok (readouts s)" by (simp_all add: tables_ok_def)
  have ea: "om_ok act" "\<And>i. om_find i act = (if i \<in> set (bd_ends bd) then None else om_find i (active s))"
    using end_actions_effect [OF st(5) ok(2)] by auto
  have sa: "om_ok act'" "\<And>i a. om_find i act' = Some a \<longleftrightarrow>
    (a \<in> set (bd_starts bd) \<and> event_id a = i) \<or> (i \<notin> event_id ` set (bd_starts bd) \<and> om_find i act = Some a)"
    using start_actions_effect [OF st(7) ea(1)] by auto
  have se: "om_ok ros" "map (\<lambda>e. (fst e, ro_key (snd e))) ros = map (\<lambda>e. (fst e, ro_key (snd e))) (readouts s)"
    "\<And>k r'. om_find k ros = Some r' \<Longrightarrow> \<exists>r. om_find k (readouts s) = Some r \<and> ro_key r' = ro_key r \<and>
      (ro_sample r' = None \<longleftrightarrow> ro_sample r = None \<and> k \<notin> measurement ` set samples)"
    "\<And>k. om_find k (readouts s) \<noteq> None \<Longrightarrow> om_find k ros \<noteq> None"
    using samples_effect [OF st(4) x(3) ok(3)] by auto
  from deliveries_effect [OF st(8) se(1)] obtain rs where de: "om_ok ros'"
    "\<And>k. om_find k ros' = (if k \<in> set (bd_ready bd) then None else om_find k ros)"
    "log' = log @ map (\<lambda>r. (now, \<lparr>reference = ro_reference r, outcome = the (ro_sample r)\<rparr>)) rs"
    "mset ros = mset (zip (bd_ready bd) rs) + mset ros'" "length rs = length (bd_ready bd)" by auto
  have rs_now: "ro_ready r = now" if "(i, r) \<in> set (zip (bd_ready bd) rs)" for i r
  proof -
    from that have i: "i \<in> set (bd_ready bd)" by (rule set_zip_leftD)
    from that have "(i, r) \<in># mset ros" using de(4) by simp
    then have "om_find i ros = Some r" using om_find_iff [OF se(1)] by simp
    from se(3) [OF this] obtain r0 where "om_find i (readouts s) = Some r0" "ro_key r = ro_key r0" by blast
    with i c(5) show ?thesis by (auto simp: ro_key_def)
  qed
  have "tables_ok s'"
    using ok sa(1) de(1) x(2) first by (auto simp: tables_ok_def s')
  moreover have "\<forall>a\<in>set (reservations s'). scheduled_ok B ep s' a"
  proof
    fix a assume "a \<in> set (reservations s')"
    with I(4) R' have "scheduled_ok B ep s a" by simp
    moreover have "ce_validate B u s' = ce_validate B u s" for u
      by (simp add: ce_validate_def bx_validate_def s' x(4) split: ActionSpec.split)
    moreover have "resolve_output s' = resolve_output s"
      by (simp add: fun_eq_iff resolve_output_def s' split: ActionSpec.split)
    ultimately show "scheduled_ok B ep s' a" using scheduled_cong by metis
  qed
  moreover have "timeline_ok s'"
    unfolding timeline_ok_def Let_def
  proof
    fix t
    have ready: "mset (map fst (filter (\<lambda>e. ro_ready (snd e) = t) (readouts s))) =
      mset (map fst (filter (\<lambda>e. ro_ready (snd e) = t) ros'))" if "now < t"
    proof -
      have "filter (\<lambda>e. ro_ready (snd e) = t) (zip (bd_ready bd) rs) = []"
        using rs_now that by (fastforce simp: filter_empty_conv)
      then have "filter_mset (\<lambda>e. ro_ready (snd e) = t) (mset (zip (bd_ready bd) rs)) = {#}"
        by (metis mset.simps(1) mset_filter)
      then have "filter_mset (\<lambda>e. ro_ready (snd e) = t) (mset ros) = filter_mset (\<lambda>e. ro_ready (snd e) = t) (mset ros')"
        by (simp add: de(4))
      then show ?thesis by (simp flip: keys_filter [OF se(2)] mset_filter)
    qed
    have R: "filter (\<lambda>a. sch_start a = t) (reservations s') = filter (\<lambda>a. sch_start a = t) (reservations s)"
      "filter (\<lambda>a. sch_end a = t) (reservations s') = filter (\<lambda>a. sch_end a = t) (reservations s)" if "now < t"
    proof -
      have "sch_start a = t \<longrightarrow> \<not> sch_end a < now" if "a \<in> set (reservations s)" for a
        using pos [OF that] \<open>now < t\<close> by auto
      then show "filter (\<lambda>a. sch_start a = t) (reservations s') = filter (\<lambda>a. sch_start a = t) (reservations s)"
        by (auto simp: R' intro!: filter_cong)
      show "filter (\<lambda>a. sch_end a = t) (reservations s') = filter (\<lambda>a. sch_end a = t) (reservations s)"
        using that by (auto simp: R' intro!: filter_cong)
    qed
    show "if todo s' t
      then mset (bd_starts (boundary_at t (boundaries s'))) = mset (filter (\<lambda>a. sch_start a = t) (reservations s')) \<and>
           mset (bd_ends (boundary_at t (boundaries s'))) = mset (map event_id (filter (\<lambda>a. sch_end a = t) (reservations s'))) \<and>
           mset (bd_ready (boundary_at t (boundaries s'))) = mset (map fst (filter (\<lambda>e. ro_ready (snd e) = t) (readouts s')))
      else om_find t (boundaries s') = None"
    proof (cases "now < t")
      case True
      then have "todo s t" using todo_later [OF td] by simp
      moreover have "boundary_at t (boundaries s') = boundary_at t (boundaries s)" using True by (simp add: s' boundary_at_def)
      ultimately show ?thesis using I(5) True R [OF True] ready [OF True] todo' [of t]
        by (simp add: timeline_ok_def Let_def s' del: mset_map)
    next
      case False
      then show ?thesis using first [rule_format, of t] todo' [of t] by (cases "om_find t (boundaries s)") (auto simp: s')
    qed
  qed
  moreover have "active_ok s'"
  proof -
    have "om_find i act' = Some a \<longleftrightarrow> a \<in> set (reservations s') \<and> event_id a = i \<and> sch_start a \<le> now \<and> now < sch_end a" for i a
    proof
      assume "om_find i act' = Some a"
      with sa(2) ea(2) consider "a \<in> set (bd_starts bd)" "event_id a = i"
        | "i \<notin> set (bd_ends bd)" "om_find i (active s) = Some a" by (auto split: if_splits)
      then show "a \<in> set (reservations s') \<and> event_id a = i \<and> sch_start a \<le> now \<and> now < sch_end a"
      proof cases
        case 1
        with c(1) pos [of a] show ?thesis by (auto simp: R')
      next
        case 2
        then have a: "a \<in> set (reservations s)" "event_id a = i" "\<not> todo s (sch_start a)" "todo s (sch_end a)"
          using I(6) by (auto simp: active_ok_def)
        with 2(1) c(3) have "sch_end a \<noteq> now" by auto
        with a c(9) [OF a(1,4)] past [OF a(3)] show ?thesis by (auto simp: R')
      qed
    next
      assume a: "a \<in> set (reservations s') \<and> event_id a = i \<and> sch_start a \<le> now \<and> now < sch_end a"
      then have aR: "a \<in> set (reservations s)" by (simp add: R')
      show "om_find i act' = Some a"
      proof (cases "sch_start a = now")
        case True
        with a aR c(1) sa(2) show ?thesis by auto
      next
        case False
        with a have lt: "sch_start a < now" by simp
        have "\<not> todo s (sch_start a)" using c(8) [OF aR] lt by auto
        moreover have "todo s (sch_end a)" using a todo_later [OF td] by simp
        ultimately have "om_find i (active s) = Some a" using I(6) aR a by (simp add: active_ok_def)
        moreover have "i \<notin> set (bd_ends bd)"
        proof
          assume "i \<in> set (bd_ends bd)"
          with c(3) obtain b where "b \<in> set (reservations s)" "sch_end b = now" "event_id b = i" by auto
          with compatible_inj [OF I(3) aR] a show False by auto
        qed
        moreover have "i \<notin> event_id ` set (bd_starts bd)"
        proof
          assume "i \<in> event_id ` set (bd_starts bd)"
          with c(1) obtain b where "b \<in> set (reservations s)" "sch_start b = now" "event_id b = i" by auto
          with compatible_inj [OF I(3) aR] a lt show False by auto
        qed
        ultimately show ?thesis using sa(2) ea(2) by simp
      qed
    qed
    then show ?thesis unfolding active_ok_def todo' by (auto simp: s' not_less)
  qed
  moreover have "readouts_ok s'"
  proof -
    have sampled: "now < sch_end a" if a: "a \<in> set (reservations s)" "acquires a" "todo s (sch_end a)"
      "measurement (meas_ref a) \<notin> measurement ` set samples" for a
    proof (rule ccontr)
      assume "\<not> now < sch_end a"
      with c(9) [OF a(1,3)] have e: "sch_end a = now" by simp
      then have "event_id a \<in> set (bd_ends bd)" using c(3) a(1) by auto
      moreover from st(1) have "foldE (gather_sample (active s)) (bd_ends bd) [] = Inr samples" by (auto simp: inspect_def)
      from inspect_samples(2) [OF this] have "samples = concat (map (\<lambda>i. case om_find i (active s) of None \<Rightarrow> [] | Some a \<Rightarrow>
        if acquires a then [meas_ref a] else []) (bd_ends bd))" by simp
      ultimately have "meas_ref a \<in> set samples" using act_at [OF a(1) e a(1)] a(2) by force
      with a(4) show False by blast
    qed
    have "measurement (ro_reference r') = i \<and> now < ro_ready r' \<and> ro_end r' \<le> ro_ready r' \<and>
        (ro_sample r' = None \<longrightarrow> (\<exists>a\<in>set (reservations s'). acquires a \<and> meas_ref a = ro_reference r' \<and>
           sch_end a = ro_end r' \<and> now < sch_end a))" if "om_find i ros' = Some r'" for i r'
    proof -
      have n: "i \<notin> set (bd_ready bd)" "om_find i ros = Some r'"
        using that de(2) [of i] by (cases "i \<in> set (bd_ready bd)"; simp)+
      from se(3) [OF n(2)] obtain r where r: "om_find i (readouts s) = Some r" "ro_key r' = ro_key r"
        "ro_sample r' = None \<longleftrightarrow> ro_sample r = None \<and> i \<notin> measurement ` set samples"
        by (elim exE conjE)
      from r(1) I(7) have o: "measurement (ro_reference r) = i" "ro_end r \<le> ro_ready r"
        "ro_sample r = None \<longrightarrow> (\<exists>a\<in>set (reservations s). acquires a \<and> meas_ref a = ro_reference r \<and>
           sch_end a = ro_end r \<and> todo s (sch_end a))"
        unfolding readouts_ok_def by blast+
      from n(1) c(5) r(1) have "ro_ready r \<noteq> now" by auto
      with c(10) [OF r(1)] have "now < ro_ready r" by simp
      moreover have "\<exists>a\<in>set (reservations s'). acquires a \<and> meas_ref a = ro_reference r \<and> sch_end a = ro_end r \<and> now < sch_end a"
        if "ro_sample r' = None"
      proof -
        from that r(3) o(3) obtain a where a: "a \<in> set (reservations s)" "acquires a" "meas_ref a = ro_reference r"
          "sch_end a = ro_end r" "todo s (sch_end a)" "i \<notin> measurement ` set samples" by blast
        from sampled [OF a(1,2,5)] a(3,6) o(1) have "now < sch_end a" by simp
        with a show ?thesis by (auto simp: R')
      qed
      ultimately show ?thesis using o(1,2) r(2) by (auto simp: ro_key_def)
    qed
    moreover have "\<exists>r. om_find (measurement (meas_ref a)) ros' = Some r \<and> ro_reference r = meas_ref a \<and> ro_end r = sch_end a"
      if a: "a \<in> set (reservations s')" "acquires a" "now < sch_end a" for a
    proof -
      from a(1) have aR: "a \<in> set (reservations s)" by (simp add: R')
      have "todo s (sch_end a)" using a(3) todo_later [OF td] by simp
      with I(7) aR a(2) obtain r where r: "om_find (measurement (meas_ref a)) (readouts s) = Some r"
        "ro_reference r = meas_ref a" "ro_end r = sch_end a" unfolding readouts_ok_def by blast
      with I(7) have "ro_end r \<le> ro_ready r" unfolding readouts_ok_def by blast
      with r(3) a(3) have "now < ro_ready r" by simp
      with c(5) r(1) have "measurement (meas_ref a) \<notin> set (bd_ready bd)" by auto
      moreover from se(4) r(1) obtain r' where r': "om_find (measurement (meas_ref a)) ros = Some r'" by fastforce
      moreover from se(3) [OF r'] r have "ro_key r' = ro_key r" by auto
      ultimately have "om_find (measurement (meas_ref a)) ros' = Some r'" by (simp add: de(2))
      moreover have "ro_reference r' = meas_ref a" "ro_end r' = sch_end a"
        using \<open>ro_key r' = ro_key r\<close> r(2,3) by (simp_all add: ro_key_def)
      ultimately show ?thesis by blast
    qed
    ultimately show ?thesis unfolding readouts_ok_def todo' by (simp add: s')
  qed
  moreover have "\<exists>new. log' = log @ new \<and>
    mset (map (\<lambda>e. due_of (snd e)) (readouts s)) = mset (map done_of new) + mset (map (\<lambda>e. due_of (snd e)) (readouts s'))"
  proof -
    let ?new = "map (\<lambda>r. (now, \<lparr>reference = ro_reference r, outcome = the (ro_sample r)\<rparr>)) rs"
    have rs: "ro_ready r = now" if "r \<in> set rs" for r
    proof -
      from that obtain i where "i < length rs" "r = rs ! i" by (auto simp: in_set_conv_nth)
      then have "(bd_ready bd ! i, r) \<in> set (zip (bd_ready bd) rs)" using de(5) by (auto simp: set_zip)
      then show ?thesis by (rule rs_now)
    qed
    have "map (\<lambda>e. due_of (snd e)) (zip (bd_ready bd) rs) = map due_of (map snd (zip (bd_ready bd) rs))" by simp
    also have "map snd (zip (bd_ready bd) rs) = rs" using de(5) by simp
    also have "map due_of rs = map done_of ?new" using rs by (simp add: due_of_def done_of_def)
    finally have "map (\<lambda>e. due_of (snd e)) (zip (bd_ready bd) rs) = map done_of ?new" .
    moreover have "mset (map (\<lambda>e. due_of (snd e)) ros) =
        mset (map (\<lambda>e. due_of (snd e)) (zip (bd_ready bd) rs)) + mset (map (\<lambda>e. due_of (snd e)) ros')"
      by (simp add: de(4))
    ultimately show ?thesis using de(3) keys_due [OF se(2)] by (intro exI [of _ ?new]) (simp add: s')
  qed
  ultimately show ?thesis
    using x(1) compatible_filter [OF I(3)] R' by (simp add: device_inv_def s')
qed

end

section \<open>What can fail at a boundary\<close>

lemma resolve_output_kind:
  "resolve_output s e = Inr r \<Longrightarrow>
   kind r = (if kind (action e) = GateOutput then IdealGate else kind (action e)) \<and>
   (kind (action e) \<noteq> GateOutput \<longrightarrow> r = action e)"
  by (auto simp: resolve_output_def kind_def gate_action_def split: ActionSpec.splits)

lemma resolved_kind:
  assumes "resolve_output s (sch_event a) = Inr (resolved a)"
  shows "acquires a \<Longrightarrow> resolved a = action (sch_event a)"
    and "is_gate (action (sch_event a)) \<Longrightarrow> is_gate (resolved a)"
    and "kind (action (sch_event a)) \<noteq> GateOutput \<Longrightarrow> resolved a = action (sch_event a)"
  using resolve_output_kind [OF assms] by (auto simp: acquires_def is_gate_def)

lemma acquisitions_apart:
  assumes inv: "device_inv B ep s" and a: "a \<in> set (reservations s)" "acquires a" "sch_end a = now"
    and b: "b \<in> set (reservations s)" "acquires b" "sch_end b = now" and t: "ref_target (meas_ref a) = ref_target (meas_ref b)"
  shows "event_id a = event_id b"
proof (rule ccontr)
  assume ne: "event_id a \<noteq> event_id b"
  from inv a(1) b(1) have sa: "scheduled_ok B ep s a" and sb: "scheduled_ok B ep s b" and cp: "compatible (reservations s)"
    by (simp_all add: device_inv_def)
  from sa a(2) have ra: "resolve_output s (sch_event a) = Inr (resolved a)" "targets (action (sch_event a)) = [ref_target (meas_ref a)]"
    by (simp_all add: scheduled_ok_def)
  from sb b(2) have rb: "resolve_output s (sch_event b) = Inr (resolved b)" "targets (action (sch_event b)) = [ref_target (meas_ref b)]"
    by (simp_all add: scheduled_ok_def)
  from resolved_kind(1) [OF ra(1) a(2)] resolved_kind(1) [OF rb(1) b(2)] have res: "resolved a = action (sch_event a)"
    "resolved b = action (sch_event b)" by simp_all
  have "overlapping a b" using scheduled_pos [OF sa] scheduled_pos [OF sb] a(3) b(3) by (simp add: overlapping_def)
  moreover have "common_target (resolved a) (resolved b)" using ra rb res t by (simp add: common_target_def)
  moreover have "\<not> same_gate (action (sch_event a)) (action (sch_event b))"
    using a(2) by (auto simp: same_gate_def acquires_def kind_def split: ActionSpec.splits)
  ultimately show False
    using compatible_pair [OF cp a(1) b(1) ne] a(2) b(2) res by (simp add: pair_def Let_def is_arm_def acquires_def)
qed

lemma sample_start_apart:
  assumes inv: "device_inv B ep s" and a: "a \<in> set (reservations s)" "acquires a" "sch_end a = now"
    and b: "b \<in> set (reservations s)" "is_gate (action (sch_event b))" "sch_start b = now"
  shows "ref_target (meas_ref a) \<notin> set (targets (resolved b))"
proof
  assume t: "ref_target (meas_ref a) \<in> set (targets (resolved b))"
  from inv a(1) b(1) have sa: "scheduled_ok B ep s a" and sb: "scheduled_ok B ep s b" and cp: "compatible (reservations s)"
    by (simp_all add: device_inv_def)
  from sa a(2) have ra: "resolve_output s (sch_event a) = Inr (resolved a)" "targets (action (sch_event a)) = [ref_target (meas_ref a)]"
    by (simp_all add: scheduled_ok_def)
  from sb have rb: "resolve_output s (sch_event b) = Inr (resolved b)" by (simp add: scheduled_ok_def)
  from resolved_kind(1) [OF ra(1) a(2)] have res: "resolved a = action (sch_event a)" .
  from scheduled_pos [OF sa] a(3) b(3) have "sch_start a < sch_start b" by simp
  then have ne: "event_id a \<noteq> event_id b" using compatible_inj [OF cp a(1) b(1)] by auto
  have "\<not> overlapping a b" using a(3) b(3) by (simp add: overlapping_def)
  moreover have "common_target (resolved a) (resolved b)" using ra t res by (simp add: common_target_def)
  moreover have "measurement_gate a b"
    using a(2,3) b(2,3) res resolved_kind(2) [OF rb b(2)] by (simp add: measurement_gate_def acquires_def)
  ultimately show False using compatible_pair [OF cp a(1) b(1) ne] by (simp add: pair_def Let_def)
qed

text \<open>The gates that start at a boundary, and the outputs grouped by the gate they belong to.\<close>

definition gates_from :: "ScheduledEvent set \<Rightarrow> start_gates \<Rightarrow> bool" where
  "gates_from S = (\<lambda>(gs, outs).
     set gs \<subseteq> {action (sch_event a) | a. a \<in> S \<and> kind (action (sch_event a)) = IdealGate} \<and>
     (\<forall>(n, ss) \<in> set outs. ss \<noteq> [] \<and> (\<forall>a\<in>set ss. a \<in> S \<and> spec (action (sch_event a)) = SpecOutput \<lparr>output_gate = n\<rparr>)))"

lemma add_output_from:
  assumes "\<forall>(n, ss) \<in> set outs. ss \<noteq> [] \<and> (\<forall>a\<in>set ss. P n a)" and "P name b"
  shows "\<forall>(n, ss) \<in> set (add_output name b outs). ss \<noteq> [] \<and> (\<forall>a\<in>set ss. P n a)"
  using assms by (induction name b outs rule: add_output.induct) auto

lemma check_starts:
  assumes "\<forall>a\<in>set as. oe_epoch (sch_event a) = ep \<and> ce_validate B (action (sch_event a)) s = Inr () \<and>
      (is_gate (action (sch_event a)) \<longrightarrow> (\<forall>t\<in>set (targets (resolved a)). t \<notin> set sampled))"
    and "set as \<subseteq> S" and "gates_from S z"
  shows "\<exists>z'. foldE (check_start B ep sampled s) as z = Inr z' \<and> gates_from S z'"
  using assms
proof (induction as arbitrary: z)
  case (Cons a as)
  obtain gs outs where z: "z = (gs, outs)" by (cases z)
  have "\<exists>z1. check_start B ep sampled s a z = Inr z1 \<and> gates_from S z1"
  proof (cases "spec (action (sch_event a))")
    case (SpecOutput g)
    have "g = \<lparr>output_gate = output_gate g\<rparr>" by simp
    with SpecOutput have "spec (action (sch_event a)) = SpecOutput \<lparr>output_gate = output_gate g\<rparr>" by simp
    with add_output_from [of outs "\<lambda>n a. a \<in> S \<and> spec (action (sch_event a)) = SpecOutput \<lparr>output_gate = n\<rparr>" "output_gate g" a]
      Cons.prems SpecOutput z show ?thesis
      by (simp add: check_start_def Let_def gates_from_def is_gate_def kind_def list_all_iff)
  qed (use Cons.prems z in \<open>auto simp: check_start_def Let_def gates_from_def is_gate_def kind_def list_all_iff\<close>)
  then obtain z1 where z1: "check_start B ep sampled s a z = Inr z1" "gates_from S z1" by blast
  from Cons.IH [OF _ _ z1(2)] Cons.prems z1(1) show ?case by auto
qed simp

text \<open>Assembling two-qubit gates can only fail because an input is missing or doubled.\<close>

lemma output_gate_known:
  assumes "scheduled_ok B ep s a" and "spec (action (sch_event a)) = SpecOutput \<lparr>output_gate = n\<rparr>"
  shows "\<exists>g u. dp_gate (ce_profile s) n = Inr g \<and> es_duration (action (sch_event a)) = tq_duration g \<and>
    gate_action (ce_profile s) n = Inr u \<and> bx_validate B u (ce_backend s) = Inr ()"
  using assms by (auto simp: scheduled_ok_def resolve_output_def ce_validate_def)

lemma check_input_error:
  assumes "check_input now g ss i u = Inl e" and "now + tq_duration g \<le> tick_max"
  shows "e = GateInputMismatch"
proof -
  have "\<exists>n. foldE (\<lambda>s n. if i = input_of (sch_event s)
        then bindE (checked_add now (tq_duration g)) (\<lambda>t. Inr (if sch_end s = t then n + 1 else n))
        else Inr n) ss m = Inr n" for m :: nat
    using assms(2)
  proof (induction ss arbitrary: m)
    case (Cons a ss)
    then have "checked_add now (tq_duration g) = Inr (now + tq_duration g)" by (simp add: checked_add_ok)
    then have "\<exists>k. (if i = input_of (sch_event a)
        then bindE (checked_add now (tq_duration g)) (\<lambda>t. Inr (if sch_end a = t then m + 1 else m))
        else Inr m) = Inr k" by auto
    then obtain k where "(if i = input_of (sch_event a)
        then bindE (checked_add now (tq_duration g)) (\<lambda>t. Inr (if sch_end a = t then m + 1 else m))
        else Inr m) = Inr k" by blast
    with Cons.IH [of k] Cons.prems show ?case by (simp only: foldE.simps bindE_Inr)
  qed simp
  then obtain n where "foldE (\<lambda>s n. if i = input_of (sch_event s)
        then bindE (checked_add now (tq_duration g)) (\<lambda>t. Inr (if sch_end s = t then n + 1 else n))
        else Inr n) ss (0 :: nat) = Inr n" by blast
  with assms(1) show ?thesis by (simp add: check_input_def require_eq_Inl)
qed

lemma foldE_error: "foldE f xs s = Inl e \<Longrightarrow> \<exists>x\<in>set xs. \<exists>t. f x t = Inl e"
  by (induction xs arbitrary: s) (auto simp: bindE_eq_Inl)

lemma resolve_outputs_error:
  assumes "resolve_gate_outputs (ce_profile s) now outs = Inl e" and "gates_from S (gs, outs)"
    and "\<forall>a\<in>S. scheduled_ok B ep s a \<and> sch_start a = now"
  shows "e = GateInputMismatch"
proof -
  from foldE_error [OF assms(1) [unfolded resolve_gate_outputs_def]] obtain name ss t where
    o: "(name, ss) \<in> set outs" "resolve_one (ce_profile s) now (name, ss) t = Inl e" by auto
  with assms(2) obtain a where ss: "ss \<noteq> []"
    "\<forall>a\<in>set ss. a \<in> S \<and> spec (action (sch_event a)) = SpecOutput \<lparr>output_gate = name\<rparr>"
    unfolding gates_from_def by fastforce
  then obtain b where b: "b \<in> set ss" by (cases ss) auto
  with ss(2) assms(3) have bS: "scheduled_ok B ep s b" "spec (action (sch_event b)) = SpecOutput \<lparr>output_gate = name\<rparr>"
    "sch_start b = now" by auto
  from output_gate_known [OF bS(1,2)] obtain g u where g: "dp_gate (ce_profile s) name = Inr g"
    "es_duration (action (sch_event b)) = tq_duration g" "gate_action (ce_profile s) name = Inr u" by blast
  from bS g(2) have "now + tq_duration g \<le> tick_max" unfolding scheduled_ok_def by auto
  moreover from o(2) g have "length ss \<noteq> length (tq_inputs g) \<and> e = GateInputMismatch \<or>
      foldE (check_input now g ss) (tq_inputs g) () = Inl e"
    by (auto simp: resolve_one_def require_eq_Inl bindE_eq_Inl)
  ultimately show ?thesis using check_input_error by (metis foldE_error)
qed

lemma resolve_outputs_gates:
  assumes "resolve_gate_outputs p now outs = Inr paired"
  shows "\<forall>u\<in>set paired. \<exists>name ss. (name, ss) \<in> set outs \<and> gate_action p name = Inr u"
proof -
  have "foldE (resolve_one p now) outs gs = Inr paired \<Longrightarrow>
      \<forall>u\<in>set paired. u \<in> set gs \<or> (\<exists>name ss. (name, ss) \<in> set outs \<and> gate_action p name = Inr u)" for gs
  proof (induction outs arbitrary: gs)
    case (Cons x outs)
    obtain name ss where x: "x = (name, ss)" by (cases x)
    from Cons.prems x obtain u where "gate_action p name = Inr u" "foldE (resolve_one p now) outs (gs @ [u]) = Inr paired"
      by (auto simp: resolve_one_def)
    with Cons.IH [of "gs @ [u]"] have i: "\<forall>v\<in>set paired. v = u \<or> v \<in> set gs \<or>
      (\<exists>name ss. (name, ss) \<in> set outs \<and> gate_action p name = Inr v)" by auto
    have "(name, ss) \<in> set (x # outs)" by (simp add: x)
    with i \<open>gate_action p name = Inr u\<close> show ?case by (metis list.set_intros(2))
  qed simp
  with assms show ?thesis by (force simp: resolve_gate_outputs_def)
qed

lemma ends_samples:
  assumes inv: "device_inv B ep s" and td: "todo s now" and ends: "distinct is"
    "set is = event_id ` {a \<in> set (reservations s). sch_end a = now}"
    and first: "\<forall>a\<in>set (reservations s). todo s (sch_start a) \<longrightarrow> now \<le> sch_start a"
  shows "\<exists>E. foldE (gather_sample (active s)) is [] = Inr (map meas_ref (filter acquires E)) \<and> map event_id E = is \<and>
    set E \<subseteq> {a \<in> set (reservations s). sch_end a = now}"
proof -
  have act: "\<exists>a. om_find i (active s) = Some a \<and> event_id a = i \<and> a \<in> set (reservations s) \<and> sch_end a = now" if "i \<in> set is" for i
  proof -
    have "i \<in> event_id ` {a \<in> set (reservations s). sch_end a = now}" using that by (simp only: ends(2))
    then obtain a where a: "a \<in> set (reservations s)" "sch_end a = now" "event_id a = i" by (elim imageE) auto
    have "om_find (event_id a) (active s) = Some a" by (rule ends_active [OF inv a(1,2) td]) (use first a(1) in blast)
    with a show ?thesis by (intro exI [of _ a]) simp
  qed
  have "\<exists>E. foldE (gather_sample (active s)) js rs = Inr (rs @ map meas_ref (filter acquires E)) \<and> map event_id E = js \<and>
    set E \<subseteq> {a \<in> set (reservations s). sch_end a = now}" if "set js \<subseteq> set is" for js rs
    using that
  proof (induction js arbitrary: rs)
    case (Cons i js)
    then have "i \<in> set is" by simp
    from act [OF this] obtain a where a: "om_find i (active s) = Some a" "event_id a = i" "a \<in> set (reservations s)" "sch_end a = now"
      by (elim exE conjE)
    from inv a(3) have "acquires a \<longrightarrow> oe_reference (sch_event a) = Some (meas_ref a)"
      unfolding device_inv_def scheduled_ok_def by blast
    then have g: "gather_sample (active s) i rs = Inr (rs @ (if acquires a then [meas_ref a] else []))"
      using a(1) by (auto simp: gather_sample_def acquires_def)
    from Cons obtain E where "foldE (gather_sample (active s)) js (rs @ (if acquires a then [meas_ref a] else [])) =
        Inr ((rs @ (if acquires a then [meas_ref a] else [])) @ map meas_ref (filter acquires E))" "map event_id E = js"
      "set E \<subseteq> {a \<in> set (reservations s). sch_end a = now}" by fastforce
    with g a show ?case by (intro exI [of _ "a # E"]) auto
  qed simp
  from this [of "is" "[]"] show ?thesis by auto
qed

text \<open>
  The stages of \<open>ce_boundary\<close> at the next boundary, in order: the acquisitions that end, the checks
  of what starts, the gates to apply, the outputs that start, and the results that are ready.
\<close>

lemma stage_samples:
  assumes inv: "device_inv B ep s" and next_b: "next_boundary s = Some now" and bd: "om_find now (boundaries s) = Some bd"
  obtains E where "foldE (gather_sample (active s)) (bd_ends bd) [] = Inr (map meas_ref (filter acquires E))"
    "map event_id E = bd_ends bd" "\<And>a. a \<in> set E \<Longrightarrow> a \<in> set (reservations s) \<and> sch_end a = now"
    "distinct (map ref_target (map meas_ref (filter acquires E)))"
proof -
  obtain td: "todo s now" and le: "last_tick s \<le> now" and first: "\<forall>t. om_find t (boundaries s) \<noteq> None \<longrightarrow> now \<le> t"
    using first_boundary [OF inv next_b] by blast
  note c = boundary_contents [OF inv bd first td]
  from inv have cp: "compatible (reservations s)" by (simp add: device_inv_def)
  have "\<forall>a\<in>set (reservations s). todo s (sch_start a) \<longrightarrow> now \<le> sch_start a" using c(8) by blast
  from ends_samples [OF inv td c(4,3) this] obtain E where E:
    "foldE (gather_sample (active s)) (bd_ends bd) [] = Inr (map meas_ref (filter acquires E))"
    "map event_id E = bd_ends bd" "set E \<subseteq> {a \<in> set (reservations s). sch_end a = now}" by (elim exE conjE)
  have inR: "a \<in> set (reservations s) \<and> sch_end a = now" if "a \<in> set E" for a using E(3) that by auto
  have "distinct (map event_id E)" using c(4) by (simp only: E(2))
  then have dE: "distinct E" by (simp add: distinct_map)
  have "distinct (map ref_target (map meas_ref (filter acquires E)))"
    unfolding map_map distinct_map
  proof
    show "distinct (filter acquires E)" using dE by simp
    show "inj_on (ref_target \<circ> meas_ref) (set (filter acquires E))"
    proof (rule inj_onI)
      fix a b assume ab: "a \<in> set (filter acquires E)" "b \<in> set (filter acquires E)" "(ref_target \<circ> meas_ref) a = (ref_target \<circ> meas_ref) b"
      with acquisitions_apart [OF inv, of a now b] inR have "event_id a = event_id b" by simp
      with compatible_inj [OF cp] ab inR show "a = b" by simp
    qed
  qed
  with E inR show thesis by (intro that)
qed

lemma stage_starts:
  assumes inv: "device_inv B ep s" and S: "\<forall>a\<in>set as. a \<in> set (reservations s) \<and> sch_start a = now"
    and E: "\<And>a. a \<in> set E \<Longrightarrow> a \<in> set (reservations s) \<and> sch_end a = now"
  shows "\<exists>gs outs. foldE (check_start B ep (map ref_target (map meas_ref (filter acquires E))) s) as ([], []) = Inr (gs, outs) \<and>
    gates_from (set as) (gs, outs)"
proof -
  let ?sampled = "map ref_target (map meas_ref (filter acquires E))"
  have "\<forall>a\<in>set as. oe_epoch (sch_event a) = ep \<and> ce_validate B (action (sch_event a)) s = Inr () \<and>
      (is_gate (action (sch_event a)) \<longrightarrow> (\<forall>t\<in>set (targets (resolved a)). t \<notin> set ?sampled))"
  proof
    fix a assume "a \<in> set as"
    with S have a: "a \<in> set (reservations s)" "sch_start a = now" by simp_all
    with inv have "scheduled_ok B ep s a" by (simp add: device_inv_def)
    moreover have "t \<notin> set ?sampled" if "is_gate (action (sch_event a))" "t \<in> set (targets (resolved a))" for t
      using sample_start_apart [OF inv _ _ _ a(1) that(1) a(2)] E that(2) by auto
    ultimately show "oe_epoch (sch_event a) = ep \<and> ce_validate B (action (sch_event a)) s = Inr () \<and>
      (is_gate (action (sch_event a)) \<longrightarrow> (\<forall>t\<in>set (targets (resolved a)). t \<notin> set ?sampled))"
      unfolding scheduled_ok_def by blast
  qed
  moreover have "gates_from (set as) ([], [])" by (simp add: gates_from_def)
  ultimately show ?thesis using check_starts [OF _ subset_refl] by (metis prod.exhaust)
qed

lemma stage_gates:
  assumes S: "\<forall>a\<in>S. scheduled_ok B ep s a" and g: "gates_from S (gs, outs)"
    and p: "resolve_gate_outputs (ce_profile s) now outs = Inr paired"
  shows "\<forall>u\<in>set (gs @ paired). bx_validate B u (ce_backend s) = Inr ()"
    and "\<exists>tr. mapE (gate_event now ep (ce_profile s)) outs = Inr tr"
proof -
  have known: "\<exists>g u. dp_gate (ce_profile s) name = Inr g \<and> gate_action (ce_profile s) name = Inr u \<and>
      bx_validate B u (ce_backend s) = Inr ()" if "(name, ss) \<in> set outs" for name ss
  proof -
    from that g have ss: "ss \<noteq> []" "\<forall>a\<in>set ss. a \<in> S \<and> spec (action (sch_event a)) = SpecOutput \<lparr>output_gate = name\<rparr>"
      unfolding gates_from_def by fastforce+
    from ss(1) obtain b where "b \<in> set ss" by (cases ss) auto
    with ss(2) S output_gate_known [of B ep s b name] show ?thesis by auto
  qed
  show "\<forall>u\<in>set (gs @ paired). bx_validate B u (ce_backend s) = Inr ()"
  proof
    fix u assume "u \<in> set (gs @ paired)"
    then consider "u \<in> set gs" | "u \<in> set paired" by auto
    then show "bx_validate B u (ce_backend s) = Inr ()"
    proof cases
      case 1
      with g obtain a where a: "a \<in> S" "u = action (sch_event a)" "kind u = IdealGate" by (auto simp: gates_from_def)
      with S have "ce_validate B u s = Inr ()" by (auto simp: scheduled_ok_def)
      with a(3) show ?thesis by (auto simp: ce_validate_def kind_def split: ActionSpec.splits)
    next
      case 2
      with resolve_outputs_gates [OF p] known show ?thesis by fastforce
    qed
  qed
  have "\<exists>tr. mapE (gate_event now ep (ce_profile s)) os = Inr tr" if "set os \<subseteq> set outs" for os
    using that
  proof (induction os)
    case (Cons x os)
    obtain name ss where x: "x = (name, ss)" by (cases x)
    with Cons.prems known [of name ss] Cons.IH show ?case by (auto simp: gate_event_def)
  qed simp
  then show "\<exists>tr. mapE (gate_event now ep (ce_profile s)) outs = Inr tr" by blast
qed

lemma stage_active:
  assumes inv: "device_inv B ep s" and td: "todo s now" and S: "\<forall>a\<in>set as. a \<in> set (reservations s) \<and> sch_start a = now"
  shows "\<forall>a\<in>set as. om_find (event_id a) (active s) = None"
proof (intro ballI)
  fix a assume a: "a \<in> set as"
  show "om_find (event_id a) (active s) = None"
  proof (cases "om_find (event_id a) (active s)")
    case (Some b)
    with inv have b: "b \<in> set (reservations s)" "event_id b = event_id a" "\<not> todo s (sch_start b)"
      by (auto simp: device_inv_def active_ok_def)
    with inv a S compatible_inj have "b = a" by (metis device_inv_def)
    with b(3) a S td show ?thesis by auto
  qed
qed

lemma stage_ready:
  assumes inv: "device_inv B ep s" and td: "todo s now"
    and late: "\<forall>a\<in>set (reservations s). todo s (sch_end a) \<longrightarrow> now \<le> sch_end a"
    and E: "set (map event_id E) = event_id ` {a \<in> set (reservations s). sch_end a = now}" "set E \<subseteq> set (reservations s)"
    and r: "om_find i (readouts s) = Some r" "ro_ready r = now" "ro_sample r = None"
  shows "i \<in> measurement ` set (map meas_ref (filter acquires E))"
proof -
  from inv have ro: "readouts_ok s" and cp: "compatible (reservations s)" by (simp_all add: device_inv_def)
  from ro r(1) have m: "measurement (ro_reference r) = i" "ro_end r \<le> ro_ready r" unfolding readouts_ok_def by blast+
  from ro r(1,3) obtain a where a: "a \<in> set (reservations s)" "acquires a" "meas_ref a = ro_reference r" "sch_end a = ro_end r"
    "todo s (sch_end a)" unfolding readouts_ok_def by blast
  from late a m(2) r(2) have "sch_end a = now" by force
  with a(1) E(1) have "event_id a \<in> set (map event_id E)" by auto
  then obtain b where b: "b \<in> set E" "event_id b = event_id a" by auto
  with compatible_inj [OF cp _ a(1)] E(2) have "b = a" by blast
  with a(2,3) b(1) m(1) show ?thesis by force
qed

context quantum_backend
begin

lemma stage_evolve:
  assumes inv: "device_inv B ep s" and le: "last_tick s \<le> now"
    and x1: "(if last_tick s < now then bx_evolve B (last_tick s) now ds qs (ce_backend s) else Inr (ce_backend s)) = r"
  shows "r = Inl e \<Longrightarrow> e = BackendFailure"
    and "r = Inr x1 \<Longrightarrow> bx_epoch x1 = ep \<and> committed_tick x1 = now \<and>
      be_validate B a (bx_backend x1) = be_validate B a (bx_backend (ce_backend s))"
proof -
  from inv have c: "committed_tick (ce_backend s) = last_tick s" "bx_epoch (ce_backend s) = ep"
    by (simp_all add: device_inv_def tables_ok_def)
  show "r = Inl e \<Longrightarrow> e = BackendFailure"
    using x1 c le by (cases "last_tick s < now") (auto dest: bx_evolve_error)
  show "r = Inr x1 \<Longrightarrow> bx_epoch x1 = ep \<and> committed_tick x1 = now \<and>
      be_validate B a (bx_backend x1) = be_validate B a (bx_backend (ce_backend s))"
    using x1 c le by (cases "last_tick s < now") (auto dest: bx_evolve_frame simp: bx_evolve_validate)
qed

lemma boundary_errors:
  assumes inv: "device_inv B ep s" and next_b: "next_boundary s = Some now" and bd: "om_find now (boundaries s) = Some bd"
    and deliver: "\<forall>c e. \<exists>r. deliver c e = Inr r"
    and run: "ce_boundary B now ep deliver bd s env = Inl e"
  shows "e = GateInputMismatch \<or> e = BackendFailure"
proof (rule ccontr)
  assume no: "\<not> (e = GateInputMismatch \<or> e = BackendFailure)"
  obtain td: "todo s now" and le: "last_tick s \<le> now" and first: "\<forall>t. om_find t (boundaries s) \<noteq> None \<longrightarrow> now \<le> t"
    using first_boundary [OF inv next_b] by blast
  note c = boundary_contents [OF inv bd first td]
  have late: "\<forall>a\<in>set (reservations s). todo s (sch_end a) \<longrightarrow> now \<le> sch_end a" using c(9) by blast
  from inv have sch: "\<forall>a\<in>set (reservations s). scheduled_ok B ep s a" and ok: "om_ok (active s)" "om_ok (readouts s)"
    and ro: "readouts_ok s" by (simp_all add: device_inv_def tables_ok_def)
  have S: "\<forall>a\<in>set (bd_starts bd). a \<in> set (reservations s) \<and> sch_start a = now" using c(1) by simp
  from stage_samples [OF inv next_b bd] obtain E where E:
    "foldE (gather_sample (active s)) (bd_ends bd) [] = Inr (map meas_ref (filter acquires E))"
    "map event_id E = bd_ends bd" "\<And>a. a \<in> set E \<Longrightarrow> a \<in> set (reservations s) \<and> sch_end a = now"
    "distinct (map ref_target (map meas_ref (filter acquires E)))" by blast
  define samples where "samples = map meas_ref (filter acquires E)"
  from stage_starts [OF inv S E(3)] obtain gs outs where g:
    "foldE (check_start B ep (map ref_target samples) s) (bd_starts bd) ([], []) = Inr (gs, outs)"
    "gates_from (set (bd_starts bd)) (gs, outs)" unfolding samples_def by blast
  have S': "\<forall>a\<in>set (bd_starts bd). scheduled_ok B ep s a \<and> sch_start a = now" using S sch by blast
  obtain paired where p: "resolve_gate_outputs (ce_profile s) now outs = Inr paired"
  proof (cases "resolve_gate_outputs (ce_profile s) now outs")
    case (Inl e')
    with run E(1,4) g(1) have "e = e'" by (simp add: ce_boundary_def inspect_def samples_def)
    with resolve_outputs_error [OF Inl g(2) S'] no show ?thesis by simp
  qed (rule that)
  have ins: "inspect B now ep bd s = Inr (samples, gs @ paired, outs)"
    using E(1,4) g(1) p by (simp add: inspect_def samples_def)
  obtain x1 where x1: "(if last_tick s < now
      then bx_evolve B (last_tick s) now (active_drives (active s)) (active_acquisitions (active s)) (ce_backend s)
      else Inr (ce_backend s)) = Inr x1" (is "?evolve = _")
  proof (cases ?evolve)
    case (Inl e')
    with run ins have "e = e'" by (simp add: ce_boundary_def)
    with stage_evolve(1) [OF inv le refl Inl] no show ?thesis by simp
  qed (rule that)
  note v1 = stage_evolve(2) [OF inv le refl x1]
  obtain results x2 where x2: "bx_measure B now samples x1 = Inr (results, x2)"
  proof (cases "bx_measure B now samples x1")
    case (Inl e')
    with run ins x1 have "e = e'" by (simp add: ce_boundary_def)
    moreover have "\<forall>r\<in>set samples. ref_epoch r = bx_epoch x1"
      using sch E(3) v1 by (auto simp: samples_def scheduled_ok_def)
    ultimately show ?thesis using bx_measure_error [OF Inl] v1 E(4) no by (simp add: samples_def)
  next
    case (Inr m)
    then show ?thesis by (cases m) (auto intro: that)
  qed
  from bx_measure_frame [OF x2] v1 have v2: "committed_tick x2 = now" "length results = length samples" by simp_all
  have "\<forall>x\<in>set samples. om_find (measurement x) (readouts s) \<noteq> None"
  proof
    fix x assume "x \<in> set samples"
    then obtain a where a: "a \<in> set E" "acquires a" "x = meas_ref a" by (auto simp: samples_def)
    with E(3) td have "a \<in> set (reservations s)" "todo s (sch_end a)" by auto
    with ro a(2,3) show "om_find (measurement x) (readouts s) \<noteq> None" unfolding readouts_ok_def by fastforce
  qed
  from samples_succeed [OF this] obtain ros tr1 where
    sam: "foldE (sample_readout now ep) (zip samples results) (readouts s, []) = Inr (ros, tr1)" by blast
  from end_actions_succeed [OF c(4) inspect_samples(1) [OF E(1)]] obtain act tr2 where
    fin: "foldE (end_action now ep) (bd_ends bd) (active s, tr1) = Inr (act, tr2)" by blast
  note v3 = stage_gates [OF _ g(2) p]
  obtain x3 where x3: "bx_apply B now (gs @ paired) x2 = Inr x3"
  proof (cases "bx_apply B now (gs @ paired) x2")
    case (Inl e')
    with run ins x1 x2 sam fin have "e = e'" by (simp add: ce_boundary_def)
    have "be_validate B u (bx_backend x2) = be_validate B u (bx_backend (ce_backend s))" for u
      using bx_measure_validate [OF x2] v1 by simp
    moreover have "\<forall>u\<in>set (gs @ paired). bx_validate B u (ce_backend s) = Inr ()"
      by (rule v3(1)) (use S' in blast)
    ultimately have "\<forall>u\<in>set (gs @ paired). bx_validate B u x2 = Inr ()" by (simp add: bx_validate_def)
    with bx_apply_error [OF Inl] v2 no \<open>e = e'\<close> show ?thesis by simp
  qed (rule that)
  from v3(2) S' obtain tr3 where tr3: "mapE (gate_event now ep (ce_profile s)) outs = Inr tr3" by blast
  have "\<forall>a\<in>set (bd_starts bd). om_find (event_id a) act = None"
    using stage_active [OF inv td S] end_actions_effect [OF fin ok(1)] by simp
  from start_actions_succeed [OF c(2) this] obtain act' tr4 where
    sta: "foldE (start_action now ep) (bd_starts bd) (act, tr2 @ tr3) = Inr (act', tr4)" by blast
  have "\<forall>i\<in>set (bd_ready bd). \<exists>r. om_find i ros = Some r \<and> ro_sample r \<noteq> None"
  proof
    fix i assume "i \<in> set (bd_ready bd)"
    with c(5) obtain r where r: "om_find i (readouts s) = Some r" "ro_ready r = now" by blast
    from samples_effect [OF sam v2(2) ok(2)] r(1) obtain r' where r': "om_find i ros = Some r'" by auto
    with samples_effect [OF sam v2(2) ok(2)] r(1) have "ro_sample r' = None \<longleftrightarrow> ro_sample r = None \<and> i \<notin> measurement ` set samples"
      by fastforce
    moreover have "ro_sample r = None \<Longrightarrow> i \<in> measurement ` set samples"
      unfolding samples_def by (rule stage_ready [OF inv td late _ _ r]) (use c(3) E(2,3) in auto)
    ultimately show "\<exists>r. om_find i ros = Some r \<and> ro_sample r \<noteq> None" using r' by blast
  qed
  from deliveries_succeed [OF c(6) this deliver] obtain z where
    "foldE (deliver_ready now ep deliver) (bd_ready bd) (ros, env, tr4) = Inr z" by blast
  with run ins x1 x2 sam fin x3 tr3 sta show False by (cases z) (simp add: ce_boundary_def)
qed

end

end
