(* ===== verification/Electronics_Session.thy ===== *)
theory Electronics_Session
  imports Electronics_Properties
begin

text \<open>
  Sessions of the control electronics: the runs between two resets as an inductive relation, the
  invariant of the theory Electronics_Properties over them, and what follows for the results, the
  reserved outputs and the errors.
\<close>

section \<open>Runs\<close>

text \<open>
  A session from the power-on or a reset: launches whose outputs have positive durations, as the
  profile validation guarantees, accepted in the course of time, and the next boundary processed. \<open>acc\<close> are
  the readouts of the accepted launches and \<open>log\<close> the results delivered, with their ticks; the
  environment \<open>env\<close> that receives the results changes by itself.
\<close>

inductive device_run ::
  "'b Backend \<Rightarrow> Epoch \<Rightarrow> Readout list \<Rightarrow> (Tick \<times> Completion) list \<Rightarrow> 'b ControlElectronics \<Rightarrow> 'e \<Rightarrow> bool"
  for B :: "'b Backend" where
  power_on: "control_electronics B p b limit = Inr s \<Longrightarrow> device_run B 1 [] [] s env"
| reset: "ce_reset B now epoch s0 = Inr (s, tr) \<Longrightarrow> device_run B epoch [] [] s env"
| accept: "device_run B epoch acc log s env \<Longrightarrow> ce_accept B batch s = Inr (s', tr) \<Longrightarrow>
    ce_prepare B batch s = Inr (actions, rs) \<Longrightarrow> tr_epoch batch = epoch \<Longrightarrow>
    \<forall>e\<in>set (tr_events batch). 0 < es_duration (action e) \<Longrightarrow> last_tick s \<le> fire_tick batch \<Longrightarrow>
    device_run B epoch (acc @ rs) log s' env"
| boundary: "device_run B epoch acc log s env \<Longrightarrow> next_boundary s = Some now \<Longrightarrow>
    ce_process B now epoch (logged now deliver) s (env, log) = Inr (s', (env', log'), tr) \<Longrightarrow>
    device_run B epoch acc log' s' env'"
| environment: "device_run B epoch acc log s env \<Longrightarrow> device_run B epoch acc log s env'"

lemma fresh_inv:
  "device_inv B epoch \<lparr>ce_profile = p, ce_backend = x, reservations = [], boundaries = [], active = [], readouts = [],
     last_tick = t, processed_tick = None\<rparr>"
  if "committed_tick x = t" "bx_epoch x = epoch"
  using that by (simp add: device_inv_def tables_ok_def compatible_def timeline_ok_def boundary_at_def active_ok_def
      readouts_ok_def todo_def)

lemma process_boundary:
  assumes "device_inv B epoch s" and "next_boundary s = Some now"
  obtains bd where "om_find now (boundaries s) = Some bd"
    "ce_process B now epoch deliver s env = ce_boundary B now epoch deliver bd s env"
proof -
  from first_boundary [OF assms] obtain bd where "om_find now (boundaries s) = Some bd" "todo s now" "last_tick s \<le> now"
    by metis
  then show thesis by (intro that [of bd]) (auto simp: ce_process_def todo_def)
qed

lemma device_run_inv:
  assumes q: "quantum_backend B same" and "device_run B epoch acc log s env"
  shows "device_inv B epoch s \<and>
    mset (map due_of acc) = mset (map done_of log) + mset (map (\<lambda>e. due_of (snd e)) (readouts s))"
  using assms(2)
proof (induction rule: device_run.induct)
  case (power_on p b limit s env)
  then show ?case
    by (auto simp: control_electronics_def dest!: bx_reset_frame intro!: fresh_inv)
next
  case (reset now epoch s0 s tr env)
  then obtain x where xr: "bx_reset B (dp_qubits (ce_profile s0)) (dp_seed (ce_profile s0)) epoch now (ce_backend s0) = Inr x" and
    s: "s = s0\<lparr>ce_backend := x, reservations := [], boundaries := [], active := [], readouts := [],
            last_tick := now, processed_tick := None\<rparr>"
    by (auto simp: ce_reset_def)
  from bx_reset_frame [OF xr] have x: "committed_tick x = now" "bx_epoch x = epoch" by simp_all
  have "s = \<lparr>ce_profile = ce_profile s0, ce_backend = x, reservations = [], boundaries = [], active = [], readouts = [],
     last_tick = now, processed_tick = None\<rparr>" by (simp add: s)
  with fresh_inv [OF x] show ?case by simp
next
  case (accept epoch acc log s env batch s' tr actions rs)
  from accept have inv: "device_inv B epoch s'" by (intro accept_inv [OF _ accept(2)]) auto
  from accept(3) have p: "ro_prepare actions (tr_epoch batch) (readouts s) = Inr rs" by (auto simp: ce_prepare_def)
  from accept(2,3) have s': "readouts s' = fold (\<lambda>r. om_set (measurement (ro_reference r)) r) rs (readouts s)"
    by (auto simp: ce_accept_eq)
  have "mset (map (\<lambda>e. due_of (snd e)) (readouts s')) = mset (map (\<lambda>e. due_of (snd e)) (readouts s)) + mset (map due_of rs)"
    using mset_om_sets [OF ro_prepare_facts(2,3) [OF p]] by (simp add: s' multiset.map_comp comp_def)
  with inv accept show ?case by simp
next
  case (boundary epoch acc log s env now deliver s' env' log' tr)
  then have inv: "device_inv B epoch s" by simp
  from process_boundary [OF inv boundary(2)] obtain bd where bd: "om_find now (boundaries s) = Some bd"
    "ce_boundary B now epoch (logged now deliver) bd s (env, log) = Inr (s', (env', log'), tr)"
    using boundary(3) by metis
  from quantum_backend.boundary_inv [OF q inv boundary(2) bd] obtain new where "device_inv B epoch s'" "log' = log @ new"
    "mset (map (\<lambda>e. due_of (snd e)) (readouts s)) = mset (map done_of new) + mset (map (\<lambda>e. due_of (snd e)) (readouts s'))"
    by blast
  with boundary show ?case by simp
qed simp_all

lemma drained_readouts:
  assumes "device_inv B epoch s" and "boundaries s = []"
  shows "readouts s = []"
proof (rule ccontr)
  assume "readouts s \<noteq> []"
  then obtain i r m where m: "readouts s = (i, r) # m" by (cases "readouts s") auto
  then have "om_find i (readouts s) = Some r" by (simp add: om_find_Cons)
  with assms(1) have "todo s (ro_ready r)" by (auto simp: device_inv_def readouts_ok_def)
  with assms(1) have "mset (bd_ready (boundary_at (ro_ready r) (boundaries s))) =
      mset (map fst (filter (\<lambda>e. ro_ready (snd e) = ro_ready r) (readouts s)))"
    by (simp add: device_inv_def timeline_ok_def Let_def del: mset_map)
  with m assms(2) show False by (simp add: boundary_at_def)
qed




section \<open>A session\<close>

definition acquisition :: EventSpec where
  "acquisition = \<lparr>es_port = 0, es_delay = 0, es_duration = 5, spec = SpecAcquire \<lparr>acquire_operation = ''m'',
     acquire_operands = \<lparr>op_targets = [1], op_resources = []\<rparr>, discriminator_delay = 3, separate_arm = False\<rparr>\<rparr>"

definition half_gate :: EventSpec where
  "half_gate = \<lparr>es_port = 1, es_delay = 0, es_duration = 4, spec = SpecOutput \<lparr>output_gate = ''cz''\<rparr>\<rparr>"

definition launch_event :: "Id \<Rightarrow> EventSpec \<Rightarrow> MeasurementReference option \<Rightarrow> OperationEvent" where
  "launch_event i a r = \<lparr>oe_epoch = 1, oe_id = i, oe_instruction = 1, oe_label = 1, source_port = es_port a, oe_codeword = 0,
     action = a, oe_reference = r, oe_core = None\<rparr>"

definition launch_at :: "Tick \<Rightarrow> OperationEvent list \<Rightarrow> TriggeredEvents" where
  "launch_at t es = \<lparr>tr_epoch = 1, tr_label = 1, fire_tick = t, tr_events = es\<rparr>"

definition example_device :: DeviceProfile where
  "example_device = \<lparr>dp_qubits = 2, dp_seed = 0, dp_gates = [\<lparr>tq_name = ''cz'', tq_operation = ''cz'', tq_targets = [0, 1],
     tq_inputs = [\<lparr>in_core = 0, in_port = 1, in_codeword = 0\<rparr>, \<lparr>in_core = 0, in_port = 2, in_codeword = 0\<rparr>],
     tq_resources = [], tq_duration = 4\<rparr>]\<rparr>"

definition ref7 :: MeasurementReference where
  "ref7 = \<lparr>ref_epoch = 1, measurement = 7, ref_target = 1\<rparr>"

definition launch7 :: TriggeredEvents where
  "launch7 = launch_at 10 [launch_event 1 acquisition (Some ref7)]"

definition output7 :: ScheduledEvent where
  "output7 = \<lparr>sch_event = launch_event 1 acquisition (Some ref7), sch_start = 10, sch_end = 15, resolved = acquisition\<rparr>"

definition readout7 :: "bool option \<Rightarrow> Readout" where
  "readout7 v = \<lparr>ro_reference = ref7, ro_end = 15, ro_arm = 10, ro_ready = 18, ro_sample = v, ro_core = None\<rparr>"

definition session_start :: "MockBackend ControlElectronics" where
  "session_start = \<lparr>ce_profile = example_device, ce_backend = \<lparr>bx_backend = example_mock, max_batch = 4, bx_pending = [],
     bx_epoch = 1, committed_tick = 0\<rparr>, reservations = [], boundaries = [], active = [], readouts = [],
     last_tick = 0, processed_tick = None\<rparr>"

definition session_launched :: "MockBackend ControlElectronics" where
  "session_launched = session_start\<lparr>reservations := [output7], readouts := [(7, readout7 None)],
     boundaries := [(10, \<lparr>bd_starts = [output7], bd_ends = [], bd_ready = []\<rparr>),
       (15, \<lparr>bd_starts = [], bd_ends = [1], bd_ready = []\<rparr>), (18, \<lparr>bd_starts = [], bd_ends = [], bd_ready = [7]\<rparr>)]\<rparr>"

definition session_active :: "MockBackend ControlElectronics" where
  "session_active = session_launched\<lparr>active := [(1, output7)], last_tick := 10, processed_tick := Some 10,
     boundaries := tl (boundaries session_launched),
     ce_backend := (ce_backend session_start)\<lparr>committed_tick := 10, bx_pending :=
       [Evolution \<lparr>evo_start = 0, evo_tick = 10, drives = [], acquisitions = []\<rparr>]\<rparr>\<rparr>"

definition session_sampled :: "MockBackend ControlElectronics" where
  "session_sampled = session_active\<lparr>active := [], last_tick := 15, processed_tick := Some 15,
     boundaries := tl (boundaries session_active), readouts := [(7, readout7 (Some True))],
     ce_backend := (ce_backend session_start)\<lparr>committed_tick := 15, bx_backend := example_mock\<lparr>calls := 1\<rparr>\<rparr>\<rparr>"

definition session_answered :: "MockBackend ControlElectronics" where
  "session_answered = session_sampled\<lparr>last_tick := 18, processed_tick := Some 18, boundaries := [], readouts := [],
     reservations := [],
     ce_backend := (ce_backend session_sampled)\<lparr>committed_tick := 18, bx_pending :=
       [Evolution \<lparr>evo_start = 15, evo_tick = 18, drives = [], acquisitions = []\<rparr>]\<rparr>\<rparr>"

lemma session_start: "control_electronics mock_backend example_device example_mock 4 = Inr session_start"
  by (simp add: control_electronics_def backend_execution_def bx_reset_def mock_backend_def mock_reset_def
      example_mock_def example_device_def session_start_def)

lemmas launch_simps = ce_accept_def ce_prepare_def ce_resolve_def resolve_event_def ce_validate_def resolve_output_def
  bx_validate_def rs_check_def rs_reserve_def check_one_def ro_prepare_def count_readout_def prepare_readout_def
  ro_insert_def add_start_def add_end_def add_ready_def boundary_at_def Let_def om_find_Cons checked_add_def tick_max_def
  kind_def targets_def is_arm_def om_incr_def om_count_of_def om_emplace_def mock_backend_def mock_validate_def

lemmas boundary_simps = next_boundary_def ce_process_def ce_boundary_def inspect_def gather_sample_def check_start_def
  resolve_gate_outputs_def bx_evolve_def bx_measure_def bx_apply_def commit_def Let_def sample_readout_def
  ro_sample_value_def ro_at_def ro_result_def ro_erase_def end_action_def start_action_def deliver_ready_def discard_before_def
  om_find_Cons om_erase_def ce_validate_def bx_validate_def is_gate_def kind_def targets_def mock_backend_def
  mock_validate_def active_drives_def active_acquisitions_def activity_def bx_execute_def mock_execute_def
  mock_operation_def mock_outcome_def

lemmas session_simps = launch7_def launch_at_def launch_event_def ref7_def output7_def readout7_def acquisition_def
  session_start_def session_launched_def session_active_def session_sampled_def session_answered_def example_mock_def

abbreviation quiet :: "unit delivery" where
  "quiet \<equiv> \<lambda>_ _. Inr ([], ())"

lemma session_prepare: "ce_prepare mock_backend launch7 session_start = Inr ([output7], [readout7 None])"
  by (simp add: launch_simps session_simps)

lemma session_accept: "\<exists>tr. ce_accept mock_backend launch7 session_start = Inr (session_launched, tr)"
  by (simp add: launch_simps session_simps)

lemma session_boundaries:
  "\<exists>tr. ce_process mock_backend 10 1 (logged 10 quiet) session_launched ((), []) = Inr (session_active, ((), []), tr)"
  "\<exists>tr. ce_process mock_backend 15 1 (logged 15 quiet) session_active ((), []) = Inr (session_sampled, ((), []), tr)"
  "\<exists>tr. ce_process mock_backend 18 1 (logged 18 quiet) session_sampled ((), []) =
     Inr (session_answered, ((), [(18, \<lparr>reference = ref7, outcome = True\<rparr>)]), tr)"
  by (simp_all add: boundary_simps session_simps logged_def)


lemma session_run:
  "device_run mock_backend 1 [readout7 None] [] session_launched ()"
  "device_run mock_backend 1 [readout7 None] [(18, \<lparr>reference = ref7, outcome = True\<rparr>)] session_answered ()"
proof -
  from session_accept obtain tr where "ce_accept mock_backend launch7 session_start = Inr (session_launched, tr)" by blast
  from device_run.accept [OF device_run.power_on [OF session_start] this session_prepare]
  show l: "device_run mock_backend 1 [readout7 None] [] session_launched ()"
    by (simp add: launch7_def launch_at_def launch_event_def acquisition_def session_start_def)
  from session_boundaries obtain t1 t2 t3 where
    b: "ce_process mock_backend 10 1 (logged 10 quiet) session_launched ((), []) = Inr (session_active, ((), []), t1)"
    "ce_process mock_backend 15 1 (logged 15 quiet) session_active ((), []) = Inr (session_sampled, ((), []), t2)"
    "ce_process mock_backend 18 1 (logged 18 quiet) session_sampled ((), []) =
       Inr (session_answered, ((), [(18, \<lparr>reference = ref7, outcome = True\<rparr>)]), t3)" by blast
  have n: "next_boundary session_launched = Some 10" "next_boundary session_active = Some 15" "next_boundary session_sampled = Some 18"
    by (simp_all add: next_boundary_def session_launched_def session_active_def session_sampled_def)
  from device_run.boundary [OF device_run.boundary [OF device_run.boundary [OF l n(1) b(1)] n(2) b(2)] n(3) b(3)]
  show "device_run mock_backend 1 [readout7 None] [(18, \<lparr>reference = ref7, outcome = True\<rparr>)] session_answered ()" .
qed


definition drive :: EventSpec where
  "drive = \<lparr>es_port = 2, es_delay = 2, es_duration = 6, spec = SpecPulse \<lparr>pulse_operation = ''x'',
     pulse_operands = \<lparr>op_targets = [0], op_resources = []\<rparr>, pulse_amplitude = Finite 1 0, pulse_axis = ''x'',
     pulse_flag = Always\<rparr>\<rparr>"

definition launch_two :: TriggeredEvents where
  "launch_two = launch_at 10 [launch_event 1 acquisition (Some ref7), launch_event 2 drive None]"

definition output_drive :: ScheduledEvent where
  "output_drive = \<lparr>sch_event = launch_event 2 drive None, sch_start = 12, sch_end = 18, resolved = drive\<rparr>"

lemma two_prepare: "ce_prepare mock_backend launch_two session_start = Inr ([output7, output_drive], [readout7 None])"
  by (simp add: launch_simps session_simps launch_two_def drive_def output_drive_def pair_def common_target_def
      overlapping_def same_gate_def exclusive_clash_def resources_def measurement_gate_def is_gate_def)

lemma two_accept:
  "\<exists>s tr. ce_accept mock_backend launch_two session_start = Inr (s, tr) \<and> reservations s = [output7, output_drive]"
  using two_prepare by (simp add: ce_accept_eq session_start_def)


definition launch_half :: TriggeredEvents where
  "launch_half = launch_at 10 [launch_event 3 half_gate None]"

definition output_half :: ScheduledEvent where
  "output_half = \<lparr>sch_event = launch_event 3 half_gate None, sch_start = 10, sch_end = 14,
     resolved = half_gate\<lparr>spec := SpecGate \<lparr>gate_operation = ''cz'', gate_operands = \<lparr>op_targets = [0, 1], op_resources = []\<rparr>,
       gate_amplitude = Finite 0 0, gate_flag = Always\<rparr>\<rparr>\<rparr>"

definition session_half :: "MockBackend ControlElectronics" where
  "session_half = session_start\<lparr>reservations := [output_half],
     boundaries := [(10, \<lparr>bd_starts = [output_half], bd_ends = [], bd_ready = []\<rparr>),
       (14, \<lparr>bd_starts = [], bd_ends = [3], bd_ready = []\<rparr>)]\<rparr>"

lemmas half_simps = launch_half_def output_half_def half_gate_def session_half_def dp_gate_def gate_action_def example_device_def
  input_of_def

lemma half_prepare: "ce_prepare mock_backend launch_half session_start = Inr ([output_half], [])"
  by (simp add: launch_simps session_simps half_simps)

lemma half_accept: "\<exists>tr. ce_accept mock_backend launch_half session_start = Inr (session_half, tr)"
  by (simp add: launch_simps session_simps half_simps)


end
