(* ===== verification/Pipeline.thy ===== *)
theory Pipeline
  imports Isa Memory Trace
begin

unbundle bit_operations_syntax

text \<open>
  The cycle model of a core's CPU, \<^verbatim>\<open>include/qsbit/cpu/*.hpp\<close> and \<^verbatim>\<open>src/cpu/*.cpp\<close>: a
  fetch request, a fetched instruction, a decode and an execute latch, with operands read when an
  instruction enters execute. \<open>Scalar\<close> is the model of \<^verbatim>\<open>CpuCycleModel\<close>, \<open>DualCodeword\<close> that of
  \<^verbatim>\<open>VliwCpuCycleModel\<close>, which also accepts bundles of two codewords. The callback \<open>control\<close> of the ports
  takes operations to the timing control; it has a state of its own, may fail, and emits events.
\<close>

datatype ControlIssue = Scalar | DualCodeword

record Fetch =
  fe_id :: Id
  fe_pc :: u32
  fe_generation :: Id

record Frame =
  fr_id :: Id
  fr_pc :: u32
  fr_word :: u32
  fr_lhs :: u32
  fr_rhs :: u32
  fr_fault :: "ErrorCode option"
  fr_decoded :: "Decoded option"
  fr_effect :: "Effect option"
  memory_request :: Id
  is_bundle :: bool
  fr_operations :: "ControlOperation list"
  completed_lanes :: nat

record Pipeline =
  issue :: ControlIssue
  cpu_clock :: Clock
  previous :: "CpuPipelineState option"
  sampled_epoch :: Epoch
  registers :: "u32 list"
  pc :: u32
  fetch_pc :: u32
  fetch_request :: "Fetch option"
  fetched :: "Frame option"
  decode_latch :: "Frame option"
  execute_latch :: "Frame option"
  next_fetch :: Id
  next_data :: Id
  generation :: Id
  halted :: bool

type_synonym 'c control = "ControlOperation \<Rightarrow> 'c \<Rightarrow> (u32 option \<times> TraceEvent list \<times> 'c) result"

section \<open>Bundles\<close>

definition bundle_opcode :: u32 where
  "bundle_opcode = 0x2b"

definition lane_word :: "u32 \<Rightarrow> nat \<Rightarrow> u32" where
  "lane_word word lane =
     (let slot = drop_bit (7 + 12 * lane) word AND 0xfff;
          port = slot AND 31; codeword = drop_bit 5 slot AND 31; modes = drop_bit 10 slot in
      0x0b OR push_bit 15 port OR push_bit 20 codeword OR push_bit 25 modes)"

definition decode_lane :: "u32 \<Rightarrow> Id \<Rightarrow> u32 list \<Rightarrow> nat \<Rightarrow> ControlOperation result" where
  "decode_lane word i regs lane =
     (let slot = drop_bit (7 + 12 * lane) word AND 0xfff in
      bindE (decode (lane_word word lane)) (\<lambda>d.
      adapt_quantum d i (regs ! unat (slot AND 31)) (regs ! unat (drop_bit 5 slot AND 31))))"

definition decode_cw_bundle :: "u32 \<Rightarrow> Id \<Rightarrow> u32 list \<Rightarrow> ControlOperation list result" where
  "decode_cw_bundle word i regs =
     require (word AND 0x8000007f = 0x2b) IllegalInstruction (mapE (decode_lane word i regs) [0, 1])"

section \<open>The state after a reset\<close>

definition cpu_reset :: "u32 \<Rightarrow> Pipeline \<Rightarrow> Pipeline" where
  "cpu_reset start p = p\<lparr>previous := None, registers := replicate 32 0, pc := start, fetch_pc := start,
     fetch_request := None, fetched := None, decode_latch := None, execute_latch := None,
     next_fetch := 1, next_data := 1, generation := 0, halted := False\<rparr>"

definition in_order_pipeline :: "Clock \<Rightarrow> u32 \<Rightarrow> ControlIssue \<Rightarrow> Pipeline" where
  "in_order_pipeline clock start iss = cpu_reset start
     \<lparr>issue = iss, cpu_clock = clock, previous = None, sampled_epoch = 0, registers = replicate 32 0, pc = 0,
      fetch_pc = 0, fetch_request = None, fetched = None, decode_latch = None, execute_latch = None,
      next_fetch = 1, next_data = 1, generation = 0, halted = False\<rparr>"

definition cpu_cycle :: "Tick \<Rightarrow> Pipeline \<Rightarrow> Tick" where
  "cpu_cycle now p = (now - phase (cpu_clock p)) div period (cpu_clock p)"

section \<open>Pipeline trace\<close>

definition frame_state :: "Frame option \<Rightarrow> CpuPipelineInstruction option" where
  "frame_state f = map_option (\<lambda>f. \<lparr>pi_id = fr_id f, pi_pc = fr_pc f, pi_word = Some (fr_word f), pi_discarded = False\<rparr>) f"

definition pipeline_state :: "Pipeline \<Rightarrow> CpuPipelineState" where
  "pipeline_state p = \<lparr>stages =
     [map_option (\<lambda>f. \<lparr>pi_id = fe_id f, pi_pc = fe_pc f, pi_word = None,
        pi_discarded = fe_generation f \<noteq> generation p \<or> halted p\<rparr>) (fetch_request p),
      frame_state (fetched p), frame_state (decode_latch p), frame_state (execute_latch p)], ps_halted = halted p\<rparr>"

definition sample_trace :: "Tick \<Rightarrow> Epoch \<Rightarrow> Pipeline \<Rightarrow> Pipeline \<times> TraceEvent list" where
  "sample_trace now epoch p =
     (if previous p \<noteq> None \<and> epoch = sampled_epoch p \<and> previous p = Some (pipeline_state p) then (p, [])
      else (p\<lparr>previous := Some (pipeline_state p), sampled_epoch := epoch\<rparr>,
            [pipeline_event now epoch (cpu_cycle now p) (pipeline_state p)]))"

section \<open>One cycle\<close>

text \<open>The response of the instruction port.\<close>

definition new_frame :: "Fetch \<Rightarrow> MemoryResponse \<Rightarrow> Frame" where
  "new_frame f r = \<lparr>fr_id = fe_id f, fr_pc = fe_pc f, fr_word = rs_value r, fr_lhs = 0, fr_rhs = 0,
     fr_fault = rs_fault r, fr_decoded = None, fr_effect = None, memory_request = 0, is_bundle = False,
     fr_operations = [\<lparr>co_instruction = 0, command = WaitCommand 0\<rparr>, \<lparr>co_instruction = 0, command = WaitCommand 0\<rparr>],
     completed_lanes = 0\<rparr>"

definition take_fetch :: "Tick \<Rightarrow> Epoch \<Rightarrow> MemoryPort \<Rightarrow> Pipeline \<Rightarrow> (Pipeline \<times> MemoryPort) result" where
  "take_fetch now epoch port p = (case mb_take now (responses port) of
      (None, _) \<Rightarrow> Inr (p, port)
    | (Some msg, box) \<Rightarrow>
        let port' = port\<lparr>responses := box\<rparr> in
        if env_epoch msg \<noteq> epoch then Inr (p, port')
        else (case fetch_request p of
            None \<Rightarrow> Inl Protocol
          | Some f \<Rightarrow>
              require (rs_id (env_value msg) = fe_id f) Protocol (
              if fe_generation f = generation p \<and> \<not> halted p
              then require (fetched p = None) Protocol (
                   Inr (p\<lparr>fetched := Some (new_frame f (env_value msg)), fetch_request := None\<rparr>, port'))
              else Inr (p\<lparr>fetch_request := None\<rparr>, port'))))"

text \<open>The codewords of a bundle, one after the other until one has to wait.\<close>

fun issue_lanes :: "'c control \<Rightarrow> ControlOperation list \<Rightarrow> nat \<Rightarrow> 'c \<Rightarrow> (nat \<times> TraceEvent list \<times> 'c) result" where
  "issue_lanes control [] n env = Inr (n, [], env)"
| "issue_lanes control (op # ops) n env =
     bindE (control op env) (\<lambda>(reply, tr, env').
     case reply of
       None \<Rightarrow> Inr (n, tr, env')
     | Some _ \<Rightarrow> bindE (issue_lanes control ops (n + 1) env') (\<lambda>(m, tr', env''). Inr (m, tr @ tr', env'')))"

text \<open>
  What the execute stage did: the frame, the value and the next address when the instruction is done, whether
  the pipeline has to be flushed and whether the CPU halts, and the data port, the counter of data requests,
  the events and the state of the callback.
\<close>

record 'c Executed =
  ex_frame :: Frame
  ex_done :: "(u32 \<times> u32) option"
  ex_flush :: bool
  ex_halt :: bool
  ex_data :: MemoryPort
  ex_next_data :: Id
  ex_trace :: "TraceEvent list"
  ex_env :: 'c

definition executing :: "Frame \<Rightarrow> MemoryPort \<Rightarrow> Id \<Rightarrow> 'c \<Rightarrow> 'c Executed" where
  "executing f data n env = \<lparr>ex_frame = f, ex_done = None, ex_flush = False, ex_halt = False, ex_data = data,
     ex_next_data = n, ex_trace = [], ex_env = env\<rparr>"

definition execute_bundle :: "'c control \<Rightarrow> 'c Executed \<Rightarrow> 'c Executed result" where
  "execute_bundle control x = (let f = ex_frame x in
     bindE (issue_lanes control (drop (completed_lanes f) (fr_operations f)) (completed_lanes f) (ex_env x)) (\<lambda>(n, tr, env).
     Inr (x\<lparr>ex_frame := f\<lparr>completed_lanes := n\<rparr>, ex_trace := tr, ex_env := env,
            ex_done := (if n = length (fr_operations f) then Some (0, fr_pc f + 4) else None)\<rparr>)))"

definition execute_quantum :: "'c control \<Rightarrow> Decoded \<Rightarrow> 'c Executed \<Rightarrow> 'c Executed result" where
  "execute_quantum control d x = (let f = ex_frame x in
     bindE (adapt_quantum d (fr_id f) (fr_lhs f) (fr_rhs f)) (\<lambda>op.
     bindE (control op (ex_env x)) (\<lambda>(reply, tr, env).
     Inr (x\<lparr>ex_trace := tr, ex_env := env, ex_done := map_option (\<lambda>v. (v, fr_pc f + 4)) reply\<rparr>))))"

definition execute_halt :: "'c control \<Rightarrow> 'c Executed \<Rightarrow> 'c Executed result" where
  "execute_halt control x = (let f = ex_frame x in
     bindE (control \<lparr>co_instruction = fr_id f, command = HaltCommand\<rparr> (ex_env x)) (\<lambda>(reply, tr, env).
     Inr (x\<lparr>ex_trace := tr, ex_env := env, ex_done := map_option (\<lambda>_. (0, fr_pc f + 4)) reply,
            ex_halt := reply \<noteq> None, ex_flush := reply \<noteq> None\<rparr>)))"

definition access_memory :: "Tick \<Rightarrow> Epoch \<Rightarrow> Effect \<Rightarrow> 'c Executed \<Rightarrow> 'c Executed result" where
  "access_memory now epoch e x = (let f = ex_frame x in
     if memory_request f = 0
     then if mb_full (requests (ex_data x)) then Inr x
          else bindE (checked_add (ex_next_data x) 1) (\<lambda>n.
               bindE (publish now epoch \<lparr>mr_id = ex_next_data x, mr_address = address e, mr_value = store_value e,
                  mr_width = eff_width e, mr_write = (memory e = Store), mr_instruction = False\<rparr> (requests (ex_data x))) (\<lambda>box.
               Inr (x\<lparr>ex_next_data := n, ex_data := (ex_data x)\<lparr>requests := box\<rparr>,
                      ex_frame := f\<lparr>memory_request := ex_next_data x\<rparr>\<rparr>)))
     else (case mb_take now (responses (ex_data x)) of
         (None, _) \<Rightarrow> Inr x
       | (Some msg, box) \<Rightarrow>
           let r = env_value msg in
           require (env_epoch msg = epoch \<and> rs_id r = memory_request f) Protocol (
           case rs_fault r of
             Some e \<Rightarrow> Inl e
           | None \<Rightarrow>
               bindE (if sign_extend_load e then sign_extend (rs_value r) (eff_width e * 8) else Inr (rs_value r)) (\<lambda>v.
               Inr (x\<lparr>ex_data := (ex_data x)\<lparr>responses := box\<rparr>, ex_done := Some (v, next_pc e)\<rparr>)))))"

definition execute_scalar :: "Tick \<Rightarrow> Epoch \<Rightarrow> Decoded \<Rightarrow> 'c Executed \<Rightarrow> 'c Executed result" where
  "execute_scalar now epoch d x = (let f = ex_frame x in
     bindE (case fr_effect f of Some e \<Rightarrow> Inr e | None \<Rightarrow> evaluate d (fr_pc f) (fr_lhs f) (fr_rhs f)) (\<lambda>e.
     let x' = x\<lparr>ex_frame := f\<lparr>fr_effect := Some e\<rparr>\<rparr> in
     if memory e = NoMemory then Inr (x'\<lparr>ex_done := Some (eff_value e, next_pc e), ex_flush := branch_taken e\<rparr>)
     else access_memory now epoch e x'))"

definition execute_frame ::
  "Tick \<Rightarrow> Epoch \<Rightarrow> 'c control \<Rightarrow> Frame \<Rightarrow> MemoryPort \<Rightarrow> Pipeline \<Rightarrow> 'c \<Rightarrow> 'c Executed result" where
  "execute_frame now epoch control f data p env = (case fr_fault f of
      Some e \<Rightarrow> Inl e
    | None \<Rightarrow> (case fr_decoded f of
        None \<Rightarrow> Inl Protocol
      | Some d \<Rightarrow>
          let x = executing f data (next_data p) env in
          if is_bundle f then execute_bundle control x
          else if dec_op d = Quantum then execute_quantum control d x
          else if dec_op d = Ecall \<and> registers p ! 17 = 93 then execute_halt control x
          else execute_scalar now epoch d x))"

definition retire :: "Frame \<Rightarrow> u32 \<Rightarrow> u32 \<Rightarrow> Tick \<Rightarrow> Epoch \<Rightarrow> Pipeline \<Rightarrow> Pipeline \<times> TraceEvent list" where
  "retire f v next now epoch p = (case fr_decoded f of
      None \<Rightarrow> (p, [])
    | Some d \<Rightarrow>
        let regs = (if dec_writes_rd d \<and> dec_rd d \<noteq> 0 then (registers p)[unat (dec_rd d) := v] else registers p)[0 := 0] in
        (p\<lparr>registers := regs, pc := next\<rparr>,
         [retired_event now epoch (fr_id f) (cpu_cycle now p)
            \<lparr>ir_pc = fr_pc f, ir_word = fr_word f, ir_rd = (if dec_writes_rd d then unat (dec_rd d) else 0),
             ir_next_pc = next, ir_value = v, ir_registers = regs\<rparr>]))"

definition stalled_event :: "Tick \<Rightarrow> Epoch \<Rightarrow> Frame \<Rightarrow> TraceEvent" where
  "stalled_event now epoch f = (trace_event now epoch ''CpuStalled'' (fr_id f) 0 0)
     \<lparr>ev_detail := (case fr_decoded f of
        Some d \<Rightarrow> if dec_op d = Quantum \<or> dec_op d = Ecall then ''timing control or measurement register'' else ''memory response''
      | None \<Rightarrow> ''memory response'')\<rparr>"

text \<open>The execute stage: the pipeline, the data port, the callback's state, the flush and the events.\<close>

definition execute_stage ::
  "Tick \<Rightarrow> Epoch \<Rightarrow> 'c control \<Rightarrow> MemoryPort \<Rightarrow> Pipeline \<Rightarrow> 'c \<Rightarrow>
   (Pipeline \<times> MemoryPort \<times> 'c \<times> bool \<times> TraceEvent list) result" where
  "execute_stage now epoch control data p env = (case execute_latch p of
      None \<Rightarrow> Inr (p, data, env, False, [])
    | Some f \<Rightarrow>
        bindE (execute_frame now epoch control f data p env) (\<lambda>x.
        let p' = p\<lparr>next_data := ex_next_data x, halted := halted p \<or> ex_halt x\<rparr> in
        case ex_done x of
          Some (v, next) \<Rightarrow>
            let (p'', tr) = retire (ex_frame x) v next now epoch p' in
            Inr (p''\<lparr>execute_latch := None\<rparr>, ex_data x, ex_env x, ex_flush x, ex_trace x @ tr)
        | None \<Rightarrow> Inr (p'\<lparr>execute_latch := Some (ex_frame x)\<rparr>, ex_data x, ex_env x, ex_flush x,
                       ex_trace x @ [stalled_event now epoch (ex_frame x)])))"

definition flush_stage :: "Tick \<Rightarrow> Epoch \<Rightarrow> bool \<Rightarrow> Pipeline \<Rightarrow> (Pipeline \<times> TraceEvent list) result" where
  "flush_stage now epoch flush p =
     (if flush then bindE (checked_add (generation p) 1) (\<lambda>g.
        Inr (p\<lparr>decode_latch := None, fetched := None, generation := g, fetch_pc := pc p\<rparr>,
             [trace_event now epoch ''PipelineFlushed'' 0 0 0]))
      else Inr (p, []))"

text \<open>Decoding on the way into execute, where the operands are read; a fault waits for its turn.\<close>

definition decode_frame :: "Pipeline \<Rightarrow> Frame \<Rightarrow> Frame" where
  "decode_frame p f =
     (if fr_fault f \<noteq> None then f
      else if issue p = DualCodeword \<and> fr_word f AND 127 = bundle_opcode
      then (case decode_cw_bundle (fr_word f) (fr_id f) (registers p) of
          Inl e \<Rightarrow> f\<lparr>fr_fault := Some e\<rparr>
        | Inr ops \<Rightarrow> f\<lparr>fr_operations := ops, is_bundle := True,
            fr_decoded := Some \<lparr>dec_op = Quantum, dec_word = fr_word f, immediate = 0, dec_rd = 0, dec_rs1 = 0, dec_rs2 = 0,
              reads_rs1 = False, reads_rs2 = False, dec_writes_rd = False\<rparr>\<rparr>)
      else (case decode (fr_word f) of
          Inl e \<Rightarrow> f\<lparr>fr_fault := Some e\<rparr>
        | Inr d \<Rightarrow> f\<lparr>fr_decoded := Some d, fr_lhs := registers p ! unat (dec_rs1 d), fr_rhs := registers p ! unat (dec_rs2 d)\<rparr>))"

definition advance_stage :: "Pipeline \<Rightarrow> Pipeline" where
  "advance_stage p =
     (let p1 = (case (execute_latch p, decode_latch p) of
          (None, Some f) \<Rightarrow> p\<lparr>execute_latch := Some (decode_frame p f), decode_latch := None\<rparr>
        | _ \<Rightarrow> p) in
      case (decode_latch p1, fetched p1) of
        (None, Some f) \<Rightarrow> p1\<lparr>decode_latch := Some f, fetched := None\<rparr>
      | _ \<Rightarrow> p1)"

definition fetch_stage :: "Tick \<Rightarrow> Epoch \<Rightarrow> MemoryPort \<Rightarrow> Pipeline \<Rightarrow> (Pipeline \<times> MemoryPort) result" where
  "fetch_stage now epoch port p =
     (if fetch_request p = None \<and> fetched p = None \<and> \<not> mb_full (requests port)
      then bindE (checked_add (next_fetch p) 1) (\<lambda>n.
           bindE (publish now epoch \<lparr>mr_id = next_fetch p, mr_address = fetch_pc p, mr_value = 0, mr_width = 4,
              mr_write = False, mr_instruction = True\<rparr> (requests port)) (\<lambda>box.
           Inr (p\<lparr>next_fetch := n, fetch_pc := fetch_pc p + 4,
                  fetch_request := Some \<lparr>fe_id = next_fetch p, fe_pc = fetch_pc p, fe_generation = generation p\<rparr>\<rparr>,
                port\<lparr>requests := box\<rparr>)))
      else Inr (p, port))"

definition cpu_step ::
  "Tick \<Rightarrow> Epoch \<Rightarrow> 'c control \<Rightarrow> MemoryPort \<Rightarrow> MemoryPort \<Rightarrow> Pipeline \<Rightarrow> 'c \<Rightarrow>
   (Pipeline \<times> MemoryPort \<times> MemoryPort \<times> 'c \<times> TraceEvent list) result" where
  "cpu_step now epoch control fetch data p env =
     require (edge (cpu_clock p) now) Protocol (
     bindE (take_fetch now epoch fetch p) (\<lambda>(p1, fetch1).
     if halted p1
     then (let (p2, tr) = sample_trace now epoch p1 in Inr (p2, fetch1, data, env, tr))
     else
       bindE (execute_stage now epoch control data p1 env) (\<lambda>(p2, data1, env1, flush, tr1).
       bindE (flush_stage now epoch flush p2) (\<lambda>(p3, tr2).
       if halted p3
       then (let (p4, tr3) = sample_trace now epoch p3 in Inr (p4, fetch1, data1, env1, tr1 @ tr2 @ tr3))
       else
         bindE (fetch_stage now epoch fetch1 (advance_stage p3)) (\<lambda>(p4, fetch2).
         let (p5, tr3) = sample_trace now epoch p4 in
         Inr (p5, fetch2, data1, env1, tr1 @ tr2 @ tr3))))))"

end
