(* ===== verification/Cpu_Execution.thy ===== *)
theory Cpu_Execution
  imports Pipeline
begin

text \<open>
  The pipeline of the theory Pipeline against the instruction set: whatever the latencies of the
  memory and however often the timing control makes the CPU wait, the instructions that retire are
  those a machine would execute that fetches, decodes and executes one instruction after the other.
\<close>

unbundle bit_operations_syntax

section \<open>The sequential machine\<close>

definition is_cw_bundle :: "ControlIssue \<Rightarrow> u32 \<Rightarrow> bool" where
  "is_cw_bundle iss w \<longleftrightarrow> iss = DualCodeword \<and> w AND 127 = bundle_opcode"

definition write_back :: "Decoded \<Rightarrow> u32 \<Rightarrow> u32 list \<Rightarrow> u32 list" where
  "write_back d v regs = (if dec_writes_rd d \<and> dec_rd d \<noteq> 0 then regs[unat (dec_rd d) := v] else regs)"

text \<open>One instruction of the program \<open>code\<close> in the state \<open>at\<close>, \<open>regs\<close>.\<close>

definition retires :: "ControlIssue \<Rightarrow> (u32 \<Rightarrow> u32) \<Rightarrow> u32 \<Rightarrow> u32 list \<Rightarrow> InstructionRetired \<Rightarrow> bool" where
  "retires iss code at regs r \<longleftrightarrow> ir_pc r = at \<and> ir_word r = code at \<and>
     (if is_cw_bundle iss (code at)
      then (code at AND 0x8000007f = 0x2b) \<and> ir_next_pc r = at + 4 \<and> ir_registers r = regs
      else (\<exists>d. decode (code at) = Inr d \<and>
        ir_registers r = write_back d (ir_value r) regs \<and>
        (if dec_op d = Quantum then ir_next_pc r = at + 4
         else if dec_op d = Ecall then regs ! 17 = 93 \<and> ir_next_pc r = at + 4
         else (\<exists>e. evaluate d at (regs ! unat (dec_rs1 d)) (regs ! unat (dec_rs2 d)) = Inr e \<and>
                ir_next_pc r = next_pc e \<and> (memory e = NoMemory \<longrightarrow> ir_value r = eff_value e)))))"

definition halts :: "ControlIssue \<Rightarrow> u32 \<Rightarrow> bool" where
  "halts iss w \<longleftrightarrow> \<not> is_cw_bundle iss w \<and> (\<exists>d. decode w = Inr d \<and> dec_op d = Ecall)"

fun sequential :: "ControlIssue \<Rightarrow> (u32 \<Rightarrow> u32) \<Rightarrow> u32 \<Rightarrow> u32 list \<Rightarrow> InstructionRetired list \<Rightarrow> bool" where
  "sequential iss code at regs [] = True"
| "sequential iss code at regs (r # rs) =
     (retires iss code at regs r \<and> (halts iss (code at) \<longrightarrow> rs = []) \<and>
      sequential iss code (ir_next_pc r) (ir_registers r) rs)"

fun pc_after :: "u32 \<Rightarrow> InstructionRetired list \<Rightarrow> u32" where
  "pc_after at rs = (if rs = [] then at else ir_next_pc (last rs))"

fun registers_after :: "u32 list \<Rightarrow> InstructionRetired list \<Rightarrow> u32 list" where
  "registers_after regs rs = (if rs = [] then regs else ir_registers (last rs))"

lemma sequential_snoc:
  "sequential iss code at regs rs \<Longrightarrow>
   retires iss code (pc_after at rs) (registers_after regs rs) r \<Longrightarrow>
   \<forall>q\<in>set rs. \<not> halts iss (ir_word q) \<Longrightarrow> sequential iss code at regs (rs @ [r])"
proof (induction rs arbitrary: at regs)
  case (Cons q rs)
  then have q: "retires iss code at regs q" "sequential iss code (ir_next_pc q) (ir_registers q) rs"
    "\<not> halts iss (code at)" by (auto simp: retires_def)
  with Cons.IH [OF q(2)] Cons.prems show ?case by (simp split: if_splits)
qed simp

definition retirements :: "TraceEvent list \<Rightarrow> InstructionRetired list" where
  "retirements tr = List.map_filter (\<lambda>e. case ev_payload e of RetiredPayload r \<Rightarrow> Some r | _ \<Rightarrow> None) tr"

lemma retirements_simps [simp]:
  "retirements [] = []" "retirements (xs @ ys) = retirements xs @ retirements ys"
  "retirements [trace_event t ep k i l c] = []"
  "retirements [stalled_event t ep f] = []"
  "retirements [pipeline_event t ep c s] = []"
  "retirements [retired_event t ep i c r] = [r]"
  by (simp_all add: retirements_def map_filter_def trace_event_def stalled_event_def pipeline_event_def retired_event_def)

section \<open>Runs\<close>

text \<open>
  The CPU between its edges: the memory and the timing control may do anything to the ports and the
  state of the callback, as long as a response to the outstanding fetch that reports no fault carries
  the word of the program, and no response runs ahead of its request.
\<close>

definition answers :: "(u32 \<Rightarrow> u32) \<Rightarrow> Epoch \<Rightarrow> Pipeline \<Rightarrow> MemoryPort \<Rightarrow> bool" where
  "answers code epoch p port \<longleftrightarrow> (\<forall>m\<in>set (entries (responses port)). env_epoch m = epoch \<longrightarrow>
     rs_id (env_value m) < next_fetch p \<and>
     (\<forall>g. fetch_request p = Some g \<and> rs_id (env_value m) = fe_id g \<and> rs_fault (env_value m) = None \<longrightarrow>
        rs_value (env_value m) = code (fe_pc g)))"

type_synonym 'c cpu_state = "Pipeline \<times> MemoryPort \<times> MemoryPort \<times> 'c \<times> TraceEvent list"

inductive cpu_run ::
  "Clock \<Rightarrow> ControlIssue \<Rightarrow> u32 \<Rightarrow> Epoch \<Rightarrow> 'c control \<Rightarrow> (u32 \<Rightarrow> u32) \<Rightarrow> 'c cpu_state \<Rightarrow> bool"
  for clock iss start epoch control code where
  boot: "cpu_run clock iss start epoch control code (in_order_pipeline clock start iss, f, d, env, [])"
    if "entries (responses f) = []"
| edge: "cpu_run clock iss start epoch control code (p', f', d', env', tr @ tr')"
    if "cpu_run clock iss start epoch control code (p, f, d, env, tr)"
      and "cpu_step now epoch control f d p env = Inr (p', f', d', env', tr')"
| surroundings: "cpu_run clock iss start epoch control code (p, f', d', env', tr)"
    if "cpu_run clock iss start epoch control code (p, f, d, env, tr)" and "answers code epoch p f'"

section \<open>The invariant\<close>

fun chain :: "u32 \<Rightarrow> u32 list \<Rightarrow> bool" where
  "chain x [] = True"
| "chain x (y # ys) = (y = x \<and> chain (x + 4) ys)"

lemma chain_extend: "chain x (xs @ [y]) \<Longrightarrow> chain x (xs @ [y, y + 4])"
  by (induction xs arbitrary: x) auto

definition in_flight :: "Pipeline \<Rightarrow> u32 list" where
  "in_flight p = (case fetch_request p of
     Some g \<Rightarrow> if fe_generation g = generation p then [fe_pc g] else [] | None \<Rightarrow> [])"

definition opt_pcs :: "Frame option \<Rightarrow> u32 list" where
  "opt_pcs f = (case f of Some f \<Rightarrow> [fr_pc f] | None \<Rightarrow> [])"

lemma opt_pcs_simps [simp]: "opt_pcs None = []" "opt_pcs (Some f) = [fr_pc f]"
  by (simp_all add: opt_pcs_def)

definition pcs :: "Pipeline \<Rightarrow> u32 list" where
  "pcs p = opt_pcs (execute_latch p) @ opt_pcs (decode_latch p) @ opt_pcs (fetched p) @ in_flight p @ [fetch_pc p]"

definition carries :: "(u32 \<Rightarrow> u32) \<Rightarrow> Frame \<Rightarrow> bool" where
  "carries code f \<longleftrightarrow> (fr_fault f = None \<longrightarrow> fr_word f = code (fr_pc f))"

definition raw :: "(u32 \<Rightarrow> u32) \<Rightarrow> Frame \<Rightarrow> bool" where
  "raw code f \<longleftrightarrow> carries code f \<and> \<not> is_bundle f \<and> fr_decoded f = None \<and> fr_effect f = None \<and>
     completed_lanes f = 0 \<and> memory_request f = 0"

definition issued :: "(u32 \<Rightarrow> u32) \<Rightarrow> ControlIssue \<Rightarrow> u32 list \<Rightarrow> Frame \<Rightarrow> bool" where
  "issued code iss regs f \<longleftrightarrow> carries code f \<and> (fr_fault f = None \<longrightarrow>
     (if is_cw_bundle iss (fr_word f)
      then is_bundle f \<and> fr_word f AND 0x8000007f = 0x2b \<and> (\<exists>d. fr_decoded f = Some d \<and> \<not> dec_writes_rd d)
      else \<not> is_bundle f \<and> (\<exists>d. decode (fr_word f) = Inr d \<and> fr_decoded f = Some d \<and>
         fr_lhs f = regs ! unat (dec_rs1 d) \<and> fr_rhs f = regs ! unat (dec_rs2 d) \<and>
         (\<forall>e. fr_effect f = Some e \<longrightarrow> evaluate d (fr_pc f) (fr_lhs f) (fr_rhs f) = Inr e))))"

definition frames_ok :: "(u32 \<Rightarrow> u32) \<Rightarrow> Pipeline \<Rightarrow> bool" where
  "frames_ok code p \<longleftrightarrow>
     (\<forall>f. fetched p = Some f \<or> decode_latch p = Some f \<longrightarrow> raw code f) \<and>
     (\<forall>f. execute_latch p = Some f \<longrightarrow> issued code (issue p) (registers p) f) \<and>
     (\<forall>g. fetch_request p = Some g \<longrightarrow> fe_generation g \<le> generation p \<and> fe_id g < next_fetch p) \<and>
     length (registers p) = 32 \<and> registers p ! 0 = 0"

definition cpu_inv :: "(u32 \<Rightarrow> u32) \<Rightarrow> Pipeline \<Rightarrow> bool" where
  "cpu_inv code p \<longleftrightarrow> frames_ok code p \<and> (\<not> halted p \<longrightarrow> chain (pc p) (pcs p))"

lemma answers_subset:
  "answers code ep p port \<Longrightarrow> set (entries (responses port')) \<subseteq> set (entries (responses port)) \<Longrightarrow>
   answers code ep p port'"
  by (auto simp: answers_def)

lemma mb_take_set: "mb_take now m = (r, m') \<Longrightarrow> set (entries m') \<subseteq> set (entries m)"
  by (auto simp: mb_take_cases split: if_splits dest: list.set_sel(2))

lemma mb_take_Some: "mb_take now m = (Some e, m') \<Longrightarrow> e \<in> set (entries m)"
  by (auto simp: mb_take_cases split: if_splits)

lemma take_fetch_inv:
  assumes "take_fetch now ep port p = Inr (p', port')" and "cpu_inv code p" and "answers code ep p port"
  shows "cpu_inv code p' \<and> answers code ep p' port' \<and>
    p' = p\<lparr>fetched := fetched p', fetch_request := fetch_request p'\<rparr>"
proof -
  obtain m box where t: "mb_take now (responses port) = (m, box)" by fastforce
  have sub: "set (entries box) \<subseteq> set (entries (responses port))" by (rule mb_take_set [OF t])
  show ?thesis
  proof (cases m)
    case None
    with assms t show ?thesis by (simp add: take_fetch_def)
  next
    case (Some msg)
    note msg = mb_take_Some [OF t [unfolded Some]]
    show ?thesis
    proof (cases "env_epoch msg = ep")
      case False
      with assms t Some sub show ?thesis by (auto simp: take_fetch_def Let_def answers_def)
    next
      case True
      with assms(1) t Some obtain g where g: "fetch_request p = Some g" "rs_id (env_value msg) = fe_id g"
        by (auto simp: take_fetch_def Let_def split: option.splits)
      have w: "rs_fault (env_value msg) = None \<Longrightarrow> rs_value (env_value msg) = code (fe_pc g)"
        using assms(3) msg True g by (auto simp: answers_def)
      have raw: "raw code (new_frame g (env_value msg))"
        using w by (simp add: raw_def carries_def new_frame_def)
      have ans: "answers code ep (p\<lparr>fetched := x, fetch_request := None\<rparr>) (port\<lparr>responses := box\<rparr>)"
        "answers code ep (p\<lparr>fetch_request := None\<rparr>) (port\<lparr>responses := box\<rparr>)" for x
        using assms(3) sub by (auto simp: answers_def)
      show ?thesis
      proof (cases "fe_generation g = generation p \<and> \<not> halted p")
        case c: True
        with assms(1) t Some True g have p': "fetched p = None"
          "p' = p\<lparr>fetched := Some (new_frame g (env_value msg)), fetch_request := None\<rparr>"
          "port' = port\<lparr>responses := box\<rparr>" by (auto simp: take_fetch_def Let_def)
        show ?thesis
          using assms(2) p' raw c g ans
          by (auto simp: cpu_inv_def frames_ok_def pcs_def in_flight_def new_frame_def)
      next
        case c: False
        with assms(1) t Some True g have p': "p' = p\<lparr>fetch_request := None\<rparr>"
          "port' = port\<lparr>responses := box\<rparr>" by (auto simp: take_fetch_def Let_def)
        show ?thesis
          using assms(2) p' c g ans
          by (auto simp: cpu_inv_def frames_ok_def pcs_def in_flight_def split: if_splits)
      qed
    qed
  qed
qed

lemma mono_step: "n < next_fetch p \<Longrightarrow> n < next_fetch p + 1" by simp

lemma fetch_stage_inv:
  assumes "fetch_stage now ep port p = Inr (p', port')" and "cpu_inv code p" and "answers code ep p port"
  shows "cpu_inv code p' \<and> answers code ep p' port' \<and> halted p' = halted p \<and> registers p' = registers p \<and>
    pc p' = pc p \<and> issue p' = issue p"
proof (cases "fetch_request p = None \<and> fetched p = None \<and> \<not> mb_full (requests port)")
  case True
  with assms(1) obtain n box where n: "checked_add (next_fetch p) 1 = Inr n"
    and p': "p' = p\<lparr>next_fetch := n, fetch_pc := fetch_pc p + 4,
       fetch_request := Some \<lparr>fe_id = next_fetch p, fe_pc = fetch_pc p, fe_generation = generation p\<rparr>\<rparr>"
      "port' = port\<lparr>requests := box\<rparr>"
    by (auto simp: fetch_stage_def)
  have n': "n = next_fetch p + 1" using n by (auto simp: checked_add_def)
  have c: "chain (pc p) (xs @ [y]) \<Longrightarrow> chain (pc p) (xs @ [y, y + 4])" for xs y by (rule chain_extend)
  have "chain (pc p) (pcs p) \<Longrightarrow> chain (pc p') (pcs p')"
    using True p' c [of "opt_pcs (execute_latch p) @ opt_pcs (decode_latch p)"]
    by (simp add: pcs_def in_flight_def)
  then have "cpu_inv code p'" using assms(2) p' n' by (auto simp: cpu_inv_def frames_ok_def)
  moreover have "answers code ep p' port'"
    using assms(3) p' n' by (fastforce simp: answers_def)
  ultimately show ?thesis using p' by simp
next
  case False
  with assms show ?thesis by (auto simp: fetch_stage_def)
qed

lemma decode_frame_issued:
  "raw code f \<Longrightarrow> issued code (issue p) (registers p) (decode_frame p f) \<and> fr_pc (decode_frame p f) = fr_pc f"
  by (auto simp: raw_def issued_def carries_def decode_frame_def is_cw_bundle_def decode_cw_bundle_def
      split: sum.splits)

lemma in_flight_latches [simp]:
  "in_flight (p\<lparr>execute_latch := x\<rparr>) = in_flight p" "in_flight (p\<lparr>decode_latch := x\<rparr>) = in_flight p"
  "in_flight (p\<lparr>fetched := x\<rparr>) = in_flight p" "in_flight (p\<lparr>registers := x2\<rparr>) = in_flight p"
  "in_flight (p\<lparr>pc := x3\<rparr>) = in_flight p" "in_flight (p\<lparr>halted := x4\<rparr>) = in_flight p"
  "in_flight (p\<lparr>next_data := x5\<rparr>) = in_flight p"
  by (simp_all add: in_flight_def split: option.split)

lemma advance_stage_inv:
  assumes "cpu_inv code p"
  shows "cpu_inv code (advance_stage p) \<and> halted (advance_stage p) = halted p \<and> pc (advance_stage p) = pc p \<and>
    registers (advance_stage p) = registers p \<and> issue (advance_stage p) = issue p \<and>
    fetch_request (advance_stage p) = fetch_request p \<and> next_fetch (advance_stage p) = next_fetch p"
proof -
  have d: "raw code f \<Longrightarrow> issued code (issue p) (registers p) (decode_frame p f)"
    "raw code f \<Longrightarrow> fr_pc (decode_frame p f) = fr_pc f" for f
    using decode_frame_issued by auto
  show ?thesis
    using assms d
    by (cases "execute_latch p"; cases "decode_latch p"; cases "fetched p")
      (auto simp: advance_stage_def Let_def cpu_inv_def frames_ok_def pcs_def)
qed

lemma flush_stage_inv:
  assumes "flush_stage now ep flush p = Inr (p', tr)" and "frames_ok code p"
    and "\<not> flush \<and> \<not> halted p \<longrightarrow> chain (pc p) (pcs p)" and "flush \<longrightarrow> execute_latch p = None"
  shows "cpu_inv code p' \<and> halted p' = halted p \<and> pc p' = pc p \<and> registers p' = registers p \<and>
    issue p' = issue p \<and> fetch_request p' = fetch_request p \<and> next_fetch p' = next_fetch p \<and> retirements tr = []"
  using assms by (auto simp: flush_stage_def checked_add_def cpu_inv_def frames_ok_def pcs_def in_flight_def
      split: if_splits option.splits)

lemma evaluate_next:
  assumes "evaluate d at a b = Inr e"
  shows "\<not> branch_taken e \<Longrightarrow> next_pc e = at + 4" and "memory e \<noteq> NoMemory \<Longrightarrow> next_pc e = at + 4"
    and "dec_op d \<noteq> Ecall"
  using assms
  by (auto simp: evaluate_def Let_def split_beta taken_def access_def split: if_splits Op.splits)

definition quiet :: "'c control \<Rightarrow> bool" where
  "quiet control \<longleftrightarrow> (\<forall>op env r tr env'. control op env = Inr (r, tr, env') \<longrightarrow> retirements tr = [])"

lemma quietD [dest]: "quiet control \<Longrightarrow> control op env = Inr (r, tr, env') \<Longrightarrow> retirements tr = []"
  unfolding quiet_def by blast

lemma issue_lanes_quiet:
  "quiet control \<Longrightarrow> issue_lanes control ops n env = Inr (m, tr, env') \<Longrightarrow> retirements tr = []"
  by (induction control ops n env arbitrary: m tr env' rule: issue_lanes.induct)
    (fastforce dest: quietD split: option.splits)+

lemma execute_bundle_frame:
  assumes "execute_bundle control (executing f data n env) = Inr x" and "quiet control"
  shows "retirements (ex_trace x) = [] \<and> \<not> ex_flush x \<and> \<not> ex_halt x \<and>
    (\<exists>m. ex_frame x = f\<lparr>completed_lanes := m\<rparr>) \<and> (\<forall>v nx. ex_done x = Some (v, nx) \<longrightarrow> nx = fr_pc f + 4)"
  using assms issue_lanes_quiet [OF assms(2)]
  by (auto simp: execute_bundle_def executing_def Let_def split: if_splits)

lemma execute_quantum_frame:
  assumes "execute_quantum control d (executing f data n env) = Inr x" and "quiet control"
  shows "retirements (ex_trace x) = [] \<and> \<not> ex_flush x \<and> \<not> ex_halt x \<and> ex_frame x = f \<and>
    (\<forall>v nx. ex_done x = Some (v, nx) \<longrightarrow> nx = fr_pc f + 4)"
  using assms by (auto simp: execute_quantum_def executing_def Let_def dest: quietD)

lemma execute_halt_frame:
  assumes "execute_halt control (executing f data n env) = Inr x" and "quiet control"
  shows "retirements (ex_trace x) = [] \<and> ex_flush x = (ex_done x \<noteq> None) \<and> ex_halt x = (ex_done x \<noteq> None) \<and>
    ex_frame x = f \<and> (\<forall>v nx. ex_done x = Some (v, nx) \<longrightarrow> nx = fr_pc f + 4)"
  using assms by (auto simp: execute_halt_def executing_def Let_def dest: quietD)

lemma access_memory_frame:
  assumes "access_memory now ep e x = Inr x'"
  shows "ex_trace x' = ex_trace x \<and> ex_flush x' = ex_flush x \<and> ex_halt x' = ex_halt x \<and>
    (\<exists>m. ex_frame x' = (ex_frame x)\<lparr>memory_request := m\<rparr>) \<and>
    (ex_done x' = ex_done x \<or> (\<exists>v. ex_done x' = Some (v, next_pc e)))"
proof -
  have same: "\<exists>m. r = r\<lparr>memory_request := m\<rparr>" for r :: Frame
    by (rule exI [of _ "memory_request r"]) simp
  show ?thesis
    using assms same by (auto simp: access_memory_def Let_def split: if_splits option.splits prod.splits)
qed

lemma execute_scalar_frame:
  assumes "execute_scalar now ep d (executing f data n env) = Inr x"
    and "\<forall>e. fr_effect f = Some e \<longrightarrow> evaluate d (fr_pc f) (fr_lhs f) (fr_rhs f) = Inr e"
  shows "\<exists>e m. evaluate d (fr_pc f) (fr_lhs f) (fr_rhs f) = Inr e \<and> ex_trace x = [] \<and> \<not> ex_halt x \<and>
    ex_frame x = f\<lparr>fr_effect := Some e, memory_request := m\<rparr> \<and>
    (ex_done x = None \<longrightarrow> \<not> ex_flush x) \<and> (\<not> ex_flush x \<longrightarrow> next_pc e = fr_pc f + 4) \<and>
    (\<forall>v nx. ex_done x = Some (v, nx) \<longrightarrow> nx = next_pc e \<and> (memory e = NoMemory \<longrightarrow> v = eff_value e))"
proof -
  obtain e where ev: "evaluate d (fr_pc f) (fr_lhs f) (fr_rhs f) = Inr e"
    and x: "(let x' = (executing f data n env)\<lparr>ex_frame := f\<lparr>fr_effect := Some e\<rparr>\<rparr> in
     if memory e = NoMemory then Inr (x'\<lparr>ex_done := Some (eff_value e, next_pc e), ex_flush := branch_taken e\<rparr>)
     else access_memory now ep e x') = Inr x"
    using assms by (auto simp: execute_scalar_def executing_def Let_def split: option.splits)
  note nx = evaluate_next [OF ev]
  show ?thesis
  proof (cases "memory e = NoMemory")
    case True
    have "f\<lparr>fr_effect := Some e\<rparr> = f\<lparr>fr_effect := Some e, memory_request := memory_request f\<rparr>" by simp
    then show ?thesis
      using True x nx ev by (intro exI [of _ e] exI [of _ "memory_request f"]) (auto simp: executing_def)
  next
    case False
    define y where "y = (executing f data n env)\<lparr>ex_frame := f\<lparr>fr_effect := Some e\<rparr>\<rparr>"
    have y: "ex_trace y = []" "\<not> ex_flush y" "\<not> ex_halt y" "ex_frame y = f\<lparr>fr_effect := Some e\<rparr>" "ex_done y = None"
      by (simp_all add: y_def executing_def)
    have "access_memory now ep e y = Inr x" using x False by (simp add: y_def Let_def)
    note am = access_memory_frame [OF this, unfolded y]
    from am obtain m where m: "ex_frame x = f\<lparr>fr_effect := Some e\<rparr>\<lparr>memory_request := m\<rparr>"
      by (elim conjE exE)
    from am have d: "ex_done x = None \<or> (\<exists>v. ex_done x = Some (v, next_pc e))" by (elim conjE)
    from am have x': "ex_trace x = []" "\<not> ex_halt x" "\<not> ex_flush x" by (simp_all add: y)
    show ?thesis
      using d nx(2) [OF False] False
      by (intro exI [of _ e] exI [of _ m]) (elim disjE exE; simp add: x' m ev)
  qed
qed

lemma retire_cases:
  assumes "fr_decoded f = Some d"
  shows "retire f v next now ep p = (p', tr) \<Longrightarrow>
    p' = p\<lparr>registers := registers p', pc := next\<rparr> \<and>
    registers p' = (write_back d v (registers p))[0 := 0] \<and>
    (\<exists>r. retirements tr = [r] \<and> ir_pc r = fr_pc f \<and> ir_word r = fr_word f \<and> ir_next_pc r = next \<and>
      ir_value r = v \<and> ir_registers r = registers p')"
  using assms by (auto simp: retire_def Let_def write_back_def)

text \<open>A register other than x0 is written, so x0 stays zero.\<close>

lemma x0_unchanged:
  assumes "length regs = 32" and "regs ! 0 = 0"
  shows "(write_back d v regs)[0 := 0] = write_back d v regs"
    and "length (write_back d v regs) = 32 \<and> write_back d v regs ! 0 = 0"
proof -
  show w: "length (write_back d v regs) = 32 \<and> write_back d v regs ! 0 = 0"
    using assms by (auto simp: write_back_def unat_eq_zero)
  then show "(write_back d v regs)[0 := 0] = write_back d v regs"
    using list_update_id [of "write_back d v regs" 0] by simp
qed

text \<open>The instruction in execute is done with the value \<open>v\<close> and goes on at \<open>nx\<close>.\<close>

definition done_right :: "(u32 \<Rightarrow> u32) \<Rightarrow> Pipeline \<Rightarrow> Frame \<Rightarrow> u32 \<Rightarrow> u32 \<Rightarrow> bool" where
  "done_right code p f v nx \<longleftrightarrow> (\<exists>d. fr_decoded f = Some d \<and> (\<forall>r. ir_pc r = fr_pc f \<and> ir_word r = fr_word f \<and>
     ir_next_pc r = nx \<and> ir_value r = v \<and>
     ir_registers r = write_back d v (registers p) \<longrightarrow>
     retires (issue p) code (fr_pc f) (registers p) r))"

definition executed_right :: "(u32 \<Rightarrow> u32) \<Rightarrow> Pipeline \<Rightarrow> Frame \<Rightarrow> 'c Executed \<Rightarrow> bool" where
  "executed_right code p f x \<longleftrightarrow> retirements (ex_trace x) = [] \<and>
     issued code (issue p) (registers p) (ex_frame x) \<and> fr_pc (ex_frame x) = fr_pc f \<and>
     fr_word (ex_frame x) = fr_word f \<and> fr_decoded (ex_frame x) = fr_decoded f \<and>
     (ex_done x = None \<longrightarrow> \<not> ex_flush x \<and> \<not> ex_halt x) \<and> (ex_halt x \<longrightarrow> ex_flush x) \<and>
     (\<forall>v nx. ex_done x = Some (v, nx) \<longrightarrow> (\<not> ex_flush x \<longrightarrow> nx = fr_pc f + 4) \<and>
        (halts (issue p) (fr_word f) \<longrightarrow> ex_halt x) \<and> done_right code p f v nx)"

lemma execute_frame_right:
  assumes "execute_frame now ep control f data p env = Inr x" and "quiet control"
    and "issued code (issue p) (registers p) f"
  shows "executed_right code p f x"
proof -
  from assms(1) obtain d where no: "fr_fault f = None" and d: "fr_decoded f = Some d"
    by (auto simp: execute_frame_def split: option.splits)
  from assms(3) no have w: "fr_word f = code (fr_pc f)" by (simp add: issued_def carries_def)
  show ?thesis
  proof (cases "is_cw_bundle (issue p) (fr_word f)")
    case True
    with assms(3) no have b: "is_bundle f" "fr_word f AND 0x8000007f = 0x2b" "\<not> dec_writes_rd d"
      using d by (auto simp: issued_def)
    with assms(1) no d have "execute_bundle control (executing f data (next_data p) env) = Inr x"
      by (simp add: execute_frame_def Let_def)
    note x = execute_bundle_frame [OF this assms(2)]
    then obtain m where m: "ex_frame x = f\<lparr>completed_lanes := m\<rparr>" by (elim conjE exE)
    have "issued code (issue p) (registers p) (ex_frame x)"
      using assms(3) no b d True by (simp add: m issued_def carries_def)
    moreover have "\<not> halts (issue p) (fr_word f)" using True by (simp add: halts_def)
    moreover have "done_right code p f v (fr_pc f + 4)" for v
      using True b d w by (simp add: write_back_def done_right_def retires_def)
    ultimately show ?thesis using x by (auto simp: executed_right_def m)
  next
    case nb: False
    with assms(3) no have dec: "\<not> is_bundle f" "decode (fr_word f) = Inr d"
      and ops: "fr_lhs f = registers p ! unat (dec_rs1 d)" "fr_rhs f = registers p ! unat (dec_rs2 d)"
      and eff: "\<forall>e. fr_effect f = Some e \<longrightarrow> evaluate d (fr_pc f) (fr_lhs f) (fr_rhs f) = Inr e"
      using d by (auto simp: issued_def)
    consider (quantum) "dec_op d = Quantum" | (halt) "dec_op d = Ecall" "registers p ! 17 = 93"
      | (scalar) "dec_op d \<noteq> Quantum" "\<not> (dec_op d = Ecall \<and> registers p ! 17 = 93)" by blast
    then show ?thesis
    proof cases
      case quantum
      with assms(1) no d dec have "execute_quantum control d (executing f data (next_data p) env) = Inr x"
        by (simp add: execute_frame_def Let_def)
      note x = execute_quantum_frame [OF this assms(2)]
      have "done_right code p f v (fr_pc f + 4)" for v
        using quantum nb dec d w by (auto simp: done_right_def retires_def)
      moreover have "\<not> halts (issue p) (fr_word f)" using quantum dec by (simp add: halts_def)
      ultimately show ?thesis using x assms(3) by (auto simp: executed_right_def)
    next
      case halt
      with assms(1) no d dec have "execute_halt control (executing f data (next_data p) env) = Inr x"
        by (simp add: execute_frame_def Let_def)
      note x = execute_halt_frame [OF this assms(2)]
      have "done_right code p f v (fr_pc f + 4)" for v
        using halt nb dec d w by (auto simp: done_right_def retires_def)
      then show ?thesis using x assms(3) by (auto simp: executed_right_def)
    next
      case scalar
      with assms(1) no d dec have "execute_scalar now ep d (executing f data (next_data p) env) = Inr x"
        by (auto simp: execute_frame_def Let_def)
      from execute_scalar_frame [OF this eff] obtain e m where
        e: "evaluate d (fr_pc f) (fr_lhs f) (fr_rhs f) = Inr e" and m: "ex_frame x = f\<lparr>fr_effect := Some e, memory_request := m\<rparr>"
        and x: "ex_trace x = []" "\<not> ex_halt x" "ex_done x = None \<longrightarrow> \<not> ex_flush x"
          "\<not> ex_flush x \<longrightarrow> next_pc e = fr_pc f + 4"
          "\<forall>v nx. ex_done x = Some (v, nx) \<longrightarrow> nx = next_pc e \<and> (memory e = NoMemory \<longrightarrow> v = eff_value e)"
        by (elim exE conjE)
      have ne: "dec_op d \<noteq> Ecall" by (rule evaluate_next(3) [OF e])
      have "done_right code p f v nx" if "ex_done x = Some (v, nx)" for v nx
        using x(5) that scalar(1) ne nb dec d w e ops by (simp add: done_right_def retires_def)
      moreover have "issued code (issue p) (registers p) (ex_frame x)"
        using no w nb dec d e ops by (simp add: m issued_def carries_def)
      moreover have "\<not> halts (issue p) (fr_word f)" using ne dec by (simp add: halts_def)
      ultimately show ?thesis using x by (auto simp: executed_right_def m)
    qed
  qed
qed

lemma execute_stage_right:
  assumes "execute_stage now ep control data p env = Inr (p', data', env', flush, tr)"
    and "cpu_inv code p" and "\<not> halted p" and "quiet control"
  shows "issue p' = issue p \<and> fetch_request p' = fetch_request p \<and> next_fetch p' = next_fetch p \<and>
    frames_ok code p' \<and> (\<not> flush \<and> \<not> halted p' \<longrightarrow> chain (pc p') (pcs p')) \<and>
    (flush \<longrightarrow> execute_latch p' = None) \<and>
    (retirements tr = [] \<and> pc p' = pc p \<and> registers p' = registers p \<or>
     (\<exists>r. retirements tr = [r] \<and> retires (issue p) code (pc p) (registers p) r \<and> pc p' = ir_next_pc r \<and>
        registers p' = ir_registers r \<and> (halts (issue p) (ir_word r) \<longrightarrow> halted p')))"
proof (cases "execute_latch p")
  case None
  with assms show ?thesis by (simp add: execute_stage_def cpu_inv_def)
next
  case (Some f)
  from assms(2) Some have f: "issued code (issue p) (registers p) f"
    and regs: "length (registers p) = 32" "registers p ! 0 = 0"
    and fr: "frames_ok code p" and ch: "chain (pc p) (pcs p)"
    using assms(3) by (auto simp: cpu_inv_def frames_ok_def)
  have at: "fr_pc f = pc p" using ch Some by (simp add: pcs_def)
  have rest: "chain (pc p + 4) (opt_pcs (decode_latch p) @ opt_pcs (fetched p) @ in_flight p @ [fetch_pc p])"
    using ch Some by (simp add: pcs_def)
  from assms(1) Some obtain x where x: "execute_frame now ep control f data p env = Inr x"
    by (auto simp: execute_stage_def)
  note R = execute_frame_right [OF x assms(4) f, unfolded executed_right_def]
  show ?thesis
  proof (cases "ex_done x")
    case n: None
    with assms(1) Some x have p': "p' = p\<lparr>next_data := ex_next_data x, halted := halted p \<or> ex_halt x, execute_latch := Some (ex_frame x)\<rparr>"
      "flush = ex_flush x" "tr = ex_trace x @ [stalled_event now ep (ex_frame x)]"
      by (auto simp: execute_stage_def Let_def)
    have "frames_ok code p'" using fr R by (auto simp: p' frames_ok_def)
    moreover have "chain (pc p') (pcs p')" using at rest R by (simp add: p' pcs_def)
    moreover have "issue p' = issue p \<and> fetch_request p' = fetch_request p \<and> next_fetch p' = next_fetch p \<and>
        pc p' = pc p \<and> registers p' = registers p" by (simp add: p')
    ultimately show ?thesis using R n p'(2,3) by simp
  next
    case (Some vn)
    obtain v nx where vn: "ex_done x = Some (v, nx)" using Some by (cases vn) auto
    from R have "\<forall>v nx. ex_done x = Some (v, nx) \<longrightarrow> (\<not> ex_flush x \<longrightarrow> nx = fr_pc f + 4) \<and>
        (halts (issue p) (fr_word f) \<longrightarrow> ex_halt x) \<and> done_right code p f v nx" by (elim conjE)
    note R' = this [rule_format, OF vn]
    from R' have seq: "\<not> ex_flush x \<longrightarrow> nx = fr_pc f + 4" and hl: "halts (issue p) (fr_word f) \<longrightarrow> ex_halt x"
      and right: "done_right code p f v nx" by blast+
    from right obtain d where d: "fr_decoded f = Some d" by (auto simp: done_right_def)
    define q where "q = p\<lparr>next_data := ex_next_data x, halted := halted p \<or> ex_halt x\<rparr>"
    obtain p1 t1 where ret: "retire (ex_frame x) v nx now ep q = (p1, t1)" by fastforce
    with assms(1) \<open>execute_latch p = Some f\<close> x vn have p': "p' = p1\<lparr>execute_latch := None\<rparr>"
      "flush = ex_flush x" "tr = ex_trace x @ t1"
      by (auto simp: execute_stage_def Let_def q_def)
    have d': "fr_decoded (ex_frame x) = Some d" using R d by simp
    note rc = retire_cases [OF d' ret]
    then obtain r where r: "retirements t1 = [r]" "ir_pc r = fr_pc f" "ir_word r = fr_word f" "ir_next_pc r = nx"
      "ir_value r = v" "ir_registers r = registers p1" using R by auto
    have p1: "p1 = q\<lparr>registers := registers p1, pc := nx\<rparr>" using rc by blast
    have rg: "registers p1 = write_back d v (registers p)"
      using rc x0_unchanged(1) [OF regs] by (simp add: q_def)
    have "retires (issue p) code (pc p) (registers p) r"
      using right r d rg at by (auto simp: done_right_def)
    moreover have "length (registers p1) = 32 \<and> registers p1 ! 0 = 0"
      using x0_unchanged(2) [OF regs] by (simp add: rg)
    moreover have proj: "halted p1 = (halted p \<or> ex_halt x)" "fetch_request p1 = fetch_request p" "next_fetch p1 = next_fetch p"
      "generation p1 = generation p" "fetched p1 = fetched p" "decode_latch p1 = decode_latch p" "fetch_pc p1 = fetch_pc p"
      "issue p1 = issue p" "pc p1 = nx"
      by (subst p1, simp add: q_def)+
    moreover have inf: "in_flight p1 = in_flight p"
      using proj by (simp add: in_flight_def split: option.split)
    ultimately have "frames_ok code p'" using fr by (auto simp: p' frames_ok_def)
    moreover have "\<not> flush \<longrightarrow> chain (pc p') (pcs p')"
      using rest seq at proj inf by (simp add: p' pcs_def)
    ultimately show ?thesis
      using R r p' proj hl \<open>retires (issue p) code (pc p) (registers p) r\<close> by auto
  qed
qed

lemma sample_trace_inv:
  assumes "sample_trace now ep p = (p', tr)"
  shows "retirements tr = [] \<and> cpu_inv code p' = cpu_inv code p \<and> answers code ep p' f = answers code ep p f \<and>
    halted p' = halted p \<and> pc p' = pc p \<and> registers p' = registers p \<and> issue p' = issue p"
proof (cases "p' = p")
  case True
  with assms show ?thesis by (auto simp: sample_trace_def split: if_splits)
next
  case False
  with assms have p': "p' = p\<lparr>previous := Some (pipeline_state p), sampled_epoch := ep\<rparr>"
    and "tr = [pipeline_event now ep (cpu_cycle now p) (pipeline_state p)]"
    by (auto simp: sample_trace_def split: if_splits)
  moreover have "in_flight p' = in_flight p" by (simp add: p' in_flight_def split: option.split)
  ultimately show ?thesis by (simp add: cpu_inv_def frames_ok_def pcs_def answers_def)
qed

lemma answers_pipeline:
  "fetch_request p' = fetch_request p \<Longrightarrow> next_fetch p' = next_fetch p \<Longrightarrow>
   answers code ep p f \<Longrightarrow> answers code ep p' f"
  by (simp add: answers_def)

lemma cpu_step_right:
  assumes "cpu_step now ep control f d p env = Inr (p', f', d', env', tr)"
    and "cpu_inv code p" and "answers code ep p f" and "quiet control"
  shows "cpu_inv code p' \<and> answers code ep p' f' \<and> issue p' = issue p \<and>
    (halted p \<longrightarrow> halted p' \<and> retirements tr = []) \<and>
    (retirements tr = [] \<and> pc p' = pc p \<and> registers p' = registers p \<or>
     (\<exists>r. retirements tr = [r] \<and> retires (issue p) code (pc p) (registers p) r \<and> pc p' = ir_next_pc r \<and>
        registers p' = ir_registers r \<and> (halts (issue p) (ir_word r) \<longrightarrow> halted p')))"
proof -
  from assms(1) obtain p1 f1 where t: "take_fetch now ep f p = Inr (p1, f1)"
    by (auto simp: cpu_step_def)
  note T = take_fetch_inv [OF t assms(2,3)]
  have s1: "halted p1 = halted p" "pc p1 = pc p" "registers p1 = registers p" "issue p1 = issue p"
    using arg_cong [OF conjunct2 [OF conjunct2 [OF T]], of halted] arg_cong [OF conjunct2 [OF conjunct2 [OF T]], of pc]
      arg_cong [OF conjunct2 [OF conjunct2 [OF T]], of registers] arg_cong [OF conjunct2 [OF conjunct2 [OF T]], of issue]
    by simp_all
  show ?thesis
  proof (cases "halted p1")
    case True
    obtain q t1 where q: "sample_trace now ep p1 = (q, t1)" by fastforce
    with assms(1) t True have "p' = q" "f' = f1" "tr = t1" by (auto simp: cpu_step_def)
    with sample_trace_inv [OF q] T True s1 show ?thesis by simp
  next
    case False
    obtain p2 d1 e1 fl t1 where x: "execute_stage now ep control d p1 env = Inr (p2, d1, e1, fl, t1)"
      using assms(1) t False by (fastforce simp: cpu_step_def)
    obtain p3 t2 where fs: "flush_stage now ep fl p2 = Inr (p3, t2)"
      using assms(1) t False x by (fastforce simp: cpu_step_def)
    note X = execute_stage_right [OF x conjunct1 [OF T] False assms(4)]
    have inv3: "cpu_inv code p3 \<and> halted p3 = halted p2 \<and> pc p3 = pc p2 \<and> registers p3 = registers p2 \<and>
      issue p3 = issue p2 \<and> fetch_request p3 = fetch_request p2 \<and> next_fetch p3 = next_fetch p2 \<and> retirements t2 = []"
      by (rule flush_stage_inv [OF fs]) (use X in blast)+
    have ans3: "answers code ep p3 f1"
      by (rule answers_pipeline [of _ p1]) (use X inv3 T in simp_all)
    show ?thesis
    proof (cases "halted p3")
      case True
      obtain q t3 where q: "sample_trace now ep p3 = (q, t3)" by fastforce
      with assms(1) t False x fs True have e: "p' = q" "f' = f1" "tr = t1 @ t2 @ t3" by (auto simp: cpu_step_def)
      show ?thesis
        unfolding e using sample_trace_inv [OF q] inv3 ans3 X s1 False True by simp
    next
      case h3: False
      obtain p4 f2 where fe: "fetch_stage now ep f1 (advance_stage p3) = Inr (p4, f2)"
        using assms(1) t False x fs h3 by (fastforce simp: cpu_step_def)
      obtain q t3 where q: "sample_trace now ep p4 = (q, t3)" by fastforce
      with assms(1) t False x fs h3 fe have e: "p' = q" "f' = f2" "tr = t1 @ t2 @ t3" by (auto simp: cpu_step_def)
      have A: "cpu_inv code (advance_stage p3)" and
        B: "halted (advance_stage p3) = halted p3" "pc (advance_stage p3) = pc p3"
          "registers (advance_stage p3) = registers p3" "issue (advance_stage p3) = issue p3"
        using advance_stage_inv [of code p3] inv3 by blast+
      have "answers code ep (advance_stage p3) f1"
        by (rule answers_pipeline [OF _ _ ans3]) (use advance_stage_inv [of code p3] inv3 in blast)+
      note F = fetch_stage_inv [OF fe A this]
      show ?thesis
        unfolding e using sample_trace_inv [OF q] F B inv3 X s1 False h3 by simp
    qed
  qed
qed

lemma cpu_run_right:
  assumes "cpu_run clock iss start ep control code (p, f, d, env, tr)" and "quiet control"
  shows "cpu_inv code p \<and> answers code ep p f \<and> issue p = iss \<and>
    sequential iss code start (replicate 32 0) (retirements tr) \<and>
    pc p = pc_after start (retirements tr) \<and> registers p = registers_after (replicate 32 0) (retirements tr) \<and>
    ((\<exists>q\<in>set (retirements tr). halts iss (ir_word q)) \<longrightarrow> halted p)"
  using assms(1)
proof (induction p f d env tr rule: cpu_run.induct [split_format (complete)])
  case (boot f d env)
  then show ?case
    by (simp add: in_order_pipeline_def cpu_reset_def cpu_inv_def frames_ok_def pcs_def in_flight_def answers_def)
next
  case (edge p f d env tr now p' f' d' env' tr')
  from edge.IH have I: "cpu_inv code p" "answers code ep p f" "issue p = iss" by blast+
  note S = cpu_step_right [OF edge.hyps(2) I(1,2) assms(2)]
  show ?case
  proof (cases "retirements tr'")
    case Nil
    with S edge.IH show ?thesis by auto
  next
    case (Cons r rs)
    with S have r: "retirements tr' = [r]" "\<not> halted p" by auto
    have ret: "retires iss code (pc_after start (retirements tr)) (registers_after (replicate 32 0) (retirements tr)) r"
      using S r edge.IH by auto
    have "sequential iss code start (replicate 32 0) (retirements tr @ [r])"
      by (rule sequential_snoc [OF _ ret]) (use edge.IH r in auto)
    with S r edge.IH show ?thesis by auto
  qed
next
  case (surroundings p f d env tr f' d' env')
  then show ?case by auto
qed

section \<open>A concrete run\<close>

definition ex_clock :: Clock where 
  "ex_clock = \<lparr>period = 1, phase = 0\<rparr>"

definition ex_port :: MemoryPort where
  "ex_port = \<lparr>requests = \<lparr>mb_capacity = 1, receiver = ex_clock, mb_latency = 1, entries = []\<rparr>,
     responses = \<lparr>mb_capacity = 1, receiver = ex_clock, mb_latency = 1, entries = []\<rparr>\<rparr>"

definition ex_answer :: "Tick \<Rightarrow> Id \<Rightarrow> u32 \<Rightarrow> MemoryPort" where
  "ex_answer now i w = ex_port\<lparr>responses := (responses ex_port)\<lparr>entries := [\<lparr>published = now, eligible = now, env_epoch = 0,
     env_value = \<lparr>rs_id = i, rs_value = w, rs_fault = None\<rparr>\<rparr>]\<rparr>\<rparr>"

definition ex_control :: "unit control" where "ex_control op u = Inr (Some 0, [], ())"

text \<open>The first four cycles of a program of \<open>addi x1, x0, 5\<close>.\<close>

lemmas cpu_step_eval = cpu_step_def edge_def take_fetch_def mb_take_def peek_def execute_stage_def flush_stage_def
  advance_stage_def fetch_stage_def mb_full_def checked_add_def tick_max_def publish_def after_def Let_def
  sample_trace_def pipeline_state_def checked_mul_def clock_validate_def require_def

lemma ex_decode: "decode 0x00500093 = Inr \<lparr>dec_op = Addi, dec_word = 0x00500093, immediate = 5, dec_rd = 1, dec_rs1 = 0,
    dec_rs2 = 5, reads_rs1 = True, reads_rs2 = False, dec_writes_rd = True\<rparr>"
  by code_simp

lemma bindE_weak_cong: "m = m' \<Longrightarrow> bindE m f = bindE m' f" by simp

lemma ex_first_cycles:
  "bindE (cpu_step 0 0 ex_control ex_port ex_port (in_order_pipeline ex_clock 0 Scalar) ()) (\<lambda>(p, f, d, u, tr).
   if answers (\<lambda>_. 0x00500093) 0 p (ex_answer 0 1 0x00500093)
   then bindE (cpu_step 1 0 ex_control (ex_answer 0 1 0x00500093) ex_port p u) (\<lambda>(p, f, d, u, tr1).
        bindE (cpu_step 2 0 ex_control f d p u) (\<lambda>(p, f, d, u, tr2).
        bindE (cpu_step 3 0 ex_control f d p u) (\<lambda>(p, f, d, u, tr3). Inr (map ir_value (retirements (tr @ tr1 @ tr2 @ tr3))))))
   else Inl Protocol) = Inr [5]"
  by (simp add: cpu_step_eval ex_port_def in_order_pipeline_def cpu_reset_def ex_clock_def ex_answer_def answers_def
    new_frame_def decode_frame_def ex_decode execute_frame_def executing_def execute_scalar_def retire_def
    evaluate_def access_def taken_def is_branch_def alu_def retirements_def map_filter_simps
    pipeline_event_def retired_event_def trace_event_def
    del: bindE_eq_Inr One_nat_def cong: bindE_weak_cong)

section \<open>The claim\<close>

text \<open>
  C2. In every run, with any latencies of the memory, any stalls of the timing control and any
  number of wrong-path fetches, the retired instructions form an execution of the sequential machine
  from the entry point with cleared registers: each retires at the address its predecessor
  determined, with the word of the program at that address, the operands its predecessors left, the
  value, the target and the register file the instruction set prescribes, and nothing retires after a
  halt. The program counter and the registers of the model are those the last retirement left.
\<close>

theorem cpu_executes_sequentially:
  assumes "cpu_run clock iss start ep control code (p, f, d, env, tr)" and "quiet control"
  shows "sequential iss code start (replicate 32 0) (retirements tr) \<and>
    pc p = pc_after start (retirements tr) \<and> registers p = registers_after (replicate 32 0) (retirements tr)"
  using cpu_run_right [OF assms] by blast

theorem cpu_executes_sequentially_witness:
  "\<exists>p f d tr. cpu_run ex_clock Scalar 0 0 ex_control (\<lambda>_. 0x00500093) (p, f, d, (), tr) \<and>
     map ir_value (retirements tr) = [5] \<and> sequential Scalar (\<lambda>_. 0x00500093) 0 (replicate 32 0) (retirements tr)"
proof -
  let ?run = "cpu_run ex_clock Scalar 0 0 ex_control (\<lambda>_. 0x00500093)"
  from ex_first_cycles obtain p f d tr p1 f1 d1 tr1 p2 f2 d2 tr2 p3 f3 d3 tr3 where
    s: "cpu_step 0 0 ex_control ex_port ex_port (in_order_pipeline ex_clock 0 Scalar) () = Inr (p, f, d, (), tr)"
      "answers (\<lambda>_. 0x00500093) 0 p (ex_answer 0 1 0x00500093)"
      "cpu_step 1 0 ex_control (ex_answer 0 1 0x00500093) ex_port p () = Inr (p1, f1, d1, (), tr1)"
      "cpu_step 2 0 ex_control f1 d1 p1 () = Inr (p2, f2, d2, (), tr2)"
      "cpu_step 3 0 ex_control f2 d2 p2 () = Inr (p3, f3, d3, (), tr3)" "map ir_value (retirements (tr @ tr1 @ tr2 @ tr3)) = [5]"
    by (auto split: if_splits)
  have "?run (in_order_pipeline ex_clock 0 Scalar, ex_port, ex_port, (), [])"
    by (rule cpu_run.boot) (simp add: ex_port_def)
  note r0 = cpu_run.edge [OF this s(1)]
  note r1 = cpu_run.edge [OF cpu_run.surroundings [OF r0 s(2), of ex_port "()"] s(3)]
  note r3 = cpu_run.edge [OF cpu_run.edge [OF r1 s(4)] s(5)]
  have q: "quiet ex_control" by (simp add: quiet_def ex_control_def)
  note c = cpu_executes_sequentially [OF r3 q]
  have "map ir_value (retirements (((([] @ tr) @ tr1) @ tr2) @ tr3)) = [5]" using s(6) by simp
  then show ?thesis by (intro exI conjI) (rule r3, assumption, rule conjunct1 [OF c])
qed

end
