(* ===== verification/Core.thy ===== *)
theory Core
  imports Timing_Control Sync Tcu Pipeline
begin

text \<open>
  A core, \<^verbatim>\<open>include/qsbit/core.hpp\<close> and \<^verbatim>\<open>src/core.cpp\<close>: the CPU with its memory and two ports, the timing
  control it issues to, the links to the timing control unit, the measurement registers, the
  synchronization unit and the TCU. The three edges compose the steps of the components the way the
  simulator's clocked processes call them. The CPU factory chooses one of the two built-in CPU models.
\<close>

record Core =
  core_id :: u32
  core_profile :: Profile
  core_sync :: SyncUnit
  core_registers :: MeasurementRegisters
  core_control :: TimingControl
  core_links :: ControlLinks
  fetch_port :: MemoryPort
  data_port :: MemoryPort
  core_memory :: MemoryModel
  core_cpu :: Pipeline
  core_tcu :: TcuState

definition core_new ::
  "(Profile \<Rightarrow> string) \<Rightarrow> u32 \<Rightarrow> Profile \<Rightarrow> ProgramImage \<Rightarrow> ControlIssue \<Rightarrow> nat \<Rightarrow> Core result" where
  "core_new fingerprint i p img iss capacity =
     bindE (timing_config fingerprint p) (\<lambda>cfg.
     bindE (control_links (transport_config p)) (\<lambda>l.
     bindE (memory_port (pf_cpu p)) (\<lambda>fetch.
     bindE (memory_port (pf_cpu p)) (\<lambda>data.
     bindE (memory_model img (pf_cpu p) (memory_latency p)) (\<lambda>m.
     bindE (tcu_config fingerprint p) (\<lambda>tc.
     bindE (tcu_new tc capacity) (\<lambda>t.
     bindE (profile_validate p) (\<lambda>_.
     Inr \<lparr>core_id = i, core_profile = p, core_sync = sync_unit i,
          core_registers = measurement_registers
            \<lparr>fc_qubits = pf_qubits p, fc_result_capacity = result_capacity p, fc_fast_feedback = pf_fast_feedback p\<rparr>,
          core_control = timing_control cfg, core_links = l, fetch_port = fetch, data_port = data, core_memory = m,
          core_cpu = in_order_pipeline (pf_cpu p) (entry img) iss, core_tcu = t\<rparr>))))))))"

section \<open>Edges\<close>

text \<open>The callback of the CPU ports: \<open>TimingControl::execute\<close> on the core's own state.\<close>

definition control_port ::
  "(EventSpec \<Rightarrow> unit result) \<Rightarrow> Tick \<Rightarrow> Epoch \<Rightarrow> SyncNetwork \<Rightarrow> SyncUnit \<Rightarrow> control_state control" where
  "control_port validate now epoch n u = (\<lambda>op cs.
     bindE (execute validate (Some (\<lambda>target. su_validate target u n)) op now epoch cs) (\<lambda>(r, cs', tr). Inr (r, tr, cs')))"

definition cpu_edge ::
  "(EventSpec \<Rightarrow> unit result) \<Rightarrow> SyncNetwork \<Rightarrow> Tick \<Rightarrow> Epoch \<Rightarrow> Core \<Rightarrow> (Core \<times> TraceEvent list) result" where
  "cpu_edge validate n now epoch c =
     bindE (receive now epoch (core_control c, core_registers c, core_links c)) (\<lambda>(cs, tr1).
     bindE (cpu_step now epoch (control_port validate now epoch n (core_sync c)) (fetch_port c) (data_port c) (core_cpu c) cs)
       (\<lambda>(cpu, fetch, data, (t, m, l), tr2).
     Inr (c\<lparr>core_control := t, core_registers := m, core_links := l, fetch_port := fetch, data_port := data,
            core_cpu := cpu\<rparr>, tr1 @ tr2)))"

definition memory_edge :: "'d device \<Rightarrow> Tick \<Rightarrow> Epoch \<Rightarrow> Core \<Rightarrow> 'd \<Rightarrow> (Core \<times> 'd) result" where
  "memory_edge device now epoch c d =
     bindE (memory_step device now epoch (fetch_port c) (data_port c) (core_memory c) d) (\<lambda>(m, fetch, data, d').
     Inr (c\<lparr>core_memory := m, fetch_port := fetch, data_port := data\<rparr>, d'))"

text \<open>The replies to the timing control: an admitted request is taken from its link.\<close>

definition reply_admission :: "Tick \<Rightarrow> Epoch \<Rightarrow> ControlLinks \<Rightarrow> ControlLinks result" where
  "reply_admission now epoch l = (case mb_take now (timing_events l) of
      (None, _) \<Rightarrow> Inl Protocol
    | (Some msg, box) \<Rightarrow>
        bindE (publish now epoch (tp_label (tpoint (env_value msg))) (replies l)) (\<lambda>rb.
        Inr (l\<lparr>timing_events := box, replies := rb\<rparr>)))"

definition close_stream ::
  "Tick \<Rightarrow> Epoch \<Rightarrow> ControlLinks \<Rightarrow> TcuState \<Rightarrow> (ControlLinks \<times> TcuState \<times> TraceEvent list) result" where
  "close_stream now epoch l t = (case mb_take now (closure l) of
      (None, _) \<Rightarrow> Inr (l, t, [])
    | (Some msg, box) \<Rightarrow>
        require (env_epoch msg = epoch) Protocol (
        bindE (tcu_close (env_value msg) t) (\<lambda>t'.
        Inr (l\<lparr>closure := box\<rparr>, t', [trace_event now epoch ''EndOfStreamVisible'' 0 (env_value msg) 0]))))"

definition tcu_edge ::
  "preflight_check \<Rightarrow> Tick \<Rightarrow> Epoch \<Rightarrow> Core \<Rightarrow> SyncNetwork \<Rightarrow> (TcuOutput \<times> Core \<times> SyncNetwork \<times> TraceEvent list) result" where
  "tcu_edge preflight now epoch c n =
     bindE (su_step now epoch (core_sync c) n) (\<lambda>(pause, u1, n1, tr1).
     let l = core_links c;
         candidate = map_option env_value (peek now (timing_events l));
         (taken, fbox) = take_all now (fast_results l);
         results = map env_value (filter (\<lambda>e. env_epoch e = epoch) taken);
         tr2 = map (\<lambda>_. trace_event now epoch ''StaleCompletionDiscarded'' 0 0 0) (filter (\<lambda>e. env_epoch e \<noteq> epoch) taken);
         l1 = l\<lparr>fast_results := fbox\<rparr> in
     bindE (tcu_step now epoch candidate results preflight pause
              (Some (\<lambda>ts. bindE (su_preflight ts now u1 n1) (\<lambda>_. Inr ()))) (core_tcu c)) (\<lambda>(t1, out, tr3).
     bindE (if admitted out then reply_admission now epoch l1 else Inr l1) (\<lambda>l2.
     bindE (su_book (out_synchronizations out) now epoch u1 n1) (\<lambda>(u2, n2, tr4).
     bindE (foldE (publish now epoch) (fast_delivered out) (fast_credits l2)) (\<lambda>cbox.
     bindE (close_stream now epoch (l2\<lparr>fast_credits := cbox\<rparr>) t1) (\<lambda>(l3, t2, tr5).
     Inr (out, c\<lparr>core_sync := u2, core_links := l3, core_tcu := t2\<rparr>, n2, tr1 @ tr2 @ tr3 @ tr4 @ tr5)))))))"

definition core_deliver :: "Tick \<Rightarrow> Epoch \<Rightarrow> Completion \<Rightarrow> Core \<Rightarrow> Core result" where
  "core_deliver now epoch r c = (let l = core_links c in
     bindE (publish now epoch r (cpu_results l)) (\<lambda>cb.
     bindE (if pf_fast_feedback (core_profile c) then publish now epoch r (fast_results l) else Inr (fast_results l)) (\<lambda>fb.
     Inr (c\<lparr>core_links := l\<lparr>cpu_results := cb, fast_results := fb\<rparr>\<rparr>))))"

definition core_drained :: "Core \<Rightarrow> bool" where
  "core_drained c \<longleftrightarrow> (let l = core_links c in
     halted (core_cpu c) \<and> ctl_closed (core_control c) \<and> enqueue_request (core_control c) = None \<and>
     tcu_drained (core_tcu c) \<and> su_drained (core_sync c) \<and> \<not> deliveries_pending (core_registers c) \<and>
     memory_idle (core_memory c) \<and> mb_empty (timing_events l) \<and> mb_empty (replies l) \<and> mb_empty (closure l) \<and>
     mb_empty (cpu_results l) \<and> mb_empty (fast_results l) \<and> mb_empty (fast_credits l) \<and>
     mb_empty (requests (fetch_port c)) \<and> mb_empty (responses (fetch_port c)) \<and>
     mb_empty (requests (data_port c)) \<and> mb_empty (responses (data_port c)))"

definition core_reset :: "Tick \<Rightarrow> Core \<Rightarrow> Core result" where
  "core_reset now c =
     bindE (tcu_reset now (core_tcu c)) (\<lambda>t.
     Inr (c\<lparr>core_links := links_reset (core_links c), fetch_port := port_reset (fetch_port c),
            data_port := port_reset (data_port c), core_memory := memory_reset (core_memory c),
            core_cpu := cpu_reset (entry (mem_image (core_memory c))) (core_cpu c),
            core_control := ctl_reset (core_control c), core_registers := fb_reset (core_registers c),
            core_tcu := t, core_sync := su_reset (core_sync c)\<rparr>))"

end
