(* ===== verification/Decoder.thy ===== *)
theory Decoder
  imports Memory Trace Ordered_Map
begin

unbundle bit_operations_syntax

text \<open>
  The decoders of \<^verbatim>\<open>include/qsbit/decoder.hpp\<close>, \<^verbatim>\<open>src/decoder.cpp\<close> and
  \<^verbatim>\<open>src/decoder/mmio.cpp\<close>: registers every core maps into its address space, a serial link that takes
  packets of measurement bits and resets to the decoders and brings results back, one session for
  each core and decoder, and the jobs a full window of measurements starts. The function that decodes a
  window is supplied by the configuration.
\<close>

section \<open>Memory-mapped registers\<close>

definition RegisterBytes :: u32 where "RegisterBytes = 32"
definition Select :: u32 where "Select = 0"
definition Count :: u32 where "Count = 4"
definition DataLow :: u32 where "DataLow = 8"
definition DataHigh :: u32 where "DataHigh = 12"
definition TagReg :: u32 where "TagReg = 16"
definition CommandReg :: u32 where "CommandReg = 20"
definition ResultLow :: u32 where "ResultLow = 24"
definition ResultHigh :: u32 where "ResultHigh = 28"
definition Submit :: u32 where "Submit = 1"
definition Reset :: u32 where "Reset = 2"
definition Consume :: u32 where "Consume = 3"
definition Ready :: u32 where "Ready = 1"
definition Busy :: u32 where "Busy = 2"

lemmas register_defs = RegisterBytes_def Select_def Count_def DataLow_def DataHigh_def TagReg_def CommandReg_def
  ResultLow_def ResultHigh_def Submit_def Reset_def Consume_def Ready_def Busy_def

datatype DecoderReadKind = CountRead | StatusRead | LowRead | HighRead

datatype DecoderCommand =
    DecoderSubmit u32 u32 u32 u64   \<comment> \<open>decoder, count, tag, data\<close>
  | DecoderReset u32 u32            \<comment> \<open>decoder, tag\<close>
  | DecoderConsume u32
  | DecoderRead u32 DecoderReadKind

record Registers =
  rg_decoder :: u32
  rg_count :: u32
  rg_low :: u32
  rg_high :: u32
  rg_tag :: u32

record DecoderMmio =
  mmio_base :: u32
  mmio_decoders :: "u32 list"
  mmio_registers :: "(u32, Registers) omap"

definition no_registers :: Registers where
  "no_registers = \<lparr>rg_decoder = 0, rg_count = 0, rg_low = 0, rg_high = 0, rg_tag = 0\<rparr>"

definition decoder_mmio :: "u32 \<Rightarrow> u32 list \<Rightarrow> DecoderMmio result" where
  "decoder_mmio base decoders =
     require (base mod 4 = 0 \<and> base \<le> 0xffffffff - (RegisterBytes - 1)) InvalidProfile (
     Inr \<lparr>mmio_base = base, mmio_decoders = decoders, mmio_registers = []\<rparr>)"

definition mmio_contains :: "DecoderMmio \<Rightarrow> u32 \<Rightarrow> bool" where
  "mmio_contains m a \<longleftrightarrow> mmio_decoders m \<noteq> [] \<and> mmio_base m \<le> a \<and>
     unat a < unat (mmio_base m) + unat RegisterBytes"

definition validate_memory :: "DecoderMmio \<Rightarrow> ProgramImage \<Rightarrow> unit result" where
  "validate_memory m img =
     require (mmio_decoders m = [] \<or> unat (img_base img) + length (img_bytes img) \<le> unat (mmio_base m) \<or>
              unat (mmio_base m) + unat RegisterBytes \<le> unat (img_base img)) InvalidProfile (Inr ())"

text \<open>
  One access. The outcome is a fault, nothing, or a command for the decoder system; the registers
  of the core come into being even when the access faults.
\<close>

definition mmio_write :: "DecoderMmio \<Rightarrow> u32 \<Rightarrow> u32 \<Rightarrow> Registers \<Rightarrow> (DecoderCommand option \<times> Registers) result" where
  "mmio_write m offset v r =
     (if offset = Select then require (v \<in> set (mmio_decoders m)) InvalidOperand (Inr (None, r\<lparr>rg_decoder := v\<rparr>))
      else if offset = Count then Inr (None, r\<lparr>rg_count := v\<rparr>)
      else if offset = DataLow then Inr (None, r\<lparr>rg_low := v\<rparr>)
      else if offset = DataHigh then Inr (None, r\<lparr>rg_high := v\<rparr>)
      else if offset = TagReg then Inr (None, r\<lparr>rg_tag := v\<rparr>)
      else if offset = CommandReg then
        require (rg_decoder r \<in> set (mmio_decoders m)) InvalidOperand (
        if v = Consume then Inr (Some (DecoderConsume (rg_decoder r)), r)
        else if v = Reset then Inr (Some (DecoderReset (rg_decoder r) (rg_tag r)), r)
        else if v = Submit then
          require (rg_count r > 0 \<and> rg_count r \<le> 64) InvalidOperand (
          Inr (Some (DecoderSubmit (rg_decoder r) (rg_count r) (rg_tag r)
                 (ucast (rg_low r) OR push_bit 32 (ucast (rg_high r)))), r))
        else Inl InvalidOperand)
      else Inl InvalidOperand)"

definition mmio_read :: "DecoderMmio \<Rightarrow> u32 \<Rightarrow> Registers \<Rightarrow> DecoderCommand option result" where
  "mmio_read m offset r =
     require (rg_decoder r \<in> set (mmio_decoders m)) InvalidOperand (
     if offset = Count then Inr (Some (DecoderRead (rg_decoder r) CountRead))
     else if offset = CommandReg then Inr (Some (DecoderRead (rg_decoder r) StatusRead))
     else if offset = ResultLow then Inr (Some (DecoderRead (rg_decoder r) LowRead))
     else if offset = ResultHigh then Inr (Some (DecoderRead (rg_decoder r) HighRead))
     else Inl Protocol)"

definition mmio_access ::
  "u32 \<Rightarrow> MemoryRequest \<Rightarrow> DecoderMmio \<Rightarrow> DecoderCommand option result \<times> DecoderMmio" where
  "mmio_access core q m =
     (if \<not> (mmio_contains m (mr_address q) \<and> mr_width q = 4 \<and> mr_address q mod 4 = 0 \<and> \<not> mr_instruction q)
      then (Inl InvalidOperand, m)
      else
        let regs = om_emplace core no_registers (mmio_registers m);
            r = the (om_find core regs);
            offset = mr_address q - mmio_base m in
        if mr_write q
        then (case mmio_write m offset (mr_value q) r of
            Inl e \<Rightarrow> (Inl e, m\<lparr>mmio_registers := regs\<rparr>)
          | Inr (c, r') \<Rightarrow> (Inr c, m\<lparr>mmio_registers := om_set core r' regs\<rparr>))
        else (mmio_read m offset r, m\<lparr>mmio_registers := regs\<rparr>))"

definition mmio_reset :: "DecoderMmio \<Rightarrow> DecoderMmio" where
  "mmio_reset m = m\<lparr>mmio_registers := []\<rparr>"


section \<open>The decoder system\<close>

record DecoderConfig =
  dc_id :: u32
  dc_measurements :: u32
  dc_outputs :: u32
  dc_latency :: Tick
  initiation_interval :: Tick
  dc_decode :: "(u8 list \<Rightarrow> bool list result) option"

record DecoderSystemConfig =
  ds_base :: u32
  request_capacity :: u32
  ds_result_capacity :: u32
  link_latency :: Tick
  bytes_per_tick :: u32
  packet_overhead :: u32
  decoders :: "DecoderConfig list"

record Session =
  measurements :: "u8 list"
  ss_result :: "u64 option"
  submitted :: bool

record Request =
  rq_id :: Id
  rq_core :: u32
  rq_decoder :: u32
  rq_count :: u32
  rq_tag :: u32
  rq_data :: u64
  rq_sent :: Tick
  rq_arrival :: Tick
  transmitted :: bool

record Job =
  jb_id :: Id
  jb_core :: u32
  jb_decoder :: u32
  jb_start :: Tick
  jb_completion :: Tick
  jb_result :: u64
  jb_arrival :: "Tick option"
  started :: bool
  completed :: bool

record DecoderSystem =
  ds_config :: DecoderSystemConfig
  mmio :: DecoderMmio
  sessions :: "(u32 \<times> u32, Session) omap"
  available :: "(u32, Tick) omap"
  ds_requests :: "Request list"
  reset_request :: "Request option"
  jobs :: "Job list"
  tx_available :: Tick
  rx_available :: Tick
  ds_next :: Id

definition decoder_ids :: "DecoderSystemConfig \<Rightarrow> u32 list" where
  "decoder_ids c = map dc_id (decoders c)"

definition decoder_config_ok :: "DecoderConfig \<Rightarrow> bool" where
  "decoder_config_ok d \<longleftrightarrow> 0 < dc_measurements d \<and> dc_measurements d \<le> 1048576 \<and> 0 < dc_outputs d \<and>
     dc_outputs d \<le> 64 \<and> 0 < dc_latency d \<and> 0 < initiation_interval d \<and> dc_decode d \<noteq> None"

definition decoder_system :: "DecoderSystemConfig \<Rightarrow> DecoderSystem result" where
  "decoder_system c =
     bindE (decoder_mmio (ds_base c) (decoder_ids c)) (\<lambda>m.
     require (0 < request_capacity c \<and> 0 < ds_result_capacity c \<and> 0 < bytes_per_tick c \<and> 0 < link_latency c)
       InvalidProfile (
     require (fresh_in {} (decoder_ids c) \<and> list_all decoder_config_ok (decoders c)) InvalidProfile (
     Inr \<lparr>ds_config = c, mmio = m, sessions = [], available = [], ds_requests = [], reset_request = None,
          jobs = [], tx_available = 0, rx_available = 0, ds_next = 1\<rparr>)))"

definition decoder_of :: "u32 \<Rightarrow> DecoderSystem \<Rightarrow> DecoderConfig result" where
  "decoder_of i s = (case find (\<lambda>d. dc_id d = i) (decoders (ds_config s)) of
      None \<Rightarrow> Inl InvalidOperand | Some d \<Rightarrow> Inr d)"

definition ds_event ::
  "Tick \<Rightarrow> Epoch \<Rightarrow> DecoderEventKind \<Rightarrow> Id \<Rightarrow> u32 \<Rightarrow> u32 \<Rightarrow> u32 \<Rightarrow> DecoderSystem \<Rightarrow> TraceEvent" where
  "ds_event now epoch k i core target tag s = decoder_event now epoch i core
     \<lparr>de_kind = k, de_state = \<lparr>dt_id = target, dt_tag = tag, dt_requests = length (ds_requests s),
        dt_resets = (if reset_request s = None then 0 else 1), dt_jobs = length (jobs s)\<rparr>\<rparr>"

definition no_session :: Session where
  "no_session = \<lparr>measurements = [], ss_result = None, submitted = False\<rparr>"

definition open_session :: "u32 \<Rightarrow> u32 \<Rightarrow> DecoderSystem \<Rightarrow> Session \<times> DecoderSystem" where
  "open_session core dec s =
     (let ss = om_emplace (core, dec) no_session (sessions s) in (the (om_find (core, dec) ss), s\<lparr>sessions := ss\<rparr>))"

definition transfer_ticks :: "nat \<Rightarrow> DecoderSystemConfig \<Rightarrow> Tick result" where
  "transfer_ticks payload c =
     bindE (checked_add (unat (packet_overhead c)) payload) (\<lambda>n.
     Inr (max 1 ((n + unat (bytes_per_tick c) - 1) div unat (bytes_per_tick c))))"

subsection \<open>Accesses of the cores\<close>

definition ds_consume ::
  "u32 \<Rightarrow> u32 \<Rightarrow> Tick \<Rightarrow> Epoch \<Rightarrow> DecoderSystem \<Rightarrow> u32 option result \<times> DecoderSystem \<times> TraceEvent list" where
  "ds_consume core dec now epoch s =
     (let (ss, s1) = open_session core dec s in
      if ss_result ss \<noteq> None \<and> \<not> submitted ss \<and> measurements ss = []
      then (let s2 = s1\<lparr>sessions := om_set (core, dec) no_session (sessions s1)\<rparr> in
            (Inr (Some 0), s2, [ds_event now epoch ResultConsumed 0 core dec 0 s2]))
      else (Inl Protocol, s1, []))"

definition concerns :: "u32 \<Rightarrow> u32 \<Rightarrow> Request \<Rightarrow> bool" where
  "concerns core dec p \<longleftrightarrow> rq_core p = core \<and> rq_decoder p = dec"

definition ds_read :: "u32 \<Rightarrow> u32 \<Rightarrow> DecoderReadKind \<Rightarrow> DecoderSystem \<Rightarrow> u32 option result \<times> DecoderSystem" where
  "ds_read core dec k s =
     (if k = CountRead then (bindE (decoder_of dec s) (\<lambda>d. Inr (Some (dc_outputs d))), s)
      else let (ss, s1) = open_session core dec s in
        if k = StatusRead then
          (let pending = (\<exists>p\<in>set_option (reset_request s). concerns core dec p) \<or> list_ex (concerns core dec) (ds_requests s) in
           (Inr (Some ((if ss_result ss \<noteq> None then Ready else 0) OR
              (if pending \<or> submitted ss \<or> measurements ss \<noteq> [] then Busy else 0))), s1))
        else (case ss_result ss of
            None \<Rightarrow> (Inl Protocol, s1)
          | Some r \<Rightarrow> (Inr (Some (ucast (drop_bit (if k = LowRead then 0 else 32) r))), s1)))"

text \<open>A submission or, when \<open>isreset\<close>, a reset: it takes its place on the link to the decoders.\<close>

definition ds_submit ::
  "bool \<Rightarrow> u32 \<Rightarrow> u32 \<Rightarrow> u32 \<Rightarrow> u32 \<Rightarrow> u64 \<Rightarrow> Tick \<Rightarrow> Epoch \<Rightarrow> DecoderSystem \<Rightarrow>
   (u32 option \<times> DecoderSystem \<times> TraceEvent list) result" where
  "ds_submit isreset core dec bits tag data now epoch s =
     (if (if isreset then reset_request s \<noteq> None else unat (request_capacity (ds_config s)) \<le> length (ds_requests s))
      then Inr (None, s, [])
      else
        bindE (transfer_ticks ((unat bits + 7) div 8) (ds_config s)) (\<lambda>duration.
        let sent = max now (tx_available s) in
        bindE (checked_add sent duration) (\<lambda>end_tick.
        bindE (checked_add end_tick (link_latency (ds_config s))) (\<lambda>arrival.
        require (ds_next s \<noteq> tick_max) Capacity (
        let packet = \<lparr>rq_id = ds_next s, rq_core = core, rq_decoder = dec, rq_count = bits, rq_tag = tag,
              rq_data = data, rq_sent = sent, rq_arrival = arrival, transmitted = False\<rparr>;
            s1 = (if isreset then s\<lparr>reset_request := Some packet\<rparr>
                  else s\<lparr>ds_requests := ds_requests s @ [packet]\<rparr>);
            s2 = s1\<lparr>ds_next := ds_next s + 1, tx_available := end_tick\<rparr> in
        Inr (Some 0, s2, [ds_event now epoch RequestSubmitted (ds_next s) core dec tag s2]))))))"

definition ds_access ::
  "u32 \<Rightarrow> MemoryRequest \<Rightarrow> Tick \<Rightarrow> Epoch \<Rightarrow> DecoderSystem \<Rightarrow>
   u32 option result \<times> DecoderSystem \<times> TraceEvent list" where
  "ds_access core q now epoch s =
     (let (outcome, m) = mmio_access core q (mmio s); s1 = s\<lparr>mmio := m\<rparr>;
          submission = (\<lambda>isreset dec bits tag data.
            (case ds_submit isreset core dec bits tag data now epoch s1 of
               Inl e \<Rightarrow> (Inl e, s1, []) | Inr (v, s2, tr) \<Rightarrow> (Inr v, s2, tr))) in
      case outcome of
        Inl e \<Rightarrow> (Inl e, s1, [])
      | Inr None \<Rightarrow> (Inr (Some 0), s1, [])
      | Inr (Some (DecoderConsume dec)) \<Rightarrow> ds_consume core dec now epoch s1
      | Inr (Some (DecoderRead dec k)) \<Rightarrow> (let (v, s2) = ds_read core dec k s1 in (v, s2, []))
      | Inr (Some (DecoderReset dec tag)) \<Rightarrow> submission True dec 0 tag 0
      | Inr (Some (DecoderSubmit dec bits tag data)) \<Rightarrow> submission False dec bits tag data)"


subsection \<open>Time\<close>

definition send_one :: "Tick \<Rightarrow> Epoch \<Rightarrow> DecoderSystem \<Rightarrow> Request \<Rightarrow> Request \<times> TraceEvent list" where
  "send_one now epoch s p =
     (if \<not> transmitted p \<and> rq_sent p \<le> now
      then (p\<lparr>transmitted := True\<rparr>, [ds_event now epoch RequestSent (rq_id p) (rq_core p) (rq_decoder p) (rq_tag p) s])
      else (p, []))"

definition cancelled :: "Request \<Rightarrow> Id \<Rightarrow> u32 \<Rightarrow> u32 \<Rightarrow> bool" where
  "cancelled p i core dec \<longleftrightarrow> core = rq_core p \<and> dec = rq_decoder p \<and> i < rq_id p"

definition apply_reset :: "Tick \<Rightarrow> Epoch \<Rightarrow> Request \<Rightarrow> DecoderSystem \<Rightarrow> DecoderSystem \<times> TraceEvent list" where
  "apply_reset now epoch p s =
     (let s1 = s\<lparr>reset_request := None,
            ds_requests := filter (\<lambda>q. \<not> cancelled p (rq_id q) (rq_core q) (rq_decoder q)) (ds_requests s),
            jobs := filter (\<lambda>j. \<not> cancelled p (jb_id j) (jb_core j) (jb_decoder j)) (jobs s),
            sessions := om_set (rq_core p, rq_decoder p) no_session (sessions s)\<rparr> in
      (s1, [ds_event now epoch ResetEvent (rq_id p) (rq_core p) (rq_decoder p) (rq_tag p) s1]))"

definition advance_transmission :: "Tick \<Rightarrow> Epoch \<Rightarrow> DecoderSystem \<Rightarrow> DecoderSystem \<times> TraceEvent list" where
  "advance_transmission now epoch s =
     (let sent = map (send_one now epoch s) (ds_requests s);
          s1 = s\<lparr>ds_requests := map fst sent\<rparr>; tr = concat (map snd sent) in
      case reset_request s1 of
        None \<Rightarrow> (s1, tr)
      | Some r \<Rightarrow>
          let (r', tr1) = send_one now epoch s1 r in
          if rq_arrival r' \<le> now
          then (let (s2, tr2) = apply_reset now epoch r' s1 in (s2, tr @ tr1 @ tr2))
          else (s1\<lparr>reset_request := Some r'\<rparr>, tr @ tr1))"

text \<open>One job: \<open>j\<close> stands in the queue between \<open>kept\<close> and \<open>rest\<close>.\<close>

definition start_job :: "Tick \<Rightarrow> Epoch \<Rightarrow> DecoderSystem \<Rightarrow> Job \<Rightarrow> Job \<times> TraceEvent list" where
  "start_job now epoch s j =
     (if \<not> started j \<and> jb_start j \<le> now
      then (j\<lparr>started := True\<rparr>, [ds_event now epoch Started (jb_id j) (jb_core j) (jb_decoder j) 0 s]) else (j, []))"

definition complete_job :: "Tick \<Rightarrow> Epoch \<Rightarrow> DecoderSystem \<Rightarrow> Job \<Rightarrow> Job \<times> TraceEvent list" where
  "complete_job now epoch s j =
     (if \<not> completed j \<and> jb_completion j \<le> now
      then (j\<lparr>completed := True\<rparr>, [ds_event now epoch Completed (jb_id j) (jb_core j) (jb_decoder j) 0 s]) else (j, []))"

definition return_result :: "Tick \<Rightarrow> Epoch \<Rightarrow> Job \<Rightarrow> DecoderSystem \<Rightarrow> (DecoderSystem \<times> TraceEvent list) result" where
  "return_result now epoch j s = (case om_find (jb_core j, jb_decoder j) (sessions s) of
      None \<Rightarrow> Inl Protocol
    | Some ss \<Rightarrow>
        let ss' = ss\<lparr>ss_result := Some (case_option 0 id (ss_result ss) XOR jb_result j), submitted := False\<rparr>;
            s1 = s\<lparr>sessions := om_set (jb_core j, jb_decoder j) ss' (sessions s)\<rparr> in
        Inr (s1, [ds_event now epoch ResultReturned (jb_id j) (jb_core j) (jb_decoder j) 0 s1]))"

fun advance_from ::
  "Tick \<Rightarrow> Epoch \<Rightarrow> Job list \<Rightarrow> Job list \<Rightarrow> DecoderSystem \<Rightarrow> (DecoderSystem \<times> TraceEvent list) result" where
  "advance_from now epoch kept [] s = Inr (s\<lparr>jobs := kept\<rparr>, [])"
| "advance_from now epoch kept (j # rest) s =
     (let (j1, tr1) = start_job now epoch (s\<lparr>jobs := kept @ j # rest\<rparr>) j;
          (j2, tr2) = complete_job now epoch (s\<lparr>jobs := kept @ j1 # rest\<rparr>) j1;
          s1 = s\<lparr>jobs := kept @ j2 # rest\<rparr> in
      if (\<exists>a\<in>set_option (jb_arrival j2). a \<le> now)
      then bindE (return_result now epoch j2 s1) (\<lambda>(s2, tr3).
           bindE (advance_from now epoch kept rest s2) (\<lambda>(s3, tr4). Inr (s3, tr1 @ tr2 @ tr3 @ tr4)))
      else bindE (advance_from now epoch (kept @ [j2]) rest s1) (\<lambda>(s3, tr4). Inr (s3, tr1 @ tr2 @ tr4)))"

definition advance_jobs :: "Tick \<Rightarrow> Epoch \<Rightarrow> DecoderSystem \<Rightarrow> (DecoderSystem \<times> TraceEvent list) result" where
  "advance_jobs now epoch s = advance_from now epoch [] (jobs s) s"

definition packet_bits :: "Request \<Rightarrow> u8 list" where
  "packet_bits p = map (\<lambda>n. ucast (drop_bit n (rq_data p) AND 1)) [0..<unat (rq_count p)]"

fun pack_bits :: "nat \<Rightarrow> bool list \<Rightarrow> u64" where
  "pack_bits n [] = 0"
| "pack_bits n (b # bs) = push_bit n (of_bool b) OR pack_bits (n + 1) bs"

definition reserved :: "DecoderSystem \<Rightarrow> nat" where
  "reserved s = om_count (\<lambda>v. ss_result v \<noteq> None \<or> submitted v) (sessions s)"

text \<open>A session whose window is full: the job of its result.\<close>

definition launch ::
  "Tick \<Rightarrow> Request \<Rightarrow> DecoderConfig \<Rightarrow> u8 list \<Rightarrow> DecoderSystem \<Rightarrow> DecoderSystem result" where
  "launch now p d ms s = (case dc_decode d of
      None \<Rightarrow> Inl Protocol
    | Some decode \<Rightarrow>
        bindE (decode ms) (\<lambda>r.
        require (length r = unat (dc_outputs d)) BackendFailure (
        bindE (checked_add now 1) (\<lambda>next_tick.
        let start = max next_tick (case_option 0 id (om_find (dc_id d) (available s))) in
        bindE (checked_add start (initiation_interval d)) (\<lambda>free.
        bindE (checked_add start (dc_latency d)) (\<lambda>complete.
        Inr (s\<lparr>available := om_set (dc_id d) free (available s),
               jobs := jobs s @ [\<lparr>jb_id = rq_id p, jb_core = rq_core p, jb_decoder = rq_decoder p, jb_start = start,
                 jb_completion = complete, jb_result = pack_bits 0 r, jb_arrival = None, started = False,
                 completed = False\<rparr>]\<rparr>)))))))"

text \<open>The oldest request at the head of the queue: whether it was taken.\<close>

definition admit_head ::
  "Tick \<Rightarrow> Epoch \<Rightarrow> Request \<Rightarrow> DecoderSystem \<Rightarrow> (bool \<times> DecoderSystem \<times> TraceEvent list) result" where
  "admit_head now epoch p s0 =
     bindE (decoder_of (rq_decoder p) s0) (\<lambda>d.
     let (ss, s) = open_session (rq_core p) (rq_decoder p) s0; window = unat (dc_measurements d);
         filled = length (measurements ss) + unat (rq_count p) in
     if submitted ss then Inr (False, s, [])
     else require (filled \<le> window) Protocol (
       if filled = window \<and> ss_result ss = None \<and> unat (ds_result_capacity (ds_config s)) \<le> reserved s
       then Inr (False, s, [])
       else let ms = measurements ss @ packet_bits p;
                s1 = s\<lparr>sessions := om_set (rq_core p, rq_decoder p) (ss\<lparr>measurements := ms\<rparr>) (sessions s)\<rparr>;
                tr = [ds_event now epoch RequestArrived (rq_id p) (rq_core p) (rq_decoder p) (rq_tag p) s1] in
         if length ms = window
         then bindE (launch now p d ms s1) (\<lambda>s2.
              Inr (True, s2\<lparr>sessions := om_set (rq_core p, rq_decoder p)
                 (ss\<lparr>measurements := [], submitted := True\<rparr>) (sessions s2)\<rparr>, tr))
         else Inr (True, s1, tr)))"

fun admit_from ::
  "Tick \<Rightarrow> Epoch \<Rightarrow> Request list \<Rightarrow> DecoderSystem \<Rightarrow> (DecoderSystem \<times> TraceEvent list) result" where
  "admit_from now epoch [] s = Inr (s\<lparr>ds_requests := []\<rparr>, [])"
| "admit_from now epoch (p # ps) s =
     (let s0 = s\<lparr>ds_requests := p # ps\<rparr> in
      if rq_arrival p \<le> now
      then bindE (admit_head now epoch p s0) (\<lambda>(taken, s1, tr).
           if taken then bindE (admit_from now epoch ps s1) (\<lambda>(s2, tr'). Inr (s2, tr @ tr')) else Inr (s1, tr))
      else Inr (s0, []))"

definition admit_requests :: "Tick \<Rightarrow> Epoch \<Rightarrow> DecoderSystem \<Rightarrow> (DecoderSystem \<times> TraceEvent list) result" where
  "admit_requests now epoch s = admit_from now epoch (ds_requests s) s"

fun pick_ready :: "nat \<Rightarrow> (nat \<times> Job) option \<Rightarrow> Job list \<Rightarrow> (nat \<times> Job) option" where
  "pick_ready n best [] = best"
| "pick_ready n best (j # js) =
     pick_ready (n + 1)
       (if completed j \<and> jb_arrival j = None \<and>
           (case best of None \<Rightarrow> True
            | Some (_, b) \<Rightarrow> jb_completion j < jb_completion b \<or>
                jb_completion j = jb_completion b \<and> jb_id j < jb_id b)
        then Some (n, j) else best) js"

definition transmit_result :: "Tick \<Rightarrow> DecoderSystem \<Rightarrow> DecoderSystem result" where
  "transmit_result now s =
     (if rx_available s \<le> now
      then (case pick_ready 0 None (jobs s) of
          None \<Rightarrow> Inr s
        | Some (i, j) \<Rightarrow>
            bindE (decoder_of (jb_decoder j) s) (\<lambda>d.
            bindE (transfer_ticks ((unat (dc_outputs d) + 7) div 8) (ds_config s)) (\<lambda>duration.
            bindE (checked_add now duration) (\<lambda>end_tick.
            bindE (checked_add end_tick (link_latency (ds_config s))) (\<lambda>a.
            Inr (s\<lparr>jobs := (jobs s)[i := j\<lparr>jb_arrival := Some a\<rparr>], rx_available := end_tick\<rparr>))))))
      else Inr s)"

definition ds_step :: "Tick \<Rightarrow> Epoch \<Rightarrow> DecoderSystem \<Rightarrow> (DecoderSystem \<times> TraceEvent list) result" where
  "ds_step now epoch s =
     (let (s1, tr1) = advance_transmission now epoch s in
      bindE (advance_jobs now epoch s1) (\<lambda>(s2, tr2).
      bindE (admit_requests now epoch s2) (\<lambda>(s3, tr3).
      bindE (transmit_result now s3) (\<lambda>s4. Inr (s4, tr1 @ tr2 @ tr3)))))"

definition ds_reset :: "DecoderSystem \<Rightarrow> DecoderSystem" where
  "ds_reset s = s\<lparr>mmio := mmio_reset (mmio s), sessions := [], ds_requests := [], reset_request := None, jobs := [],
     available := [], tx_available := 0, rx_available := 0\<rparr>"

definition ds_idle :: "DecoderSystem \<Rightarrow> bool" where
  "ds_idle s \<longleftrightarrow> ds_requests s = [] \<and> reset_request s = None \<and> jobs s = [] \<and>
     list_all (\<lambda>e. measurements (snd e) = []) (sessions s)"

text \<open>The ticks \<open>next_boundary\<close> offers to \<open>include\<close>, and the least one in the future.\<close>

definition request_boundaries :: "Request \<Rightarrow> Tick list" where
  "request_boundaries p = (if transmitted p then [] else [rq_sent p]) @ [rq_arrival p]"

definition job_boundaries :: "Tick \<Rightarrow> Job \<Rightarrow> Tick list" where
  "job_boundaries rx j = [jb_start j, jb_completion j] @
     (case jb_arrival j of Some a \<Rightarrow> [a] | None \<Rightarrow> if completed j then [rx] else [])"

definition include_tick :: "Tick \<Rightarrow> Tick \<Rightarrow> Tick option \<Rightarrow> Tick option" where
  "include_tick now t next = (if now < t \<and> (\<forall>n\<in>set_option next. t < n) then Some t else next)"

definition ds_boundaries :: "DecoderSystem \<Rightarrow> Tick list" where
  "ds_boundaries s = concat (map request_boundaries (ds_requests s)) @
     (case reset_request s of Some r \<Rightarrow> request_boundaries r | None \<Rightarrow> []) @
     concat (map (job_boundaries (rx_available s)) (jobs s))"

definition ds_next_boundary :: "Tick \<Rightarrow> DecoderSystem \<Rightarrow> Tick option" where
  "ds_next_boundary now s = fold (include_tick now) (ds_boundaries s) None"

end
