(* ===== verification/Simulator.thy ===== *)
theory Simulator
  imports Core Electronics Decoder
begin

text \<open>
  The simulator, \<^verbatim>\<open>include/qsbit/simulator.hpp\<close> and \<^verbatim>\<open>src/simulator.cpp\<close>: the cores, the network, the decoders
  and the control electronics, and the processes that the SystemC kernel activates: the CPU, memory
  and TCU edges, the wake-up and the barrier that closes a tick. The kernel is not modelled: \<open>wake\<close> is the
  tick of the pending wake-up and \<open>barrier_notified\<close> the pending delta notification. A fault ends the
  simulation with the state before the failing process, its code recorded; the events that process
  had emitted before it failed are not kept.
\<close>

record CoreConfig =
  cfg_id :: u32
  cfg_profile :: Profile
  cfg_image :: ProgramImage
  cfg_issue :: ControlIssue
  cfg_sync_capacity :: nat

record 'b Simulator =
  sim_profile :: Profile
  sim_log :: TraceLog
  sim_decoders :: DecoderSystem
  sim_network :: SyncNetwork
  sim_cores :: "Core list"
  port_offsets :: "u32 list"
  sim_device :: "'b ControlElectronics"
  wake :: "Tick option"
  barrier_notified :: bool
  cpu_done :: "Tick option"
  memory_done :: "Tick option"
  tcu_done :: "Tick option"
  last_reset :: "Tick option"
  sim_resets :: "Tick list"
  sim_epoch :: Epoch
  reverse_order :: bool
  stopped :: bool
  success :: bool
  sim_fault :: "ErrorCode option"

section \<open>Configurations\<close>

definition add_core :: "Profile \<Rightarrow> CoreConfig \<Rightarrow> u32 list \<times> nat \<Rightarrow> (u32 list \<times> nat) result" where
  "add_core first c = (\<lambda>(ids, ports).
     bindE (profile_validate (cfg_profile c)) (\<lambda>_.
     require (cfg_id c \<le> 131071 \<and> cfg_id c \<notin> set ids) InvalidProfile (
     let p = cfg_profile c in
     require (period (pf_tcu p) = period (pf_tcu first) \<and> phase (pf_tcu p) = phase (pf_tcu first) \<and>
        pf_qubits p = pf_qubits first \<and> pf_seed p = pf_seed first \<and> pf_watchdog p = pf_watchdog first \<and>
        two_qubit_gates p = two_qubit_gates first) InvalidProfile (
     bindE (checked_add ports (unat (pf_ports p))) (\<lambda>ports'.
     Inr (cfg_id c # ids, ports'))))))"

definition check_input_mapping :: "CoreConfig list \<Rightarrow> TwoQubitGate \<Rightarrow> GateInput \<Rightarrow> unit result" where
  "check_input_mapping cs g i = (case find (\<lambda>c. cfg_id c = in_core i) cs of
      None \<Rightarrow> Inl InvalidProfile
    | Some c \<Rightarrow>
        require (case find (\<lambda>m. map_port m = in_port i \<and> map_codeword m = in_codeword i) (pf_mappings (cfg_profile c)) of
            None \<Rightarrow> False
          | Some m \<Rightarrow> (case map_actions m of
                [a] \<Rightarrow> (case spec a of SpecOutput o1 \<Rightarrow> output_gate o1 = tq_name g | _ \<Rightarrow> False)
              | _ \<Rightarrow> False)) InvalidProfile (Inr ()))"

definition check_output_action :: "Profile \<Rightarrow> CoreConfig \<Rightarrow> Mapping \<Rightarrow> EventSpec \<Rightarrow> unit result" where
  "check_output_action first c m a = (case spec a of
      SpecOutput o1 \<Rightarrow>
        bindE (profile_gate first (output_gate o1)) (\<lambda>g.
        require (\<lparr>in_core = cfg_id c, in_port = map_port m, in_codeword = map_codeword m\<rparr> \<in> set (tq_inputs g))
          InvalidProfile (Inr ()))
    | _ \<Rightarrow> Inr ())"

definition validated :: "CoreConfig list \<Rightarrow> SyncConnection list \<Rightarrow> Profile result" where
  "validated cs links =
     require (cs \<noteq> []) InvalidProfile (
     let first = cfg_profile (hd cs) in
     bindE (foldE (add_core first) cs ([], 0)) (\<lambda>(ids, ports).
     require (ports \<le> 0xffffffff) InvalidProfile (
     require (list_all (\<lambda>l. sc_first l \<in> set ids \<and> sc_second l \<in> set ids) links) InvalidProfile (
     bindE (mapE (\<lambda>g. mapE (check_input_mapping cs g) (tq_inputs g)) (two_qubit_gates first)) (\<lambda>_.
     bindE (mapE (\<lambda>c. mapE (\<lambda>m. mapE (check_output_action first c m) (map_actions m)) (pf_mappings (cfg_profile c))) cs) (\<lambda>_.
     Inr first))))))"

section \<open>Events between the cores and the device\<close>

text \<open>Identities of a core become identities of the device, disjoint for the cores.\<close>

definition global_id :: "nat \<Rightarrow> nat \<Rightarrow> Id \<Rightarrow> Id result" where
  "global_id n index i =
     require (i > 0) Protocol (bindE (checked_mul (i - 1) n) (\<lambda>m. checked_add m (index + 1)))"

definition device_event :: "nat \<Rightarrow> nat \<Rightarrow> u32 \<Rightarrow> u32 \<Rightarrow> OperationEvent \<Rightarrow> OperationEvent result" where
  "device_event n index core offset e =
     bindE (global_id n index (oe_id e)) (\<lambda>i.
     bindE (case oe_reference e of
              None \<Rightarrow> Inr None
            | Some r \<Rightarrow> bindE (global_id n index (measurement r)) (\<lambda>m. Inr (Some (r\<lparr>measurement := m\<rparr>)))) (\<lambda>r'.
     Inr (e\<lparr>oe_id := i, oe_core := Some core, action := (action e)\<lparr>es_port := es_port (action e) + offset\<rparr>,
            oe_reference := r'\<rparr>)))"

definition device_events :: "'b Simulator \<Rightarrow> nat \<Rightarrow> TriggeredEvents \<Rightarrow> TriggeredEvents result" where
  "device_events s index b =
     (let n = length (sim_cores s) in
      if n = 1
      then (let i = core_id (hd (sim_cores s)) in
            Inr (if i \<noteq> 0 then b\<lparr>tr_events := map (\<lambda>e. e\<lparr>oe_core := Some i\<rparr>) (tr_events b)\<rparr> else b))
      else
        bindE (mapE (device_event n index (core_id (sim_cores s ! index)) (port_offsets s ! index)) (tr_events b)) (\<lambda>es.
        Inr (b\<lparr>tr_events := es\<rparr>)))"

text \<open>The way back: the core a result is for, and its own name for the measurement.\<close>

definition local_result :: "nat \<Rightarrow> Completion \<Rightarrow> (nat \<times> Completion) result" where
  "local_result n r = (let m = measurement (reference r) in
     require (m > 0) Protocol (
     Inr ((m - 1) mod n, r\<lparr>reference := (reference r)\<lparr>measurement := (m - 1) div n + 1\<rparr>\<rparr>)))"

definition deliver_result ::
  "Tick \<Rightarrow> Epoch \<Rightarrow> Completion \<Rightarrow> Core list \<Rightarrow> (TraceEvent list \<times> Core list) result" where
  "deliver_result now epoch r cs =
     bindE (local_result (length cs) r) (\<lambda>(i, r').
     bindE (core_deliver now epoch r' (cs ! i)) (\<lambda>c.
     Inr ([], cs[i := c])))"

section \<open>Trace\<close>

text \<open>Events of a core carry its number when there are several cores.\<close>

definition core_stamp :: "'b Simulator \<Rightarrow> Core \<Rightarrow> u32 option" where
  "core_stamp s c = (if length (sim_cores s) > 1 then Some (core_id c) else None)"

definition log_core :: "Core \<Rightarrow> TraceEvent list \<Rightarrow> 'b Simulator \<Rightarrow> 'b Simulator result" where
  "log_core c tr s = bindE (emit_all (core_stamp s c) tr (sim_log s)) (\<lambda>l. Inr (s\<lparr>sim_log := l\<rparr>))"

definition log_root :: "TraceEvent list \<Rightarrow> 'b Simulator \<Rightarrow> 'b Simulator result" where
  "log_root tr s = bindE (foldE emit tr (sim_log s)) (\<lambda>l. Inr (s\<lparr>sim_log := l\<rparr>))"

section \<open>Resets and the schedule\<close>

definition reset_at :: "'b Backend \<Rightarrow> Tick \<Rightarrow> 'b Simulator \<Rightarrow> (bool \<times> 'b Simulator) result" where
  "reset_at B now s =
     (if now \<notin> set (sim_resets s) then Inr (False, s)
      else if last_reset s = Some now then Inr (True, s)
      else
        bindE (checked_add (sim_epoch s) 1) (\<lambda>ep.
        bindE (mapE (core_reset now) (sim_cores s)) (\<lambda>cs.
        bindE (ce_reset B now ep (sim_device s)) (\<lambda>(d, tr).
        bindE (log_root (tr @ [trace_event now ep ''SessionReset'' 0 0 0])
          (s\<lparr>sim_epoch := ep, sim_network := net_reset (sim_network s), sim_decoders := ds_reset (sim_decoders s),
             sim_cores := cs, sim_device := d, last_reset := Some now\<rparr>)) (\<lambda>s'.
        Inr (True, s'))))))"

definition earliest :: "Tick option \<Rightarrow> Tick \<Rightarrow> Tick" where
  "earliest t n = (case t of None \<Rightarrow> n | Some t \<Rightarrow> min n t)"

definition schedule_wakeup :: "Tick \<Rightarrow> 'b Simulator \<Rightarrow> 'b Simulator result" where
  "schedule_wakeup now s =
     (let t1 = earliest (ds_next_boundary now (sim_decoders s)) (pf_watchdog (sim_profile s));
          t2 = earliest (next_boundary (sim_device s)) t1;
          t3 = earliest (find (\<lambda>r. now < r) (sim_resets s)) t2 in
      require (now < t3) Protocol (Inr (s\<lparr>wake := Some t3\<rparr>)))"


section \<open>Processes\<close>

definition on_edge :: "Tick \<Rightarrow> Core \<Rightarrow> bool" where
  "on_edge now c \<longleftrightarrow> edge (pf_cpu (core_profile c)) now"

text \<open>A fault of a process: the simulation stops.\<close>

definition fault_event :: "Tick \<Rightarrow> ErrorCode \<Rightarrow> 'b Simulator \<Rightarrow> TraceEvent" where
  "fault_event now e s = (trace_event now (sim_epoch s) ''Fault'' 0 0 0)\<lparr>ev_operation := error_name e\<rparr>"

definition fail :: "Tick \<Rightarrow> ErrorCode \<Rightarrow> 'b Simulator \<Rightarrow> 'b Simulator" where
  "fail now e s = s\<lparr>sim_fault := Some e, stopped := True,
     sim_log := (case emit (fault_event now e s) (sim_log s) of Inr l \<Rightarrow> l | Inl _ \<Rightarrow> sim_log s)\<rparr>"

definition process :: "Tick \<Rightarrow> ('b Simulator \<Rightarrow> 'b Simulator result) \<Rightarrow> 'b Simulator \<Rightarrow> 'b Simulator" where
  "process now body s =
     (if stopped s then s else case body s of Inl e \<Rightarrow> fail now e s | Inr s' \<Rightarrow> s')"

text \<open>The validation of a core's events, on the ports of the device.\<close>

definition validate_mapped :: "'b Backend \<Rightarrow> 'b Simulator \<Rightarrow> nat \<Rightarrow> EventSpec \<Rightarrow> unit result" where
  "validate_mapped B s i a = ce_validate B (a\<lparr>es_port := es_port a + port_offsets s ! i\<rparr>) (sim_device s)"

definition one_cpu_edge :: "'b Backend \<Rightarrow> Tick \<Rightarrow> nat \<Rightarrow> 'b Simulator \<Rightarrow> 'b Simulator result" where
  "one_cpu_edge B now i s = (let c = sim_cores s ! i in
     if on_edge now c
     then bindE (cpu_edge (validate_mapped B s i) (sim_network s) now (sim_epoch s) c) (\<lambda>(c', tr).
          log_core c tr (s\<lparr>sim_cores := (sim_cores s)[i := c']\<rparr>))
     else Inr s)"

definition cpu_edge_body :: "'b Backend \<Rightarrow> Tick \<Rightarrow> 'b Simulator \<Rightarrow> 'b Simulator result" where
  "cpu_edge_body B now s =
     bindE (reset_at B now s) (\<lambda>(isreset, s1).
     bindE (if isreset then Inr s1 else foldE (one_cpu_edge B now) [0..<length (sim_cores s1)] s1) (\<lambda>s2.
     Inr (s2\<lparr>cpu_done := Some now, barrier_notified := True\<rparr>)))"

text \<open>The decoders as the device of a core's memory, with the events they emit.\<close>

definition decoder_device :: "u32 \<Rightarrow> DecoderMmio \<Rightarrow> (DecoderSystem \<times> TraceEvent list) device" where
  "decoder_device core m = Some (mmio_contains m,
     \<lambda>q now epoch (d, tr). (case ds_access core q now epoch d of (r, d', tr') \<Rightarrow> (r, (d', tr @ tr'))))"

definition one_memory_edge :: "Tick \<Rightarrow> nat \<Rightarrow> 'b Simulator \<Rightarrow> 'b Simulator result" where
  "one_memory_edge now i s = (let c = sim_cores s ! i in
     if on_edge now c
     then bindE (memory_edge (decoder_device (core_id c) (mmio (sim_decoders s))) now (sim_epoch s) c (sim_decoders s, []))
            (\<lambda>(c', (d, tr)). log_root tr (s\<lparr>sim_cores := (sim_cores s)[i := c'], sim_decoders := d\<rparr>))
     else Inr s)"

definition memory_edge_body :: "'b Backend \<Rightarrow> Tick \<Rightarrow> 'b Simulator \<Rightarrow> 'b Simulator result" where
  "memory_edge_body B now s =
     bindE (reset_at B now s) (\<lambda>(isreset, s1).
     bindE (if isreset then Inr s1 else foldE (one_memory_edge now) [0..<length (sim_cores s1)] s1) (\<lambda>s2.
     Inr (s2\<lparr>memory_done := Some now, barrier_notified := True\<rparr>)))"

text \<open>The TCU edge of one core; its launch is accepted by the control electronics.\<close>

definition one_tcu_edge :: "'b Backend \<Rightarrow> Tick \<Rightarrow> nat \<Rightarrow> 'b Simulator \<Rightarrow> 'b Simulator result" where
  "one_tcu_edge B now i s = (let c = sim_cores s ! i in
     bindE (tcu_edge (\<lambda>b. bindE (device_events s i b) (\<lambda>b'. ce_preflight B b' (sim_device s))) now (sim_epoch s) c
       (sim_network s)) (\<lambda>(out, c', n, tr).
     bindE (log_core c tr (s\<lparr>sim_cores := (sim_cores s)[i := c'], sim_network := n\<rparr>)) (\<lambda>s1.
     case TcuOutput.launch out of
       None \<Rightarrow> Inr s1
     | Some b \<Rightarrow>
         bindE (device_events s1 i b) (\<lambda>b'.
         bindE (ce_accept B b' (sim_device s1)) (\<lambda>(d, tr').
         log_root tr' (s1\<lparr>sim_device := d\<rparr>))))))"

definition tcu_edge_body :: "'b Backend \<Rightarrow> Tick \<Rightarrow> 'b Simulator \<Rightarrow> 'b Simulator result" where
  "tcu_edge_body B now s =
     bindE (reset_at B now s) (\<lambda>(isreset, s1).
     let is = [0..<length (sim_cores s1)] in
     bindE (if isreset then Inr s1
            else foldE (one_tcu_edge B now) (if reverse_order s1 then rev is else is) s1) (\<lambda>s2.
     Inr (s2\<lparr>tcu_done := Some now, barrier_notified := True\<rparr>)))"

definition wakeup_body :: "'b Backend \<Rightarrow> Tick \<Rightarrow> 'b Simulator \<Rightarrow> 'b Simulator result" where
  "wakeup_body B now s = bindE (reset_at B now (s\<lparr>wake := None\<rparr>)) (\<lambda>(_, s1). Inr (s1\<lparr>barrier_notified := True\<rparr>))"

text \<open>The barrier waits for the processes due at the tick; then decoders and device catch up.\<close>

definition edges_done :: "Tick \<Rightarrow> 'b Simulator \<Rightarrow> bool" where
  "edges_done now s \<longleftrightarrow>
     (list_ex (on_edge now) (sim_cores s) \<longrightarrow> cpu_done s = Some now \<and> memory_done s = Some now) \<and>
     (edge (pf_tcu (sim_profile s)) now \<longrightarrow> tcu_done s = Some now)"

definition step_decoders :: "Tick \<Rightarrow> 'b Simulator \<Rightarrow> 'b Simulator result" where
  "step_decoders now s =
     (if last_reset s = Some now then Inr s
      else bindE (ds_step now (sim_epoch s) (sim_decoders s)) (\<lambda>(d, tr). log_root tr (s\<lparr>sim_decoders := d\<rparr>)))"

definition process_device :: "'b Backend \<Rightarrow> Tick \<Rightarrow> 'b Simulator \<Rightarrow> 'b Simulator result" where
  "process_device B now s =
     bindE (reset_at B now s) (\<lambda>(isreset, s1).
     if \<not> isreset \<and> next_boundary (sim_device s1) = Some now
     then bindE (ce_process B now (sim_epoch s1) (deliver_result now (sim_epoch s1)) (sim_device s1) (sim_cores s1))
            (\<lambda>(d, cs, tr). log_root tr (s1\<lparr>sim_device := d, sim_cores := cs\<rparr>))
     else Inr s1)"

definition all_drained :: "'b Simulator \<Rightarrow> bool" where
  "all_drained s \<longleftrightarrow> ce_drained (sim_device s) \<and> net_empty (sim_network s) \<and> ds_idle (sim_decoders s) \<and>
     list_all core_drained (sim_cores s)"

definition complete_simulation :: "'b Backend \<Rightarrow> Tick \<Rightarrow> 'b Simulator \<Rightarrow> 'b Simulator result" where
  "complete_simulation B now s =
     bindE (ce_finalize B now (sim_device s)) (\<lambda>d.
     log_root [trace_event now (sim_epoch s) ''SimulationCompleted'' 0 0 0]
       (s\<lparr>sim_device := d, success := True, stopped := True\<rparr>))"

definition barrier_body :: "'b Backend \<Rightarrow> Tick \<Rightarrow> 'b Simulator \<Rightarrow> 'b Simulator result" where
  "barrier_body B now s0 = (let s = s0\<lparr>barrier_notified := False\<rparr> in
     if \<not> edges_done now s then Inr s
     else
       bindE (step_decoders now s) (\<lambda>s1.
       bindE (process_device B now s1) (\<lambda>s2.
       if all_drained s2 then complete_simulation B now s2
       else require (now < pf_watchdog (sim_profile s2)) Watchdog (schedule_wakeup now s2))))"

definition sim_cpu_edge :: "'b Backend \<Rightarrow> Tick \<Rightarrow> 'b Simulator \<Rightarrow> 'b Simulator" where
  "sim_cpu_edge B now = process now (cpu_edge_body B now)"

definition sim_memory_edge :: "'b Backend \<Rightarrow> Tick \<Rightarrow> 'b Simulator \<Rightarrow> 'b Simulator" where
  "sim_memory_edge B now = process now (memory_edge_body B now)"

definition sim_tcu_edge :: "'b Backend \<Rightarrow> Tick \<Rightarrow> 'b Simulator \<Rightarrow> 'b Simulator" where
  "sim_tcu_edge B now = process now (tcu_edge_body B now)"

definition sim_wakeup :: "'b Backend \<Rightarrow> Tick \<Rightarrow> 'b Simulator \<Rightarrow> 'b Simulator" where
  "sim_wakeup B now = process now (wakeup_body B now)"

definition sim_barrier :: "'b Backend \<Rightarrow> Tick \<Rightarrow> 'b Simulator \<Rightarrow> 'b Simulator" where
  "sim_barrier B now = process now (barrier_body B now)"

section \<open>Construction\<close>

definition build_core ::
  "(Profile \<Rightarrow> string) \<Rightarrow> DecoderSystem \<Rightarrow> CoreConfig \<Rightarrow> Core list \<times> u32 list \<times> u32 \<Rightarrow> (Core list \<times> u32 list \<times> u32) result" where
  "build_core fingerprint d c = (\<lambda>(cs, offsets, offset).
     bindE (validate_memory (mmio d) (cfg_image c)) (\<lambda>_.
     bindE (core_new fingerprint (cfg_id c) (cfg_profile c) (cfg_image c) (cfg_issue c) (cfg_sync_capacity c)) (\<lambda>k.
     Inr (cs @ [k], offsets @ [offset], offset + pf_ports (cfg_profile c)))))"

definition simulator ::
  "(Profile \<Rightarrow> string) \<Rightarrow> 'b Backend \<Rightarrow> CoreConfig list \<Rightarrow> SyncConnection list \<Rightarrow> 'b \<Rightarrow> Tick list \<Rightarrow> bool \<Rightarrow> u32 \<Rightarrow>
   DecoderSystemConfig \<Rightarrow> 'b Simulator result" where
  "simulator fingerprint B configs connections backend resets rev_order limit decoding =
     bindE (validated configs connections) (\<lambda>p.
     bindE (decoder_system decoding) (\<lambda>d.
     bindE (sync_network (pf_tcu p) connections) (\<lambda>n.
     bindE (device_profile p) (\<lambda>dp.
     bindE (control_electronics B dp backend limit) (\<lambda>dev.
     require (sorted resets \<and> distinct resets) InvalidProfile (
     require (list_all (\<lambda>t. 0 < t \<and> t < pf_watchdog p) resets) InvalidProfile (
     bindE (foldE (build_core fingerprint d) configs ([], [], 0)) (\<lambda>(cs, offsets, _).
     bindE (log_root [(trace_event 0 1 ''SessionStarted'' 0 0 0)\<lparr>ev_detail := fingerprint p\<rparr>]
       \<lparr>sim_profile = p, sim_log = \<lparr>log_events = [], include_stalls = True\<rparr>, sim_decoders = d, sim_network = n,
        sim_cores = cs, port_offsets = offsets, sim_device = dev, wake = None, barrier_notified = False,
        cpu_done = None, memory_done = None, tcu_done = None, last_reset = None, sim_resets = resets, sim_epoch = 1,
        reverse_order = rev_order, stopped = False, success = False, sim_fault = None\<rparr>) (schedule_wakeup 0)))))))))"

end
