(* ===== verification/Decoder_Wakeup.thy ===== *)
theory Decoder_Wakeup
  imports Decoder
begin

text \<open>
  \<open>next_boundary\<close> of the decoder system: the simulator skips the ticks before it. Here it is proved
  that it may.
\<close>

section \<open>The least boundary in the future\<close>

lemma fold_include_None:
  "fold (include_tick now) ts nx = None \<longleftrightarrow> nx = None \<and> (\<forall>t\<in>set ts. t \<le> now)"
proof (induction ts arbitrary: nx)
  case (Cons t ts)
  show ?case using Cons.IH [of "include_tick now t nx"] by (cases nx) (auto simp: include_tick_def)
qed simp

lemma fold_include_Some:
  "fold (include_tick now) ts nx = Some b \<Longrightarrow>
     (\<forall>t\<in>set ts. now < t \<longrightarrow> b \<le> t) \<and> (\<forall>n\<in>set_option nx. b \<le> n) \<and> (nx = Some b \<or> b \<in> set ts \<and> now < b)"
proof (induction ts arbitrary: nx)
  case (Cons t ts)
  show ?case using Cons.IH [of "include_tick now t nx"] Cons.prems
    by (cases nx) (auto simp: include_tick_def split: if_splits)
qed auto

lemma next_boundary_least:
  "ds_next_boundary now s = Some b \<Longrightarrow> b \<in> set (ds_boundaries s) \<and> now < b \<and> (\<forall>t\<in>set (ds_boundaries s). now < t \<longrightarrow> b \<le> t)"
  using fold_include_Some [of now "ds_boundaries s" None b] by (auto simp: ds_next_boundary_def)

lemma before_boundary:
  assumes "\<forall>b. ds_next_boundary now s = Some b \<longrightarrow> t < b" and "x \<in> set (ds_boundaries s)" and "now < x"
  shows "t < x"
proof (cases "ds_next_boundary now s")
  case None
  with assms(2,3) show ?thesis using fold_include_None [of now "ds_boundaries s" None] by (auto simp: ds_next_boundary_def)
next
  case (Some b)
  with assms next_boundary_least [OF Some] show ?thesis by fastforce
qed

section \<open>Quiet systems\<close>

text \<open>The head of the queue has to wait for a result or for room.\<close>

definition blocked :: "Request \<Rightarrow> DecoderSystem \<Rightarrow> bool" where
  "blocked p s \<longleftrightarrow> (\<exists>d ss. decoder_of (rq_decoder p) s = Inr d \<and>
     om_find (rq_core p, rq_decoder p) (sessions s) = Some ss \<and>
     (submitted ss \<or> length (measurements ss) + unat (rq_count p) = unat (dc_measurements d) \<and> ss_result ss = None \<and>
        unat (ds_result_capacity (ds_config s)) \<le> reserved s))"

definition sent_quiet :: "Tick \<Rightarrow> Request \<Rightarrow> bool" where
  "sent_quiet now p \<longleftrightarrow> transmitted p \<or> now < rq_sent p"

definition job_quiet :: "Tick \<Rightarrow> Job \<Rightarrow> bool" where
  "job_quiet now j \<longleftrightarrow> (started j \<or> now < jb_start j) \<and> (completed j \<or> now < jb_completion j) \<and>
     (\<forall>a. jb_arrival j = Some a \<longrightarrow> now < a)"

definition head_quiet :: "Tick \<Rightarrow> DecoderSystem \<Rightarrow> bool" where
  "head_quiet now s \<longleftrightarrow> (case ds_requests s of [] \<Rightarrow> True | p # ps \<Rightarrow> now < rq_arrival p \<or> blocked p s)"

definition quiet_at :: "Tick \<Rightarrow> DecoderSystem \<Rightarrow> bool" where
  "quiet_at now s \<longleftrightarrow> (\<forall>p\<in>set (ds_requests s). sent_quiet now p) \<and>
     (\<forall>r. reset_request s = Some r \<longrightarrow> sent_quiet now r \<and> now < rq_arrival r) \<and>
     (\<forall>j\<in>set (jobs s). job_quiet now j) \<and> head_quiet now s \<and>
     (now < rx_available s \<or> (\<forall>j\<in>set (jobs s). completed j \<longrightarrow> jb_arrival j \<noteq> None))"

lemma blocked_admit: "blocked p s \<Longrightarrow> admit_head now ep p s = Inr (False, s, [])"
  by (auto simp: blocked_def admit_head_def open_session_def om_emplace_def Let_def require_def)

lemma pick_ready_None:
  "\<forall>j\<in>set js. completed j \<longrightarrow> jb_arrival j \<noteq> None \<Longrightarrow> pick_ready n best js = best"
  by (induction n best js rule: pick_ready.induct) auto

lemma pick_ready_ready:
  "pick_ready n best js = None \<Longrightarrow> best = None \<and> (\<forall>j\<in>set js. completed j \<longrightarrow> jb_arrival j \<noteq> None)"
  by (induction n best js rule: pick_ready.induct) (auto split: if_splits)

lemma map_send_quiet:
  "\<forall>p\<in>set ps. sent_quiet now p \<Longrightarrow>
   map fst (map (send_one now ep s) ps) = ps \<and> concat (map snd (map (send_one now ep s) ps)) = []"
  by (induction ps) (auto simp: send_one_def sent_quiet_def)

lemma advance_from_quiet:
  "\<forall>j\<in>set js. job_quiet now j \<Longrightarrow> advance_from now ep kept js s = Inr (s\<lparr>jobs := kept @ js\<rparr>, [])"
proof (induction js arbitrary: kept s)
  case (Cons j js)
  then have "start_job now ep x j = (j, [])" "complete_job now ep x j = (j, [])" for x
    by (auto simp: start_job_def complete_job_def job_quiet_def)
  with Cons show ?case by (auto simp: job_quiet_def Let_def)
qed simp

lemma quiet_step:
  assumes "quiet_at now s"
  shows "ds_step now ep s = Inr (s, [])"
proof -
  have "advance_transmission now ep s = (s, [])"
  proof -
    have "map fst (map (send_one now ep s) (ds_requests s)) = ds_requests s"
      "concat (map snd (map (send_one now ep s) (ds_requests s))) = []"
      using map_send_quiet [of "ds_requests s" now ep s] assms by (auto simp: quiet_at_def)
    moreover have "send_one now ep x r = (r, [])" if "reset_request s = Some r" for r x
      using assms that by (auto simp: quiet_at_def send_one_def sent_quiet_def)
    ultimately show ?thesis
      using assms unfolding quiet_at_def
      by (cases "reset_request s") (auto simp: advance_transmission_def Let_def simp del: map_map)
  qed
  moreover have "advance_jobs now ep s = Inr (s, [])"
    using advance_from_quiet [of "jobs s" now ep "[]" s] assms by (simp add: advance_jobs_def quiet_at_def)
  moreover have "admit_requests now ep s = Inr (s, [])"
  proof (cases "ds_requests s")
    case (Cons p ps)
    have same: "s\<lparr>ds_requests := p # ps\<rparr> = s" using Cons by simp
    show ?thesis
      using assms Cons blocked_admit [of p s now ep]
      by (auto simp: admit_requests_def quiet_at_def head_quiet_def Let_def same)
  qed (simp add: admit_requests_def)
  moreover have "transmit_result now s = Inr s"
    using assms pick_ready_None [of "jobs s"] by (auto simp: transmit_result_def quiet_at_def)
  ultimately show ?thesis by (simp add: ds_step_def)
qed

section \<open>A step leaves a quiet system\<close>

lemma after_transmission:
  assumes "advance_transmission now ep s = (s', tr)"
  shows "(\<forall>p\<in>set (ds_requests s'). sent_quiet now p) \<and>
    (\<forall>r. reset_request s' = Some r \<longrightarrow> sent_quiet now r \<and> now < rq_arrival r) \<and> ds_config s' = ds_config s"
proof -
  have q: "sent_quiet now (fst (send_one now ep x p))" for x p
    by (simp add: send_one_def sent_quiet_def)
  show ?thesis
  proof (cases "reset_request s")
    case None
    with assms q show ?thesis by (auto simp: advance_transmission_def Let_def)
  next
    case (Some r)
    define s1 where "s1 = s\<lparr>ds_requests := map fst (map (send_one now ep s) (ds_requests s))\<rparr>"
    obtain r' tr1 where r': "send_one now ep s1 r = (r', tr1)" by fastforce
    have q1: "\<forall>p\<in>set (ds_requests s1). sent_quiet now p" using q by (simp add: s1_def)
    have qr: "sent_quiet now r'" using q [of s1 r] r' by simp
    have r1: "reset_request s1 = Some r" using Some by (simp add: s1_def)
    from assms r1 have "(if rq_arrival r' \<le> now then (let (s2, tr2) = apply_reset now ep r' s1 in
        (s2, concat (map snd (map (send_one now ep s) (ds_requests s))) @ tr1 @ tr2))
      else (s1\<lparr>reset_request := Some r'\<rparr>, concat (map snd (map (send_one now ep s) (ds_requests s))) @ tr1)) = (s', tr)"
      using Some r' by (auto simp: advance_transmission_def Let_def s1_def split: if_splits)
    then show ?thesis
      using q1 qr by (auto simp: apply_reset_def Let_def s1_def split: if_splits)
  qed
qed

lemma started_quiet:
  assumes "start_job now ep x j = (j1, tr1)" and "complete_job now ep y j1 = (j2, tr2)"
  shows "jb_arrival j2 = jb_arrival j \<and> (started j2 \<or> now < jb_start j2) \<and> (completed j2 \<or> now < jb_completion j2) \<and>
    jb_id j2 = jb_id j \<and> jb_core j2 = jb_core j \<and> jb_decoder j2 = jb_decoder j \<and> jb_result j2 = jb_result j"
  using assms by (auto simp: start_job_def complete_job_def split: if_splits)

text \<open>One step of the loop over the jobs.\<close>

lemma advance_from_cases:
  assumes "advance_from now ep kept (j # rest) s = Inr (s', tr)"
  obtains j2 s1 tr' where "jb_arrival j2 = jb_arrival j" "started j2 \<or> now < jb_start j2"
      "completed j2 \<or> now < jb_completion j2" "jb_id j2 = jb_id j" "jb_core j2 = jb_core j"
      "jb_decoder j2 = jb_decoder j" "jb_result j2 = jb_result j"
    and "(\<exists>a e. jb_arrival j = Some a \<and> a \<le> now \<and>
        return_result now ep j2 (s\<lparr>jobs := kept @ j2 # rest\<rparr>) = Inr (s1, e) \<and>
        advance_from now ep kept rest s1 = Inr (s', tr')) \<or>
      (\<forall>a. jb_arrival j = Some a \<longrightarrow> now < a) \<and> s1 = s\<lparr>jobs := kept @ j2 # rest\<rparr> \<and>
        advance_from now ep (kept @ [j2]) rest s1 = Inr (s', tr')"
proof -
  obtain j1 tr1 where j1: "start_job now ep (s\<lparr>jobs := kept @ j # rest\<rparr>) j = (j1, tr1)" by fastforce
  obtain j2 tr2 where j2: "complete_job now ep (s\<lparr>jobs := kept @ j1 # rest\<rparr>) j1 = (j2, tr2)" by fastforce
  note q = started_quiet [OF j1 j2]
  show thesis
  proof (cases "\<exists>a\<in>set_option (jb_arrival j). a \<le> now")
    case True
    then obtain a where a: "jb_arrival j = Some a" "a \<le> now" by auto
    with assms j1 j2 q obtain s1 e tr' where
      "return_result now ep j2 (s\<lparr>jobs := kept @ j2 # rest\<rparr>) = Inr (s1, e)"
      "advance_from now ep kept rest s1 = Inr (s', tr')" by (auto simp: Let_def)
    with a q show thesis by (intro that [of j2 s1 tr']) blast+
  next
    case False
    then have a: "\<forall>a. jb_arrival j = Some a \<longrightarrow> now < a" by auto
    from assms j1 j2 q False obtain tr' where
      "advance_from now ep (kept @ [j2]) rest (s\<lparr>jobs := kept @ j2 # rest\<rparr>) = Inr (s', tr')" by (auto simp: Let_def)
    with a q show thesis by (intro that [of j2 "s\<lparr>jobs := kept @ j2 # rest\<rparr>" tr']) blast+
  qed
qed

lemma return_result_frame:
  "return_result now ep j s = Inr (s1, e) \<Longrightarrow>
   \<exists>ss. om_find (jb_core j, jb_decoder j) (sessions s) = Some ss \<and>
     s1 = s\<lparr>sessions := om_set (jb_core j, jb_decoder j)
       (ss\<lparr>ss_result := Some (case_option 0 id (ss_result ss) XOR jb_result j), submitted := False\<rparr>) (sessions s)\<rparr>"
  by (auto simp: return_result_def Let_def split: option.splits)

lemma after_jobs:
  assumes "advance_from now ep kept js s = Inr (s', tr)" and "\<forall>j\<in>set kept. job_quiet now j"
  shows "(\<forall>j\<in>set (jobs s'). job_quiet now j) \<and> ds_requests s' = ds_requests s \<and>
    reset_request s' = reset_request s \<and> ds_config s' = ds_config s"
  using assms
proof (induction js arbitrary: kept s tr)
  case (Cons j js)
  from Cons.prems(1) show ?case
  proof (cases rule: advance_from_cases)
    case (1 j2 s1 tr')
    from 1(8) show ?thesis
    proof (elim disjE exE conjE)
      fix a e
      assume "return_result now ep j2 (s\<lparr>jobs := kept @ j2 # js\<rparr>) = Inr (s1, e)"
        and n: "advance_from now ep kept js s1 = Inr (s', tr')"
      then have "ds_requests s1 = ds_requests s" "reset_request s1 = reset_request s" "ds_config s1 = ds_config s"
        by (auto dest: return_result_frame)
      with Cons.IH [OF n Cons.prems(2)] show ?thesis by simp
    next
      assume w: "\<forall>a. jb_arrival j = Some a \<longrightarrow> now < a" and s1: "s1 = s\<lparr>jobs := kept @ j2 # js\<rparr>"
        and n: "advance_from now ep (kept @ [j2]) js s1 = Inr (s', tr')"
      have "job_quiet now j2" using 1 w by (simp add: job_quiet_def)
      with Cons.prems(2) have k: "\<forall>j\<in>set (kept @ [j2]). job_quiet now j" by simp
      show ?thesis using Cons.IH [OF n k] by (simp add: s1)
    qed
  qed
next
  case Nil
  then show ?case by auto
qed

lemma om_emplace_find: "om_find k (om_emplace k v m) = Some (case om_find k m of None \<Rightarrow> v | Some w \<Rightarrow> w)"
  by (auto simp: om_emplace_def split: option.split)

definition current_session :: "u32 \<Rightarrow> u32 \<Rightarrow> DecoderSystem \<Rightarrow> Session" where
  "current_session core dec s = (case om_find (core, dec) (sessions s) of None \<Rightarrow> no_session | Some ss \<Rightarrow> ss)"

lemma open_session_eq:
  "open_session core dec s = (current_session core dec s, s\<lparr>sessions := om_emplace (core, dec) no_session (sessions s)\<rparr>)"
  by (simp add: open_session_def Let_def om_emplace_find current_session_def)

lemma packet_bits_length [simp]: "length (packet_bits p) = unat (rq_count p)"
  by (simp add: packet_bits_def)

lemma launch_Inr:
  assumes "launch now p d ms s = Inr s2"
  shows "\<exists>f r t. dc_decode d = Some f \<and> f ms = Inr r \<and> length r = unat (dc_outputs d) \<and> now < t \<and>
    s2 = s\<lparr>available := om_set (dc_id d) (t + initiation_interval d) (available s),
       jobs := jobs s @ [\<lparr>jb_id = rq_id p, jb_core = rq_core p, jb_decoder = rq_decoder p, jb_start = t,
         jb_completion = t + dc_latency d, jb_result = pack_bits 0 r, jb_arrival = None, started = False,
         completed = False\<rparr>]\<rparr>"
proof -
  from assms obtain f where f: "dc_decode d = Some f" by (auto simp: launch_def split: option.splits)
  with assms obtain r where r: "f ms = Inr r" by (auto simp: launch_def)
  define t where "t = max (now + 1) (case_option 0 id (om_find (dc_id d) (available s)))"
  from assms f r have "length r = unat (dc_outputs d)" by (auto simp: launch_def)
  moreover have "s2 = s\<lparr>available := om_set (dc_id d) (t + initiation_interval d) (available s),
       jobs := jobs s @ [\<lparr>jb_id = rq_id p, jb_core = rq_core p, jb_decoder = rq_decoder p, jb_start = t,
         jb_completion = t + dc_latency d, jb_result = pack_bits 0 r, jb_arrival = None, started = False,
         completed = False\<rparr>]\<rparr>"
    using assms f r by (auto simp: launch_def checked_add_def Let_def t_def)
  moreover have "now < t" by (simp add: t_def)
  ultimately show ?thesis using f r by blast
qed

text \<open>
  What \<open>admit_head\<close> did: the head has to wait, or its bits join the session's, or they complete the
  window and a job is queued.
\<close>

lemma admit_head_cases:
  assumes "admit_head now ep p s0 = Inr (taken, s', tr)"
  obtains (waits) d where "\<not> taken" "decoder_of (rq_decoder p) s0 = Inr d" "blocked p s'"
      "s' = s0\<lparr>sessions := om_emplace (rq_core p, rq_decoder p) no_session (sessions s0)\<rparr>"
    | (joins) d ss k where "taken" "decoder_of (rq_decoder p) s0 = Inr d"
      "ss = current_session (rq_core p) (rq_decoder p) s0" "k = (rq_core p, rq_decoder p)" "\<not> submitted ss"
      "length (measurements ss) + unat (rq_count p) < unat (dc_measurements d)"
      "s' = s0\<lparr>sessions := om_set k (ss\<lparr>measurements := measurements ss @ packet_bits p\<rparr>)
         (om_emplace k no_session (sessions s0))\<rparr>"
    | (launches) d ss k f r t where "taken" "decoder_of (rq_decoder p) s0 = Inr d"
      "ss = current_session (rq_core p) (rq_decoder p) s0" "k = (rq_core p, rq_decoder p)" "\<not> submitted ss"
      "length (measurements ss) + unat (rq_count p) = unat (dc_measurements d)"
      "ss_result ss = None \<longrightarrow> reserved (s0\<lparr>sessions := om_emplace k no_session (sessions s0)\<rparr>) <
         unat (ds_result_capacity (ds_config s0))"
      "dc_decode d = Some f" "f (measurements ss @ packet_bits p) = Inr r" "length r = unat (dc_outputs d)" "now < t"
      "s' = s0\<lparr>sessions := om_set k (ss\<lparr>measurements := [], submitted := True\<rparr>)
           (om_set k (ss\<lparr>measurements := measurements ss @ packet_bits p\<rparr>) (om_emplace k no_session (sessions s0))),
         available := om_set (dc_id d) (t + initiation_interval d) (available s0),
         jobs := jobs s0 @ [\<lparr>jb_id = rq_id p, jb_core = rq_core p, jb_decoder = rq_decoder p, jb_start = t,
           jb_completion = t + dc_latency d, jb_result = pack_bits 0 r, jb_arrival = None, started = False,
           completed = False\<rparr>]\<rparr>"
proof -
  define k where "k = (rq_core p, rq_decoder p)"
  define ss where "ss = current_session (rq_core p) (rq_decoder p) s0"
  define s where "s = s0\<lparr>sessions := om_emplace k no_session (sessions s0)\<rparr>"
  define ms where "ms = measurements ss @ packet_bits p"
  have lms: "length ms = length (measurements ss) + unat (rq_count p)" by (simp add: ms_def)
  from assms obtain d where d: "decoder_of (rq_decoder p) s0 = Inr d" by (auto simp: admit_head_def)
  define s1 where "s1 = s\<lparr>sessions := om_set k (ss\<lparr>measurements := ms\<rparr>) (sessions s)\<rparr>"
  define tr1 where "tr1 = [ds_event now ep RequestArrived (rq_id p) (rq_core p) (rq_decoder p) (rq_tag p) s1]"
  have A: "(if submitted ss then Inr (False, s, [])
     else require (length ms \<le> unat (dc_measurements d)) Protocol (
       if length ms = unat (dc_measurements d) \<and> ss_result ss = None \<and> unat (ds_result_capacity (ds_config s)) \<le> reserved s
       then Inr (False, s, [])
       else if length ms = unat (dc_measurements d)
         then bindE (launch now p d ms s1) (\<lambda>s2. Inr (True, s2\<lparr>sessions := om_set k
                 (ss\<lparr>measurements := [], submitted := True\<rparr>) (sessions s2)\<rparr>, tr1))
         else Inr (True, s1, tr1))) = Inr (taken, s', tr)"
    using assms d
    by (simp add: admit_head_def open_session_eq Let_def ss_def k_def s_def ms_def tr1_def s1_def cong: if_cong split del: if_split)
  have found: "om_find k (sessions s) = Some ss"
    by (simp add: s_def ss_def k_def om_emplace_find current_session_def)
  have dd: "decoder_of (rq_decoder p) s = Inr d" using d by (simp add: s_def decoder_of_def)
  show thesis
  proof (cases "submitted ss \<or> (length ms = unat (dc_measurements d) \<and> ss_result ss = None \<and>
      unat (ds_result_capacity (ds_config s)) \<le> reserved s)")
    case True
    with A have "\<not> taken" "s' = s" by (auto split: if_splits)
    moreover from True have "blocked p s" unfolding blocked_def
      using dd found lms by (auto simp: k_def [symmetric])
    ultimately show thesis using d by (intro waits [of d]) (auto simp: s_def k_def)
  next
    case n: False
    show thesis
    proof (cases "length ms = unat (dc_measurements d)")
      case False
      with A n have "taken" "s' = s1" "length ms < unat (dc_measurements d)" by (auto split: if_splits)
      with d n show thesis by (intro joins [of d ss k]) (auto simp: lms s1_def s_def k_def ss_def ms_def)
    next
      case True
      with A n obtain s2 where s2: "taken" "launch now p d ms s1 = Inr s2"
        "s' = s2\<lparr>sessions := om_set k (ss\<lparr>measurements := [], submitted := True\<rparr>) (sessions s2)\<rparr>"
        by (auto split: if_splits)
      then obtain f r t where l: "dc_decode d = Some f" "f ms = Inr r" "length r = unat (dc_outputs d)" "now < t"
        "s2 = s1\<lparr>available := om_set (dc_id d) (t + initiation_interval d) (available s1),
               jobs := jobs s1 @ [\<lparr>jb_id = rq_id p, jb_core = rq_core p, jb_decoder = rq_decoder p, jb_start = t,
                 jb_completion = t + dc_latency d, jb_result = pack_bits 0 r, jb_arrival = None, started = False,
                 completed = False\<rparr>]\<rparr>"
        using launch_Inr [of now p d ms s1 s2] by blast
      with s2 d n True show thesis
        by (intro launches [of d ss k f r t]) (auto simp: lms s1_def s_def k_def ss_def ms_def)
    qed
  qed
qed

lemma after_admit:
  assumes "admit_from now ep ps s = Inr (s', tr)" and "\<forall>j\<in>set (jobs s). job_quiet now j"
  shows "set (ds_requests s') \<subseteq> set ps \<and> head_quiet now s' \<and> (\<forall>j\<in>set (jobs s'). job_quiet now j) \<and>
    reset_request s' = reset_request s \<and> ds_config s' = ds_config s"
  using assms
proof (induction ps arbitrary: s tr)
  case Nil
  then show ?case by (auto simp: head_quiet_def)
next
  case (Cons p ps)
  define s0 where "s0 = s\<lparr>ds_requests := p # ps\<rparr>"
  show ?case
  proof (cases "rq_arrival p \<le> now")
    case False
    with Cons.prems have "s' = s0" by (auto simp: s0_def)
    with False Cons.prems(2) show ?thesis by (auto simp: s0_def head_quiet_def)
  next
    case True
    with Cons.prems(1) obtain taken s1 t1 where h: "admit_head now ep p s0 = Inr (taken, s1, t1)"
      by (auto simp: s0_def Let_def)
    have n: "admit_from now ep ps s1 = Inr (s', t2) \<Longrightarrow> \<forall>j\<in>set (jobs s1). job_quiet now j \<Longrightarrow>
        reset_request s1 = reset_request s \<Longrightarrow> ds_config s1 = ds_config s \<Longrightarrow> ?thesis" for t2
      using Cons.IH [of s1 t2] by auto
    from h show ?thesis
    proof (cases rule: admit_head_cases)
      case (waits d)
      with Cons.prems(1) True h have "s' = s1" by (auto simp: s0_def Let_def)
      with waits Cons.prems(2) show ?thesis by (auto simp: s0_def head_quiet_def)
    next
      case (joins d ss k)
      with Cons.prems(1) True h obtain t2 where "admit_from now ep ps s1 = Inr (s', t2)" by (auto simp: s0_def Let_def)
      then show ?thesis by (rule n) (use joins(7) Cons.prems(2) in \<open>simp_all add: s0_def\<close>)
    next
      case (launches d ss k f r t)
      with Cons.prems(1) True h obtain t2 where "admit_from now ep ps s1 = Inr (s', t2)" by (auto simp: s0_def Let_def)
      then show ?thesis
        by (rule n) (use launches(11,12) Cons.prems(2) in \<open>auto simp: s0_def job_quiet_def\<close>)
    qed
  qed
qed

lemma transmit_result_cases:
  assumes "transmit_result now s = Inr s'"
  obtains (idle) "s' = s" "now < rx_available s \<or> pick_ready 0 None (jobs s) = None"
    | (sends) i j t where "pick_ready 0 None (jobs s) = Some (i, j)" "now < t"
      "s' = s\<lparr>jobs := (jobs s)[i := j\<lparr>jb_arrival := Some (t + link_latency (ds_config s))\<rparr>], rx_available := t\<rparr>"
proof (cases "rx_available s \<le> now \<and> pick_ready 0 None (jobs s) \<noteq> None")
  case False
  with assms show thesis by (intro idle) (auto simp: transmit_result_def split: if_splits option.splits)
next
  case True
  then obtain i j where p: "pick_ready 0 None (jobs s) = Some (i, j)" by auto
  with assms True obtain d n where n: "decoder_of (jb_decoder j) s = Inr d" "transfer_ticks ((unat (dc_outputs d) + 7) div 8) (ds_config s) = Inr n"
    by (auto simp: transmit_result_def)
  then have "1 \<le> n" by (auto simp: transfer_ticks_def)
  with assms True p n show thesis
    by (intro sends [of i j "now + n"]) (auto simp: transmit_result_def checked_add_def)
qed

lemma pick_ready_nth:
  assumes "pick_ready n best js = Some (i, j)" and "best = None \<or> (\<exists>k b. best = Some (k, b) \<and> k < n)"
  shows "best = Some (i, j) \<or> n \<le> i \<and> i < n + length js \<and> js ! (i - n) = j \<and> completed j \<and> jb_arrival j = None"
  using assms
proof (induction n best js rule: pick_ready.induct)
  case (2 n best j' js)
  define b where "b = (if completed j' \<and> jb_arrival j' = None \<and>
           (case best of None \<Rightarrow> True
            | Some (_, b) \<Rightarrow> jb_completion j' < jb_completion b \<or>
                jb_completion j' = jb_completion b \<and> jb_id j' < jb_id b)
        then Some (n, j') else best)"
  have p: "pick_ready (n + 1) b js = Some (i, j)" using 2(2) by (simp add: b_def)
  have "b = None \<or> (\<exists>k x. b = Some (k, x) \<and> k < n + 1)" using 2(3) by (auto simp: b_def)
  from 2(1) [folded b_def, OF p this] show ?case
    by (auto simp: b_def nth_Cons' Suc_diff_le split: if_splits)
qed simp

lemma step_quiet:
  assumes "ds_step now ep s = Inr (s', tr)"
  shows "quiet_at now s'"
proof -
  obtain s1 t1 where 1: "advance_transmission now ep s = (s1, t1)" by fastforce
  with assms obtain s2 t2 s3 t3 where 2: "advance_from now ep [] (jobs s1) s1 = Inr (s2, t2)"
    and 3: "admit_from now ep (ds_requests s2) s2 = Inr (s3, t3)" and 4: "transmit_result now s3 = Inr s'"
    by (auto simp: ds_step_def advance_jobs_def admit_requests_def)
  note A = after_transmission [OF 1] and B = after_jobs [OF 2] and C = after_admit [OF 3]
  have jq: "\<forall>j\<in>set (jobs s3). job_quiet now j" and hq: "head_quiet now s3" using B C by auto
  have rq: "\<forall>p\<in>set (ds_requests s3). sent_quiet now p"
    "\<forall>r. reset_request s3 = Some r \<longrightarrow> sent_quiet now r \<and> now < rq_arrival r" using A B C by auto
  from 4 show ?thesis
  proof (cases rule: transmit_result_cases)
    case idle
    with pick_ready_ready [of 0 None "jobs s3"] jq hq rq show ?thesis by (auto simp: quiet_at_def)
  next
    case (sends i j t)
    from pick_ready_nth [OF sends(1)] have i: "i < length (jobs s3)" "jobs s3 ! i = j" by auto
    then have "job_quiet now j" using jq nth_mem by blast
    then have "job_quiet now (j\<lparr>jb_arrival := Some (t + link_latency (ds_config s3))\<rparr>)"
      using sends(2) by (auto simp: job_quiet_def)
    then have "\<forall>x\<in>set (jobs s'). job_quiet now x"
      using jq set_update_subset_insert [of "jobs s3" i] by (auto simp: sends(3))
    moreover have "head_quiet now s'"
      using hq by (auto simp: sends(3) head_quiet_def blocked_def decoder_of_def reserved_def split: list.splits)
    ultimately show ?thesis using rq sends(2) by (auto simp: sends(3) quiet_at_def)
  qed
qed

lemma quiet_later:
  assumes "quiet_at now s" and "now \<le> t" and "\<forall>b. ds_next_boundary now s = Some b \<longrightarrow> t < b"
  shows "quiet_at t s"
proof -
  have b: "now < x \<Longrightarrow> x \<in> set (ds_boundaries s) \<Longrightarrow> t < x" for x
    using before_boundary [OF assms(3)] by blast
  have p: "p \<in> set (ds_requests s) \<or> reset_request s = Some p \<Longrightarrow> x \<in> set (request_boundaries p) \<Longrightarrow> now < x \<Longrightarrow> t < x" for p x
    by (rule b) (auto simp: ds_boundaries_def)
  have j: "j \<in> set (jobs s) \<Longrightarrow> x \<in> set (job_boundaries (rx_available s) j) \<Longrightarrow> now < x \<Longrightarrow> t < x" for j x
    by (rule b) (auto simp: ds_boundaries_def)
  have "sent_quiet t p" if "p \<in> set (ds_requests s) \<or> reset_request s = Some p" "sent_quiet now p" for p
    using that(2) p [OF that(1), of "rq_sent p"]
    by (cases "transmitted p") (auto simp: sent_quiet_def request_boundaries_def)
  moreover have "job_quiet t x" if "x \<in> set (jobs s)" "job_quiet now x" for x
    using that(2) j [OF that(1)] by (auto simp: job_quiet_def job_boundaries_def)
  moreover have "rq_arrival p > t" if "p \<in> set (ds_requests s) \<or> reset_request s = Some p" "now < rq_arrival p" for p
    using that(2) p [OF that(1), of "rq_arrival p"] by (auto simp: request_boundaries_def)
  moreover have "t < rx_available s \<or> (\<forall>x\<in>set (jobs s). completed x \<longrightarrow> jb_arrival x \<noteq> None)" if "now < rx_available s"
  proof (rule ccontr)
    assume "\<not> (t < rx_available s \<or> (\<forall>x\<in>set (jobs s). completed x \<longrightarrow> jb_arrival x \<noteq> None))"
    then obtain x where x: "x \<in> set (jobs s)" "completed x" "jb_arrival x = None" "\<not> t < rx_available s" by auto
    with j [OF x(1), of "rx_available s"] that show False by (simp add: job_boundaries_def)
  qed
  ultimately show ?thesis
    using assms(1) unfolding quiet_at_def head_quiet_def
    by (auto split: list.splits)
qed

section \<open>The claim\<close>

text \<open>
  C14. A step leaves nothing to do before \<open>next_boundary\<close>: at the same tick and at every later tick
  before the boundary (at every later tick when there is none), another step changes nothing and emits
  nothing. The simulator, which wakes the system at its boundaries only, observes what it would observe by
  stepping it at every tick.
\<close>

theorem decoder_wakeups_complete:
  assumes "ds_step now ep s = Inr (s', tr)" and "now \<le> t"
    and "\<forall>b. ds_next_boundary now s' = Some b \<longrightarrow> t < b"
  shows "ds_step t ep' s' = Inr (s', [])"
  by (rule quiet_step [OF quiet_later [OF step_quiet [OF assms(1)] assms(2,3)]])

definition ex_decoders :: DecoderSystemConfig where
  "ex_decoders = \<lparr>ds_base = 0x40000000, request_capacity = 16, ds_result_capacity = 16, link_latency = 1,
     bytes_per_tick = 1, packet_overhead = 16, decoders = [\<lparr>dc_id = 0, dc_measurements = 1, dc_outputs = 1,
       dc_latency = 5, initiation_interval = 3, dc_decode = Some (\<lambda>ms. Inr [ms = [1]])\<rparr>]\<rparr>"

text \<open>The word 1 is written to the register of this offset by core 0.\<close>

definition ex_write :: "Tick \<Rightarrow> u32 \<Rightarrow> DecoderSystem \<Rightarrow> DecoderSystem" where
  "ex_write now offset s = fst (snd (ds_access 0 \<lparr>mr_id = 1, mr_address = 0x40000000 + offset, mr_value = 1, mr_width = 4,
     mr_write = True, mr_instruction = False\<rparr> now 0 s))"

definition ex_submitted :: DecoderSystem where
  "ex_submitted = (case decoder_system ex_decoders of Inr s \<Rightarrow> ex_write 3 CommandReg (ex_write 2 DataLow (ex_write 1 Count s)))"

lemma ex_submitted_eval:
  "ex_submitted = \<lparr>ds_config = ex_decoders, mmio = \<lparr>mmio_base = 0x40000000, mmio_decoders = [0], mmio_registers =
       [(0, \<lparr>rg_decoder = 0, rg_count = 1, rg_low = 1, rg_high = 0, rg_tag = 0\<rparr>)]\<rparr>, sessions = [], available = [],
     ds_requests = [\<lparr>rq_id = 1, rq_core = 0, rq_decoder = 0, rq_count = 1, rq_tag = 0, rq_data = 1, rq_sent = 3,
       rq_arrival = 21, transmitted = False\<rparr>],
     reset_request = None, jobs = [], tx_available = 20, rx_available = 0, ds_next = 2\<rparr>"
  by (simp add: ex_submitted_def ex_write_def ex_decoders_def decoder_system_def decoder_mmio_def register_defs require_def
    decoder_ids_def decoder_config_ok_def ds_access_def mmio_access_def mmio_contains_def mmio_write_def om_emplace_def Let_def
    no_registers_def ds_submit_def transfer_ticks_def checked_add_def tick_max_def om_find_Cons)

theorem decoder_wakeups_complete_witness:
  "\<exists>s' tr. ds_step 3 0 ex_submitted = Inr (s', tr) \<and> tr \<noteq> [] \<and> ds_requests s' \<noteq> [] \<and> ds_step 20 0 s' = Inr (s', [])"
proof -
  define s' where "s' = ex_submitted\<lparr>ds_requests := [(hd (ds_requests ex_submitted))\<lparr>transmitted := True\<rparr>]\<rparr>"
  obtain tr where st: "ds_step 3 0 ex_submitted = Inr (s', tr)" "tr \<noteq> []"
    by (simp add: s'_def ex_submitted_eval ds_step_def advance_transmission_def send_one_def Let_def advance_jobs_def
      admit_requests_def transmit_result_def)
  moreover have "\<forall>b. ds_next_boundary 3 s' = Some b \<longrightarrow> 20 < b"
    by (simp add: s'_def ex_submitted_eval ds_next_boundary_def ds_boundaries_def request_boundaries_def include_tick_def)
  ultimately have "ds_step 20 0 s' = Inr (s', [])" using decoder_wakeups_complete [of 3 0 ex_submitted s' tr 20 0] by simp
  moreover have "ds_requests s' \<noteq> []" by (simp add: s'_def)
  ultimately show ?thesis using st by blast
qed

end
