(* ===== verification/Simulator_Schedule.thy ===== *)
theory Simulator_Schedule
  imports Simulator Electronics_Properties Decoder_Wakeup
begin

text \<open>
  What the simulator owes to its components: every boundary of the control electronics, every event of
  the decoders and every reset is handled at its tick, because each barrier wakes the simulator up for the
  next one. The kernel's part is the relation \<open>sim_run\<close>: processes of a tick in any order, and
  time that moves on when the processes due have run, at most to the wake-up.
\<close>

declare split_paired_All [simp del] split_paired_Ex [simp del]

section \<open>Boundaries of the device\<close>

definition due :: "'b ControlElectronics \<Rightarrow> Tick \<Rightarrow> bool" where
  "due d k \<longleftrightarrow> om_find k (boundaries d) \<noteq> None"

lemma next_boundary_first:
  assumes "om_ok (boundaries d)"
  shows "next_boundary d = None \<longleftrightarrow> (\<forall>k. \<not> due d k)"
    and "next_boundary d = Some t \<Longrightarrow> due d t \<and> (\<forall>k. due d k \<longrightarrow> t \<le> k)"
proof -
  show "next_boundary d = None \<longleftrightarrow> (\<forall>k. \<not> due d k)"
  proof (cases "boundaries d")
    case (Cons e m)
    then have "due d (fst e)" by (cases e) (simp add: due_def om_find_Cons)
    with Cons show ?thesis by (auto simp: next_boundary_def split: prod.split)
  qed (simp add: next_boundary_def due_def)
  show "next_boundary d = Some t \<Longrightarrow> due d t \<and> (\<forall>k. due d k \<longrightarrow> t \<le> k)"
  proof (cases "boundaries d")
    case (Cons e m)
    assume t: "next_boundary d = Some t"
    obtain x b where e: "e = (x, b)" by (cases e)
    with t Cons have x: "x = t" by (simp add: next_boundary_def)
    have "t < k" if "(k, v) \<in> set m" for k v
      using assms that by (auto simp: om_ok_def Cons e x)
    then show ?thesis by (auto simp: due_def Cons e x om_find_Cons om_find_def dest: map_of_SomeD split: if_splits intro: less_imp_le)
  qed (simp add: next_boundary_def)
qed

lemma resolved_times:
  assumes "ce_resolve B b s = Inr actions" and "a \<in> set actions"
  shows "fire_tick b \<le> sch_start a" and "sch_start a \<le> sch_end a"
proof -
  from mapE_in [OF assms(1) [unfolded ce_resolve_def] assms(2)] obtain e where "resolve_event B b s e = Inr a" by blast
  then show "fire_tick b \<le> sch_start a" "sch_start a \<le> sch_end a"
    by (auto simp: resolve_event_def checked_add_def)
qed

lemma accept_due:
  assumes "ce_accept B b s = Inr (s', tr)" and "om_ok (boundaries s)"
  shows "om_ok (boundaries s') \<and> (\<forall>k. due s' k \<longrightarrow> due s k \<or> fire_tick b \<le> k)"
proof -
  from assms(1) obtain actions rs where r: "ce_resolve B b s = Inr actions" "ro_prepare actions (tr_epoch b) (readouts s) = Inr rs"
    and s': "boundaries s' = fold (\<lambda>a m. add_end a (add_start a m)) actions (fold add_ready rs (boundaries s))"
    by (auto simp: ce_accept_eq ce_prepare_def)
  have "fire_tick b \<le> ro_ready x" if "x \<in> set rs" for x
  proof -
    from list_all2_right [OF ro_prepare_facts(1) [OF r(2)] that] obtain a where "a \<in> set actions" "readout_of a x" by auto
    with resolved_times [OF r(1)] show ?thesis by (fastforce simp: readout_of_def)
  qed
  moreover have "due s' k \<Longrightarrow> due s k \<or> (\<exists>x\<in>set rs. ro_ready x = k) \<or> (\<exists>a\<in>set actions. sch_start a = k \<or> sch_end a = k)" for k
    unfolding due_def s' action_keys ready_keys by blast
  moreover have "fire_tick b \<le> sch_start a \<and> fire_tick b \<le> sch_end a" if "a \<in> set actions" for a
    using resolved_times [OF r(1) that] by simp
  ultimately have "\<forall>k. due s' k \<longrightarrow> due s k \<or> fire_tick b \<le> k" by metis
  with assms(2) show ?thesis by (simp add: s' launch_om_ok)
qed

lemma process_due:
  assumes "ce_process B now ep dlv s env = Inr (s', env', tr)" and "om_ok (boundaries s)"
  shows "om_ok (boundaries s') \<and> (\<forall>k. due s' k \<longleftrightarrow> due s k \<and> k \<noteq> now)"
proof (cases "om_find now (boundaries s)")
  case None
  with assms have "s' = s" by (auto simp: ce_process_def)
  with None assms(2) show ?thesis by (auto simp: due_def)
next
  case (Some bd)
  with assms have "boundaries s' = om_erase now (boundaries s)" by (auto simp: ce_process_def ce_boundary_def)
  with assms(2) show ?thesis by (simp add: due_def)
qed

lemma trigger_fire: "prepare_trigger now ep st pf sp s = Inr (Some t) \<Longrightarrow> fire_tick (batch t) = now"
  by (auto simp: prepare_trigger_def Let_def split: if_splits)

lemma tcu_step_fire:
  assumes "tcu_step now ep c rs pf p sp s = Inr (s', out, tr)" and "TcuOutput.launch out = Some b"
  shows "fire_tick b = now"
proof -
  from assms(1) obtain t where t: "prepare_trigger now ep (current_timing_state now p s) pf sp s = Inr t"
    "TcuOutput.launch out = map_option batch t"
    by (auto simp: tcu_step_def Let_def split_beta)
  with assms(2) trigger_fire show ?thesis by (cases t) auto
qed

lemma tcu_edge_fire:
  "tcu_edge pf now ep c n = Inr (out, c', n', tr) \<Longrightarrow> TcuOutput.launch out = Some b \<Longrightarrow> fire_tick b = now"
  by (auto simp: tcu_edge_def Let_def split_beta dest: tcu_step_fire)

section \<open>Runs of the simulator\<close>

text \<open>A process of the current tick, in any order and number.\<close>

inductive process_step :: "'b Backend \<Rightarrow> Tick \<Rightarrow> 'b Simulator \<Rightarrow> 'b Simulator \<Rightarrow> bool" for B now s where
  cpu: "process_step B now s (sim_cpu_edge B now s)"
| memory: "process_step B now s (sim_memory_edge B now s)"
| tcu: "process_step B now s (sim_tcu_edge B now s)"
| wakeup: "process_step B now s (sim_wakeup B now s)"
| barrier: "process_step B now s (sim_barrier B now s)"

text \<open>Whether the tick is over: every process due has run, and the barrier after the last of them.\<close>

definition settled :: "Tick \<Rightarrow> 'b Simulator \<Rightarrow> bool" where
  "settled now s \<longleftrightarrow> edges_done now s \<and> \<not> barrier_notified s"

inductive sim_run :: "'b Backend \<Rightarrow> 'b Simulator \<Rightarrow> Tick \<Rightarrow> bool" for B where
  start: "sim_run B s 0"
    if "simulator fingerprint B configs connections backend resets rev_order limit decoding = Inr s"
| process: "sim_run B s' now" if "sim_run B s now" and "process_step B now s s'"
| advance: "sim_run B s t" if "sim_run B s now" and "\<not> stopped s" and "settled now s" and "wake s = Some w" and "now < t" and "t \<le> w"

definition performed :: "Tick \<Rightarrow> 'b Simulator \<Rightarrow> Tick \<Rightarrow> bool" where
  "performed now s r \<longleftrightarrow> r < now \<or> r = now \<and> last_reset s = Some now"

definition decoders_quiet :: "DecoderSystem \<Rightarrow> bool" where
  "decoders_quiet d \<longleftrightarrow> ds_requests d = [] \<and> reset_request d = None \<and> jobs d = []"

definition silent_until :: "Tick \<Rightarrow> Tick \<Rightarrow> DecoderSystem \<Rightarrow> bool" where
  "silent_until now w d \<longleftrightarrow> (\<forall>t ep. now \<le> t \<and> t < w \<longrightarrow> ds_step t ep d = Inr (d, []))"

definition schedule_ok :: "Tick \<Rightarrow> 'b Simulator \<Rightarrow> bool" where
  "schedule_ok now s \<longleftrightarrow> om_ok (boundaries (sim_device s)) \<and> sorted (sim_resets s) \<and> distinct (sim_resets s) \<and>
     (\<forall>k. due (sim_device s) k \<longrightarrow> now \<le> k) \<and>
     (\<forall>t. last_reset s = Some t \<longrightarrow> t \<in> set (sim_resets s) \<and> t \<le> now) \<and>
     (last_reset s = Some now \<longrightarrow> boundaries (sim_device s) = [] \<and> decoders_quiet (sim_decoders s)) \<and>
     sim_epoch s = 1 + length (filter (performed now s) (sim_resets s)) \<and>
     (\<forall>w. wake s = Some w \<longrightarrow> (\<forall>r\<in>set (sim_resets s). r < w \<longrightarrow> performed now s r))"

text \<open>What a completed barrier leaves: nothing is due before the wake-up.\<close>

definition waits_until :: "Tick \<Rightarrow> Tick \<Rightarrow> 'b Simulator \<Rightarrow> bool" where
  "waits_until now w s \<longleftrightarrow> (\<forall>k. due (sim_device s) k \<longrightarrow> w \<le> k) \<and> silent_until now w (sim_decoders s)"

definition sim_inv :: "Tick \<Rightarrow> 'b Simulator \<Rightarrow> bool" where
  "sim_inv now s \<longleftrightarrow> schedule_ok now s \<and>
     (\<not> stopped s \<and> settled now s \<longrightarrow> (\<forall>w. wake s = Some w \<longrightarrow> waits_until now w s))"

lemma quiet_silent: "decoders_quiet d \<Longrightarrow> silent_until now w d"
proof -
  assume "decoders_quiet d"
  then have "quiet_at t d" for t
    by (simp add: decoders_quiet_def quiet_at_def head_quiet_def)
  then show ?thesis by (simp add: silent_until_def quiet_step)
qed

section \<open>Processes keep the schedule\<close>

lemma count_performed:
  "distinct rs \<Longrightarrow> now \<in> set rs \<Longrightarrow>
   length (filter (\<lambda>r. r < now \<or> r = now) rs) = Suc (length (filter (\<lambda>r. r < now) rs))"
  for now :: nat
proof (induction rs)
  case (Cons r rs)
  show ?case
  proof (cases "r = now")
    case True
    with Cons.prems(1) have "filter (\<lambda>r. r < now \<or> r = now) rs = filter (\<lambda>r. r < now) rs"
      by (auto intro!: filter_cong)
    with True show ?thesis by simp
  next
    case False
    with Cons show ?thesis by auto
  qed
qed simp

lemma log_root_frame: "log_root tr s = Inr s' \<Longrightarrow> \<exists>l. s' = s\<lparr>sim_log := l\<rparr>"
  by (auto simp: log_root_def)

lemma log_core_frame: "log_core c tr s = Inr s' \<Longrightarrow> \<exists>l. s' = s\<lparr>sim_log := l\<rparr>"
  by (auto simp: log_core_def)

lemma schedule_ok_log [simp]: "schedule_ok now (s\<lparr>sim_log := l\<rparr>) = schedule_ok now s"
  by (simp add: schedule_ok_def performed_def [abs_def])

lemma reset_at_ok:
  assumes "schedule_ok now s" and "reset_at B now s = Inr (b, s')"
  shows "schedule_ok now s' \<and> (b \<longrightarrow> last_reset s' = Some now) \<and>
    (\<not> b \<longrightarrow> s' = s \<and> now \<notin> set (sim_resets s) \<and> last_reset s \<noteq> Some now) \<and>
    wake s' = wake s \<and> stopped s' = stopped s \<and> sim_resets s' = sim_resets s"
proof (cases "now \<in> set (sim_resets s) \<and> last_reset s \<noteq> Some now")
  case False
  with assms show ?thesis by (auto simp: reset_at_def schedule_ok_def)
next
  case True
  with assms(2) obtain ep cs d tr l where ep: "ep = sim_epoch s + 1" and d: "ce_reset B now ep (sim_device s) = Inr (d, tr)"
    and s': "b" "s' = s\<lparr>sim_epoch := ep, sim_network := net_reset (sim_network s), sim_decoders := ds_reset (sim_decoders s),
             sim_cores := cs, sim_device := d, last_reset := Some now, sim_log := l\<rparr>"
    by (auto simp: reset_at_def checked_add_def dest!: log_root_frame split: prod.splits)
  from d have bd: "boundaries d = []" by (auto simp: ce_reset_def)
  have q: "decoders_quiet (ds_reset (sim_decoders s))" by (simp add: decoders_quiet_def ds_reset_def)
  have "performed now s = (\<lambda>r. r < now)" using True by (auto simp: performed_def fun_eq_iff)
  moreover have "performed now s' = (\<lambda>r. r < now \<or> r = now)" by (auto simp: performed_def s' fun_eq_iff)
  ultimately have "schedule_ok now s'"
    using assms(1) True count_performed [of "sim_resets s" now] unfolding schedule_ok_def
    by (auto simp: s' bd q ep due_def)
  then show ?thesis by (simp add: s')
qed

lemma cpu_edges_frame:
  assumes "foldE (one_cpu_edge B now) is s = Inr s'"
  shows "\<exists>cs l. s' = s\<lparr>sim_cores := cs, sim_log := l\<rparr>"
proof -
  have "(\<lambda>t. \<exists>cs l. t = s\<lparr>sim_cores := cs, sim_log := l\<rparr>) s'"
  proof (rule foldE_invariant [OF assms])
    show "\<exists>cs l. s = s\<lparr>sim_cores := cs, sim_log := l\<rparr>"
      by (rule exI [of _ "sim_cores s"], rule exI [of _ "sim_log s"]) simp
  next
    fix i t t'
    assume "\<exists>cs l. t = s\<lparr>sim_cores := cs, sim_log := l\<rparr>" and t': "one_cpu_edge B now i t = Inr t'"
    then obtain cs l where t: "t = s\<lparr>sim_cores := cs, sim_log := l\<rparr>" by blast
    from t' have "t' = t \<or> (\<exists>cs l. t' = t\<lparr>sim_cores := cs, sim_log := l\<rparr>)"
      by (auto simp: one_cpu_edge_def Let_def dest!: log_core_frame split: if_splits prod.splits)
    then show "\<exists>cs l. t' = s\<lparr>sim_cores := cs, sim_log := l\<rparr>" by (auto simp: t)
  qed
  then show ?thesis .
qed

lemma memory_edges_frame:
  assumes "foldE (one_memory_edge now) is s = Inr s'"
  shows "\<exists>cs l d. s' = s\<lparr>sim_cores := cs, sim_decoders := d, sim_log := l\<rparr>"
proof -
  have "(\<lambda>t. \<exists>cs l d. t = s\<lparr>sim_cores := cs, sim_decoders := d, sim_log := l\<rparr>) s'"
  proof (rule foldE_invariant [OF assms])
    show "\<exists>cs l d. s = s\<lparr>sim_cores := cs, sim_decoders := d, sim_log := l\<rparr>"
      by (rule exI [of _ "sim_cores s"], rule exI [of _ "sim_log s"], rule exI [of _ "sim_decoders s"]) simp
  next
    fix i t t'
    assume "\<exists>cs l d. t = s\<lparr>sim_cores := cs, sim_decoders := d, sim_log := l\<rparr>" and t': "one_memory_edge now i t = Inr t'"
    then obtain cs l d where t: "t = s\<lparr>sim_cores := cs, sim_decoders := d, sim_log := l\<rparr>" by blast
    show "\<exists>cs l d. t' = s\<lparr>sim_cores := cs, sim_decoders := d, sim_log := l\<rparr>"
    proof (cases "on_edge now (sim_cores t ! i)")
      case False
      with t' have "t' = t" by (simp add: one_memory_edge_def Let_def)
      with t show ?thesis by blast
    next
      case True
      with t' obtain c' d' tr where "log_root tr (t\<lparr>sim_cores := (sim_cores t)[i := c'], sim_decoders := d'\<rparr>) = Inr t'"
        by (auto simp: one_memory_edge_def Let_def)
      from log_root_frame [OF this] obtain l' where
        "t' = s\<lparr>sim_cores := (sim_cores t)[i := c'], sim_decoders := d', sim_log := l'\<rparr>" by (auto simp: t)
      then show ?thesis by blast
    qed
  qed
  then show ?thesis .
qed

definition device_grows :: "Tick \<Rightarrow> 'b ControlElectronics \<Rightarrow> 'b ControlElectronics \<Rightarrow> bool" where
  "device_grows now d d' \<longleftrightarrow> (om_ok (boundaries d) \<longrightarrow>
     om_ok (boundaries d') \<and> (\<forall>k. due d' k \<longrightarrow> due d k \<or> now \<le> k))"

lemma device_events_fire: "device_events s i b = Inr b' \<Longrightarrow> fire_tick b' = fire_tick b"
  by (auto simp: device_events_def Let_def split: if_splits)

lemma one_tcu_edge_frame:
  assumes "one_tcu_edge B now i s = Inr s'"
  shows "\<exists>cs l n d. s' = s\<lparr>sim_cores := cs, sim_network := n, sim_device := d, sim_log := l\<rparr> \<and>
    device_grows now (sim_device s) d"
proof -
  from assms obtain out c' n tr s1 where e: "tcu_edge (\<lambda>b. bindE (device_events s i b) (\<lambda>b'. ce_preflight B b' (sim_device s)))
      now (sim_epoch s) (sim_cores s ! i) (sim_network s) = Inr (out, c', n, tr)"
    and lc: "log_core (sim_cores s ! i) tr (s\<lparr>sim_cores := (sim_cores s)[i := c'], sim_network := n\<rparr>) = Inr s1"
    and k: "(case TcuOutput.launch out of None \<Rightarrow> Inr s1
     | Some b \<Rightarrow> bindE (device_events s1 i b) (\<lambda>b'.
         bindE (ce_accept B b' (sim_device s1)) (\<lambda>(d, tr'). log_root tr' (s1\<lparr>sim_device := d\<rparr>)))) = Inr s'"
    by (auto simp: one_tcu_edge_def Let_def)
  from log_core_frame [OF lc] obtain l where
    s1: "s1 = s\<lparr>sim_cores := (sim_cores s)[i := c'], sim_network := n, sim_log := l\<rparr>" by auto
  show ?thesis
  proof (cases "TcuOutput.launch out")
    case None
    with k have "s' = s\<lparr>sim_cores := (sim_cores s)[i := c'], sim_network := n, sim_device := sim_device s, sim_log := l\<rparr>"
      by (simp add: s1)
    moreover have "device_grows now (sim_device s) (sim_device s)" by (simp add: device_grows_def)
    ultimately show ?thesis by blast
  next
    case (Some b)
    with k obtain b' d tr' l' where b': "device_events s1 i b = Inr b'" "ce_accept B b' (sim_device s1) = Inr (d, tr')"
      "s' = s1\<lparr>sim_device := d, sim_log := l'\<rparr>"
      by (auto dest!: log_root_frame)
    have "fire_tick b' = now" using device_events_fire [OF b'(1)] tcu_edge_fire [OF e Some] by simp
    with accept_due [OF b'(2)] have "device_grows now (sim_device s) d" by (auto simp: device_grows_def s1)
    moreover have "s' = s\<lparr>sim_cores := (sim_cores s)[i := c'], sim_network := n, sim_device := d, sim_log := l'\<rparr>"
      using b'(3) by (simp add: s1)
    ultimately show ?thesis by blast
  qed
qed

lemma tcu_edges_frame:
  assumes "foldE (one_tcu_edge B now) is s = Inr s'"
  shows "\<exists>cs l n d. s' = s\<lparr>sim_cores := cs, sim_network := n, sim_device := d, sim_log := l\<rparr> \<and>
    device_grows now (sim_device s) d"
proof -
  let ?P = "\<lambda>t. \<exists>cs l n d. t = s\<lparr>sim_cores := cs, sim_network := n, sim_device := d, sim_log := l\<rparr> \<and>
    device_grows now (sim_device s) d"
  have "?P s'"
  proof (rule foldE_invariant [OF assms])
    show "?P s"
      by (rule exI [of _ "sim_cores s"], rule exI [of _ "sim_log s"], rule exI [of _ "sim_network s"],
          rule exI [of _ "sim_device s"]) (simp add: device_grows_def)
  next
    fix i t t'
    assume "?P t" and t': "one_tcu_edge B now i t = Inr t'"
    then obtain cs l n d where t: "t = s\<lparr>sim_cores := cs, sim_network := n, sim_device := d, sim_log := l\<rparr>"
      and g: "device_grows now (sim_device s) d" by blast
    from one_tcu_edge_frame [OF t'] obtain cs' l' n' d' where
      u: "t' = s\<lparr>sim_cores := cs', sim_network := n', sim_device := d', sim_log := l'\<rparr>" "device_grows now d d'"
      by (auto simp: t)
    have "device_grows now (sim_device s) d'" using g u(2) by (auto simp: device_grows_def)
    with u(1) show "?P t'" by blast
  qed
  then show ?thesis .
qed

lemma schedule_ok_cong:
  assumes "schedule_ok now s" and "sim_device s' = sim_device s" and "sim_resets s' = sim_resets s"
    and "last_reset s' = last_reset s" and "sim_epoch s' = sim_epoch s" and "wake s' = wake s"
    and "last_reset s = Some now \<longrightarrow> sim_decoders s' = sim_decoders s"
  shows "schedule_ok now s'"
proof -
  have "performed now s' = performed now s" by (simp add: performed_def fun_eq_iff assms(4))
  with assms show ?thesis unfolding schedule_ok_def by auto
qed

lemma cpu_body_ok:
  assumes "schedule_ok now s" and "cpu_edge_body B now s = Inr s'"
  shows "schedule_ok now s' \<and> barrier_notified s'"
proof -
  from assms(2) obtain b s1 s2 where r: "reset_at B now s = Inr (b, s1)"
    and e: "(if b then Inr s1 else foldE (one_cpu_edge B now) [0..<length (sim_cores s1)] s1) = Inr s2"
    and s': "s' = s2\<lparr>cpu_done := Some now, barrier_notified := True\<rparr>"
    by (auto simp: cpu_edge_body_def)
  note R = reset_at_ok [OF assms(1) r]
  from e have "\<exists>cs l. s2 = s1\<lparr>sim_cores := cs, sim_log := l\<rparr>"
  proof (cases b)
    case True
    with e have "s2 = s1\<lparr>sim_cores := sim_cores s1, sim_log := sim_log s1\<rparr>" by simp
    then show ?thesis by blast
  next
    case False
    with e cpu_edges_frame show ?thesis by auto
  qed
  then obtain cs l where s2: "s2 = s1\<lparr>sim_cores := cs, sim_log := l\<rparr>" by blast
  have "schedule_ok now s'"
    by (rule schedule_ok_cong [OF conjunct1 [OF R]]) (simp_all add: s' s2)
  then show ?thesis by (simp add: s')
qed

lemma memory_body_ok:
  assumes "schedule_ok now s" and "memory_edge_body B now s = Inr s'"
  shows "schedule_ok now s' \<and> barrier_notified s'"
proof -
  from assms(2) obtain b s1 s2 where r: "reset_at B now s = Inr (b, s1)"
    and e: "(if b then Inr s1 else foldE (one_memory_edge now) [0..<length (sim_cores s1)] s1) = Inr s2"
    and s': "s' = s2\<lparr>memory_done := Some now, barrier_notified := True\<rparr>"
    by (auto simp: memory_edge_body_def)
  note R = reset_at_ok [OF assms(1) r]
  have "schedule_ok now s'"
  proof (cases b)
    case True
    with e have "s2 = s1" by simp
    then show ?thesis by (intro schedule_ok_cong [OF conjunct1 [OF R]]) (simp_all add: s')
  next
    case False
    with e have "foldE (one_memory_edge now) [0..<length (sim_cores s1)] s1 = Inr s2" by simp
    from memory_edges_frame [OF this] obtain cs l d where
      s2: "s2 = s1\<lparr>sim_cores := cs, sim_decoders := d, sim_log := l\<rparr>" by blast
    show ?thesis
      by (rule schedule_ok_cong [OF conjunct1 [OF R]]) (use False R in \<open>simp_all add: s' s2\<close>)
  qed
  then show ?thesis by (simp add: s')
qed

lemma tcu_body_ok:
  assumes "schedule_ok now s" and "tcu_edge_body B now s = Inr s'"
  shows "schedule_ok now s' \<and> barrier_notified s'"
proof -
  from assms(2) obtain b s1 s2 where r: "reset_at B now s = Inr (b, s1)"
    and e: "(if b then Inr s1 else foldE (one_tcu_edge B now)
       (if reverse_order s1 then rev [0..<length (sim_cores s1)] else [0..<length (sim_cores s1)]) s1) = Inr s2"
    and s': "s' = s2\<lparr>tcu_done := Some now, barrier_notified := True\<rparr>"
    by (auto simp: tcu_edge_body_def Let_def)
  note R = reset_at_ok [OF assms(1) r]
  have "schedule_ok now s'"
  proof (cases b)
    case True
    with e have "s2 = s1" by simp
    then show ?thesis by (intro schedule_ok_cong [OF conjunct1 [OF R]]) (simp_all add: s')
  next
    case False
    have "foldE (one_tcu_edge B now)
       (if reverse_order s1 then rev [0..<length (sim_cores s1)] else [0..<length (sim_cores s1)]) s1 = Inr s2"
      using e False by simp
    from tcu_edges_frame [OF this] obtain cs l n d where
      s2: "s2 = s1\<lparr>sim_cores := cs, sim_network := n, sim_device := d, sim_log := l\<rparr>"
      and g: "device_grows now (sim_device s1) d" by blast
    have p: "performed now s' = performed now s1" by (simp add: performed_def fun_eq_iff s' s2)
    from R False have ok: "schedule_ok now s1" and nr: "last_reset s1 \<noteq> Some now" by auto
    then have "om_ok (boundaries (sim_device s1))" "\<forall>k. due (sim_device s1) k \<longrightarrow> now \<le> k"
      by (simp_all add: schedule_ok_def)
    with g have "om_ok (boundaries d) \<and> (\<forall>k. due d k \<longrightarrow> now \<le> k)" by (auto simp: device_grows_def)
    with ok nr p show ?thesis unfolding schedule_ok_def by (simp add: s' s2)
  qed
  then show ?thesis by (simp add: s')
qed

lemma wakeup_body_ok:
  assumes "schedule_ok now s" and "wakeup_body B now s = Inr s'"
  shows "schedule_ok now s' \<and> barrier_notified s'"
proof -
  from assms(2) obtain b s1 where r: "reset_at B now (s\<lparr>wake := None\<rparr>) = Inr (b, s1)"
    and s': "s' = s1\<lparr>barrier_notified := True\<rparr>"
    by (auto simp: wakeup_body_def)
  have "performed now (s\<lparr>wake := None\<rparr>) = performed now s" by (simp add: performed_def fun_eq_iff)
  with assms(1) have "schedule_ok now (s\<lparr>wake := None\<rparr>)" unfolding schedule_ok_def by simp
  note R = reset_at_ok [OF this r]
  have "schedule_ok now s'" by (rule schedule_ok_cong [OF conjunct1 [OF R]]) (simp_all add: s')
  then show ?thesis by (simp add: s')
qed

section \<open>The barrier\<close>

lemma stepped_silent:
  assumes "ds_step now ep d = Inr (d', tr)" and "\<forall>b. ds_next_boundary now d' = Some b \<longrightarrow> w \<le> b"
  shows "silent_until now w d'"
  unfolding silent_until_def
proof (intro allI impI)
  fix t ep'
  assume t: "now \<le> t \<and> t < w"
  have "\<forall>b. ds_next_boundary now d' = Some b \<longrightarrow> t < b" using assms(2) t by auto
  from quiet_later [OF step_quiet [OF assms(1)] _ this] t show "ds_step t ep' d' = Inr (d', [])"
    by (simp add: quiet_step)
qed

text \<open>What the barrier has seen to when the time of the wake-up is computed.\<close>

definition caught_up :: "Tick \<Rightarrow> 'b Simulator \<Rightarrow> bool" where
  "caught_up now s \<longleftrightarrow> schedule_ok now s \<and> (\<forall>k. due (sim_device s) k \<longrightarrow> now < k) \<and>
     (\<forall>r\<in>set (sim_resets s). r \<le> now \<longrightarrow> performed now s r) \<and>
     (\<forall>w. (\<forall>b. ds_next_boundary now (sim_decoders s) = Some b \<longrightarrow> w \<le> b) \<longrightarrow> silent_until now w (sim_decoders s))"

lemma step_decoders_ok:
  assumes "schedule_ok now s" and "step_decoders now s = Inr s1"
  shows "schedule_ok now s1 \<and> stopped s1 = stopped s \<and>
    (\<forall>w. (\<forall>b. ds_next_boundary now (sim_decoders s1) = Some b \<longrightarrow> w \<le> b) \<longrightarrow> silent_until now w (sim_decoders s1))"
proof (cases "last_reset s = Some now")
  case True
  with assms have "s1 = s" "decoders_quiet (sim_decoders s)" by (auto simp: step_decoders_def schedule_ok_def)
  with assms(1) quiet_silent show ?thesis by auto
next
  case False
  with assms(2) obtain d tr l where d: "ds_step now (sim_epoch s) (sim_decoders s) = Inr (d, tr)"
    and s1: "s1 = s\<lparr>sim_decoders := d, sim_log := l\<rparr>"
    by (auto simp: step_decoders_def dest!: log_root_frame)
  have "schedule_ok now s1" by (rule schedule_ok_cong [OF assms(1)]) (use False in \<open>simp_all add: s1\<close>)
  with stepped_silent [OF d] show ?thesis by (simp add: s1)
qed

lemma process_device_ok:
  assumes "schedule_ok now s" and "process_device B now s = Inr s'"
    and "\<forall>w. (\<forall>b. ds_next_boundary now (sim_decoders s) = Some b \<longrightarrow> w \<le> b) \<longrightarrow> silent_until now w (sim_decoders s)"
  shows "caught_up now s' \<and> stopped s' = stopped s"
proof -
  from assms(2) obtain b s1 where r: "reset_at B now s = Inr (b, s1)" by (auto simp: process_device_def)
  note R = reset_at_ok [OF assms(1) r]
  have per: "r \<in> set (sim_resets s1) \<Longrightarrow> r \<le> now \<Longrightarrow> performed now s1 r" for r
    using R by (cases b) (auto simp: performed_def le_less)
  show ?thesis
  proof (cases b)
    case True
    with assms(2) r have "s' = s1" by (simp add: process_device_def)
    moreover have "boundaries (sim_device s1) = [] \<and> decoders_quiet (sim_decoders s1)"
      using R True by (auto simp: schedule_ok_def)
    ultimately show ?thesis using R per quiet_silent by (auto simp: caught_up_def due_def)
  next
    case False
    with R have eq: "s1 = s" and nr: "last_reset s \<noteq> Some now" by auto
    have ge: "om_ok (boundaries (sim_device s))" "\<forall>k. due (sim_device s) k \<longrightarrow> now \<le> k"
      using assms(1) by (simp_all add: schedule_ok_def)
    show ?thesis
    proof (cases "next_boundary (sim_device s) = Some now")
      case True
      with False assms(2) r eq obtain d cs tr l where
        d: "ce_process B now (sim_epoch s) (deliver_result now (sim_epoch s)) (sim_device s) (sim_cores s) = Inr (d, cs, tr)"
        and s': "s' = s\<lparr>sim_device := d, sim_cores := cs, sim_log := l\<rparr>"
        by (auto simp: process_device_def dest!: log_root_frame)
      from process_due [OF d ge(1)] ge(2) have "om_ok (boundaries d) \<and> (\<forall>k. due d k \<longrightarrow> now < k)"
        by (auto simp: le_less)
      moreover have "performed now s' = performed now s" by (simp add: performed_def fun_eq_iff s')
      ultimately show ?thesis
        using assms(1,3) nr per eq unfolding caught_up_def schedule_ok_def by (auto simp: s' intro: less_imp_le)
    next
      case n: False
      with False assms(2) r eq have s': "s' = s" by (simp add: process_device_def)
      have "now < k" if "due (sim_device s) k" for k
      proof (cases "next_boundary (sim_device s)")
        case None
        with that next_boundary_first(1) [OF ge(1)] show ?thesis by auto
      next
        case (Some t)
        with next_boundary_first(2) [OF ge(1) Some] ge(2) that have "now \<le> t" "t \<le> k" "t \<noteq> now" using n by auto
        then show ?thesis by simp
      qed
      then show ?thesis using assms(1,3) per eq by (auto simp: caught_up_def s')
    qed
  qed
qed

lemma earliest_le: "earliest t n \<le> n" "t = Some x \<Longrightarrow> earliest t n \<le> x"
  by (auto simp: earliest_def split: option.split)

lemma find_sorted:
  "sorted rs \<Longrightarrow> r \<in> set rs \<Longrightarrow> now < r \<Longrightarrow> \<exists>x. find (\<lambda>r. now < r) rs = Some x \<and> x \<le> r"
  for now r :: nat
  by (induction rs) auto

lemma schedule_wakeup_ok:
  assumes "caught_up now s" and "schedule_wakeup now s = Inr s'"
  shows "\<exists>w. s' = s\<lparr>wake := Some w\<rparr> \<and> now < w \<and> w \<le> pf_watchdog (sim_profile s) \<and> schedule_ok now s' \<and> waits_until now w s'"
proof -
  define t1 where "t1 = earliest (ds_next_boundary now (sim_decoders s)) (pf_watchdog (sim_profile s))"
  define t2 where "t2 = earliest (next_boundary (sim_device s)) t1"
  define w where "w = earliest (find (\<lambda>r. now < r) (sim_resets s)) t2"
  from assms(2) have s': "s' = s\<lparr>wake := Some w\<rparr>" and "now < w"
    by (auto simp: schedule_wakeup_def Let_def t1_def t2_def w_def)
  have le: "w \<le> t2" "t2 \<le> t1" "t1 \<le> pf_watchdog (sim_profile s)"
    by (simp_all add: w_def t2_def t1_def earliest_le)
  have dec: "\<forall>b. ds_next_boundary now (sim_decoders s) = Some b \<longrightarrow> w \<le> b"
    using le earliest_le(2) [of "ds_next_boundary now (sim_decoders s)"] by (metis le_trans t1_def)
  have ok: "schedule_ok now s" using assms(1) by (simp add: caught_up_def)
  then have dev: "w \<le> k" if "due (sim_device s) k" for k
  proof (cases "next_boundary (sim_device s)")
    case None
    with ok that next_boundary_first(1) show ?thesis by (auto simp: schedule_ok_def)
  next
    case (Some t)
    with ok that next_boundary_first(2) [OF _ Some] have "t \<le> k" by (simp add: schedule_ok_def)
    moreover have "t2 \<le> t" using earliest_le(2) [OF Some] by (simp add: t2_def)
    ultimately show ?thesis using le by simp
  qed
  have res: "w \<le> r" if "r \<in> set (sim_resets s)" "now < r" for r
  proof -
    from ok have "sorted (sim_resets s)" by (simp add: schedule_ok_def)
    from find_sorted [OF this that] obtain x where "find (\<lambda>r. now < r) (sim_resets s) = Some x" "x \<le> r" by blast
    with earliest_le(2) [OF this(1), of t2] show ?thesis by (simp add: w_def)
  qed
  have p: "performed now s' = performed now s" by (simp add: performed_def fun_eq_iff s')
  have "performed now s r" if "r \<in> set (sim_resets s)" "r < w" for r
    using assms(1) res [OF that(1)] that by (cases "r \<le> now") (auto simp: caught_up_def)
  with ok p have "schedule_ok now s'" unfolding schedule_ok_def by (simp add: s')
  moreover have "waits_until now w s'"
    using assms(1) dec dev by (simp add: waits_until_def caught_up_def s')
  ultimately show ?thesis using s' \<open>now < w\<close> le by auto
qed

lemma barrier_body_ok:
  assumes "schedule_ok now s" and "barrier_body B now s = Inr s'"
  shows "schedule_ok now s' \<and> (\<not> stopped s' \<and> settled now s' \<longrightarrow> (\<forall>w. wake s' = Some w \<longrightarrow> waits_until now w s'))"
proof -
  let ?s = "s\<lparr>barrier_notified := False\<rparr>"
  have ok: "schedule_ok now ?s" by (rule schedule_ok_cong [OF assms(1)]) simp_all
  show ?thesis
  proof (cases "edges_done now ?s")
    case False
    with assms(2) have "s' = ?s" by (simp add: barrier_body_def Let_def)
    with ok False show ?thesis by (simp add: settled_def)
  next
    case True
    with assms(2) obtain s1 s2 where s1: "step_decoders now ?s = Inr s1" and s2: "process_device B now s1 = Inr s2"
      and s': "(if all_drained s2 then complete_simulation B now s2
        else require (now < pf_watchdog (sim_profile s2)) Watchdog (schedule_wakeup now s2)) = Inr s'"
      by (auto simp: barrier_body_def Let_def)
    note D = step_decoders_ok [OF ok s1]
    have C: "caught_up now s2" using process_device_ok [OF conjunct1 [OF D] s2] D by blast
    show ?thesis
    proof (cases "all_drained s2")
      case True
      with s' obtain d l where d: "ce_finalize B now (sim_device s2) = Inr d"
        and e: "s' = s2\<lparr>sim_device := d, success := True, stopped := True, sim_log := l\<rparr>"
        by (auto simp: complete_simulation_def dest!: log_root_frame)
      from d have b: "boundaries d = boundaries (sim_device s2)" by (auto simp: ce_finalize_def)
      have p: "performed now s' = performed now s2" by (simp add: performed_def fun_eq_iff e)
      have "schedule_ok now s'"
        using C p unfolding caught_up_def schedule_ok_def by (simp add: e b due_def)
      then show ?thesis by (simp add: e)
    next
      case False
      with s' have "schedule_wakeup now s2 = Inr s'" by (simp split: if_splits)
      from schedule_wakeup_ok [OF C this] show ?thesis by auto
    qed
  qed
qed

section \<open>Every run\<close>

lemma process_ok:
  assumes "sim_inv now s" and "process_step B now s s'"
  shows "sim_inv now s'"
proof -
  have ok: "schedule_ok now s" using assms(1) by (simp add: sim_inv_def)
  have run: "sim_inv now (process now body s)"
    if "\<And>t. body s = Inr t \<Longrightarrow> schedule_ok now t \<and>
      (\<not> stopped t \<and> settled now t \<longrightarrow> (\<forall>w. wake t = Some w \<longrightarrow> waits_until now w t))" for body
  proof (cases "stopped s")
    case True
    with assms(1) show ?thesis by (simp add: process_def)
  next
    case False
    show ?thesis
    proof (cases "body s")
      case (Inl e)
      have "schedule_ok now (fail now e s)" by (rule schedule_ok_cong [OF ok]) (simp_all add: fail_def)
      with False Inl show ?thesis by (simp add: process_def sim_inv_def fail_def)
    next
      case (Inr t)
      with that [OF Inr] False show ?thesis by (simp add: process_def sim_inv_def)
    qed
  qed
  from assms(2) show ?thesis
  proof cases
    case cpu
    then show ?thesis
      unfolding sim_cpu_edge_def using cpu_body_ok [OF ok] by (auto simp: settled_def intro!: run)
  next
    case memory
    then show ?thesis
      unfolding sim_memory_edge_def using memory_body_ok [OF ok] by (auto simp: settled_def intro!: run)
  next
    case tcu
    then show ?thesis
      unfolding sim_tcu_edge_def using tcu_body_ok [OF ok] by (auto simp: settled_def intro!: run)
  next
    case wakeup
    then show ?thesis
      unfolding sim_wakeup_def using wakeup_body_ok [OF ok] by (auto simp: settled_def intro!: run)
  next
    case barrier
    then show ?thesis
      unfolding sim_barrier_def using barrier_body_ok [OF ok] by (auto intro!: run)
  qed
qed

lemma advance_ok:
  assumes "sim_inv now s" and "\<not> stopped s" and "settled now s" and "wake s = Some w" and "now < t" and "t \<le> w"
  shows "sim_inv t s"
proof -
  have ok: "schedule_ok now s" and wt: "waits_until now w s" using assms by (auto simp: sim_inv_def)
  have lt: "last_reset s \<noteq> Some t" using ok assms(5) by (auto simp: schedule_ok_def)
  have pn: "performed now s r" if "r \<in> set (sim_resets s)" "r < w" for r
    using ok assms(4) that by (simp add: schedule_ok_def)
  have p: "performed t s r = performed now s r" if "r \<in> set (sim_resets s)" for r
  proof
    assume "performed t s r"
    with lt have "r < t" by (simp add: performed_def)
    with pn [OF that] assms(6) show "performed now s r" by simp
  next
    assume "performed now s r"
    with assms(5) show "performed t s r" by (auto simp: performed_def)
  qed
  then have f: "filter (performed t s) (sim_resets s) = filter (performed now s) (sim_resets s)"
    by (intro filter_cong) auto
  have "schedule_ok t s"
    using ok wt lt f p assms(4-6) unfolding schedule_ok_def waits_until_def
    by (auto intro: le_trans less_imp_le)
  moreover have "waits_until t w s"
    using wt assms(5) by (auto simp: waits_until_def silent_until_def)
  ultimately show ?thesis using assms(4) by (simp add: sim_inv_def)
qed

lemma start_ok:
  assumes "simulator fingerprint B configs connections backend resets rev_order limit decoding = Inr s"
  shows "sim_inv 0 s"
proof -
  from assms obtain p d n dp dev cs offsets x l where
    d: "decoder_system decoding = Inr d" and dev: "control_electronics B dp backend limit = Inr dev"
    and rs: "sorted resets" "distinct resets" "\<forall>t\<in>set resets. 0 < t"
    and s: "schedule_wakeup 0 \<lparr>sim_profile = p, sim_log = l, sim_decoders = d, sim_network = n,
        sim_cores = cs, port_offsets = offsets, sim_device = dev, wake = None, barrier_notified = False,
        cpu_done = None, memory_done = None, tcu_done = None, last_reset = None, sim_resets = resets, sim_epoch = 1,
        reverse_order = rev_order, stopped = False, success = False, sim_fault = None\<rparr> = Inr s"
    by (auto simp: simulator_def list_all_iff dest!: log_root_frame)
  from s have "\<exists>s0. schedule_wakeup 0 s0 = Inr s \<and> caught_up 0 s0"
  proof (intro exI conjI)
    have b: "boundaries dev = []" using dev by (auto simp: control_electronics_def)
    have q: "decoders_quiet d" using d by (auto simp: decoder_system_def decoders_quiet_def)
    have f: "filter (performed 0 (s0 :: 'a Simulator)) resets = []" if "last_reset s0 = None" for s0
      using that by (simp add: performed_def filter_empty_conv)
    show "caught_up 0 \<lparr>sim_profile = p, sim_log = l, sim_decoders = d, sim_network = n,
        sim_cores = cs, port_offsets = offsets, sim_device = dev, wake = None, barrier_notified = False,
        cpu_done = None, memory_done = None, tcu_done = None, last_reset = None, sim_resets = resets, sim_epoch = 1,
        reverse_order = rev_order, stopped = False, success = False, sim_fault = None\<rparr>"
      using b rs f quiet_silent [OF q] by (auto simp: caught_up_def schedule_ok_def due_def)
  qed
  then obtain s0 where "schedule_wakeup 0 s0 = Inr s" "caught_up 0 s0" by blast
  from schedule_wakeup_ok [OF this(2,1)] show ?thesis by (auto simp: sim_inv_def)
qed

lemma sim_run_inv: "sim_run B s now \<Longrightarrow> sim_inv now s"
  by (induction rule: sim_run.induct) (auto intro: start_ok process_ok advance_ok)

section \<open>The claim\<close>

text \<open>
  C7. The simulator wakes up in time for everything. In every run, with any resets, any order of the
  processes of a tick and any launches, no boundary of the control electronics lies in the past, and the epoch
  counts the resets performed. When a tick is over and the wake-up is pending for tick \<open>w\<close>, no boundary of the
  control electronics is due before \<open>w\<close>, a step of the decoders at any tick before \<open>w\<close> would change nothing
  and emit nothing, and every reset scheduled before \<open>w\<close> has been performed: nothing is lost by skipping
  the ticks in between.
\<close>

theorem wakeups_never_miss:
  assumes "sim_run B s now"
  shows "(\<forall>k. due (sim_device s) k \<longrightarrow> now \<le> k) \<and>
    sim_epoch s = 1 + length (filter (performed now s) (sim_resets s)) \<and>
    (\<not> stopped s \<and> settled now s \<and> wake s = Some w \<longrightarrow>
      (\<forall>k. due (sim_device s) k \<longrightarrow> w \<le> k) \<and>
      (\<forall>t ep. now \<le> t \<and> t < w \<longrightarrow> ds_step t ep (sim_decoders s) = Inr (sim_decoders s, [])) \<and>
      (\<forall>r\<in>set (sim_resets s). r < w \<longrightarrow> performed now s r))"
  using sim_run_inv [OF assms] by (auto simp: sim_inv_def schedule_ok_def waits_until_def silent_until_def)

text \<open>A core without an edge at tick 0 and a reset at tick 50: the first wake-up is for the reset.\<close>

definition ex_profile :: Profile where
  "ex_profile = \<lparr>pf_cpu = \<lparr>period = 2, phase = 1\<rparr>, pf_tcu = \<lparr>period = 4, phase = 2\<rparr>, pf_start = 10, pf_watchdog = 1000,
     memory_latency = 1, command_latency = 1, reply_latency = 1, cpu_result_latency = 1, fast_result_latency = 1,
     timing_capacity = 2, event_capacity = 2, staging_capacity = 2, result_capacity = 2, pf_ports = 1, pf_qubits = 1,
     firing_width = 1, pf_seed = 0, pf_fast_feedback = False,
     pf_mappings = [], two_qubit_gates = []\<rparr>"

definition ex_image :: ProgramImage where
  "ex_image = (case image_raw [0x93, 0x08, 0xd0, 0x05, 0x73, 0, 0, 0] 0 0 8 of Inr i \<Rightarrow> i)"

definition ex_sim :: "MockBackend Simulator result" where
  "ex_sim = simulator (\<lambda>_. ''p'') mock_backend
     [\<lparr>cfg_id = 0, cfg_profile = ex_profile, cfg_image = ex_image, cfg_issue = Scalar, cfg_sync_capacity = 1\<rparr>] []
     \<lparr>outcomes = [], mock_qubits = 0, calls = 0\<rparr> [50] False 4
     \<lparr>ds_base = 0x40000000, request_capacity = 1, ds_result_capacity = 1, link_latency = 1, bytes_per_tick = 1, packet_overhead = 1, decoders = []\<rparr>"


lemma ex_profile_ok: "profile_validate ex_profile = Inr ()"
  by (simp add: profile_validate_def clock_validate_def edge_def ex_profile_def)

lemma ex_validated: "validated [\<lparr>cfg_id = 0, cfg_profile = ex_profile, cfg_image = ex_image, cfg_issue = Scalar, cfg_sync_capacity = 1\<rparr>] [] = Inr ex_profile"
  apply (simp add: validated_def add_core_def ex_profile_ok checked_add_def check_output_action_def) 
  apply (simp add: ex_profile_def example_action_def tick_max_def)
  done

lemma ex_image_ok: "image_raw [0x93, 0x08, 0xd0, 0x05, 0x73, 0, 0, 0] 0 0 8 = Inr ex_image"
  by (simp add: ex_image_def image_raw_def program_image_def)


lemma ex_core: "\<exists>c. core_new (\<lambda>_. ''p'') 0 ex_profile ex_image Scalar 1 = Inr c \<and> core_profile c = ex_profile"
  by (simp add: core_new_def timing_config_def transport_config_def control_links_def memory_port_def mailbox_def
      memory_model_def tcu_config_def tcu_new_def ex_profile_ok)
    (simp add: ex_profile_def clock_validate_def valid_clock_def tick_max_def)

lemma ex_start: "\<exists>s. ex_sim = Inr s \<and> wake s = Some 50 \<and> \<not> stopped s \<and> settled 0 s \<and> sim_resets s = [50]"
proof -
  obtain c where "core_new (\<lambda>_. ''p'') 0 ex_profile ex_image Scalar 1 = Inr c" "core_profile c = ex_profile"
    using ex_core by blast
  then show ?thesis
    using ex_validated
    by (simp add: ex_sim_def simulator_def decoder_system_def decoder_mmio_def register_defs decoder_ids_def
        sync_network_def device_profile_def control_electronics_def backend_execution_def bx_reset_def
        mock_backend_def mock_reset_def build_core_def validate_memory_def)
      (simp add: ex_profile_def log_root_def emit_def trace_event_def payload_agrees_def schedule_wakeup_def
        ds_next_boundary_def ds_boundaries_def next_boundary_def earliest_def settled_def edges_done_def
        on_edge_def edge_def valid_clock_def)
qed

lemma ex_run: "\<exists>s. sim_run mock_backend s 7 \<and> \<not> stopped s \<and> settled 0 s \<and> wake s = Some 50 \<and> sim_resets s = [50]"
proof -
  from ex_start obtain s where s: "ex_sim = Inr s" "wake s = Some 50" "\<not> stopped s" "settled 0 s" "sim_resets s = [50]"
    by blast
  have "sim_run mock_backend s 0" using s(1) unfolding ex_sim_def by (rule sim_run.start)
  from sim_run.advance [OF this s(3,4,2), of 7] s show ?thesis by auto
qed

theorem wakeups_never_miss_witness:
  "\<exists>s. sim_run mock_backend s 7 \<and> \<not> stopped s \<and> settled 0 s \<and> wake s = Some 50 \<and> sim_resets s = [50] \<and>
     sim_epoch s = 1 \<and> (\<forall>k. due (sim_device s) k \<longrightarrow> 7 \<le> k)"
proof -
  from ex_run obtain s where s: "sim_run mock_backend s 7" "\<not> stopped s" "settled 0 s" "wake s = Some 50" "sim_resets s = [50]"
    by blast
  with wakeups_never_miss [OF s(1)] show ?thesis by (auto simp: performed_def)
qed

end
