(* ===== verification/Core_Execution.thy ===== *)
theory Core_Execution
  imports Cpu_Execution Simulator_Schedule
begin

text \<open>
  The CPU of a core together with its memory and its timing control: a core executes the program in
  its memory. The theory Cpu_Execution takes the words of the program from a function and lets loads
  return anything; here both come from the memory model of the core, over its two ports, and the
  machine the core is compared with has the program image as its memory.
\<close>

section \<open>The machine with a memory\<close>

text \<open>The access to the memory that the instruction \<open>w\<close> at \<open>at\<close> makes.\<close>

definition memory_effect :: "ControlIssue \<Rightarrow> u32 \<Rightarrow> u32 \<Rightarrow> u32 list \<Rightarrow> Effect option" where
  "memory_effect iss w at regs =
     (if is_cw_bundle iss w then None
      else case decode w of Inl _ \<Rightarrow> None
      | Inr d \<Rightarrow> if dec_op d = Quantum then None
          else (case evaluate d at (regs ! unat (dec_rs1 d)) (regs ! unat (dec_rs2 d)) of
              Inl _ \<Rightarrow> None | Inr e \<Rightarrow> if memory e = NoMemory then None else Some e))"

text \<open>The value that a load leaves in its register when the memory holds \<open>w\<close>.\<close>

definition extended :: "Effect \<Rightarrow> u32 \<Rightarrow> u32 result" where
  "extended e w = (if sign_extend_load e then sign_extend w (eff_width e * 8) else Inr w)"

text \<open>
  The memory after the access when its result is \<open>v\<close>, or none when the access cannot have that
  result. Addresses in \<open>io\<close> belong to a device, which answers as it likes.
\<close>

definition data_access :: "(u32 \<Rightarrow> bool) \<Rightarrow> Effect option \<Rightarrow> u32 \<Rightarrow> ProgramImage \<Rightarrow> ProgramImage option" where
  "data_access io eff v img = (case eff of
      None \<Rightarrow> Some img
    | Some e \<Rightarrow>
        if io (address e) then Some img
        else if memory e = Store
        then (case image_write (address e) (eff_width e) (store_value e) img of
            Inl _ \<Rightarrow> None | Inr img' \<Rightarrow> Some img')
        else (case image_read (address e) (eff_width e) False img of
            Inl _ \<Rightarrow> None | Inr w \<Rightarrow> if extended e w = Inr v then Some img else None))"

text \<open>
  The memory after the machine has executed the instructions \<open>rs\<close> from \<open>at\<close> with the registers
  \<open>regs\<close> and the memory \<open>img\<close>: each is the word the memory holds at the address its predecessor
  determined, and is executed as the theory Cpu_Execution says; none when that is not so.
\<close>

fun executes ::
  "ControlIssue \<Rightarrow> (u32 \<Rightarrow> bool) \<Rightarrow> ProgramImage \<Rightarrow> u32 \<Rightarrow> u32 list \<Rightarrow> InstructionRetired list \<Rightarrow> ProgramImage option" where
  "executes iss io img at regs [] = Some img"
| "executes iss io img at regs (r # rs) =
     (if image_read at 4 True img = Inr (ir_word r) \<and> retires iss (\<lambda>_. ir_word r) at regs r \<and>
         (halts iss (ir_word r) \<longrightarrow> rs = [])
      then Option.bind (data_access io (memory_effect iss (ir_word r) at regs) (ir_value r) img)
             (\<lambda>img'. executes iss io img' (ir_next_pc r) (ir_registers r) rs)
      else None)"

lemma executes_snoc:
  assumes "executes iss io img at regs rs = Some img1" and "\<forall>q\<in>set rs. \<not> halts iss (ir_word q)"
    and "image_read (pc_after at rs) 4 True img1 = Inr (ir_word r)"
    and "retires iss (\<lambda>_. ir_word r) (pc_after at rs) (registers_after regs rs) r"
    and "data_access io (memory_effect iss (ir_word r) (pc_after at rs) (registers_after regs rs)) (ir_value r) img1 = Some img2"
  shows "executes iss io img at regs (rs @ [r]) = Some img2"
  using assms
proof (induction rs arbitrary: img at regs)
  case (Cons q rs)
  then obtain img' where q: "image_read at 4 True img = Inr (ir_word q)" "retires iss (\<lambda>_. ir_word q) at regs q"
    "data_access io (memory_effect iss (ir_word q) at regs) (ir_value q) img = Some img'"
    "executes iss io img' (ir_next_pc q) (ir_registers q) rs = Some img1"
    by (auto split: if_splits Option.bind_splits)
  with Cons.IH [OF q(4)] Cons.prems show ?case by (simp split: if_splits)
qed simp

section \<open>Programs that do not write their code\<close>

definition write_xor_execute :: "ProgramImage \<Rightarrow> bool" where
  "write_xor_execute img \<longleftrightarrow> list_all (\<lambda>s. \<not> (writable s \<and> executable s)) (segments img)"

lemma fetch_segment:
  assumes "img_offset a w Fetch img = Inr p"
  shows "\<exists>s\<in>set (segments img). executable s \<and> seg_address s \<le> a \<and>
    unat a + w \<le> unat (seg_address s) + unat (seg_size s)"
proof -
  have "ex \<longrightarrow> x \<or> (\<exists>s\<in>set ss. executable s \<and> seg_address s \<le> a \<and> unat a + w \<le> unat (seg_address s) + unat (seg_size s))"
    if "foldE (check_segment Fetch a w) ss x = Inr ex" for ss x ex
    using that
  proof (induction ss arbitrary: x)
    case (Cons s ss)
    then obtain y where "check_segment Fetch a w s x = Inr y" "foldE (check_segment Fetch a w) ss y = Inr ex" by auto
    with Cons.IH [OF this(2)] show ?case by (auto simp: check_segment_def split: if_splits)
  qed simp
  with assms show ?thesis by (fastforce simp: img_offset_def)
qed

text \<open>A store leaves every fetch as it was.\<close>

definition same_code :: "ProgramImage \<Rightarrow> ProgramImage \<Rightarrow> bool" where
  "same_code img img' \<longleftrightarrow> segments img' = segments img \<and> (\<forall>a. image_read a 4 True img' = image_read a 4 True img)"

lemma store_keeps_code:
  assumes "image_write a w v img = Inr img'" and "write_xor_execute img"
  shows "same_code img img'"
proof -
  from assms(1) obtain p where o1: "img_offset a w StoreAccessKind img = Inr p"
    and img': "img' = img\<lparr>img_bytes := put_bytes p w v (img_bytes img)\<rparr>" by (rule write_bytes)
  have off: "img_offset b 4 k img' = img_offset b 4 k img" for b k
    unfolding img' by (rule offset_bytes) (simp add: put_bytes_nth)
  note f = offset_facts [OF o1]
  have "assemble (img_bytes img') q 4 = assemble (img_bytes img) q 4" if q: "img_offset b 4 Fetch img = Inr q" for b q
  proof -
    note g = offset_facts [OF q]
    from fetch_segment [OF q] obtain s where s: "s \<in> set (segments img)" "executable s" "seg_address s \<le> b"
      "unat b + 4 \<le> unat (seg_address s) + unat (seg_size s)" by blast
    have "\<not> writable s" using s assms(2) by (auto simp: write_xor_execute_def list_all_iff)
    with f(6) [OF s(1)] have "\<not> touches a w s" by auto
    then have "unat b + 4 \<le> unat a \<or> unat a + w \<le> unat b" using s(3,4) by (auto simp: touches_def word_le_nat_alt)
    then show ?thesis using f g by (intro assemble_cong) (auto simp: img' put_bytes_nth)
  qed
  then have "image_read b 4 True img' = image_read b 4 True img" for b
    using off by (cases "img_offset b 4 Fetch img") (simp_all add: image_read_def access_kind_def)
  then show ?thesis by (simp add: same_code_def img')
qed

section \<open>The device on the data port\<close>

text \<open>
  What a core relies on when a device is attached to its memory: the device has no code. Any value
  it returns answers a load or a store.
\<close>

definition io_address :: "'d device \<Rightarrow> u32 \<Rightarrow> bool" where
  "io_address device a = (case device of None \<Rightarrow> False | Some (has, _) \<Rightarrow> has a)"

locale data_device =
  fixes device :: "'d device"
  assumes no_code: "device = Some (has, acc) \<Longrightarrow> acc q now epoch d = (Inr (Some v), d') \<Longrightarrow> \<not> mr_instruction q"
begin

lemma fetched_from_image:
  assumes "respond device now epoch q img d = (Some r, img', d')" and "mr_instruction q" and "\<not> mr_write q"
  shows "img' = img \<and> (rs_fault r = None \<longrightarrow> image_read (mr_address q) (mr_width q) True img = Inr (rs_value r))"
  using assms no_code
  by (auto simp: respond_def Let_def split: option.splits sum.splits if_splits prod.splits)

end

section \<open>An edge of the CPU and the ports\<close>

text \<open>On the instruction port an edge takes a response, and may then ask for the next word.\<close>

lemma retire_frame: "retire f v nx now ep p = (p', tr) \<Longrightarrow> \<exists>regs a. p' = p\<lparr>Pipeline.registers := regs, pc := a\<rparr>"
proof (cases "fr_decoded f")
  case None
  assume "retire f v nx now ep p = (p', tr)"
  with None have "p' = p\<lparr>Pipeline.registers := Pipeline.registers p, pc := pc p\<rparr>" by (simp add: retire_def)
  then show ?thesis by blast
qed (auto simp: retire_def Let_def)

lemma execute_stage_cases:
  assumes "execute_stage now ep control d p env = Inr (p', d', env', flush, tr)"
  obtains (empty) "execute_latch p = None" "p' = p" "d' = d" "flush = False" "tr = []"
  | (waits) f x where "execute_latch p = Some f" "execute_frame now ep control f d p env = Inr x" "ex_done x = None"
      "p' = p\<lparr>next_data := ex_next_data x, halted := halted p \<or> ex_halt x, execute_latch := Some (ex_frame x)\<rparr>"
      "d' = ex_data x" "tr = ex_trace x @ [stalled_event now ep (ex_frame x)]"
  | (retires) f x v nx q tr' where "execute_latch p = Some f" "execute_frame now ep control f d p env = Inr x"
      "ex_done x = Some (v, nx)" "d' = ex_data x" "p' = q\<lparr>execute_latch := None\<rparr>" "tr = ex_trace x @ tr'"
      "retire (ex_frame x) v nx now ep (p\<lparr>next_data := ex_next_data x, halted := halted p \<or> ex_halt x\<rparr>) = (q, tr')"
proof (cases "execute_latch p")
  case None
  with assms show thesis by (intro empty) (simp_all add: execute_stage_def)
next
  case (Some f)
  with assms obtain x where x: "execute_frame now ep control f d p env = Inr x" by (auto simp: execute_stage_def)
  show thesis
  proof (cases "ex_done x")
    case None
    have "execute_stage now ep control d p env =
      Inr (p\<lparr>next_data := ex_next_data x, halted := halted p \<or> ex_halt x, execute_latch := Some (ex_frame x)\<rparr>, ex_data x,
        ex_env x, ex_flush x, ex_trace x @ [stalled_event now ep (ex_frame x)])"
      using Some x None by (simp add: execute_stage_def Let_def)
    with assms show thesis by (intro waits [OF Some x None]) simp_all
  next
    case s: (Some vn)
    obtain v nx where vn: "ex_done x = Some (v, nx)" using s by (cases vn) auto
    obtain q tr' where "retire (ex_frame x) v nx now ep (p\<lparr>next_data := ex_next_data x, halted := halted p \<or> ex_halt x\<rparr>) = (q, tr')"
      by fastforce
    note r = this
    then have "execute_stage now ep control d p env =
      Inr (q\<lparr>execute_latch := None\<rparr>, ex_data x, ex_env x, ex_flush x, ex_trace x @ tr')"
      using Some x vn by (simp add: execute_stage_def Let_def)
    with assms show thesis by (intro retires [OF Some x vn _ _ _ r]) simp_all
  qed
qed

lemma fetch_stages:
  "take_fetch now ep f p = Inr (p', f') \<Longrightarrow> requests f' = requests f \<and> next_fetch p' = next_fetch p \<and>
     (fetch_request p' = None \<or> fetch_request p' = fetch_request p)"
  "execute_stage now ep control d p env = Inr (p', d', env', flush, tr) \<Longrightarrow>
     next_fetch p' = next_fetch p \<and> fetch_request p' = fetch_request p"
  "flush_stage now ep flush p = Inr (p', tr) \<Longrightarrow> next_fetch p' = next_fetch p \<and> fetch_request p' = fetch_request p"
  "next_fetch (advance_stage p) = next_fetch p \<and> fetch_request (advance_stage p) = fetch_request p"
  "sample_trace now ep p = (p', tr) \<Longrightarrow> next_fetch p' = next_fetch p \<and> fetch_request p' = fetch_request p"
proof -
  show "take_fetch now ep f p = Inr (p', f') \<Longrightarrow> requests f' = requests f \<and> next_fetch p' = next_fetch p \<and>
     (fetch_request p' = None \<or> fetch_request p' = fetch_request p)"
    by (auto simp: take_fetch_def Let_def split: prod.splits option.splits if_splits)
  show "next_fetch p' = next_fetch p \<and> fetch_request p' = fetch_request p"
    if "execute_stage now ep control d p env = Inr (p', d', env', flush, tr)"
    using that
  proof (cases rule: execute_stage_cases)
    case (retires f x v nx q tr')
    with retire_frame [OF retires(7)] show ?thesis by auto
  qed simp_all
qed (auto simp: flush_stage_def advance_stage_def sample_trace_def Let_def split: if_splits option.splits)

definition fetch_of :: "Id \<Rightarrow> u32 \<Rightarrow> MemoryRequest" where
  "fetch_of i a = \<lparr>mr_id = i, mr_address = a, mr_value = 0, mr_width = 4, mr_write = False, mr_instruction = True\<rparr>"

definition asks :: "Epoch \<Rightarrow> MemoryRequest \<Rightarrow> MemoryPort \<Rightarrow> MemoryPort \<Rightarrow> bool" where
  "asks ep q port port' \<longleftrightarrow> responses port' = responses port \<and>
     (\<exists>t el. entries (requests port') = entries (requests port) @
        [\<lparr>published = t, eligible = el, env_epoch = ep, env_value = q\<rparr>])"

lemma publish_asks:
  "publish now ep q (requests port) = Inr box \<Longrightarrow> asks ep q port (port\<lparr>requests := box\<rparr>)"
  by (auto simp: publish_def asks_def)

lemma fetch_stage_asks:
  assumes "fetch_stage now ep f p = Inr (p', f')"
  shows "f' = f \<and> p' = p \<or>
    asks ep (fetch_of (next_fetch p) (fetch_pc p)) f f' \<and> next_fetch p' = next_fetch p + 1 \<and>
    fetch_request p' = Some \<lparr>fe_id = next_fetch p, fe_pc = fetch_pc p, fe_generation = generation p\<rparr>"
  using assms by (auto simp: fetch_stage_def fetch_of_def checked_add_def split: if_splits dest: publish_asks)

lemma cpu_step_fetch:
  assumes "cpu_step now ep control f d p env = Inr (p', f', d', env', tr)"
  shows "requests f' = requests f \<and> next_fetch p' = next_fetch p \<and>
      (fetch_request p' = None \<or> fetch_request p' = fetch_request p) \<or>
    (\<exists>a gen t el. entries (requests f') = entries (requests f) @
        [\<lparr>published = t, eligible = el, env_epoch = ep, env_value = fetch_of (next_fetch p) a\<rparr>] \<and>
      next_fetch p' = next_fetch p + 1 \<and>
      fetch_request p' = Some \<lparr>fe_id = next_fetch p, fe_pc = a, fe_generation = gen\<rparr>)"
proof -
  from assms obtain p1 f1 where t: "take_fetch now ep f p = Inr (p1, f1)" by (auto simp: cpu_step_def)
  note T = fetch_stages(1) [OF t]
  show ?thesis
  proof (cases "halted p1")
    case True
    obtain q t1 where q: "sample_trace now ep p1 = (q, t1)" by fastforce
    with assms t True have "p' = q" "f' = f1" by (auto simp: cpu_step_def)
    with T fetch_stages(5) [OF q] show ?thesis by auto
  next
    case False
    then obtain p2 d1 e1 fl t1 p3 t2 where x: "execute_stage now ep control d p1 env = Inr (p2, d1, e1, fl, t1)"
      and fs: "flush_stage now ep fl p2 = Inr (p3, t2)"
      using assms t by (fastforce simp: cpu_step_def)
    note X = fetch_stages(2) [OF x] fetch_stages(3) [OF fs]
    show ?thesis
    proof (cases "halted p3")
      case True
      obtain q t3 where q: "sample_trace now ep p3 = (q, t3)" by fastforce
      with assms t False x fs True have "p' = q" "f' = f1" by (auto simp: cpu_step_def)
      with T X fetch_stages(5) [OF q] show ?thesis by auto
    next
      case h3: False
      obtain p4 f2 where fe: "fetch_stage now ep f1 (advance_stage p3) = Inr (p4, f2)"
        using assms t False x fs h3 by (fastforce simp: cpu_step_def)
      obtain q t3 where q: "sample_trace now ep p4 = (q, t3)" by fastforce
      with assms t False x fs h3 fe have e: "p' = q" "f' = f2" by (auto simp: cpu_step_def)
      note A = fetch_stages(4) [of p3] and Q = fetch_stages(5) [OF q]
      from fetch_stage_asks [OF fe] show ?thesis
      proof
        assume "f2 = f1 \<and> p4 = advance_stage p3"
        with e T X A Q show ?thesis by auto
      next
        assume "asks ep (fetch_of (next_fetch (advance_stage p3)) (fetch_pc (advance_stage p3))) f1 f2 \<and>
          next_fetch p4 = next_fetch (advance_stage p3) + 1 \<and>
          fetch_request p4 = Some \<lparr>fe_id = next_fetch (advance_stage p3), fe_pc = fetch_pc (advance_stage p3),
            fe_generation = generation (advance_stage p3)\<rparr>"
        with e T X A Q show ?thesis by (simp add: asks_def)
      qed
    qed
  qed
qed

section \<open>An edge of the CPU and the data\<close>

definition request_of :: "Id \<Rightarrow> Effect \<Rightarrow> MemoryRequest" where
  "request_of i e = \<lparr>mr_id = i, mr_address = address e, mr_value = store_value e, mr_width = eff_width e,
     mr_write = (memory e = Store), mr_instruction = False\<rparr>"

text \<open>The load or store in the execute stage whose request has been made.\<close>

definition waiting :: "Pipeline \<Rightarrow> (Id \<times> Effect) option" where
  "waiting p = (case execute_latch p of None \<Rightarrow> None
    | Some f \<Rightarrow> if memory_request f = 0 then None else map_option (\<lambda>e. (memory_request f, e)) (fr_effect f))"

definition data_frame :: "Frame \<Rightarrow> bool" where
  "data_frame f \<longleftrightarrow> (memory_request f \<noteq> 0 \<longrightarrow> (\<exists>e d. fr_effect f = Some e \<and> memory e \<noteq> NoMemory \<and> \<not> is_bundle f \<and>
     fr_decoded f = Some d \<and> dec_op d \<noteq> Quantum \<and> dec_op d \<noteq> Ecall))"

text \<open>
  The three things the execute stage may do for a frame: nothing on the data port, a request, or the
  completion of the access with the response.
\<close>

datatype data_step = Same | Asked Id Effect | Answered Id Effect u32

definition port_step :: "Epoch \<Rightarrow> data_step \<Rightarrow> MemoryPort \<Rightarrow> MemoryPort \<Rightarrow> bool" where
  "port_step ep s port port' = (case s of
      Same \<Rightarrow> port' = port
    | Asked i e \<Rightarrow> asks ep (request_of i e) port port'
    | Answered i e w \<Rightarrow> requests port' = requests port \<and>
        (\<exists>m. entries (responses port) = m # entries (responses port') \<and> rs_fault (env_value m) = None \<and>
           rs_value (env_value m) = w))"

definition frame_step :: "data_step \<Rightarrow> Pipeline \<Rightarrow> Frame \<Rightarrow> 'c Executed \<Rightarrow> bool" where
  "frame_step s p f x \<longleftrightarrow> data_frame (ex_frame x) \<and> 0 < ex_next_data x \<and> (case s of
      Same \<Rightarrow> memory_request (ex_frame x) = memory_request f \<and>
        (memory_request f \<noteq> 0 \<longrightarrow> fr_effect (ex_frame x) = fr_effect f \<and> ex_done x = None) \<and>
        (ex_done x \<noteq> None \<longrightarrow> memory_effect (issue p) (fr_word f) (fr_pc f) (Pipeline.registers p) = None)
    | Asked i e \<Rightarrow> memory_request f = 0 \<and> ex_done x = None \<and> memory_request (ex_frame x) = i \<and> i \<noteq> 0 \<and>
        fr_effect (ex_frame x) = Some e
    | Answered i e w \<Rightarrow> memory_request f = i \<and> i \<noteq> 0 \<and> fr_effect f = Some e \<and>
        memory_effect (issue p) (fr_word f) (fr_pc f) (Pipeline.registers p) = Some e \<and>
        (\<exists>v. ex_done x = Some (v, next_pc e) \<and> extended e w = Inr v))"

lemma access_memory_step:
  assumes "access_memory now ep e x = Inr x'" and "memory e \<noteq> NoMemory" and "0 < ex_next_data x"
    and "fr_effect (ex_frame x) = Some e" and "ex_done x = None"
    and "memory_effect (issue p) (fr_word f) (fr_pc f) (Pipeline.registers p) = Some e"
    and "memory_request f = memory_request (ex_frame x)"
    and "memory_request f \<noteq> 0 \<longrightarrow> fr_effect f = Some e"
    and "\<not> is_bundle (ex_frame x)" and "fr_decoded (ex_frame x) = Some d" and "dec_op d \<noteq> Quantum" and "dec_op d \<noteq> Ecall"
  shows "\<exists>s. port_step ep s (ex_data x) (ex_data x') \<and> frame_step s p f x'"
proof (cases "memory_request (ex_frame x) = 0")
  case True
  show ?thesis
  proof (cases "mb_full (requests (ex_data x))")
    case full: True
    with True assms have "x' = x" by (simp add: access_memory_def Let_def)
    then have "port_step ep Same (ex_data x) (ex_data x') \<and> frame_step Same p f x'"
      using assms True by (simp add: port_step_def frame_step_def data_frame_def)
    then show ?thesis by blast
  next
    case False
    with True assms(1) obtain n box where n: "checked_add (ex_next_data x) 1 = Inr n"
      and b: "publish now ep (request_of (ex_next_data x) e) (requests (ex_data x)) = Inr box"
      and x': "x' = x\<lparr>ex_next_data := n, ex_data := (ex_data x)\<lparr>requests := box\<rparr>,
        ex_frame := (ex_frame x)\<lparr>memory_request := ex_next_data x\<rparr>\<rparr>"
      by (auto simp: access_memory_def Let_def request_of_def)
    have "n = ex_next_data x + 1" using n by (simp add: checked_add_def split: if_splits)
    with assms True publish_asks [OF b] x'
    have "port_step ep (Asked (ex_next_data x) e) (ex_data x) (ex_data x') \<and> frame_step (Asked (ex_next_data x) e) p f x'"
      by (simp add: port_step_def frame_step_def data_frame_def)
    then show ?thesis by blast
  qed
next
  case False
  obtain m box where t: "mb_take now (responses (ex_data x)) = (m, box)" by fastforce
  show ?thesis
  proof (cases m)
    case None
    with t False assms have "x' = x" by (simp add: access_memory_def Let_def)
    then have "port_step ep Same (ex_data x) (ex_data x') \<and> frame_step Same p f x'"
      using assms False by (simp add: port_step_def frame_step_def data_frame_def)
    then show ?thesis by blast
  next
    case (Some msg)
    with t False assms(1) obtain v where f: "rs_fault (env_value msg) = None"
      and v: "extended e (rs_value (env_value msg)) = Inr v"
      and x': "x' = x\<lparr>ex_data := (ex_data x)\<lparr>responses := box\<rparr>, ex_done := Some (v, next_pc e)\<rparr>"
      by (auto simp: access_memory_def Let_def extended_def split: option.splits)
    have "entries (responses (ex_data x)) = msg # entries box"
      using t Some by (auto simp: mb_take_cases split: if_splits)
    with f v x' assms False
    have "port_step ep (Answered (memory_request f) e (rs_value (env_value msg))) (ex_data x) (ex_data x') \<and>
      frame_step (Answered (memory_request f) e (rs_value (env_value msg))) p f x'"
      by (simp add: port_step_def frame_step_def data_frame_def)
    then show ?thesis by blast
  qed
qed

lemma execute_frame_step:
  assumes "execute_frame now ep control f d p env = Inr x" and "issued code (issue p) (Pipeline.registers p) f"
    and "data_frame f" and "0 < next_data p"
  shows "\<exists>s. port_step ep s d (ex_data x) \<and> frame_step s p f x"
proof -
  from assms(1) obtain i where no: "fr_fault f = None" and i: "fr_decoded f = Some i"
    by (auto simp: execute_frame_def split: option.splits)
  let ?y = "executing f d (next_data p) env"
  have y: "ex_frame ?y = f" "ex_done ?y = None" "ex_data ?y = d" "ex_next_data ?y = next_data p"
    by (simp_all add: executing_def)
  show ?thesis
  proof (cases "is_cw_bundle (issue p) (fr_word f)")
    case True
    with assms(2) no have b: "is_bundle f" by (simp add: issued_def)
    with assms(1) no i have "execute_bundle control ?y = Inr x" by (simp add: execute_frame_def Let_def)
    then have "ex_data x = d \<and> ex_next_data x = next_data p \<and> (\<exists>n. ex_frame x = f\<lparr>completed_lanes := n\<rparr>)"
      by (auto simp: execute_bundle_def executing_def Let_def)
    moreover have "memory_effect (issue p) (fr_word f) (fr_pc f) (Pipeline.registers p) = None"
      using True by (simp add: memory_effect_def)
    ultimately have "port_step ep Same d (ex_data x) \<and> frame_step Same p f x"
      using assms(3,4) b by (auto simp: port_step_def frame_step_def data_frame_def)
    then show ?thesis by blast
  next
    case nb: False
    with assms(2) no i have dec: "\<not> is_bundle f" "decode (fr_word f) = Inr i"
      and ops: "fr_lhs f = Pipeline.registers p ! unat (dec_rs1 i)" "fr_rhs f = Pipeline.registers p ! unat (dec_rs2 i)"
      and eff: "\<forall>e. fr_effect f = Some e \<longrightarrow> evaluate i (fr_pc f) (fr_lhs f) (fr_rhs f) = Inr e"
      by (auto simp: issued_def)
    have me: "memory_effect (issue p) (fr_word f) (fr_pc f) (Pipeline.registers p) =
      (if dec_op i = Quantum then None else case evaluate i (fr_pc f) (fr_lhs f) (fr_rhs f) of
         Inl _ \<Rightarrow> None | Inr e \<Rightarrow> if memory e = NoMemory then None else Some e)"
      using nb dec ops by (simp add: memory_effect_def)
    have plain: "\<exists>s. port_step ep s d (ex_data x) \<and> frame_step s p f x"
      if "ex_data x = d" "ex_next_data x = next_data p" "ex_frame x = f" "memory_request f = 0"
        "memory_effect (issue p) (fr_word f) (fr_pc f) (Pipeline.registers p) = None"
      using that assms(3,4) by (intro exI [of _ Same]) (simp add: port_step_def frame_step_def)
    consider (quantum) "dec_op i = Quantum" | (halt) "dec_op i = Ecall" "Pipeline.registers p ! 17 = 93"
      | (scalar) "dec_op i \<noteq> Quantum" "\<not> (dec_op i = Ecall \<and> Pipeline.registers p ! 17 = 93)" by blast
    then show ?thesis
    proof cases
      case quantum
      with assms(1) no i dec have "execute_quantum control i ?y = Inr x" by (simp add: execute_frame_def Let_def)
      with quantum i assms(3) me show ?thesis
        by (intro plain) (auto simp: execute_quantum_def executing_def Let_def data_frame_def)
    next
      case halt
      with assms(1) no i dec have "execute_halt control ?y = Inr x" by (simp add: execute_frame_def Let_def)
      moreover have "\<not> (\<exists>e. evaluate i (fr_pc f) (fr_lhs f) (fr_rhs f) = Inr e)" using evaluate_next(3) halt by blast
      then have "memory_effect (issue p) (fr_word f) (fr_pc f) (Pipeline.registers p) = None"
        by (auto simp: me split: sum.split)
      ultimately show ?thesis using halt i assms(3)
        by (intro plain) (auto simp: execute_halt_def executing_def Let_def data_frame_def)
    next
      case scalar
      with assms(1) no i dec have "execute_scalar now ep i ?y = Inr x" by (auto simp: execute_frame_def Let_def)
      with eff obtain e where ev: "evaluate i (fr_pc f) (fr_lhs f) (fr_rhs f) = Inr e"
        and x: "(let y = ?y\<lparr>ex_frame := f\<lparr>fr_effect := Some e\<rparr>\<rparr> in
           if memory e = NoMemory then Inr (y\<lparr>ex_done := Some (eff_value e, next_pc e), ex_flush := branch_taken e\<rparr>)
           else access_memory now ep e y) = Inr x"
        by (auto simp: execute_scalar_def executing_def Let_def split: option.splits)
      have ne: "dec_op i \<noteq> Ecall" by (rule evaluate_next(3) [OF ev])
      have fe: "memory_request f \<noteq> 0 \<longrightarrow> fr_effect f = Some e \<and> memory e \<noteq> NoMemory"
        using assms(3) eff ev by (auto simp: data_frame_def)
      show ?thesis
      proof (cases "memory e = NoMemory")
        case True
        with x fe have z: "x = ?y\<lparr>ex_frame := f\<lparr>fr_effect := Some e\<rparr>, ex_done := Some (eff_value e, next_pc e),
          ex_flush := branch_taken e\<rparr>" "memory_request f = 0" by simp_all
        then have "port_step ep Same d (ex_data x) \<and> frame_step Same p f x"
          using True scalar(1) ev assms(4)
          by (simp add: port_step_def frame_step_def data_frame_def me executing_def)
        then show ?thesis by blast
      next
        case False
        with x have a: "access_memory now ep e (?y\<lparr>ex_frame := f\<lparr>fr_effect := Some e\<rparr>\<rparr>) = Inr x" by (simp add: Let_def)
        have "\<exists>s. port_step ep s (ex_data (?y\<lparr>ex_frame := f\<lparr>fr_effect := Some e\<rparr>\<rparr>)) (ex_data x) \<and> frame_step s p f x"
          by (rule access_memory_step [OF a False, where d = i])
            (use False scalar(1) ev ne fe i dec assms(4) in \<open>simp_all add: me executing_def\<close>)
        then show ?thesis by (simp add: executing_def)
      qed
    qed
  qed
qed

definition data_inv :: "Pipeline \<Rightarrow> bool" where
  "data_inv p \<longleftrightarrow> 0 < next_data p \<and> (halted p \<longrightarrow> execute_latch p = None) \<and>
     (\<forall>f. execute_latch p = Some f \<longrightarrow> data_frame f)"

text \<open>The step on the data port and what retires with it.\<close>

definition pipeline_step :: "data_step \<Rightarrow> Pipeline \<Rightarrow> Pipeline \<Rightarrow> InstructionRetired list \<Rightarrow> bool" where
  "pipeline_step s p p' rs \<longleftrightarrow> (case s of
      Same \<Rightarrow> waiting p' = waiting p \<and> (\<forall>r\<in>set rs. waiting p = None \<and>
        memory_effect (issue p) (ir_word r) (pc p) (Pipeline.registers p) = None)
    | Asked i e \<Rightarrow> waiting p = None \<and> waiting p' = Some (i, e) \<and> rs = []
    | Answered i e w \<Rightarrow> waiting p = Some (i, e) \<and> waiting p' = None \<and> (\<exists>r. rs = [r] \<and> extended e w = Inr (ir_value r) \<and>
        memory_effect (issue p) (ir_word r) (pc p) (Pipeline.registers p) = Some e))"

lemma execute_stage_step:
  assumes "execute_stage now ep control d p env = Inr (p', d', env', flush, tr)"
    and "cpu_inv code p" and "data_inv p" and "\<not> halted p" and "quiet control"
  shows "data_inv p' \<and> (\<exists>s. port_step ep s d d' \<and> pipeline_step s p p' (retirements tr))"
  using assms(1)
proof (cases rule: execute_stage_cases)
  case empty
  then have "port_step ep Same d d' \<and> pipeline_step Same p p' (retirements tr)"
    by (simp add: port_step_def pipeline_step_def)
  with assms(3) empty show ?thesis by blast
next
  case (waits f x)
  from assms(2) waits(1) have f: "issued code (issue p) (Pipeline.registers p) f" by (auto simp: cpu_inv_def frames_ok_def)
  from assms(3) waits(1) have df: "data_frame f" "0 < next_data p" by (auto simp: data_inv_def)
  have R: "retirements (ex_trace x) = []" "\<not> ex_halt x"
    using execute_frame_right [OF waits(2) assms(5) f] waits(3) by (simp_all add: executed_right_def)
  from execute_frame_step [OF waits(2) f df] obtain s where s: "port_step ep s d (ex_data x)" "frame_step s p f x" by blast
  have "retirements tr = []" using R waits(6) by simp
  moreover have "data_inv p'" using s(2) R(2) assms(4) waits(4) by (simp add: data_inv_def frame_step_def)
  moreover have "pipeline_step s p p' []"
    using s(2) waits(1,3,4) by (cases s) (simp_all add: pipeline_step_def frame_step_def waiting_def)
  ultimately show ?thesis using s(1) waits(5) by auto
next
  case (retires f x v nx q tr')
  from assms(2) retires(1) have f: "issued code (issue p) (Pipeline.registers p) f"
    by (auto simp: cpu_inv_def frames_ok_def)
  have at: "fr_pc f = pc p" using assms(2,4) retires(1) by (simp add: cpu_inv_def pcs_def)
  from assms(3) retires(1) have df: "data_frame f" "0 < next_data p" by (auto simp: data_inv_def)
  note R = execute_frame_right [OF retires(2) assms(5) f, unfolded executed_right_def]
  from R retires(3) obtain i where i: "fr_decoded (ex_frame x) = Some i" by (auto simp: done_right_def)
  from execute_frame_step [OF retires(2) f df] obtain s where s: "port_step ep s d (ex_data x)" "frame_step s p f x" by blast
  from retire_cases [OF i retires(7)] R obtain r where r: "retirements tr' = [r]" "ir_word r = fr_word f" "ir_value r = v"
    by auto
  with R retires(6) have tr: "retirements tr = [r]" by simp
  have "next_data q = ex_next_data x" using retire_frame [OF retires(7)] by auto
  then have "data_inv p'" using s(2) retires(5) by (simp add: data_inv_def frame_step_def)
  moreover have "waiting p' = None" using retires(5) by (simp add: waiting_def)
  then have "pipeline_step s p p' [r]"
    using s(2) retires(1,3) r at by (cases s) (auto simp: pipeline_step_def frame_step_def waiting_def)
  ultimately show ?thesis using s(1) retires(4) tr by auto
qed

lemma data_stages:
  "take_fetch now ep f p = Inr (p', f') \<Longrightarrow> execute_latch p' = execute_latch p \<and> next_data p' = next_data p \<and>
     halted p' = halted p \<and> issue p' = issue p \<and> pc p' = pc p \<and> Pipeline.registers p' = Pipeline.registers p"
  "flush_stage now ep flush p = Inr (p', tr) \<Longrightarrow> execute_latch p' = execute_latch p \<and> next_data p' = next_data p \<and>
     halted p' = halted p"
  "next_data (advance_stage p) = next_data p \<and> halted (advance_stage p) = halted p"
  "fetch_stage now ep f p = Inr (p', f') \<Longrightarrow> execute_latch p' = execute_latch p \<and> next_data p' = next_data p \<and>
     halted p' = halted p"
  "sample_trace now ep p = (p', tr) \<Longrightarrow> execute_latch p' = execute_latch p \<and> next_data p' = next_data p \<and>
     halted p' = halted p \<and> retirements tr = []"
      apply (auto simp: take_fetch_def Let_def split: prod.splits option.splits if_splits) [1]
     apply (auto simp: flush_stage_def split: if_splits) [1]
    apply (simp add: advance_stage_def Let_def split: option.splits)
   apply (auto simp: fetch_stage_def split: if_splits) [1]
  apply (auto simp: sample_trace_def split: if_splits) [1]
  done

text \<open>An instruction that enters execute has made no request.\<close>

lemma advance_latch:
  assumes "frames_ok code p" and "\<not> halted p"
  shows "execute_latch (advance_stage p) = execute_latch p \<or>
    execute_latch p = None \<and> (\<exists>f. execute_latch (advance_stage p) = Some f \<and> memory_request f = 0)"
proof (cases "execute_latch p")
  case None
  have "memory_request (decode_frame p f) = 0" if "decode_latch p = Some f" for f
    using assms(1) that by (auto simp: frames_ok_def raw_def decode_frame_def split: sum.split)
  with None show ?thesis by (auto simp: advance_stage_def Let_def split: option.splits)
qed (simp add: advance_stage_def Let_def split: option.splits)

lemma cpu_step_data:
  assumes "cpu_step now ep control f d p env = Inr (p', f', d', env', tr)"
    and "cpu_inv code p" and "answers code ep p f" and "data_inv p" and "quiet control"
  shows "data_inv p' \<and> (\<exists>s. port_step ep s d d' \<and> pipeline_step s p p' (retirements tr))"
proof -
  from assms(1) obtain p1 f1 where t: "take_fetch now ep f p = Inr (p1, f1)" by (auto simp: cpu_step_def)
  note T = data_stages(1) [OF t] and I1 = conjunct1 [OF take_fetch_inv [OF t assms(2,3)]]
  have D1: "data_inv p1" using T assms(4) by (simp add: data_inv_def)
  have W1: "waiting p1 = waiting p" using T by (simp add: waiting_def)
  have step: "pipeline_step s p q rs" if "pipeline_step s p1 q' rs" "waiting q = waiting q'" for s q q' rs
    using that W1 T by (cases s) (simp_all add: pipeline_step_def)
  show ?thesis
  proof (cases "halted p1")
    case True
    obtain q t1 where q: "sample_trace now ep p1 = (q, t1)" by fastforce
    with assms(1) t True have e: "p' = q" "d' = d" "tr = t1" by (auto simp: cpu_step_def)
    note Q = data_stages(5) [OF q]
    have "data_inv p'" using e D1 Q by (simp add: data_inv_def)
    moreover have "port_step ep Same d d' \<and> pipeline_step Same p p' (retirements tr)"
      using e W1 Q by (simp add: port_step_def pipeline_step_def waiting_def)
    ultimately show ?thesis by blast
  next
    case False
    then obtain p2 d1 e1 fl t1 p3 t2 where x: "execute_stage now ep control d p1 env = Inr (p2, d1, e1, fl, t1)"
      and fs: "flush_stage now ep fl p2 = Inr (p3, t2)"
      using assms(1) t by (fastforce simp: cpu_step_def)
    note X = execute_stage_step [OF x I1 D1 False assms(5)] and S = data_stages(2) [OF fs]
    from X obtain s where s: "port_step ep s d d1" "pipeline_step s p1 p2 (retirements t1)" by blast
    note R = execute_stage_right [OF x I1 False assms(5)]
    have inv3: "cpu_inv code p3 \<and> retirements t2 = []"
      using flush_stage_inv [OF fs, of code] R by blast
    have W3: "waiting p3 = waiting p2" using S by (simp add: waiting_def)
    show ?thesis
    proof (cases "halted p3")
      case True
      obtain q t3 where q: "sample_trace now ep p3 = (q, t3)" by fastforce
      with assms(1) t False x fs True have e: "p' = q" "d' = d1" "tr = t1 @ t2 @ t3" by (auto simp: cpu_step_def)
      note Q = data_stages(5) [OF q]
      have "waiting p' = waiting p2" using e Q W3 by (simp add: waiting_def)
      moreover have "data_inv p'" using e S Q X by (simp add: data_inv_def)
      ultimately show ?thesis using step [OF s(2)] s(1) e Q inv3 by auto
    next
      case h3: False
      obtain p4 f2 where fe: "fetch_stage now ep f1 (advance_stage p3) = Inr (p4, f2)"
        using assms(1) t False x fs h3 by (fastforce simp: cpu_step_def)
      obtain q t3 where q: "sample_trace now ep p4 = (q, t3)" by fastforce
      with assms(1) t False x fs h3 fe have e: "p' = q" "d' = d1" "tr = t1 @ t2 @ t3" by (auto simp: cpu_step_def)
      note Q = data_stages(4) [OF fe] data_stages(5) [OF q] data_stages(3) [of p3]
      have A: "execute_latch (advance_stage p3) = execute_latch p3 \<or>
          execute_latch p3 = None \<and> (\<exists>f. execute_latch (advance_stage p3) = Some f \<and> memory_request f = 0)"
        by (rule advance_latch [of code, OF _ h3]) (use inv3 in \<open>simp add: cpu_inv_def\<close>)
      have "waiting p' = waiting p2" using A e Q W3 by (auto simp: waiting_def)
      moreover have "data_inv p'" using A e S Q X h3 by (auto simp: data_inv_def data_frame_def)
      ultimately show ?thesis using step [OF s(2)] s(1) e Q inv3 by auto
    qed
  qed
qed

section \<open>An edge of the memory\<close>

lemma respond_waits: "respond device now ep q img d = (None, img', d') \<Longrightarrow> img' = img"
  by (auto simp: respond_def Let_def split: option.splits sum.splits if_splits prod.splits)

lemma step_port_cases:
  assumes "step_port device now ep index port m d = Inr (m', port', d')"
  obtains (idle) "m' = m" "port' = port"
  | (stale) x where "entries (requests port) = x # entries (requests port')" "env_epoch x \<noteq> ep" "m' = m"
      "responses port' = responses port"
  | (accepts) x t i where "mem_pending m ! index = None" "entries (requests port) = x # entries (requests port')"
      "responses port' = responses port" "mr_instruction (env_value x) = (index = 0)"
      "m' = m\<lparr>last_id := i, mem_pending := (mem_pending m)[index :=
         Some \<lparr>pd_request = env_value x, pd_completion = t, pd_epoch = ep\<rparr>]\<rparr>"
  | (drops) q where "mem_pending m ! index = Some q" "pd_epoch q \<noteq> ep" "port' = port"
      "m' = m\<lparr>mem_pending := (mem_pending m)[index := None]\<rparr>"
  | (answers) q r img t el where "mem_pending m ! index = Some q"
      "respond device now ep (pd_request q) (mem_image m) d = (Some r, img, d')"
      "m' = m\<lparr>mem_image := img, mem_pending := (mem_pending m)[index := None]\<rparr>" "requests port' = requests port"
      "entries (responses port') = entries (responses port) @ [\<lparr>published = t, eligible = el, env_epoch = ep, env_value = r\<rparr>]"
proof (cases "mem_pending m ! index")
  case None
  show thesis
  proof (cases "mb_full (responses port)")
    case True
    with None assms show thesis by (intro idle) (simp_all add: step_port_def)
  next
    case False
    with None assms have a: "accept_request now ep index port m = Inr (m', port')" by (auto simp: step_port_def)
    obtain e box where t: "mb_take now (requests port) = (e, box)" by fastforce
    show thesis
    proof (cases e)
      case None
      with a t show thesis by (intro idle) (simp_all add: accept_request_def)
    next
      case (Some x)
      with t have en: "entries (requests port) = x # entries box" by (auto simp: mb_take_cases split: if_splits)
      show thesis
      proof (cases "env_epoch x = ep")
        case False
        with a t Some en show thesis by (intro stale) (auto simp: accept_request_def)
      next
        case True
        with a t Some obtain c where "mr_instruction (env_value x) = (index = 0)" "port' = port\<lparr>requests := box\<rparr>"
          "m' = m\<lparr>last_id := (last_id m)[index := mr_id (env_value x)], mem_pending := (mem_pending m)[index :=
             Some \<lparr>pd_request = env_value x, pd_completion = c, pd_epoch = ep\<rparr>]\<rparr>"
          by (auto simp: accept_request_def Let_def)
        then show thesis using en by (intro accepts [OF None]) simp_all
      qed
    qed
  qed
next
  case (Some q)
  show thesis
  proof (cases "pd_completion q \<le> now \<and> \<not> mb_full (responses port)")
    case False
    with Some assms show thesis by (intro idle) (auto simp: step_port_def)
  next
    case True
    with Some assms have f: "finish_request device now ep index q port m d = Inr (m', port', d')"
      by (simp add: step_port_def)
    show thesis
    proof (cases "pd_epoch q = ep")
      case False
      with f show thesis by (intro drops [OF Some]) (simp_all add: finish_request_def)
    next
      case ep: True
      obtain r img d2 where r: "respond device now ep (pd_request q) (mem_image m) d = (r, img, d2)"
        by (cases "respond device now ep (pd_request q) (mem_image m) d")
      show thesis
      proof (cases r)
        case None
        with f r ep respond_waits [of device now ep "pd_request q" "mem_image m" d img d2]
        show thesis by (intro idle) (simp_all add: finish_request_def)
      next
        case s: (Some v)
        with f r ep obtain box where b: "publish now ep v (responses port) = Inr box" and d: "d' = d2"
          and m': "m' = m\<lparr>mem_image := img, mem_pending := (mem_pending m)[index := None]\<rparr>"
          and port': "port' = port\<lparr>responses := box\<rparr>"
          by (auto simp: finish_request_def)
        from b obtain el where "entries box = entries (responses port) @
            [\<lparr>published = now, eligible = el, env_epoch = ep, env_value = v\<rparr>]" by (auto simp: publish_def)
        with r s d m' port' show thesis by (intro answers [OF Some]) simp_all
      qed
    qed
  qed
qed

text \<open>The data port: where the access in the execute stage is, and what the memory holds by then.\<close>

definition performed :: "(u32 \<Rightarrow> bool) \<Rightarrow> Effect \<Rightarrow> MemoryResponse \<Rightarrow> ProgramImage \<Rightarrow> ProgramImage \<Rightarrow> bool" where
  "performed io e r img img' \<longleftrightarrow> (case rs_fault r of
      Some _ \<Rightarrow> img' = img
    | None \<Rightarrow>
        if io (address e) then img' = img
        else if memory e = Store then image_write (address e) (eff_width e) (store_value e) img = Inr img'
        else img' = img \<and> image_read (address e) (eff_width e) False img = Inr (rs_value r))"

lemma respond_performs:
  "respond device now ep (request_of i e) img d = (Some r, img', d') \<Longrightarrow> performed (io_address device) e r img img'"
  by (auto simp: respond_def performed_def request_of_def io_address_def Let_def
      split: option.splits sum.splits if_splits prod.splits)

lemma performed_access:
  "performed io e r img img' \<Longrightarrow> rs_fault r = None \<Longrightarrow> extended e (rs_value r) = Inr v \<Longrightarrow>
   data_access io (Some e) v img = Some img'"
  by (auto simp: performed_def data_access_def split: if_splits)

definition data_link :: "(u32 \<Rightarrow> bool) \<Rightarrow> Epoch \<Rightarrow> Pipeline \<Rightarrow> MemoryPort \<Rightarrow> MemoryModel \<Rightarrow> ProgramImage \<Rightarrow> bool" where
  "data_link io ep p d m img \<longleftrightarrow> (case waiting p of
      None \<Rightarrow> entries (requests d) = [] \<and> mem_pending m ! 1 = None \<and> entries (responses d) = [] \<and> mem_image m = img
    | Some (i, e) \<Rightarrow>
        (\<exists>t el. entries (requests d) = [\<lparr>published = t, eligible = el, env_epoch = ep, env_value = request_of i e\<rparr>]) \<and>
          mem_pending m ! 1 = None \<and> entries (responses d) = [] \<and> mem_image m = img \<or>
        entries (requests d) = [] \<and>
          (\<exists>t. mem_pending m ! 1 = Some \<lparr>pd_request = request_of i e, pd_completion = t, pd_epoch = ep\<rparr>) \<and>
          entries (responses d) = [] \<and> mem_image m = img \<or>
        entries (requests d) = [] \<and> mem_pending m ! 1 = None \<and>
          (\<exists>x. entries (responses d) = [x] \<and> performed io e (env_value x) img (mem_image m)))"

lemma data_link_memory:
  assumes "step_port device now ep 1 d m dev = Inr (m', d', dev')" and "length (mem_pending m) = 2"
    and "data_link (io_address device) ep p d m img"
  shows "data_link (io_address device) ep p d' m' img"
  using assms(1)
proof (cases rule: step_port_cases)
  case idle
  with assms(3) show ?thesis by simp
next
  case (stale x)
  with assms(3) show ?thesis by (auto simp: data_link_def split: option.splits)
next
  case (accepts x t i)
  with assms(2,3) show ?thesis by (auto simp: data_link_def split: option.splits)
next
  case (drops q)
  with assms(3) show ?thesis by (auto simp: data_link_def split: option.splits)
next
  case (answers q r img' t el)
  with assms(2,3) show ?thesis
    by (auto simp: data_link_def split: option.splits dest: respond_performs)
qed

text \<open>The instruction port: every fetch on its way is one the CPU made, and reads what the program has.\<close>

definition program_word :: "u32 \<Rightarrow> ProgramImage \<Rightarrow> u32 \<Rightarrow> u32" where
  "program_word x img a = (case image_read a 4 True img of Inl _ \<Rightarrow> x | Inr w \<Rightarrow> w)"

definition fetches :: "MemoryPort \<Rightarrow> MemoryModel \<Rightarrow> MemoryRequest set" where
  "fetches f m = env_value ` set (entries (requests f)) \<union> pd_request ` set_option (mem_pending m ! 0)"

definition fetch_link :: "Pipeline \<Rightarrow> MemoryPort \<Rightarrow> MemoryModel \<Rightarrow> bool" where
  "fetch_link p f m \<longleftrightarrow> (\<forall>q\<in>fetches f m. mr_instruction q \<and> \<not> mr_write q \<and> mr_width q = 4 \<and>
     mr_id q < next_fetch p \<and> (\<forall>g. fetch_request p = Some g \<and> mr_id q = fe_id g \<longrightarrow> mr_address q = fe_pc g))"

lemma fetch_link_subset: "fetch_link p f m \<Longrightarrow> fetches f' m' \<subseteq> fetches f m \<Longrightarrow> fetch_link p f' m'"
  by (auto simp: fetch_link_def)

lemma fetch_link_cpu:
  assumes "fetch_link p f m" and "cpu_step now ep control f d p env = Inr (p', f', d', env', tr)"
    and "\<forall>g. fetch_request p = Some g \<longrightarrow> fe_id g < next_fetch p"
  shows "fetch_link p' f' m"
  using cpu_step_fetch [OF assms(2)]
proof (elim disjE exE conjE)
  assume "requests f' = requests f" "next_fetch p' = next_fetch p" "fetch_request p' = None"
  with assms(1) show ?thesis by (auto simp: fetch_link_def fetches_def)
next
  assume "requests f' = requests f" "next_fetch p' = next_fetch p" "fetch_request p' = fetch_request p"
  with assms(1) show ?thesis by (auto simp: fetch_link_def fetches_def)
next
  fix a gen t el
  assume e: "entries (requests f') = entries (requests f) @
      [\<lparr>published = t, eligible = el, env_epoch = ep, env_value = fetch_of (next_fetch p) a\<rparr>]"
    and p': "next_fetch p' = next_fetch p + 1" "fetch_request p' = Some \<lparr>fe_id = next_fetch p, fe_pc = a, fe_generation = gen\<rparr>"
  have "fetches f' m = insert (fetch_of (next_fetch p) a) (fetches f m)" by (auto simp: fetches_def e)
  with assms(1) p' show ?thesis by (fastforce simp: fetch_link_def fetch_of_def)
qed

context data_device
begin

lemma fetch_link_memory:
  assumes "step_port device now ep 0 f m d = Inr (m', f', d')" and "0 < length (mem_pending m)"
    and "fetch_link p f m" and "answers (program_word x img0) ep p f" and "same_code img0 (mem_image m)"
  shows "fetch_link p f' m' \<and> answers (program_word x img0) ep p f' \<and> mem_image m' = mem_image m"
  using assms(1)
proof (cases rule: step_port_cases)
  case idle
  with assms show ?thesis by simp
next
  case (stale y)
  then have "fetches f' m' \<subseteq> fetches f m" by (auto simp: fetches_def)
  with fetch_link_subset [OF assms(3)] stale assms(4) show ?thesis by (simp add: answers_def)
next
  case (accepts y t i)
  then have "fetches f' m' \<subseteq> fetches f m" using assms(2) by (auto simp: fetches_def)
  with fetch_link_subset [OF assms(3)] accepts assms(4) show ?thesis by (simp add: answers_def)
next
  case (drops q)
  then have "fetches f' m' \<subseteq> fetches f m" using assms(2) by (auto simp: fetches_def)
  with fetch_link_subset [OF assms(3)] drops assms(4) show ?thesis by (simp add: answers_def)
next
  case (answers q r img t el)
  then have s: "fetches f' m' \<subseteq> fetches f m" using assms(2) by (auto simp: fetches_def)
  have "pd_request q \<in> fetches f m" using answers(1) by (auto simp: fetches_def)
  with assms(3) have q: "mr_instruction (pd_request q)" "\<not> mr_write (pd_request q)" "mr_width (pd_request q) = 4"
    "mr_id (pd_request q) < next_fetch p"
    "\<forall>g. fetch_request p = Some g \<and> mr_id (pd_request q) = fe_id g \<longrightarrow> mr_address (pd_request q) = fe_pc g"
    by (auto simp: fetch_link_def)
  note r = fetched_from_image [OF answers(2) q(1,2)] respond_id [OF answers(2)]
  have "rs_fault r = None \<Longrightarrow> rs_value r = program_word x img0 (mr_address (pd_request q))"
    using r q(3) assms(5) by (simp add: program_word_def same_code_def)
  then have "answers (program_word x img0) ep p f'"
    using assms(4) answers(5) q(4,5) r(2) by (auto simp: answers_def)
  with fetch_link_subset [OF assms(3) s] r(1) answers(3) show ?thesis by simp
qed

end

section \<open>Runs of a core\<close>

text \<open>
  A core that has just been built or reset, and what happens to it within an epoch: the edges of its CPU, its
  memory and its timing control unit in any order and at any ticks, with any validation of the events, state
  of the network and preflight check; results delivered to it; and anything the device does by itself. The last
  argument are the instructions that the CPU has retired.
\<close>

definition booted :: "Core \<Rightarrow> bool" where
  "booted c \<longleftrightarrow> (let m = core_memory c; p = core_cpu c in
     p = cpu_reset (entry (mem_image m)) p \<and> mem_pending m = [None, None] \<and>
     entries (requests (fetch_port c)) = [] \<and> entries (responses (fetch_port c)) = [] \<and>
     entries (requests (data_port c)) = [] \<and> entries (responses (data_port c)) = [])"

lemma core_new_booted: "core_new fingerprint i p img iss capacity = Inr c \<Longrightarrow> booted c"
  by (auto simp: core_new_def memory_model_def memory_port_def mailbox_def booted_def in_order_pipeline_def
      cpu_reset_def)

lemma core_reset_booted: "core_reset now c = Inr c' \<Longrightarrow> booted c'"
  by (auto simp: core_reset_def memory_reset_def port_reset_def mb_reset_def booted_def cpu_reset_def)

inductive core_run :: "'d device \<Rightarrow> Epoch \<Rightarrow> Core \<Rightarrow> Core \<Rightarrow> 'd \<Rightarrow> InstructionRetired list \<Rightarrow> bool"
  for device ep c0 where
  boot: "core_run device ep c0 c0 d []" if "booted c0"
| cpu: "core_run device ep c0 c' d (rs @ retirements tr)"
    if "core_run device ep c0 c d rs" and "cpu_edge validate n now ep c = Inr (c', tr)"
| memory: "core_run device ep c0 c' d' rs"
    if "core_run device ep c0 c d rs" and "memory_edge device now ep c d = Inr (c', d')"
| tcu: "core_run device ep c0 c' d rs"
    if "core_run device ep c0 c d rs" and "tcu_edge preflight now ep c n = Inr (out, c', n', tr)"
| result: "core_run device ep c0 c' d rs"
    if "core_run device ep c0 c d rs" and "core_deliver now ep r c = Inr c'"
| device: "core_run device ep c0 c d' rs" if "core_run device ep c0 c d rs"

text \<open>The timing control does not retire instructions.\<close>

lemma retirements_filter: "retirements tr = [] \<longleftrightarrow> (\<forall>e\<in>set tr. \<forall>r. ev_payload e \<noteq> RetiredPayload r)"
  by (induction tr) (auto simp: retirements_def map_filter_simps split: Payload.splits)

lemma plain_payload [simp]: "ev_payload (trace_event t ep k i l c) = NoPayload"
  by (simp add: trace_event_def)

lemma enqueue_quiet: "enqueue now ep t l = Inr (ok, t', l', tr) \<Longrightarrow> retirements tr = []"
  by (auto simp: enqueue_def split: if_splits)

lemma control_calls_quiet:
  "ctl_codeword validate i port cw now ep t m = Inr (r, t', m', tr) \<Longrightarrow> retirements tr = []"
  "execute_zero_wait now ep t l = Inr (r, t', l', tr) \<Longrightarrow> retirements tr = []"
  "advance_time cycles now ep t l = Inr (r, t', l', tr) \<Longrightarrow> retirements tr = []"
  "fetch_measurement i q now ep (t, m, l) = Inr (r, s', tr) \<Longrightarrow> retirements tr = []"
  "halt_stream now ep t l = Inr (r, t', l', tr) \<Longrightarrow> retirements tr = []"
proof -
  show "ctl_codeword validate i port cw now ep t m = Inr (r, t', m', tr) \<Longrightarrow> retirements tr = []"
    unfolding ctl_codeword_def
    by (simp only: require_eq_Inr bindE_eq_Inr sum.inject prod.inject) (elim exE conjE, hypsubst, simp add: retirements_filter)
  show "execute_zero_wait now ep t l = Inr (r, t', l', tr) \<Longrightarrow> retirements tr = []"
    unfolding execute_zero_wait_def by (auto simp: Let_def split: if_splits dest: enqueue_quiet)
  show "advance_time cycles now ep t l = Inr (r, t', l', tr) \<Longrightarrow> retirements tr = []"
    unfolding advance_time_def by (auto split: if_splits dest: enqueue_quiet)
  show "retirements tr = []" if "fetch_measurement i q now ep (t, m, l) = Inr (r, s', tr)"
  proof -
    from that obtain ok t1 l1 tr1 where e: "enqueue now ep t l = Inr (ok, t1, l1, tr1)"
      and x: "(if \<not> ok then Inr (None, (t1, m, l1), tr1) else bindE (read_register q m) (\<lambda>value.
         Inr (case value of None \<Rightarrow> (None, (t1, m, l1), tr1)
          | Some b \<Rightarrow> (Some (if b then 1 else 0), (t1, m, l1),
              tr1 @ [(trace_event now ep ''MeasurementRegisterRead'' i 0 0)
                \<lparr>ev_targets := [q], ev_value := (if b then 1 else 0)\<rparr>])))) = Inr (r, s', tr)"
      unfolding fetch_measurement_def prod.case require_eq_Inr bindE_eq_Inr by (elim exE conjE) (auto simp only:)
    have "retirements [e] = []" if "ev_payload e = NoPayload" for e using that by (simp add: retirements_filter)
    with enqueue_quiet [OF e] x show ?thesis
      by (cases ok; cases "read_register q m") (auto split: option.split_asm)
  qed
  show "halt_stream now ep t l = Inr (r, t', l', tr) \<Longrightarrow> retirements tr = []"
    unfolding halt_stream_def by (auto split: if_splits dest: enqueue_quiet)
qed

lemma control_quiet: "quiet (control_port validate now ep n u)"
proof -
  have "retirements tr = []"
    if "ctl_dispatch validate sync op now ep (t, m, l) = Inr (r, s', tr)" for sync op t m l r s' tr
    using that unfolding ctl_dispatch_def
    by (cases "command op") (auto split: if_splits dest: control_calls_quiet)
  then show ?thesis by (auto simp: quiet_def control_port_def execute_def split: prod.splits)
qed

lemma receive_quiet:
  assumes "receive now ep s = Inr (s', tr)"
  shows "retirements tr = []"
proof -
  obtain t m l where s: "s = (t, m, l)" by (cases s)
  obtain reply box where b: "mb_take now (replies l) = (reply, box)" by fastforce
  obtain results rbox where rb: "take_all now (cpu_results l) = (results, rbox)" by fastforce
  obtain credits cbox where "take_all now (fast_credits l) = (credits, cbox)" by fastforce
  with assms s b rb obtain t' tr1 m1 tr2 where
    1: "(case reply of None \<Rightarrow> Inr (t, []) | Some r \<Rightarrow> receive_reply now ep r t) = Inr (t', tr1)"
    and 2: "foldE (receive_result now ep) results (m, []) = Inr (m1, tr2)" and tr: "tr = tr1 @ tr2"
    by (auto simp: receive_def)
  have plain: "retirements [e] = []" if "ev_payload e = NoPayload" for e using that by (simp add: retirements_filter)
  have "retirements tr1 = []" using 1 by (auto simp: receive_reply_def plain split: option.splits if_splits)
  moreover have "retirements (snd (m1, tr2)) = []"
    by (rule foldE_invariant [OF 2, where P = "\<lambda>x. retirements (snd x) = []"])
      (auto simp: receive_result_def Let_def plain split: if_splits)
  ultimately show ?thesis by (simp add: tr)
qed

lemma cpu_edge_steps:
  assumes "cpu_edge validate n now ep c = Inr (c', tr)"
  obtains cs cs' tr' where
    "cpu_step now ep (control_port validate now ep n (core_sync c)) (fetch_port c) (data_port c) (core_cpu c) cs =
       Inr (core_cpu c', fetch_port c', data_port c', cs', tr')"
    "retirements tr = retirements tr'" "core_memory c' = core_memory c"
proof -
  from assms obtain cs tr1 cpu f d t m l tr2 where r: "receive now ep (core_control c, core_registers c, core_links c) = Inr (cs, tr1)"
    and s: "cpu_step now ep (control_port validate now ep n (core_sync c)) (fetch_port c) (data_port c) (core_cpu c) cs =
      Inr (cpu, f, d, (t, m, l), tr2)"
    and c': "c' = c\<lparr>core_control := t, core_registers := m, core_links := l, fetch_port := f, data_port := d, core_cpu := cpu\<rparr>"
    and tr: "tr = tr1 @ tr2"
    by (auto simp: cpu_edge_def)
  show thesis by (rule that [of cs "(t, m, l)" tr2]) (use s c' tr receive_quiet [OF r] in simp_all)
qed

text \<open>What else happens leaves the CPU, the memory and the ports between them alone.\<close>

lemma tcu_edge_cpu:
  assumes "tcu_edge preflight now ep c n = Inr (out, c', n', tr)"
  shows "core_cpu c' = core_cpu c \<and> core_memory c' = core_memory c \<and> fetch_port c' = fetch_port c \<and> data_port c' = data_port c"
proof -
  obtain taken fbox where "take_all now (fast_results (core_links c)) = (taken, fbox)" by fastforce
  with assms obtain u l t where "c' = c\<lparr>core_sync := u, core_links := l, core_tcu := t\<rparr>"
    by (auto simp: tcu_edge_def Let_def)
  then show ?thesis by simp
qed

lemma core_deliver_cpu:
  "core_deliver now ep r c = Inr c' \<Longrightarrow> core_cpu c' = core_cpu c \<and> core_memory c' = core_memory c \<and>
     fetch_port c' = fetch_port c \<and> data_port c' = data_port c"
  by (auto simp: core_deliver_def Let_def)

definition core_inv :: "'d device \<Rightarrow> Epoch \<Rightarrow> Core \<Rightarrow> Core \<Rightarrow> InstructionRetired list \<Rightarrow> ProgramImage \<Rightarrow> bool" where
  "core_inv device ep c0 c rs img \<longleftrightarrow> (let img0 = mem_image (core_memory c0); p = core_cpu c; m = core_memory c in
     executes (issue (core_cpu c0)) (io_address device) img0 (entry img0) (replicate 32 0) rs = Some img \<and>
     same_code img0 img \<and> length (mem_pending m) = 2 \<and>
     data_inv p \<and> data_link (io_address device) ep p (data_port c) m img \<and>
     fetch_link p (fetch_port c) m \<and>
     (\<forall>x. cpu_inv (program_word x img0) p \<and> answers (program_word x img0) ep p (fetch_port c)) \<and>
     issue p = issue (core_cpu c0) \<and> pc p = pc_after (entry img0) rs \<and>
     Pipeline.registers p = registers_after (replicate 32 0) rs \<and>
     ((\<exists>q\<in>set rs. halts (issue p) (ir_word q)) \<longrightarrow> halted p))"

lemma core_inv_boot: "booted c \<Longrightarrow> core_inv device ep c c [] (mem_image (core_memory c))"
proof -
  assume b: "booted c"
  define p where "p = core_cpu c"
  define i where "i = entry (mem_image (core_memory c))"
  have p: "p = cpu_reset i p" using b by (simp add: booted_def Let_def p_def i_def)
  have f: "execute_latch p = None" "fetch_request p = None" "fetched p = None" "decode_latch p = None" "next_data p = 1"
    "halted p = False" "pc p = i" "fetch_pc p = i" "Pipeline.registers p = replicate 32 0"
    by (subst p, simp add: cpu_reset_def)+
  have "cpu_inv code p \<and> answers code ep p (fetch_port c)" for code
    using b f by (simp add: cpu_inv_def frames_ok_def pcs_def in_flight_def answers_def booted_def Let_def)
  then show ?thesis
    using b f unfolding core_inv_def Let_def p_def [symmetric] i_def [symmetric]
    by (simp add: booted_def Let_def same_code_def data_inv_def data_link_def waiting_def fetch_link_def fetches_def)
qed

lemma program_words:
  assumes "\<And>x. w = program_word x img a"
  shows "image_read a 4 True img = Inr w"
  using assms [of 0] assms [of 1] by (auto simp: program_word_def split: sum.splits)

lemma retires_word: "retires iss code at regs r \<Longrightarrow> ir_word r = code at \<and> retires iss (\<lambda>_. ir_word r) at regs r"
  by (simp add: retires_def)

lemma same_code_trans: "same_code img img1 \<Longrightarrow> same_code img1 img2 \<Longrightarrow> same_code img img2"
  by (simp add: same_code_def)

lemma performed_keeps_code:
  assumes "performed io e r img img'" and "same_code img0 img" and "write_xor_execute img0"
  shows "same_code img0 img'"
proof -
  have "write_xor_execute img" using assms(2,3) by (simp add: write_xor_execute_def same_code_def)
  then have "same_code img img'"
    using assms(1) store_keeps_code [of _ _ _ img img']
    by (auto simp: performed_def same_code_def split: option.splits if_splits)
  then show ?thesis by (rule same_code_trans [OF assms(2)])
qed

text \<open>What the data port has done by an edge of the CPU agrees with what has retired by then.\<close>

lemma data_link_cpu:
  assumes "data_link io ep p d m img" and "port_step ep s d d'" and "pipeline_step s p p' rs"
    and "length rs \<le> 1"
  shows "(rs = [] \<and> data_link io ep p' d' m img) \<or>
    (\<exists>r img'. rs = [r] \<and> data_link io ep p' d' m img' \<and> (img' = img \<or> (\<exists>e x. performed io e x img img')) \<and>
       data_access io (memory_effect (issue p) (ir_word r) (pc p) (Pipeline.registers p)) (ir_value r) img = Some img')"
proof (cases s)
  case Same
  with assms have l: "data_link io ep p' d' m img" by (simp add: port_step_def pipeline_step_def data_link_def)
  show ?thesis
  proof (cases rs)
    case (Cons r rs')
    with assms(3,4) Same have "rs = [r]" "memory_effect (issue p) (ir_word r) (pc p) (Pipeline.registers p) = None"
      by (simp_all add: pipeline_step_def)
    with l show ?thesis by (simp add: data_access_def)
  qed (simp add: l)
next
  case (Asked i e)
  with assms(2,3) have "waiting p = None" "waiting p' = Some (i, e)" "rs = []" "asks ep (request_of i e) d d'"
    by (simp_all add: port_step_def pipeline_step_def)
  with assms(1) show ?thesis by (auto simp: data_link_def asks_def)
next
  case (Answered i e w)
  with assms(2,3) obtain x r where w: "waiting p = Some (i, e)" "waiting p' = None" and rs: "rs = [r]"
    and v: "extended e w = Inr (ir_value r)" "memory_effect (issue p) (ir_word r) (pc p) (Pipeline.registers p) = Some e"
    and d: "requests d' = requests d" "entries (responses d) = x # entries (responses d')"
    and x: "rs_fault (env_value x) = None" "rs_value (env_value x) = w"
    by (auto simp: port_step_def pipeline_step_def)
  from assms(1) w(1) d have l: "entries (requests d) = []" "mem_pending m ! 1 = None" "entries (responses d') = []"
    and p: "performed io e (env_value x) img (mem_image m)"
    by (auto simp: data_link_def)
  have "data_link io ep p' d' m (mem_image m)" using l w(2) d by (simp add: data_link_def)
  moreover have "data_access io (Some e) (ir_value r) img = Some (mem_image m)"
    using performed_access [OF p x(1)] x(2) v(1) by simp
  ultimately show ?thesis using rs v(2) p by auto
qed

lemma core_inv_cpu:
  assumes "core_inv device ep c0 c rs img" and "cpu_edge validate n now ep c = Inr (c', tr)"
    and "write_xor_execute (mem_image (core_memory c0))"
  shows "\<exists>img'. core_inv device ep c0 c' (rs @ retirements tr) img'"
proof -
  define img0 where "img0 = mem_image (core_memory c0)"
  define p where "p = core_cpu c"
  define p' where "p' = core_cpu c'"
  let ?io = "io_address device" and ?code = "\<lambda>x. program_word x img0"
  obtain cs cs' tr' where step: "cpu_step now ep (control_port validate now ep n (core_sync c)) (fetch_port c) (data_port c) p cs =
       Inr (p', fetch_port c', data_port c', cs', tr')"
    and tr: "retirements tr = retirements tr'" and m': "core_memory c' = core_memory c"
    unfolding p_def p'_def by (rule cpu_edge_steps [OF assms(2)])
  note I = assms(1) [unfolded core_inv_def Let_def, folded img0_def p_def]
  have inv: "cpu_inv (?code x) p" "answers (?code x) ep p (fetch_port c)" for x using I by blast+
  note R = cpu_step_right [OF step inv control_quiet]
  from cpu_step_data [OF step inv _ control_quiet] I obtain s where D: "data_inv p'"
    and s: "port_step ep s (data_port c) (data_port c')" "pipeline_step s p p' (retirements tr')" by blast
  have F: "fetch_link p' (fetch_port c') (core_memory c)"
    by (rule fetch_link_cpu [OF _ step]) (use I inv in \<open>auto simp: cpu_inv_def frames_ok_def\<close>)
  have len: "length (retirements tr') \<le> 1" using R [of 0] by auto
  have base: "issue p' = issue p" "\<forall>x. cpu_inv (?code x) p' \<and> answers (?code x) ep p' (fetch_port c')" using R by blast+
  from I have L: "data_link ?io ep p (data_port c) (core_memory c) img" by blast
  from data_link_cpu [OF L s len]
  consider (none) "retirements tr' = []" "data_link ?io ep p' (data_port c') (core_memory c) img"
    | (one) r img' where "retirements tr' = [r]" "data_link ?io ep p' (data_port c') (core_memory c) img'"
        "img' = img \<or> (\<exists>e x. performed ?io e x img img')"
        "data_access ?io (memory_effect (issue p) (ir_word r) (pc p) (Pipeline.registers p)) (ir_value r) img = Some img'"
    by blast
  then show ?thesis
  proof cases
    case none
    moreover have "pc p' = pc p \<and> Pipeline.registers p' = Pipeline.registers p" "halted p \<longrightarrow> halted p'"
      using R [of 0] none by auto
    ultimately have "core_inv device ep c0 c' (rs @ retirements tr) img"
      using I D F base unfolding core_inv_def Let_def img0_def [symmetric] p'_def [symmetric] m' tr by simp
    then show ?thesis by blast
  next
    case (one r img')
    note r = one(1) and l = one(2) and k = one(3) and a = one(4)
    have ret: "retires (issue p) (?code x) (pc p) (Pipeline.registers p) r" for x using R [of x] r by auto
    have st: "pc p' = ir_next_pc r" "Pipeline.registers p' = ir_registers r" "halts (issue p) (ir_word r) \<longrightarrow> halted p'"
      "\<not> halted p" using R [of 0] r by auto
    have "image_read (pc p) 4 True img0 = Inr (ir_word r)" by (rule program_words) (use retires_word [OF ret] in blast)
    then have w: "image_read (pc p) 4 True img = Inr (ir_word r)" using I by (simp add: same_code_def)
    have "executes (issue (core_cpu c0)) ?io img0 (entry img0) (replicate 32 0) (rs @ [r]) = Some img'"
      by (rule executes_snoc [where ?img1.0 = img]) (use I w a st(4) retires_word [OF ret] in auto)
    moreover have "same_code img0 img'" using k I performed_keeps_code [OF _ _ assms(3)] img0_def by blast
    ultimately have "core_inv device ep c0 c' (rs @ retirements tr) img'"
      using I D F base l st r unfolding core_inv_def Let_def img0_def [symmetric] p'_def [symmetric] m' tr by auto
    then show ?thesis by blast
  qed
qed

lemma data_link_image:
  "data_link io ep p d m img \<Longrightarrow> mem_image m = img \<or> (\<exists>e x. performed io e x img (mem_image m))"
  by (auto simp: data_link_def split: option.splits)

lemma data_link_cong:
  "mem_pending m' ! 1 = mem_pending m ! 1 \<Longrightarrow> mem_image m' = mem_image m \<Longrightarrow>
   data_link io ep p d m' img = data_link io ep p d m img"
  by (simp only: data_link_def)

context data_device
begin

lemma core_inv_memory:
  assumes "core_inv device ep c0 c rs img" and "memory_edge device now ep c d = Inr (c', d')"
    and "write_xor_execute (mem_image (core_memory c0))"
  shows "core_inv device ep c0 c' rs img"
proof -
  define img0 where "img0 = mem_image (core_memory c0)"
  define p where "p = core_cpu c"
  let ?m = "core_memory c"
  note I = assms(1) [unfolded core_inv_def Let_def, folded img0_def p_def]
  from assms(2) obtain m1 f d1 m2 dp d2 where
    s0: "step_port device now ep 0 (fetch_port c) ?m d = Inr (m1, f, d1)"
    and s1: "step_port device now ep 1 (data_port c) m1 d1 = Inr (m2, dp, d2)"
    and c': "c' = c\<lparr>core_memory := m2, fetch_port := f, data_port := dp\<rparr>"
    by (auto simp: memory_edge_def memory_step_def)
  have L: "data_link (io_address device) ep p (data_port c) ?m img" "same_code img0 img" "length (mem_pending ?m) = 2"
    using I by blast+
  have code: "same_code img0 (mem_image ?m)"
    using data_link_image [OF L(1)] L(2) performed_keeps_code [OF _ L(2)] assms(3) img0_def by auto
  have F: "fetch_link p f m1 \<and> answers (program_word x img0) ep p f \<and> mem_image m1 = mem_image ?m" for x
    by (rule fetch_link_memory [OF s0 _ _ _ code]) (use I in auto)
  have m1: "mem_pending m1 ! 1 = mem_pending ?m ! 1" "length (mem_pending m1) = 2"
    using step_port_frame [OF s0, of 1] L(3) by simp_all
  then have "data_link (io_address device) ep p (data_port c) m1 img" using L(1) F [of 0] data_link_cong by blast
  from data_link_memory [OF s1 m1(2) this] have D: "data_link (io_address device) ep p dp m2 img" .
  have m2: "mem_pending m2 ! 0 = mem_pending m1 ! 0" "length (mem_pending m2) = 2"
    using step_port_frame [OF s1, of 0] m1(2) by simp_all
  then have "fetch_link p f m2" using F [of 0] by (simp add: fetch_link_def fetches_def)
  then show ?thesis
    using I D F m2(2) unfolding core_inv_def Let_def img0_def [symmetric] c' by (simp add: p_def)
qed

lemma core_inv_run:
  assumes "core_run device ep c0 c d rs" and "write_xor_execute (mem_image (core_memory c0))"
  shows "\<exists>img. core_inv device ep c0 c rs img"
  using assms(1)
proof induction
  case (boot d)
  then show ?case by (blast intro: core_inv_boot)
next
  case (cpu c d rs validate n now c' tr)
  then show ?case using core_inv_cpu assms(2) by blast
next
  case (memory c d rs now c' d')
  then show ?case using core_inv_memory assms(2) by blast
next
  case (tcu c d rs preflight now n out c' n' tr)
  with tcu_edge_cpu [OF tcu(2)] show ?case by (simp add: core_inv_def Let_def)
next
  case (result c d rs now r c')
  with core_deliver_cpu [OF result(2)] show ?case by (simp add: core_inv_def Let_def)
qed

lemma core_run_executes:
  assumes "core_run device ep c0 c d rs" and "write_xor_execute (mem_image (core_memory c0))"
  shows "issue (core_cpu c) = issue (core_cpu c0) \<and>
    (\<exists>img. executes (issue (core_cpu c0)) (io_address device) (mem_image (core_memory c0))
        (entry (mem_image (core_memory c0))) (replicate 32 0) rs = Some img \<and>
      pc (core_cpu c) = pc_after (entry (mem_image (core_memory c0))) rs \<and>
      Pipeline.registers (core_cpu c) = registers_after (replicate 32 0) rs \<and>
      (halted (core_cpu c) \<or> execute_latch (core_cpu c) = None \<longrightarrow> mem_image (core_memory c) = img))"
proof -
  from core_inv_run [OF assms] obtain img where I: "core_inv device ep c0 c rs img" ..
  moreover have "mem_image (core_memory c) = img" if "halted (core_cpu c) \<or> execute_latch (core_cpu c) = None"
  proof -
    from I that have "waiting (core_cpu c) = None" by (auto simp: core_inv_def Let_def data_inv_def waiting_def)
    with I show ?thesis by (simp add: core_inv_def Let_def data_link_def)
  qed
  ultimately show ?thesis by (auto simp: core_inv_def Let_def)
qed

end

text \<open>The decoders of the simulator are such a device.\<close>

interpretation decoder_bus: data_device "decoder_device core m" for core m
  by unfold_locales
    (auto simp: decoder_device_def ds_access_def mmio_access_def Let_def split: prod.splits)

lemma decoder_addresses: "io_address (decoder_device core m) = mmio_contains m"
  by (rule ext) (simp add: io_address_def decoder_device_def)

text \<open>The simulator passes the registers of the moment; the device is the same one.\<close>

lemma decoder_device_same:
  "mmio_base m' = mmio_base m \<Longrightarrow> mmio_decoders m' = mmio_decoders m \<Longrightarrow> decoder_device core m' = decoder_device core m"
  by (simp add: decoder_device_def mmio_contains_def fun_eq_iff)

section \<open>The claim\<close>


text \<open>A program of one instruction, \<open>sw x0, 4(x0)\<close>, which clears the word behind it.\<close>

definition store_image :: ProgramImage where
  "store_image = \<lparr>img_base = 0, entry = 0, img_bytes = [0x23, 0x22, 0, 0, 7, 0, 0, 0],
     segments = [\<lparr>seg_address = 0, seg_size = 4, readable = True, writable = False, executable = True\<rparr>,
       \<lparr>seg_address = 4, seg_size = 4, readable = True, writable = True, executable = False\<rparr>]\<rparr>"

definition store_port :: MemoryPort where
  "store_port = (let c = \<lparr>period = 2, phase = 1\<rparr> in
     \<lparr>requests = \<lparr>mb_capacity = 1, receiver = c, mb_latency = 1, entries = []\<rparr>,
      responses = \<lparr>mb_capacity = 1, receiver = c, mb_latency = 1, entries = []\<rparr>\<rparr>)"

definition store_memory :: MemoryModel where
  "store_memory = \<lparr>mem_image = store_image, mem_clock = \<lparr>period = 2, phase = 1\<rparr>, mem_latency = 1,
     mem_pending = [None, None], last_id = [0, 0]\<rparr>"

lemma store_decode: "decode 0x2223 = Inr \<lparr>dec_op = Sw, dec_word = 0x2223, immediate = 4, dec_rd = 4, dec_rs1 = 0,
    dec_rs2 = 0, reads_rs1 = True, reads_rs2 = True, dec_writes_rd = False\<rparr>"
  by code_simp

definition no_bus :: DecoderMmio where "no_bus = \<lparr>mmio_base = 0x40000000, mmio_decoders = [], mmio_registers = []\<rparr>"

lemma store_word: "assemble [0x23, 0x22, 0, 0, 7, 0, 0, 0] 0 4 = 0x2223"
  by code_simp

lemma store_bytes: "fold (\<lambda>n bs. bs[4 + n := 0]) [0..<4] [0x23, 0x22, 0, 0, 7, 0, 0, 0 :: byte] = [0x23, 0x22, 0, 0, 0, 0, 0, 0]"
  by code_simp

lemma case_one: "(case 1 of 0 \<Rightarrow> a | Suc j \<Rightarrow> f j) = f 0"
  by simp

lemma store_cycles:
  "bindE (cpu_step 1 1 control1 store_port store_port (in_order_pipeline \<lparr>period = 2, phase = 1\<rparr> 0 Scalar) env) (\<lambda>(p, f, d, env1, tr1).
   bindE (memory_step (decoder_device 0 no_bus) 3 1 f d store_memory s) (\<lambda>(m, f, d, s).
   bindE (memory_step (decoder_device 0 no_bus) 5 1 f d m s) (\<lambda>(m, f, d, s).
   bindE (cpu_step 7 1 control2 f d p env) (\<lambda>(p, f, d, env2, tr2).
   bindE (cpu_step 9 1 control3 f d p env) (\<lambda>(p, f, d, env3, tr3).
   bindE (cpu_step 11 1 control4 f d p env) (\<lambda>(p, f, d, env4, tr4).
   bindE (memory_step (decoder_device 0 no_bus) 13 1 f d m s) (\<lambda>(m, f, d, s).
   bindE (memory_step (decoder_device 0 no_bus) 15 1 f d m s) (\<lambda>(m, f, d, s).
   bindE (cpu_step 17 1 control5 f d p env) (\<lambda>(p, f, d, env5, tr5).
   Inr ([env1, env2, env3, env4, env5], map ir_word (retirements (tr1 @ tr2 @ tr3 @ tr4 @ tr5)), img_bytes (mem_image m), execute_latch p))))))))))
   = Inr ([env, env, env, env, env], [0x2223], [0x23, 0x22, 0, 0, 0, 0, 0, 0], None)"
  by (simp add: cpu_step_eval store_port_def in_order_pipeline_def cpu_reset_def
    new_frame_def decode_frame_def store_decode execute_frame_def executing_def execute_scalar_def retire_def
    evaluate_def access_def taken_def is_branch_def alu_def retirements_def map_filter_simps access_memory_def
    pipeline_event_def retired_event_def trace_event_def stalled_event_def memory_step_def step_port_def accept_request_def finish_request_def
    store_memory_def decoder_device_def no_bus_def mmio_contains_def respond_def image_read_def image_write_def img_offset_def
    store_image_def access_kind_def touches_def check_segment_def store_word store_bytes frame_state_def case_one
    del: bindE_eq_Inr One_nat_def upt_rec_numeral cong: bindE_weak_cong)

text \<open>Edges of a core whose links carry nothing, and whose instruction needs no timing control.\<close>

lemma quiet_links: "entries (replies l) = [] \<Longrightarrow> entries (cpu_results l) = [] \<Longrightarrow> entries (fast_credits l) = [] \<Longrightarrow>
   receive now ep (t, m, l) = Inr ((t, m, l), [])"
  by (simp add: receive_def mb_take_def peek_def take_all_def)

lemma cpu_edge_quiet:
  assumes "entries (replies (core_links c)) = []" and "entries (cpu_results (core_links c)) = []"
    and "entries (fast_credits (core_links c)) = []"
    and "cpu_step now ep (control_port validate now ep n (core_sync c)) (fetch_port c) (data_port c) (core_cpu c)
      (core_control c, core_registers c, core_links c) = Inr (p, f, d, (core_control c, core_registers c, core_links c), tr)"
  shows "cpu_edge validate n now ep c = Inr (c\<lparr>core_cpu := p, fetch_port := f, data_port := d\<rparr>, tr)"
  using assms by (simp add: cpu_edge_def quiet_links)

lemma store_core: "\<exists>c. core_new (\<lambda>_. ''p'') 0 ex_profile store_image Scalar 1 = Inr c \<and>
    core_cpu c = in_order_pipeline \<lparr>period = 2, phase = 1\<rparr> 0 Scalar \<and> core_memory c = store_memory \<and>
    fetch_port c = store_port \<and> data_port c = store_port \<and>
    entries (replies (core_links c)) = [] \<and> entries (cpu_results (core_links c)) = [] \<and> entries (fast_credits (core_links c)) = []"
  by (simp add: core_new_def timing_config_def transport_config_def control_links_def memory_port_def mailbox_def
      memory_model_def tcu_config_def tcu_new_def ex_profile_ok)
    (simp add: ex_profile_def clock_validate_def valid_clock_def tick_max_def store_memory_def store_image_def store_port_def Let_def)


end
