(* ===== verification/Simulator_Construction.thy ===== *)
theory Simulator_Construction
  imports Simulator
begin

text \<open>
  When the constructor of the simulator succeeds: the checks it makes on its arguments are all there is. A validated
  profile always gives a core, with its mailboxes, memory, mapping table and TCU, and a device table.
\<close>

text \<open>The constructor for one profile and one image.\<close>

definition simulator_single ::
  "(Profile \<Rightarrow> string) \<Rightarrow> 'b Backend \<Rightarrow> Profile \<Rightarrow> ProgramImage \<Rightarrow> ControlIssue \<Rightarrow> 'b \<Rightarrow> Tick list \<Rightarrow> bool \<Rightarrow> u32 \<Rightarrow>
   DecoderSystemConfig \<Rightarrow> 'b Simulator result" where
  "simulator_single fingerprint B p img iss b resets rev_order limit decoding =
     simulator fingerprint B [\<lparr>cfg_id = 0, cfg_profile = p, cfg_image = img, cfg_issue = iss, cfg_sync_capacity = 8\<rparr>] []
       b resets rev_order limit decoding"

lemma validate_mapping_key:
  "validate_mapping p m ks = Inr ks' \<Longrightarrow> (map_port m, map_codeword m) \<notin> ks \<and> ks' = insert (map_port m, map_codeword m) ks"
  by (auto simp: validate_mapping_def insert_new_def split: prod.splits)

lemma mapping_table_exists:
  assumes "foldE (validate_mapping p) ms ks = Inr ks'" and "dom t = ks"
  shows "\<exists>t'. foldE (\<lambda>m ms. require ((map_port m, map_codeword m) \<notin> dom ms) InvalidProfile (
      Inr (ms((map_port m, map_codeword m) \<mapsto> m)))) ms t = Inr t'"
  using assms
proof (induction ms arbitrary: ks t)
  case (Cons m ms)
  from Cons.prems(1) obtain k where k: "validate_mapping p m ks = Inr k" "foldE (validate_mapping p) ms k = Inr ks'" by auto
  from validate_mapping_key [OF k(1)] Cons.prems(2)
  have "(map_port m, map_codeword m) \<notin> dom t" "dom (t((map_port m, map_codeword m) \<mapsto> m)) = k" by auto
  with Cons.IH [OF k(2) this(2)] show ?case by (simp del: fun_upd_apply)
qed simp

lemma set_gate_insert: "set (gate_insert g gs) = insert g (set gs)"
  by (induction gs) auto

lemma gate_table_exists:
  assumes "foldE (validate_gate p) gs (names, ins) = Inr r" and "tq_name ` set t = names"
  shows "\<exists>t'. foldE (\<lambda>g gs. require (list_all (\<lambda>h. tq_name h \<noteq> tq_name g) gs) InvalidProfile (
      Inr (gate_insert g gs))) gs t = Inr t'"
  using assms
proof (induction gs arbitrary: names ins t)
  case (Cons g gs)
  from Cons.prems(1) obtain n i where v: "validate_gate p g (names, ins) = Inr (n, i)"
    and f: "foldE (validate_gate p) gs (n, i) = Inr r" by auto
  from v have n: "tq_name g \<notin> names" "n = insert (tq_name g) names" by (auto simp: validate_gate_def)
  then have "tq_name ` set (gate_insert g t) = n" using Cons.prems(2) by (simp add: set_gate_insert)
  moreover have "list_all (\<lambda>h. tq_name h \<noteq> tq_name g) t" unfolding list_all_iff using n(1) Cons.prems(2) by (metis imageI)
  ultimately show ?case using Cons.IH [OF f, of "gate_insert g t"] by simp
qed simp

lemma validated_profile:
  assumes "profile_validate p = Inr u"
  shows "valid_clock (pf_cpu p)" "valid_clock (pf_tcu p)" "edge (pf_tcu p) (pf_start p)" "pf_start p < pf_watchdog p"
    and "list_all (\<lambda>n. n > 0) [memory_latency p, command_latency p, reply_latency p, cpu_result_latency p,
         fast_result_latency p, timing_capacity p, event_capacity p, staging_capacity p,
         result_capacity p, pf_ports p, pf_qubits p, firing_width p]"
    and "\<exists>t. timing_config fingerprint p = Inr t" and "\<exists>d. device_profile p = Inr d \<and> dp_qubits d = pf_qubits p \<and> dp_seed d = pf_seed p"
proof -
  from assms obtain gs ms where g: "foldE (validate_gate p) (two_qubit_gates p) ({}, {}) = Inr gs"
    and m: "foldE (validate_mapping p) (pf_mappings p) {} = Inr ms"
    by (auto simp: profile_validate_def)
  show "\<exists>t. timing_config fingerprint p = Inr t"
    using mapping_table_exists [OF m, of Map.empty] by (auto simp: timing_config_def)
  show "\<exists>d. device_profile p = Inr d \<and> dp_qubits d = pf_qubits p \<and> dp_seed d = pf_seed p"
    using gate_table_exists [OF g, of "[]"] by (auto simp: device_profile_def)
qed (use assms in \<open>simp_all add: profile_validate_def\<close>)

lemma mailbox_exists: "(\<exists>b. mailbox n c l = Inr b) \<longleftrightarrow> 0 < n \<and> valid_clock c \<and> 0 < l"
  by (simp add: mailbox_def)

lemma core_exists:
  assumes "profile_validate p = Inr u"
  shows "(\<exists>c. core_new fingerprint i p img iss capacity = Inr c) \<longleftrightarrow> 0 < capacity"
proof -
  note v = validated_profile [OF assms]
  obtain t where t: "timing_config fingerprint p = Inr t" using v(6) by blast
  have pos: "0 < unat n \<longleftrightarrow> 0 < n" for n :: u32 by (simp add: unat_gt_0 word_neq_0_conv)
  obtain l where "control_links (transport_config p) = Inr l"
    using v(1,2,5) by (auto simp: control_links_def transport_config_def mailbox_def pos)
  moreover obtain q where "memory_port (pf_cpu p) = Inr q" using v(1) by (auto simp: memory_port_def mailbox_def)
  moreover obtain m where "memory_model img (pf_cpu p) (memory_latency p) = Inr m"
    using v(1,5) by (auto simp: memory_model_def)
  ultimately show ?thesis
    using assms t by (simp add: core_new_def tcu_config_def tcu_new_def)
qed

lemma cores_exist:
  assumes "\<forall>c\<in>set cs. \<exists>u. profile_validate (cfg_profile c) = Inr u"
  shows "(\<exists>r. foldE (build_core fingerprint d) cs s = Inr r) \<longleftrightarrow>
    (\<forall>c\<in>set cs. validate_memory (mmio d) (cfg_image c) = Inr () \<and> 0 < cfg_sync_capacity c)"
  using assms
proof (induction cs arbitrary: s)
  case (Cons c cs)
  then obtain u where u: "profile_validate (cfg_profile c) = Inr u" by auto
  have "(\<exists>r. build_core fingerprint d c s = Inr r) \<longleftrightarrow>
      validate_memory (mmio d) (cfg_image c) = Inr () \<and> 0 < cfg_sync_capacity c"
    using core_exists [OF u, of fingerprint "cfg_id c" "cfg_image c" "cfg_issue c" "cfg_sync_capacity c"]
    by (auto simp: build_core_def split: prod.splits)
  with Cons.IH Cons.prems show ?case by (cases "build_core fingerprint d c s") auto
next
  case Nil
  show ?case by (cases s) auto
qed

lemma validated_configs:
  assumes "validated cs links = Inr p"
  shows "cs \<noteq> []" "p = cfg_profile (hd cs)" "\<forall>c\<in>set cs. \<exists>u. profile_validate (cfg_profile c) = Inr u"
proof -
  from assms obtain r where f: "foldE (add_core (cfg_profile (hd cs))) cs ([], 0) = Inr r"
    and "cs \<noteq> []" "p = cfg_profile (hd cs)" by (auto simp: validated_def Let_def)
  then show "cs \<noteq> []" "p = cfg_profile (hd cs)" by simp_all
  have "\<forall>c\<in>set cs. \<exists>u. profile_validate (cfg_profile c) = Inr u" if "foldE (add_core q) cs s = Inr r" for cs q s
    using that by (induction cs arbitrary: s) (auto simp: add_core_def Let_def split: prod.splits)
  with f show "\<forall>c\<in>set cs. \<exists>u. profile_validate (cfg_profile c) = Inr u" by blast
qed

definition resets_ok :: "Tick list \<Rightarrow> Tick \<Rightarrow> bool" where
  "resets_ok ts watchdog \<longleftrightarrow> sorted ts \<and> distinct ts \<and> list_all (\<lambda>t. 0 < t \<and> t < watchdog) ts"

lemma device_exists:
  assumes "profile_validate p = Inr u"
  shows "(\<exists>dp dev. device_profile p = Inr dp \<and> control_electronics B dp b limit = Inr dev) \<longleftrightarrow>
    0 < limit \<and> (\<exists>b'. be_reset B (pf_qubits p) (pf_seed p) b = Inr b')"
  using validated_profile(7) [OF assms]
  by (auto simp: control_electronics_def backend_execution_def bx_reset_def)

lemma first_wakeup:
  assumes "decoder_system decoding = Inr d" and "boundaries dev = []" and "0 < pf_watchdog p" and "list_all (\<lambda>t. 0 < t) resets"
    and "sim_decoders s = d" and "sim_device s = dev" and "sim_profile s = p" and "sim_resets s = resets"
  shows "\<exists>s'. schedule_wakeup 0 s = Inr s'"
proof -
  have "ds_boundaries d = []" using assms(1) by (auto simp: decoder_system_def ds_boundaries_def)
  then have "ds_next_boundary 0 d = None" by (simp add: ds_next_boundary_def)
  moreover have "next_boundary dev = None" using assms(2) by (simp add: next_boundary_def)
  moreover have "find (\<lambda>r. 0 < r) resets = Some t \<Longrightarrow> 0 < t" for t by (auto simp: find_Some_iff)
  ultimately show ?thesis using assms
    by (cases "find (\<lambda>r. 0 < r) resets") (simp_all add: schedule_wakeup_def earliest_def Let_def)
qed

lemma construction_iff:
  "(\<exists>s. simulator fingerprint B cs links b resets rev_order limit decoding = Inr s) \<longleftrightarrow>
   (\<exists>p d n. validated cs links = Inr p \<and> decoder_system decoding = Inr d \<and> sync_network (pf_tcu p) links = Inr n \<and>
      0 < limit \<and> (\<exists>b'. be_reset B (pf_qubits p) (pf_seed p) b = Inr b') \<and> resets_ok resets (pf_watchdog p) \<and>
      list_all (\<lambda>c. validate_memory (mmio d) (cfg_image c) = Inr () \<and> 0 < cfg_sync_capacity c) cs)"
proof -
  have log: "\<exists>s'. log_root [(trace_event 0 1 ''SessionStarted'' 0 0 0)\<lparr>ev_detail := x\<rparr>] s = Inr s' \<and>
      s' = s\<lparr>sim_log := sim_log s'\<rparr>"
    if "log_events (sim_log s) = []" for x and s :: "'a Simulator"
    using that by (simp add: log_root_def emit_def payload_agrees_def trace_event_def)
  show ?thesis
  proof
    assume "\<exists>s. simulator fingerprint B cs links b resets rev_order limit decoding = Inr s"
    then obtain p d n dp dev r where v: "validated cs links = Inr p" and d: "decoder_system decoding = Inr d"
      and n: "sync_network (pf_tcu p) links = Inr n" and dp: "device_profile p = Inr dp"
      and dev: "control_electronics B dp b limit = Inr dev" and r: "resets_ok resets (pf_watchdog p)"
      and k: "foldE (build_core fingerprint d) cs ([], [], 0) = Inr r"
      by (auto simp: simulator_def resets_ok_def)
    from validated_configs [OF v] obtain u where u: "profile_validate p = Inr u" by auto
    show "\<exists>p d n. validated cs links = Inr p \<and> decoder_system decoding = Inr d \<and> sync_network (pf_tcu p) links = Inr n \<and>
      0 < limit \<and> (\<exists>b'. be_reset B (pf_qubits p) (pf_seed p) b = Inr b') \<and> resets_ok resets (pf_watchdog p) \<and>
      list_all (\<lambda>c. validate_memory (mmio d) (cfg_image c) = Inr () \<and> 0 < cfg_sync_capacity c) cs"
    proof (intro exI [of _ p] exI [of _ d] exI [of _ n] conjI)
      show "0 < limit" "\<exists>b'. be_reset B (pf_qubits p) (pf_seed p) b = Inr b'"
        using device_exists [OF u, of B b limit] dp dev by blast+
      show "list_all (\<lambda>c. validate_memory (mmio d) (cfg_image c) = Inr () \<and> 0 < cfg_sync_capacity c) cs"
        using cores_exist [OF validated_configs(3) [OF v], of fingerprint d "([], [], 0)"] k unfolding list_all_iff by blast
    qed (fact v d n r)+
  next
    assume "\<exists>p d n. validated cs links = Inr p \<and> decoder_system decoding = Inr d \<and> sync_network (pf_tcu p) links = Inr n \<and>
      0 < limit \<and> (\<exists>b'. be_reset B (pf_qubits p) (pf_seed p) b = Inr b') \<and> resets_ok resets (pf_watchdog p) \<and>
      list_all (\<lambda>c. validate_memory (mmio d) (cfg_image c) = Inr () \<and> 0 < cfg_sync_capacity c) cs"
    then obtain p d n where v: "validated cs links = Inr p" and d: "decoder_system decoding = Inr d"
      and n: "sync_network (pf_tcu p) links = Inr n" and l: "0 < limit" "\<exists>b'. be_reset B (pf_qubits p) (pf_seed p) b = Inr b'"
      and r: "resets_ok resets (pf_watchdog p)"
      and c: "list_all (\<lambda>c. validate_memory (mmio d) (cfg_image c) = Inr () \<and> 0 < cfg_sync_capacity c) cs" by blast
    from validated_configs [OF v] obtain u where u: "profile_validate p = Inr u" by auto
    from device_exists [OF u, of B b limit] l obtain dp dev where dp: "device_profile p = Inr dp"
      and dev: "control_electronics B dp b limit = Inr dev" by blast
    from c cores_exist [OF validated_configs(3) [OF v], of fingerprint d "([], [], 0)"]
    obtain ks offsets total where k: "foldE (build_core fingerprint d) cs ([], [], 0) = Inr (ks, offsets, total)"
      by (auto simp: list_all_iff)
    define s where "s = \<lparr>sim_profile = p, sim_log = \<lparr>log_events = [], include_stalls = True\<rparr>, sim_decoders = d, sim_network = n,
      sim_cores = ks, port_offsets = offsets, sim_device = dev, wake = None, barrier_notified = False,
      cpu_done = None, memory_done = None, tcu_done = None, last_reset = None, sim_resets = resets, sim_epoch = 1,
      reverse_order = rev_order, stopped = False, success = False, sim_fault = None\<rparr>"
    have "log_events (sim_log s) = []" by (simp add: s_def)
    from log [OF this, of "fingerprint p"] obtain s1 where s1:
      "log_root [(trace_event 0 1 ''SessionStarted'' 0 0 0)\<lparr>ev_detail := fingerprint p\<rparr>] s = Inr s1"
      "s1 = s\<lparr>sim_log := sim_log s1\<rparr>" by blast
    have "boundaries dev = []" using dev by (auto simp: control_electronics_def)
    moreover have "0 < pf_watchdog p" using validated_profile(4) [OF u] by simp
    moreover have "list_all (\<lambda>t. 0 < t) resets" using r by (simp add: resets_ok_def list_all_iff)
    moreover have "sim_decoders s1 = d" "sim_device s1 = dev" "sim_profile s1 = p" "sim_resets s1 = resets"
      by (subst s1(2), simp add: s_def)+
    ultimately obtain s2 where "schedule_wakeup 0 s1 = Inr s2" using first_wakeup [OF d] by blast
    with v d n dp dev r k s1(1) show "\<exists>s. simulator fingerprint B cs links b resets rev_order limit decoding = Inr s"
      by (simp add: simulator_def resets_ok_def s_def)
  qed
qed

lemma simulator_result:
  assumes "simulator fingerprint B cs links b resets rev_order limit decoding = Inr s"
  shows "\<exists>d r. foldE (build_core fingerprint d) cs ([], [], 0) = Inr (sim_cores s, port_offsets s, r) \<and>
    \<not> stopped s \<and> sim_epoch s = 1 \<and> sim_resets s = resets"
  using assms by (auto simp: simulator_def log_root_def schedule_wakeup_def Let_def) blast

lemma core_new_fields:
  "core_new fingerprint i p img iss capacity = Inr c \<Longrightarrow>
   core_id c = i \<and> core_profile c = p \<and> mem_image (core_memory c) = img"
  by (auto simp: core_new_def memory_model_def)


end
