(* ===== verification/Simulated_Programs.thy ===== *)
theory Simulated_Programs
  imports Core_Execution Simulator_Construction
begin

text \<open>
  The programs in a simulation: the claim of the theory Core_Execution for every core of a running simulator,
  with the instructions that its trace shows.
\<close>

section \<open>Events that retire nothing\<close>

definition plain :: "TraceEvent \<Rightarrow> bool" where
  "plain e \<longleftrightarrow> (\<forall>r. ev_payload e \<noteq> RetiredPayload r)"

abbreviation plain_trace :: "TraceEvent list \<Rightarrow> bool" where
  "plain_trace \<equiv> list_all plain"

lemma plain_simps [simp]:
  "plain (trace_event t ep k i l c)" "plain (decoder_event t ep i core de)"
  "plain (e\<lparr>ev_core := x\<rparr>) = plain e" "plain (e\<lparr>ev_value := v\<rparr>) = plain e" "plain (e\<lparr>ev_targets := ts\<rparr>) = plain e"
  "plain (e\<lparr>ev_port := q\<rparr>) = plain e" "plain (e\<lparr>ev_operation := w\<rparr>) = plain e" "plain (e\<lparr>ev_detail := w\<rparr>) = plain e"
  "plain (e\<lparr>ev_codeword := q\<rparr>) = plain e"
  by (simp_all add: plain_def decoder_event_def)

lemma plain_retirements: "plain_trace tr \<longleftrightarrow> retirements tr = []"
  by (simp add: retirements_filter plain_def list_all_iff)

lemma sync_plain:
  "su_book ts now ep u n = Inr (u', n', tr) \<Longrightarrow> plain_trace tr"
  "su_step now ep u n = Inr (pause, u', n', tr) \<Longrightarrow> plain_trace tr"
proof -
  show "plain_trace tr" if "su_book ts now ep u n = Inr (u', n', tr)"
  proof -
    from that obtain n1 where "foldE (book_one now ep) ts (u, n1, []) = Inr (u', n', tr)" by (auto simp: su_book_def)
    then have "plain_trace (snd (snd (u', n', tr)))"
      by (rule foldE_invariant [where P = "\<lambda>x. plain_trace (snd (snd x))"]) (auto simp: book_one_def)
    then show ?thesis by simp
  qed
  show "su_step now ep u n = Inr (pause, u', n', tr) \<Longrightarrow> plain_trace tr"
    by (auto simp: su_step_def split: option.splits if_splits)
qed

lemma tcu_stages_plain:
  "commit_trigger now ep cyc t s = (s', tr) \<Longrightarrow> plain_trace tr"
  "commit_admission now ep cyc c dt s = (s', tr) \<Longrightarrow> plain_trace tr"
  "update_pause_state now ep st ticks s = (s', tr) \<Longrightarrow> plain_trace tr"
  by (auto simp: commit_trigger_def commit_admission_def cancelled_event_def update_pause_state_def Let_def list_all_iff
      split: if_splits)

lemma tcu_step_plain:
  assumes "tcu_step now ep cand rs pf sp sc s = Inr (s', out, tr)"
  shows "plain_trace tr"
proof -
  define st where "st = current_timing_state now sp s"
  from assms obtain trigger dt ticks s1 tr1 s2 tr2 s3 s4 tr4 where
    1: "(case trigger of None \<Rightarrow> (s, []) | Some t \<Rightarrow> commit_trigger now ep (cycle st) t s) = (s1, tr1)"
    and 2: "(case (cand, dt) of (Some c, Some d) \<Rightarrow> commit_admission now ep (cycle st) c d s1 | _ \<Rightarrow> (s1, [])) = (s2, tr2)"
    and 4: "update_pause_state now ep st ticks s3 = (s4, tr4)"
    and tr: "tr = tr1 @ tr2 @ map (flags_updated now ep (cycle st)) (current_results ep rs) @ tr4"
    unfolding tcu_step_def Let_def st_def [symmetric] require_eq_Inr bindE_eq_Inr
    by (elim exE conjE) (simp split: prod.splits)
  have "plain_trace tr1" using 1 by (auto dest: tcu_stages_plain(1) split: option.splits)
  moreover have "plain_trace tr2" using 2 by (auto dest: tcu_stages_plain(2) split: option.splits)
  moreover have "plain_trace (map (flags_updated now ep (cycle st)) (current_results ep rs))"
    by (auto simp: flags_updated_def list_all_iff)
  ultimately show ?thesis using tcu_stages_plain(3) [OF 4] by (simp add: tr)
qed

lemma close_stream_plain: "close_stream now ep l t = Inr (l', t', tr) \<Longrightarrow> plain_trace tr"
  by (auto simp: close_stream_def split: prod.splits option.splits)

lemma tcu_edge_plain:
  assumes "tcu_edge preflight now ep c n = Inr (out, c', n', tr)"
  shows "plain_trace tr"
proof -
  obtain taken fbox where "take_all now (fast_results (core_links c)) = (taken, fbox)" by fastforce
  with assms obtain pause u1 n1 tr1 cand rs sc t1 tr3 ts u2 n2 tr4 l l3 t2 tr5 where
    "su_step now ep (core_sync c) n = Inr (pause, u1, n1, tr1)"
    "tcu_step now ep cand rs preflight pause sc (core_tcu c) = Inr (t1, out, tr3)"
    "su_book ts now ep u1 n1 = Inr (u2, n2, tr4)" "close_stream now ep l t1 = Inr (l3, t2, tr5)"
    "tr = tr1 @ map (\<lambda>_. trace_event now ep ''StaleCompletionDiscarded'' 0 0 0) (filter (\<lambda>e. env_epoch e \<noteq> ep) taken) @ tr3 @ tr4 @ tr5"
    by (auto simp: tcu_edge_def Let_def)
  then show ?thesis using sync_plain tcu_step_plain close_stream_plain by (fastforce simp: list_all_iff)
qed

lemma device_plain:
  "ce_accept B b s = Inr (s', tr) \<Longrightarrow> plain_trace tr"
  "ce_reset B now ep s = Inr (s', tr) \<Longrightarrow> plain_trace tr"
  by (auto simp: ce_accept_def ce_reset_def triggered_event_def list_all_iff Let_def)

lemma ce_process_plain:
  assumes "ce_process B now ep dv s env = Inr (s', env', tr)"
    and "\<And>c env env' tr. dv c env = Inr (tr, env') \<Longrightarrow> plain_trace tr"
  shows "plain_trace tr"
proof (cases "om_find now (boundaries s)")
  case None
  with assms(1) show ?thesis by (simp add: ce_process_def)
next
  case (Some bd)
  with assms(1) have "ce_boundary B now ep dv bd s env = Inr (s', env', tr)" by (simp add: ce_process_def)
  then obtain srs ros0 ros tr1 act tr2 outs tr3 act' tr4 ros' where
    a: "foldE (sample_readout now ep) srs (ros0, []) = Inr (ros, tr1)"
    and b: "foldE (end_action now ep) (bd_ends bd) (active s, tr1) = Inr (act, tr2)"
    and c: "mapE (gate_event now ep (ce_profile s)) outs = Inr tr3"
    and d: "foldE (start_action now ep) (bd_starts bd) (act, tr2 @ tr3) = Inr (act', tr4)"
    and e: "foldE (deliver_ready now ep dv) (bd_ready bd) (ros, env, tr4) = Inr (ros', env', tr)"
    unfolding ce_boundary_def by (auto simp only: bindE_eq_Inr prod.case split_paired_Ex)
  have "plain_trace (snd (ros, tr1))"
    by (rule foldE_invariant [OF a, where P = "\<lambda>x. plain_trace (snd x)"]) (auto simp: sample_readout_def)
  then have "plain_trace (snd (act, tr2))"
    by (intro foldE_invariant [OF b, where P = "\<lambda>x. plain_trace (snd x)"]) (auto simp: end_action_def split: option.splits)
  moreover have "plain_trace tr3"
    using c by (induction outs arbitrary: tr3) (auto simp: gate_event_def split: prod.splits)
  ultimately have "plain_trace (snd (act', tr4))"
    by (intro foldE_invariant [OF d, where P = "\<lambda>x. plain_trace (snd x)"]) (auto simp: start_action_def Let_def)
  then have "plain_trace (snd (snd (ros', env', tr)))"
    by (intro foldE_invariant [OF e, where P = "\<lambda>x. plain_trace (snd (snd x))"])
      (auto simp: deliver_ready_def, erule assms(2))
  then show ?thesis by simp
qed

text \<open>The decoders: what they emit, and that their addresses stay.\<close>

definition same_bus :: "DecoderSystem \<Rightarrow> DecoderSystem \<Rightarrow> bool" where
  "same_bus s t \<longleftrightarrow> mmio_base (mmio t) = mmio_base (mmio s) \<and> mmio_decoders (mmio t) = mmio_decoders (mmio s)"

lemma same_bus_trans: "same_bus s t \<Longrightarrow> same_bus t u \<Longrightarrow> same_bus s u"
  by (simp add: same_bus_def)

lemma plain_ds_event [simp]: "plain (ds_event now ep k i core dec tag s)"
  by (simp add: ds_event_def)

lemma mmio_access_bus: "mmio_access core q m = (r, m') \<Longrightarrow> mmio_base m' = mmio_base m \<and> mmio_decoders m' = mmio_decoders m"
  by (auto simp: mmio_access_def Let_def split: if_splits sum.splits prod.splits)

lemma open_session_mmio: "open_session core dec s = (ss, s') \<Longrightarrow> mmio s' = mmio s"
  by (auto simp: open_session_def Let_def)

lemma ds_calls_plain:
  "ds_consume core dec now ep s = (r, s', tr) \<Longrightarrow> plain_trace tr \<and> mmio s' = mmio s"
  "ds_read core dec k s = (r, s') \<Longrightarrow> mmio s' = mmio s"
  "ds_submit isreset core dec bits tag data now ep s = Inr (v, s', tr) \<Longrightarrow> plain_trace tr \<and> mmio s' = mmio s"
    apply (auto simp: ds_consume_def Let_def dest: open_session_mmio split: prod.splits if_splits) [1]
   apply (auto simp: ds_read_def Let_def dest: open_session_mmio split: prod.splits if_splits option.splits) [1]
  apply (auto simp: ds_submit_def Let_def split: if_splits) [1]
  done

lemma ds_access_plain:
  assumes "ds_access core q now ep s = (r, s', tr)"
  shows "plain_trace tr \<and> same_bus s s'"
proof -
  obtain out m where m: "mmio_access core q (mmio s) = (out, m)" by fastforce
  then have b: "same_bus s (s\<lparr>mmio := m\<rparr>)" using mmio_access_bus [OF m] by (simp add: same_bus_def)
  have sub: "(case ds_submit ir core dec bits tag data now ep (s\<lparr>mmio := m\<rparr>) of
               Inl e \<Rightarrow> (Inl e, s\<lparr>mmio := m\<rparr>, []) | Inr (v, s2, tr) \<Rightarrow> (Inr v, s2, tr)) = (r, s', tr) \<Longrightarrow>
      plain_trace tr \<and> mmio s' = m" for ir dec bits tag data
    using ds_calls_plain(3) [of ir core dec bits tag data now ep "s\<lparr>mmio := m\<rparr>"]
    by (auto split: sum.splits prod.splits)
  have "plain_trace tr \<and> mmio s' = m"
  proof (cases out)
    case (Inl e)
    with assms m show ?thesis by (auto simp: ds_access_def)
  next
    case (Inr c)
    show ?thesis
    proof (cases c)
      case None
      with assms m Inr show ?thesis by (auto simp: ds_access_def)
    next
      case (Some k)
      show ?thesis
      proof (cases k)
        case (DecoderConsume dec)
        with assms m Inr Some ds_calls_plain(1) [of core dec now ep "s\<lparr>mmio := m\<rparr>" r s' tr] show ?thesis
          by (simp add: ds_access_def Let_def)
      next
        case (DecoderRead dec rk)
        with assms m Inr Some ds_calls_plain(2) [of core dec rk "s\<lparr>mmio := m\<rparr>"] show ?thesis
          by (auto simp: ds_access_def Let_def split: prod.splits)
      next
        case (DecoderReset dec tag)
        show ?thesis by (rule sub [of True dec 0 tag 0]) (use assms m Inr Some DecoderReset in \<open>simp add: ds_access_def Let_def\<close>)
      next
        case (DecoderSubmit dec bits tag data)
        show ?thesis
          by (rule sub [of False dec bits tag data]) (use assms m Inr Some DecoderSubmit in \<open>simp add: ds_access_def Let_def\<close>)
      qed
    qed
  qed
  with b show ?thesis by (simp add: same_bus_def)
qed

lemma transmission_plain: "advance_transmission now ep s = (s', tr) \<Longrightarrow> plain_trace tr \<and> mmio s' = mmio s"
  by (auto simp: advance_transmission_def send_one_def apply_reset_def Let_def list_all_iff
      split: option.splits prod.splits if_splits)

lemma jobs_plain: "advance_from now ep kept js s = Inr (s', tr) \<Longrightarrow> plain_trace tr \<and> mmio s' = mmio s"
proof (induction now ep kept js s arbitrary: s' tr rule: advance_from.induct)
  case (2 now ep kept j rest s)
  obtain j1 tr1 where j1: "start_job now ep (s\<lparr>jobs := kept @ j # rest\<rparr>) j = (j1, tr1)" by fastforce
  obtain j2 tr2 where j2: "complete_job now ep (s\<lparr>jobs := kept @ j1 # rest\<rparr>) j1 = (j2, tr2)" by fastforce
  have p: "plain_trace tr1" "plain_trace tr2"
    using j1 j2 by (auto simp: start_job_def complete_job_def split: if_splits)
  have ret: "return_result now ep x y = Inr (z, w) \<Longrightarrow> plain_trace w \<and> mmio z = mmio y" for x y z w
    by (auto simp: return_result_def Let_def split: option.splits)
  show ?case
  proof (cases "\<exists>a\<in>set_option (jb_arrival j2). a \<le> now")
    case True
    with 2(3) j1 j2 obtain s2 tr3 tr4 where r: "return_result now ep j2 (s\<lparr>jobs := kept @ j2 # rest\<rparr>) = Inr (s2, tr3)"
      and a: "advance_from now ep kept rest s2 = Inr (s', tr4)" and tr: "tr = tr1 @ tr2 @ tr3 @ tr4"
      by (auto simp: Let_def)
    from 2(1) [OF j1 [symmetric] refl j2 [symmetric] refl refl True r refl a] ret [OF r] show ?thesis by (simp add: p tr)
  next
    case False
    with 2(3) j1 j2 obtain tr4 where a: "advance_from now ep (kept @ [j2]) rest (s\<lparr>jobs := kept @ j2 # rest\<rparr>) = Inr (s', tr4)"
      and tr: "tr = tr1 @ tr2 @ tr4"
      by (auto simp: Let_def)
    from 2(2) [OF j1 [symmetric] refl j2 [symmetric] refl refl False a] show ?thesis by (simp add: p tr)
  qed
qed auto

lemma launch_mmio: "launch now p d ms s = Inr s' \<Longrightarrow> mmio s' = mmio s"
  by (auto simp: launch_def Let_def split: option.splits)

lemma admit_head_plain:
  assumes "admit_head now ep p s = Inr (tk, s', tr)"
  shows "plain_trace tr \<and> mmio s' = mmio s"
proof -
  obtain ss s1 where o: "open_session (rq_core p) (rq_decoder p) s = (ss, s1)" by fastforce
  with assms have "plain_trace tr \<and> mmio s' = mmio s1"
    by (auto simp: admit_head_def Let_def dest!: launch_mmio split: if_splits)
  with open_session_mmio [OF o] show ?thesis by simp
qed

lemma admit_plain: "admit_from now ep ps s = Inr (s', tr) \<Longrightarrow> plain_trace tr \<and> mmio s' = mmio s"
proof (induction now ep ps s arbitrary: s' tr rule: admit_from.induct)
  case (2 now ep p ps s)
  show ?case
  proof (cases "rq_arrival p \<le> now")
    case True
    with 2(2) obtain tk s1 tr1 where h: "admit_head now ep p (s\<lparr>ds_requests := p # ps\<rparr>) = Inr (tk, s1, tr1)"
      and k: "(if tk then bindE (admit_from now ep ps s1) (\<lambda>(s2, tr'). Inr (s2, tr1 @ tr')) else Inr (s1, tr1)) = Inr (s', tr)"
      by (auto simp: Let_def)
    note H = admit_head_plain [OF h]
    show ?thesis
    proof (cases tk)
      case t: True
      with k obtain tr2 where a: "admit_from now ep ps s1 = Inr (s', tr2)" "tr = tr1 @ tr2" by auto
      have "plain_trace tr2 \<and> mmio s' = mmio s1" using 2(1) [OF refl True h _ _ t a(1)] by blast
      with H a(2) show ?thesis by simp
    qed (use k H in auto)
  qed (use 2(2) in \<open>auto simp: Let_def\<close>)
qed auto

lemma ds_step_plain:
  assumes "ds_step now ep s = Inr (s', tr)"
  shows "plain_trace tr \<and> same_bus s s'"
proof -
  obtain s1 tr1 where t: "advance_transmission now ep s = (s1, tr1)" by fastforce
  with assms obtain s2 tr2 s3 tr3 where j: "advance_jobs now ep s1 = Inr (s2, tr2)" and a: "admit_requests now ep s2 = Inr (s3, tr3)"
    and x: "transmit_result now s3 = Inr s'" and tr: "tr = tr1 @ tr2 @ tr3"
    by (auto simp: ds_step_def)
  have "mmio s' = mmio s3" using x by (auto simp: transmit_result_def split: if_splits option.splits)
  with transmission_plain [OF t] jobs_plain [OF j [unfolded advance_jobs_def]] admit_plain [OF a [unfolded admit_requests_def]]
  show ?thesis by (simp add: tr same_bus_def)
qed

section \<open>The trace of a core\<close>

text \<open>The instructions of the current epoch that the trace shows for core \<open>i\<close>.\<close>

definition retired_by :: "'b Simulator \<Rightarrow> nat \<Rightarrow> InstructionRetired list" where
  "retired_by s i = retirements (filter
     (\<lambda>e. ev_epoch e = sim_epoch s \<and> ev_core e = core_stamp s (sim_cores s ! i)) (log_events (sim_log s)))"

lemma retirements_Cons: "retirements (e # es) = (if plain e then [] else retirements [e]) @ retirements es"
  using retirements_simps(2) [of "[e]" es] by (simp add: retirements_filter plain_def)

lemma filter_retirements:
  "\<forall>e\<in>set es. \<not> plain e \<longrightarrow> P e \<Longrightarrow> retirements (filter P es) = retirements es"
  "\<forall>e\<in>set es. \<not> plain e \<longrightarrow> \<not> P e \<Longrightarrow> retirements (filter P es) = []"
proof -
  show "\<forall>e\<in>set es. \<not> plain e \<longrightarrow> P e \<Longrightarrow> retirements (filter P es) = retirements es"
  proof (induction es)
    case (Cons e es)
    then show ?case using retirements_Cons [of e es] retirements_Cons [of e "filter P es"] by auto
  qed simp
qed (auto simp: retirements_filter plain_def)

lemma emit_cases:
  assumes "emit e l = Inr l'"
  shows "log_events l' = log_events l @ [e] \<or> log_events l' = log_events l \<and> plain e"
  using assms by (auto simp: emit_def payload_agrees_def plain_def split: if_splits)

lemma emit_all_log:
  assumes "emit_all core tr l = Inr l'"
  shows "\<exists>es. log_events l' = log_events l @ es \<and> retirements es = retirements tr \<and>
    (\<forall>e\<in>set es. \<exists>x\<in>set tr. e = x\<lparr>ev_core := core\<rparr>)"
  using assms
proof (induction tr arbitrary: l)
  case Nil
  then show ?case by (auto simp: emit_all_def)
next
  case (Cons x tr)
  then obtain l1 where e: "emit (x\<lparr>ev_core := core\<rparr>) l = Inr l1" and r: "emit_all core tr l1 = Inr l'"
    by (auto simp: emit_all_def emit_from_def)
  from Cons.IH [OF r] obtain es where es: "log_events l' = log_events l1 @ es" "retirements es = retirements tr"
    "\<forall>e\<in>set es. \<exists>x\<in>set tr. e = x\<lparr>ev_core := core\<rparr>" by blast
  have x: "retirements [x\<lparr>ev_core := core\<rparr>] = retirements [x]" by (simp add: retirements_def map_filter_simps)
  from emit_cases [OF e] show ?case
  proof
    assume "log_events l1 = log_events l @ [x\<lparr>ev_core := core\<rparr>]"
    with es x show ?thesis
      by (intro exI [of _ "x\<lparr>ev_core := core\<rparr> # es"]) (auto simp: retirements_Cons [of x tr] retirements_Cons [of _ es])
  next
    assume "log_events l1 = log_events l \<and> plain (x\<lparr>ev_core := core\<rparr>)"
    with es show ?thesis by (intro exI [of _ es]) (auto simp: retirements_Cons [of x tr])
  qed
qed

lemma log_root_log:
  assumes "log_root tr s = Inr t" and "plain_trace tr"
  shows "\<exists>l es. t = s\<lparr>sim_log := l\<rparr> \<and> log_events l = log_events (sim_log s) @ es \<and> plain_trace es"
proof -
  from assms(1) obtain l where l: "foldE emit tr (sim_log s) = Inr l" and t: "t = s\<lparr>sim_log := l\<rparr>" by (auto simp: log_root_def)
  have "(\<lambda>x. \<exists>es. log_events x = log_events (sim_log s) @ es \<and> plain_trace es) l"
  proof (rule foldE_invariant [OF l])
    fix e x x'
    assume "e \<in> set tr" and "\<exists>es. log_events x = log_events (sim_log s) @ es \<and> plain_trace es" and "emit e x = Inr x'"
    then show "\<exists>es. log_events x' = log_events (sim_log s) @ es \<and> plain_trace es"
      using emit_cases [of e x x'] assms(2) by (fastforce simp: list_all_iff)
  qed simp
  with t show ?thesis by blast
qed

section \<open>The programs of the cores\<close>

definition core_history :: "DecoderSystem \<Rightarrow> Epoch \<Rightarrow> ProgramImage \<Rightarrow> Core \<Rightarrow> InstructionRetired list \<Rightarrow> bool" where
  "core_history dec ep img c rs \<longleftrightarrow>
     (\<exists>c0 d. core_run (decoder_device (core_id c) (mmio dec)) ep c0 c d rs \<and> mem_image (core_memory c0) = img)"

definition programs_inv :: "ProgramImage list \<Rightarrow> 'b Simulator \<Rightarrow> bool" where
  "programs_inv imgs s \<longleftrightarrow> length imgs = length (sim_cores s) \<and> distinct (map core_id (sim_cores s)) \<and>
     (\<forall>e\<in>set (log_events (sim_log s)). \<not> plain e \<longrightarrow> ev_epoch e \<le> sim_epoch s) \<and>
     (\<forall>i < length (sim_cores s).
        core_history (sim_decoders s) (sim_epoch s) (imgs ! i) (sim_cores s ! i) (retired_by s i))"

lemma core_history_bus: "same_bus dec dec' \<Longrightarrow> core_history dec' ep img c rs = core_history dec ep img c rs"
  using decoder_device_same [of "mmio dec'" "mmio dec"] by (simp add: core_history_def same_bus_def)

text \<open>A step that keeps the epoch and in which events of core \<open>i\<close> retire at most.\<close>

lemma programs_inv_step:
  assumes "programs_inv imgs s" and "length (sim_cores t) = length (sim_cores s)"
    and "map core_id (sim_cores t) = map core_id (sim_cores s)"
    and "same_bus (sim_decoders s) (sim_decoders t)" and "sim_epoch t = sim_epoch s"
    and "log_events (sim_log t) = log_events (sim_log s) @ es"
    and "\<forall>e\<in>set es. \<not> plain e \<longrightarrow> ev_epoch e = sim_epoch s \<and> ev_core e = core_stamp s (sim_cores s ! i)"
    and "\<And>j. j < length (sim_cores s) \<Longrightarrow>
      core_history (sim_decoders s) (sim_epoch s) (imgs ! j) (sim_cores s ! j) (retired_by s j) \<Longrightarrow>
      core_history (sim_decoders s) (sim_epoch s) (imgs ! j) (sim_cores t ! j)
        (retired_by s j @ (if j = i then retirements es else []))"
    and "i < length (sim_cores s) \<or> plain_trace es"
  shows "programs_inv imgs t"
proof -
  have stamp: "core_stamp t (sim_cores t ! j) = core_stamp s (sim_cores s ! j)" if "j < length (sim_cores s)" for j
  proof -
    have "core_id (sim_cores t ! j) = core_id (sim_cores s ! j)"
      using arg_cong [OF assms(3), of "\<lambda>xs. xs ! j"] assms(2) that by simp
    then show ?thesis using assms(2) by (simp add: core_stamp_def)
  qed
  have r: "retired_by t j = retired_by s j @ (if j = i then retirements es else [])" if j: "j < length (sim_cores s)" for j
  proof -
    let ?P = "\<lambda>e. ev_epoch e = sim_epoch s \<and> ev_core e = core_stamp s (sim_cores s ! j)"
    have "retired_by t j = retired_by s j @ retirements (filter ?P es)"
      using stamp [OF j] assms(5,6) by (simp add: retired_by_def)
    moreover have "retirements (filter ?P es) = (if j = i then retirements es else [])"
    proof (cases "j = i")
      case True
      with assms(7) filter_retirements(1) [of es ?P] show ?thesis by simp
    next
      case False
      have "\<forall>e\<in>set es. \<not> plain e \<longrightarrow> \<not> ?P e"
      proof (cases "plain_trace es")
        case f: False
        with assms(9) have i: "i < length (sim_cores s)" by blast
        have "core_id (sim_cores s ! j) \<noteq> core_id (sim_cores s ! i)"
          using assms(1) i j False by (simp add: programs_inv_def distinct_conv_nth)
        moreover have "length (sim_cores s) > 1" using i j False by linarith
        ultimately have "core_stamp s (sim_cores s ! j) \<noteq> core_stamp s (sim_cores s ! i)" by (simp add: core_stamp_def)
        with assms(7) show ?thesis by metis
      qed (auto simp: list_all_iff)
      with filter_retirements(2) False show ?thesis by simp
    qed
    ultimately show ?thesis by simp
  qed
  have "\<forall>e\<in>set (log_events (sim_log t)). \<not> plain e \<longrightarrow> ev_epoch e \<le> sim_epoch t"
    using assms(1,5,6,7) by (auto simp: programs_inv_def)
  moreover have "core_history (sim_decoders t) (sim_epoch t) (imgs ! j) (sim_cores t ! j) (retired_by t j)"
    if "j < length (sim_cores t)" for j
    using that assms(1,2,5) assms(8) [of j] r [of j] core_history_bus [OF assms(4)] by (simp add: programs_inv_def)
  ultimately show ?thesis using assms(1,2,3) by (simp add: programs_inv_def)
qed

section \<open>The processes\<close>

text \<open>What retires at an edge retires in the epoch of the edge.\<close>

lemma execute_frame_plain:
  assumes "execute_frame now ep control f d p env = Inr x" and "quiet control"
  shows "plain_trace (ex_trace x)"
proof -
  from assms(1) obtain i where i: "fr_decoded f = Some i" by (auto simp: execute_frame_def split: option.splits)
  let ?y = "executing f d (next_data p) env"
  from assms(1) i consider "execute_bundle control ?y = Inr x" | "execute_quantum control i ?y = Inr x"
    | "execute_halt control ?y = Inr x" | "execute_scalar now ep i ?y = Inr x"
    by (auto simp: execute_frame_def Let_def split: option.splits if_splits)
  then show ?thesis
  proof cases
    case 4
    moreover have "ex_frame ?y = f" by (simp add: executing_def)
    ultimately obtain e where x: "(if memory e = NoMemory
        then Inr (?y\<lparr>ex_frame := f\<lparr>fr_effect := Some e\<rparr>, ex_done := Some (eff_value e, next_pc e), ex_flush := branch_taken e\<rparr>)
        else access_memory now ep e (?y\<lparr>ex_frame := f\<lparr>fr_effect := Some e\<rparr>\<rparr>)) = Inr x"
      by (auto simp: execute_scalar_def Let_def split: option.splits)
    show ?thesis
    proof (cases "memory e = NoMemory")
      case False
      with x have "access_memory now ep e (?y\<lparr>ex_frame := f\<lparr>fr_effect := Some e\<rparr>\<rparr>) = Inr x" by simp
      from access_memory_frame [OF this] show ?thesis by (simp add: executing_def)
    qed (use x in \<open>auto simp: executing_def\<close>)
  qed (auto simp: plain_retirements dest: execute_bundle_frame execute_quantum_frame execute_halt_frame intro: assms(2))
qed

lemma retired_epoch: "retire f v nx now ep p = (q, tr) \<Longrightarrow> \<forall>e\<in>set tr. ev_epoch e = ep"
  by (auto simp: retire_def Let_def retired_event_def trace_event_def split: option.splits)

lemma cpu_step_epochs:
  assumes "cpu_step now ep control f d p env = Inr (p', f', d', env', tr)" and "quiet control"
  shows "\<forall>e\<in>set tr. \<not> plain e \<longrightarrow> ev_epoch e = ep"
proof -
  have sample: "plain_trace t" if "sample_trace now ep q = (q', t)" for q q' t
    using data_stages(5) [OF that] by (simp add: plain_retirements)
  have flush: "plain_trace t" if "flush_stage now ep fl q = Inr (q', t)" for fl q q' t
    using that by (auto simp: flush_stage_def split: if_splits)
  have stage: "\<forall>e\<in>set t. \<not> plain e \<longrightarrow> ev_epoch e = ep"
    if "execute_stage now ep control d q env = Inr (q', d1, env1, fl, t)" for q q' d1 env1 fl t
    using that
  proof (cases rule: execute_stage_cases)
    case (waits f x)
    then show ?thesis using execute_frame_plain [OF waits(2) assms(2)]
      by (auto simp: list_all_iff stalled_event_def)
  next
    case (retires f x v nx q1 tr1)
    then show ?thesis using execute_frame_plain [OF retires(2) assms(2)] retired_epoch [OF retires(7)]
      by (auto simp: list_all_iff)
  qed simp
  from assms(1) obtain p1 f1 where t: "take_fetch now ep f p = Inr (p1, f1)" by (auto simp: cpu_step_def)
  show ?thesis
  proof (cases "halted p1")
    case True
    obtain q t1 where q: "sample_trace now ep p1 = (q, t1)" by fastforce
    with assms(1) t True have "tr = t1" by (auto simp: cpu_step_def)
    with sample [OF q] show ?thesis by (simp add: list_all_iff)
  next
    case False
    then obtain p2 d1 e1 fl t1 p3 t2 where x: "execute_stage now ep control d p1 env = Inr (p2, d1, e1, fl, t1)"
      and fs: "flush_stage now ep fl p2 = Inr (p3, t2)"
      using assms(1) t by (fastforce simp: cpu_step_def)
    have "\<exists>q q' t3. sample_trace now ep q = (q', t3) \<and> tr = t1 @ t2 @ t3"
    proof (cases "halted p3")
      case True
      obtain q t3 where "sample_trace now ep p3 = (q, t3)" by fastforce
      with assms(1) t False x fs True show ?thesis by (auto simp: cpu_step_def)
    next
      case h3: False
      then obtain p4 f2 where fe: "fetch_stage now ep f1 (advance_stage p3) = Inr (p4, f2)"
        using assms(1) t False x fs by (fastforce simp: cpu_step_def)
      obtain q t3 where "sample_trace now ep p4 = (q, t3)" by fastforce
      with assms(1) t False x fs h3 fe show ?thesis by (auto simp: cpu_step_def)
    qed
    then show ?thesis using stage [OF x] flush [OF fs] sample by (fastforce simp: list_all_iff)
  qed
qed

lemma cpu_edge_epochs:
  assumes "cpu_edge validate n now ep c = Inr (c', tr)"
  shows "\<forall>e\<in>set tr. \<not> plain e \<longrightarrow> ev_epoch e = ep"
proof -
  from assms obtain cs tr1 tr2 where r: "receive now ep (core_control c, core_registers c, core_links c) = Inr (cs, tr1)"
    and s: "\<exists>x y z w. cpu_step now ep (control_port validate now ep n (core_sync c)) (fetch_port c) (data_port c) (core_cpu c) cs =
      Inr (x, y, z, w, tr2)" and tr: "tr = tr1 @ tr2"
    by (auto simp: cpu_edge_def)
  from s cpu_step_epochs [OF _ control_quiet] have "\<forall>e\<in>set tr2. \<not> plain e \<longrightarrow> ev_epoch e = ep" by blast
  with receive_quiet [OF r] show ?thesis by (auto simp: tr plain_retirements [symmetric] list_all_iff)
qed

lemma core_ids:
  "cpu_edge validate n now ep c = Inr (c', tr) \<Longrightarrow> core_id c' = core_id c"
  "memory_edge device now ep c d = Inr (c', d') \<Longrightarrow> core_id c' = core_id c"
  "core_deliver now ep r c = Inr c' \<Longrightarrow> core_id c' = core_id c"
  "core_reset now c = Inr c' \<Longrightarrow> core_id c' = core_id c \<and> mem_image (core_memory c') = mem_image (core_memory c)"
     apply (auto simp: cpu_edge_def) [1]
    apply (auto simp: memory_edge_def) [1]
   apply (auto simp: core_deliver_def Let_def) [1]
  apply (auto simp: core_reset_def memory_reset_def) [1]
  done

lemma tcu_edge_id:
  assumes "tcu_edge preflight now ep c n = Inr (out, c', n', tr)"
  shows "core_id c' = core_id c"
proof -
  obtain taken fbox where "take_all now (fast_results (core_links c)) = (taken, fbox)" by fastforce
  with assms show ?thesis by (auto simp: tcu_edge_def Let_def)
qed

text \<open>An access of a core leaves the addresses of the decoders as they were, and its events retire nothing.\<close>

lemma memory_edge_bus:
  assumes "memory_edge (decoder_device core m) now ep c (dec, []) = Inr (c', (dec', tr))"
  shows "same_bus dec dec' \<and> plain_trace tr"
proof -
  let ?ok = "\<lambda>x. same_bus dec (fst x) \<and> plain_trace (snd x)"
  have resp: "?ok x'" if "respond (decoder_device core m) now ep q img x = (r, img', x')" and "?ok x" for q img x r img' x'
  proof (cases "mmio_contains m (mr_address q)")
    case False
    with that show ?thesis
      by (auto simp: respond_def decoder_device_def Let_def split: if_splits sum.splits)
  next
    case True
    obtain r1 d1 t1 where a: "ds_access core q now ep (fst x) = (r1, d1, t1)" by (metis prod_cases3)
    with True that(1) have "x' = (d1, snd x @ t1)"
      by (cases x) (auto simp: respond_def decoder_device_def Let_def split: sum.splits option.splits)
    with ds_access_plain [OF a] that(2) same_bus_trans show ?thesis by auto
  qed
  have port: "?ok x'" if "step_port (decoder_device core m) now ep i port mm x = Inr (m', port', x')" and "?ok x" for i port mm x m' port' x'
  proof -
    have "x' = x \<or> (\<exists>q r img'. respond (decoder_device core m) now ep q (mem_image mm) x = (r, img', x'))"
      using that(1) by (auto simp: step_port_def finish_request_def split: option.splits if_splits prod.splits)
    with resp that(2) show ?thesis by blast
  qed
  have "?ok (dec, [])" by (simp add: same_bus_def)
  with assms port show ?thesis by (fastforce simp: memory_edge_def memory_step_def)
qed

lemma one_cpu_edge_programs:
  assumes "one_cpu_edge B now i s = Inr t" and "i < length (sim_cores s)" and "programs_inv imgs s"
  shows "programs_inv imgs t \<and> sim_epoch t = sim_epoch s \<and> length (sim_cores t) = length (sim_cores s)"
proof (cases "on_edge now (sim_cores s ! i)")
  case False
  with assms show ?thesis by (simp add: one_cpu_edge_def Let_def)
next
  case True
  let ?c = "sim_cores s ! i"
  from True assms(1) obtain c' tr l where e: "cpu_edge (validate_mapped B s i) (sim_network s) now (sim_epoch s) ?c = Inr (c', tr)"
    and l: "emit_all (core_stamp s ?c) tr (sim_log s) = Inr l"
    and t: "t = s\<lparr>sim_cores := (sim_cores s)[i := c'], sim_log := l\<rparr>"
    by (auto simp: one_cpu_edge_def Let_def log_core_def core_stamp_def)
  from emit_all_log [OF l] obtain es where es: "log_events l = log_events (sim_log s) @ es" "retirements es = retirements tr"
    "\<forall>x\<in>set es. \<exists>y\<in>set tr. x = y\<lparr>ev_core := core_stamp s ?c\<rparr>" by blast
  have ids: "core_id c' = core_id ?c" by (rule core_ids(1) [OF e])
  have "programs_inv imgs t"
  proof (rule programs_inv_step [OF assms(3), where es = es and i = i])
    show "map core_id (sim_cores t) = map core_id (sim_cores s)" 
      using ids assms(2) by (intro nth_equalityI) (auto simp: t nth_list_update)
    show "\<forall>x\<in>set es. \<not> plain x \<longrightarrow> ev_epoch x = sim_epoch s \<and> ev_core x = core_stamp s ?c"
      using es(3) cpu_edge_epochs [OF e] by fastforce
    show "core_history (sim_decoders s) (sim_epoch s) (imgs ! j) (sim_cores t ! j) (retired_by s j @ (if j = i then retirements es else []))"
      if "core_history (sim_decoders s) (sim_epoch s) (imgs ! j) (sim_cores s ! j) (retired_by s j)" for j
    proof (cases "j = i")
      case True
      from that obtain c0 d where r: "core_run (decoder_device (core_id (sim_cores s ! j)) (mmio (sim_decoders s))) (sim_epoch s) c0 (sim_cores s ! j) d (retired_by s j)"
        and img: "mem_image (core_memory c0) = imgs ! j" by (auto simp: core_history_def)
      from core_run.cpu [OF r [unfolded True] e] img ids True assms(2) show ?thesis
        unfolding core_history_def by (intro exI [of _ c0] exI [of _ d]) (simp add: t es(2))
    qed (use that in \<open>simp add: t\<close>)
  qed (use assms(2) es(1) in \<open>simp_all add: t same_bus_def\<close>)
  then show ?thesis by (simp add: t)
qed

lemma one_memory_edge_programs:
  assumes "one_memory_edge now i s = Inr t" and "i < length (sim_cores s)" and "programs_inv imgs s"
  shows "programs_inv imgs t \<and> sim_epoch t = sim_epoch s \<and> length (sim_cores t) = length (sim_cores s)"
proof (cases "on_edge now (sim_cores s ! i)")
  case False
  with assms show ?thesis by (simp add: one_memory_edge_def Let_def)
next
  case True
  let ?c = "sim_cores s ! i" and ?dev = "decoder_device (core_id (sim_cores s ! i)) (mmio (sim_decoders s))"
  from True assms(1) obtain c' dec tr where
    e: "memory_edge ?dev now (sim_epoch s) ?c (sim_decoders s, []) = Inr (c', (dec, tr))"
    and l: "log_root tr (s\<lparr>sim_cores := (sim_cores s)[i := c'], sim_decoders := dec\<rparr>) = Inr t"
    by (auto simp: one_memory_edge_def Let_def)
  from memory_edge_bus [OF e] have b: "same_bus (sim_decoders s) dec" "plain_trace tr" by blast+
  from log_root_log [OF l b(2)] obtain l es where t: "t = s\<lparr>sim_cores := (sim_cores s)[i := c'], sim_decoders := dec, sim_log := l\<rparr>"
    and es: "log_events l = log_events (sim_log s) @ es" "plain_trace es" by auto
  have ids: "core_id c' = core_id ?c" by (rule core_ids(2) [OF e])
  have r: "retirements es = []" using es(2) by (simp add: plain_retirements)
  have "programs_inv imgs t"
  proof (rule programs_inv_step [OF assms(3), where es = es and i = i])
    show "map core_id (sim_cores t) = map core_id (sim_cores s)" 
      using ids assms(2) by (intro nth_equalityI) (auto simp: t nth_list_update)
    show "\<forall>x\<in>set es. \<not> plain x \<longrightarrow> ev_epoch x = sim_epoch s \<and> ev_core x = core_stamp s ?c"
      using es(2) by (simp add: list_all_iff)
    show "core_history (sim_decoders s) (sim_epoch s) (imgs ! j) (sim_cores t ! j) (retired_by s j @ (if j = i then retirements es else []))"
      if "core_history (sim_decoders s) (sim_epoch s) (imgs ! j) (sim_cores s ! j) (retired_by s j)" for j
    proof (cases "j = i")
      case True
      from that obtain c0 d where "core_run (decoder_device (core_id (sim_cores s ! j)) (mmio (sim_decoders s))) (sim_epoch s) c0 (sim_cores s ! j) d (retired_by s j)"
        and img: "mem_image (core_memory c0) = imgs ! j" by (auto simp: core_history_def)
      from core_run.memory [OF core_run.device [OF this(1)], of now "(sim_decoders s, [])"] e True img ids show ?thesis
        using assms(2) by (auto simp: core_history_def t r)
    qed (use that in \<open>simp add: t\<close>)
  qed (use assms(2) es(1) b(1) in \<open>simp_all add: t\<close>)
  then show ?thesis by (simp add: t)
qed

text \<open>What a core does besides executing: its CPU, its memory and the ports between them stay as they are.\<close>

definition core_follows :: "Epoch \<Rightarrow> Core \<Rightarrow> Core \<Rightarrow> bool" where
  "core_follows ep c c' \<longleftrightarrow> core_id c' = core_id c \<and>
     (\<forall>(dev :: (DecoderSystem \<times> TraceEvent list) device) c0 d rs. core_run dev ep c0 c d rs \<longrightarrow> core_run dev ep c0 c' d rs)"

lemma core_follows_refl: "core_follows ep c c"
  by (simp add: core_follows_def)

lemma core_follows_trans: "core_follows ep c c' \<Longrightarrow> core_follows ep c' c'' \<Longrightarrow> core_follows ep c c''"
  unfolding core_follows_def by metis

lemma core_follows_tcu: "tcu_edge preflight now ep c n = Inr (out, c', n', tr) \<Longrightarrow> core_follows ep c c'"
  unfolding core_follows_def by (blast intro: tcu_edge_id core_run.tcu)

lemma core_follows_deliver: "core_deliver now ep r c = Inr c' \<Longrightarrow> core_follows ep c c'"
  unfolding core_follows_def by (blast intro: core_ids(3) core_run.result)

lemma core_follows_history: "core_follows ep c c' \<Longrightarrow> core_history dec ep img c rs \<Longrightarrow> core_history dec ep img c' rs"
  unfolding core_follows_def core_history_def by metis

lemma programs_inv_quiet:
  assumes "programs_inv imgs s" and "list_all2 (core_follows (sim_epoch s)) (sim_cores s) (sim_cores t)"
    and "same_bus (sim_decoders s) (sim_decoders t)" and "sim_epoch t = sim_epoch s"
    and "log_events (sim_log t) = log_events (sim_log s) @ es" and "plain_trace es"
  shows "programs_inv imgs t"
proof -
  from assms(2) have len: "length (sim_cores t) = length (sim_cores s)"
    and f: "\<And>j. j < length (sim_cores s) \<Longrightarrow> core_follows (sim_epoch s) (sim_cores s ! j) (sim_cores t ! j)"
    by (simp_all add: list_all2_conv_all_nth)
  show ?thesis
  proof (rule programs_inv_step [OF assms(1) len _ assms(3-5), where i = "length (sim_cores s)"])
    show "map core_id (sim_cores t) = map core_id (sim_cores s)"
      using len f by (simp add: list_eq_iff_nth_eq core_follows_def)
    show "core_history (sim_decoders s) (sim_epoch s) (imgs ! j) (sim_cores t ! j)
        (retired_by s j @ (if j = length (sim_cores s) then retirements es else []))"
      if "j < length (sim_cores s)" "core_history (sim_decoders s) (sim_epoch s) (imgs ! j) (sim_cores s ! j) (retired_by s j)" for j
      using that core_follows_history [OF f] by simp
  qed (use assms(6) in \<open>auto simp: list_all_iff\<close>)
qed

lemma follows_update:
  "core_follows ep (cs ! i) c' \<Longrightarrow> list_all2 (core_follows ep) cs (cs[i := c'])"
  by (cases "i < length cs") (auto simp: list_all2_conv_all_nth nth_list_update core_follows_refl)

lemma follows_refl: "list_all2 (core_follows ep) cs cs"
  by (simp add: list_all2_conv_all_nth core_follows_refl)

lemma one_tcu_edge_programs:
  assumes "one_tcu_edge B now i s = Inr t" and "i < length (sim_cores s)" and "programs_inv imgs s"
  shows "programs_inv imgs t \<and> sim_epoch t = sim_epoch s \<and> length (sim_cores t) = length (sim_cores s)"
proof -
  let ?c = "sim_cores s ! i"
  from assms(1) obtain out c' n tr l s1 where e: "tcu_edge (\<lambda>b. bindE (device_events s i b) (\<lambda>b'. ce_preflight B b' (sim_device s)))
      now (sim_epoch s) ?c (sim_network s) = Inr (out, c', n, tr)"
    and l: "emit_all (core_stamp s ?c) tr (sim_log s) = Inr l"
    and s1: "s1 = s\<lparr>sim_cores := (sim_cores s)[i := c'], sim_network := n, sim_log := l\<rparr>"
    and k: "(case TcuOutput.launch out of None \<Rightarrow> Inr s1
     | Some b \<Rightarrow> bindE (device_events s1 i b) (\<lambda>b'.
         bindE (ce_accept B b' (sim_device s1)) (\<lambda>(d, tr'). log_root tr' (s1\<lparr>sim_device := d\<rparr>)))) = Inr t"
    by (auto simp: one_tcu_edge_def Let_def log_core_def core_stamp_def)
  from emit_all_log [OF l] obtain es where es: "log_events l = log_events (sim_log s) @ es" "retirements es = retirements tr" by blast
  have "plain_trace es" using tcu_edge_plain [OF e] by (simp add: plain_retirements es(2))
  then have inv: "programs_inv imgs s1"
    by (intro programs_inv_quiet [OF assms(3), where es = es])
      (use follows_update [OF core_follows_tcu [OF e]] es(1) in \<open>simp_all add: s1 same_bus_def\<close>)
  show ?thesis
  proof (cases "TcuOutput.launch out")
    case None
    with k inv show ?thesis by (auto simp: s1)
  next
    case (Some b)
    with k obtain d b' tr' where a: "ce_accept B b' (sim_device s1) = Inr (d, tr')" and r: "log_root tr' (s1\<lparr>sim_device := d\<rparr>) = Inr t"
      by auto
    from log_root_log [OF r device_plain(1) [OF a]] obtain l' es' where t: "t = s1\<lparr>sim_device := d, sim_log := l'\<rparr>"
      and es': "log_events l' = log_events (sim_log s1) @ es'" "plain_trace es'" by auto
    have "programs_inv imgs t"
      by (rule programs_inv_quiet [OF inv _ _ _ _ es'(2)]) (use es'(1) in \<open>simp_all add: t same_bus_def follows_refl\<close>)
    then show ?thesis by (simp add: t s1)
  qed
qed

text \<open>A reset boots every core on the memory it finds.\<close>

definition images :: "'b Simulator \<Rightarrow> ProgramImage list" where
  "images s = map (\<lambda>c. mem_image (core_memory c)) (sim_cores s)"

definition next_images :: "ProgramImage list \<Rightarrow> 'b Simulator \<Rightarrow> 'b Simulator \<Rightarrow> ProgramImage list" where
  "next_images imgs s t = (if sim_epoch t = sim_epoch s then imgs else images s)"

lemma booted_history: "booted c \<Longrightarrow> mem_image (core_memory c) = img \<Longrightarrow> core_history dec ep img c []"
  unfolding core_history_def by (blast intro: core_run.boot)

lemma reset_at_programs:
  assumes "reset_at B now s = Inr (b, t)" and "programs_inv imgs s"
  shows "programs_inv (next_images imgs s t) t"
proof (cases "now \<in> set (sim_resets s) \<and> last_reset s \<noteq> Some now")
  case False
  with assms show ?thesis by (auto simp: reset_at_def next_images_def split: if_splits)
next
  case True
  with assms(1) obtain ep cs d tr where a: "checked_add (sim_epoch s) 1 = Inr ep" and c: "mapE (core_reset now) (sim_cores s) = Inr cs"
    and d: "ce_reset B now ep (sim_device s) = Inr (d, tr)"
    and l: "log_root (tr @ [trace_event now ep ''SessionReset'' 0 0 0])
          (s\<lparr>sim_epoch := ep, sim_network := net_reset (sim_network s), sim_decoders := ds_reset (sim_decoders s),
             sim_cores := cs, sim_device := d, last_reset := Some now\<rparr>) = Inr t"
    by (auto simp: reset_at_def split: if_splits)
  have ep: "ep = sim_epoch s + 1" using a by (simp add: checked_add_def split: if_splits)
  from log_root_log [OF l] device_plain(2) [OF d] obtain l' es where
    t: "sim_epoch t = ep" "sim_cores t = cs" "sim_decoders t = ds_reset (sim_decoders s)" "sim_log t = l'"
    and es: "log_events l' = log_events (sim_log s) @ es" "plain_trace es" by auto
  have len: "length cs = length (sim_cores s)" by (rule mapE_length [OF c])
  have core: "core_reset now (sim_cores s ! j) = Inr (cs ! j)" if "j < length cs" for j
    using mapE_nth [OF c] that len by simp
  have old: "\<forall>e\<in>set (log_events l'). \<not> plain e \<longrightarrow> ev_epoch e < ep"
    using assms(2) es by (auto simp: programs_inv_def ep list_all_iff less_Suc_eq_le)
  have "retired_by t j = []" for j
    unfolding retired_by_def t by (rule filter_retirements(2)) (use old in auto)
  moreover have "map core_id cs = map core_id (sim_cores s)"
    using core_ids(4) [OF core] len by (simp add: list_eq_iff_nth_eq)
  moreover have "core_history (sim_decoders t) ep (images s ! j) (cs ! j) []" if "j < length cs" for j
    using core_reset_booted [OF core [OF that]] core_ids(4) [OF core [OF that]] that len
    by (intro booted_history) (simp_all add: images_def)
  ultimately show ?thesis
    using assms(2) old len ep by (auto simp: programs_inv_def next_images_def images_def t less_imp_le)
qed

lemma edges_programs:
  assumes "bindE (reset_at B now s) (\<lambda>(b, s1). bindE (if b then Inr s1 else foldE f (is s1) s1) (\<lambda>s2. Inr (g s2))) = Inr t"
    and "programs_inv imgs s"
    and "\<And>s1. set (is s1) \<subseteq> {..<length (sim_cores s1)}"
    and "\<And>imgs i s1 s2. f i s1 = Inr s2 \<Longrightarrow> i < length (sim_cores s1) \<Longrightarrow> programs_inv imgs s1 \<Longrightarrow>
      programs_inv imgs s2 \<and> sim_epoch s2 = sim_epoch s1 \<and> length (sim_cores s2) = length (sim_cores s1)"
    and "\<And>imgs u. programs_inv imgs (g u) = programs_inv imgs u" and "\<And>u. sim_epoch (g u) = sim_epoch u"
  shows "programs_inv (next_images imgs s t) t"
proof -
  from assms(1) obtain b s1 s2 where r: "reset_at B now s = Inr (b, s1)"
    and e: "(if b then Inr s1 else foldE f (is s1) s1) = Inr s2" and t: "t = g s2" by auto
  note I = reset_at_programs [OF r assms(2)]
  have "programs_inv (next_images imgs s s1) s2 \<and> sim_epoch s2 = sim_epoch s1 \<and> length (sim_cores s2) = length (sim_cores s1)"
  proof (cases b)
    case False
    with e have f: "foldE f (is s1) s1 = Inr s2" by simp
    show ?thesis
      by (rule foldE_invariant [OF f, where P = "\<lambda>x. programs_inv (next_images imgs s s1) x \<and> sim_epoch x = sim_epoch s1 \<and>
          length (sim_cores x) = length (sim_cores s1)"]) (use I assms(3) assms(4) in fastforce)+
  qed (use e I in auto)
  then show ?thesis using assms(5,6) by (simp add: t next_images_def)
qed

lemma programs_inv_flags [simp]:
  "programs_inv imgs (s\<lparr>barrier_notified := b\<rparr>) = programs_inv imgs s"
  "programs_inv imgs (s\<lparr>cpu_done := k\<rparr>) = programs_inv imgs s"
  "programs_inv imgs (s\<lparr>memory_done := k\<rparr>) = programs_inv imgs s"
  "programs_inv imgs (s\<lparr>tcu_done := k\<rparr>) = programs_inv imgs s"
  "programs_inv imgs (s\<lparr>wake := w\<rparr>) = programs_inv imgs s"
  by (simp_all add: programs_inv_def retired_by_def core_stamp_def)

lemma edge_bodies_programs:
  "cpu_edge_body B now s = Inr t \<Longrightarrow> programs_inv imgs s \<Longrightarrow> programs_inv (next_images imgs s t) t"
  "memory_edge_body B now s = Inr t \<Longrightarrow> programs_inv imgs s \<Longrightarrow> programs_inv (next_images imgs s t) t"
  "tcu_edge_body B now s = Inr t \<Longrightarrow> programs_inv imgs s \<Longrightarrow> programs_inv (next_images imgs s t) t"
  subgoal unfolding cpu_edge_body_def by (erule edges_programs) (auto dest: one_cpu_edge_programs)
  subgoal unfolding memory_edge_body_def by (erule edges_programs) (auto dest: one_memory_edge_programs)
  subgoal unfolding tcu_edge_body_def Let_def by (erule edges_programs) (auto dest: one_tcu_edge_programs split: if_splits)
  done

lemma wakeup_programs:
  assumes "wakeup_body B now s = Inr t" and "programs_inv imgs s"
  shows "programs_inv (next_images imgs s t) t"
proof -
  from assms(1) obtain b s1 where r: "reset_at B now (s\<lparr>wake := None\<rparr>) = Inr (b, s1)" and t: "t = s1\<lparr>barrier_notified := True\<rparr>"
    by (auto simp: wakeup_body_def)
  have "next_images imgs (s\<lparr>wake := None\<rparr>) s1 = next_images imgs s t"
    by (simp add: next_images_def images_def t cong: if_cong)
  with reset_at_programs [OF r, of imgs] assms(2) show ?thesis by (simp add: t)
qed

text \<open>The barrier: the decoders step, results are delivered, and the schedule goes on.\<close>

lemma ce_process_env:
  assumes "ce_process B now ep dv s env = Inr (s', env', tr)" and "P env"
    and "\<And>c e e' t. dv c e = Inr (t, e') \<Longrightarrow> P e \<Longrightarrow> P e'"
  shows "P env'"
proof (cases "om_find now (boundaries s)")
  case None
  with assms(1,2) show ?thesis by (simp add: ce_process_def)
next
  case (Some bd)
  with assms(1) have "ce_boundary B now ep dv bd s env = Inr (s', env', tr)" by (simp add: ce_process_def)
  then obtain ros tr4 ros' where "foldE (deliver_ready now ep dv) (bd_ready bd) (ros, env, tr4) = Inr (ros', env', tr)"
    unfolding ce_boundary_def by (auto simp only: bindE_eq_Inr prod.case split_paired_Ex)
  then have "P (fst (snd (ros', env', tr)))"
    by (rule foldE_invariant [where P = "\<lambda>x. P (fst (snd x))"])
      (use assms(2,3) in \<open>auto simp: deliver_ready_def\<close>)
  then show ?thesis by simp
qed

lemma deliver_result_follows:
  assumes "deliver_result now ep r cs = Inr (tr, cs')"
  shows "plain_trace tr \<and> list_all2 (core_follows ep) cs cs'"
  using assms follows_update [OF core_follows_deliver] by (fastforce simp: deliver_result_def)

lemma follows_trans:
  "list_all2 (core_follows ep) as bs \<Longrightarrow> list_all2 (core_follows ep) bs cs \<Longrightarrow> list_all2 (core_follows ep) as cs"
  by (rule list_all2_trans [where ?P1.0 = "core_follows ep" and ?P2.0 = "core_follows ep"]) (rule core_follows_trans)

lemma step_decoders_programs:
  assumes "step_decoders now s = Inr t" and "programs_inv imgs s"
  shows "programs_inv imgs t \<and> sim_epoch t = sim_epoch s \<and> sim_cores t = sim_cores s"
proof (cases "last_reset s = Some now")
  case False
  with assms(1) obtain d tr where d: "ds_step now (sim_epoch s) (sim_decoders s) = Inr (d, tr)"
    and l: "log_root tr (s\<lparr>sim_decoders := d\<rparr>) = Inr t" by (auto simp: step_decoders_def)
  from ds_step_plain [OF d] have b: "plain_trace tr" "same_bus (sim_decoders s) d" by blast+
  from log_root_log [OF l b(1)] obtain l' es where t: "t = s\<lparr>sim_decoders := d, sim_log := l'\<rparr>"
    and es: "log_events l' = log_events (sim_log s) @ es" "plain_trace es" by auto
  have "programs_inv imgs t"
    by (rule programs_inv_quiet [OF assms(2) _ _ _ _ es(2)]) (use es(1) b(2) in \<open>simp_all add: t follows_refl\<close>)
  then show ?thesis by (simp add: t)
qed (use assms in \<open>simp add: step_decoders_def\<close>)

lemma process_device_programs:
  assumes "process_device B now s = Inr t" and "programs_inv imgs s"
  shows "programs_inv (next_images imgs s t) t"
proof -
  from assms(1) obtain b s1 where r: "reset_at B now s = Inr (b, s1)" by (auto simp: process_device_def)
  note I = reset_at_programs [OF r assms(2)]
  show ?thesis
  proof (cases "\<not> b \<and> next_boundary (sim_device s1) = Some now")
    case False
    with assms(1) r have "t = s1" by (auto simp: process_device_def)
    with I show ?thesis by simp
  next
    case True
    with assms(1) r obtain d cs tr where
      p: "ce_process B now (sim_epoch s1) (deliver_result now (sim_epoch s1)) (sim_device s1) (sim_cores s1) = Inr (d, cs, tr)"
      and l: "log_root tr (s1\<lparr>sim_device := d, sim_cores := cs\<rparr>) = Inr t"
      by (auto simp: process_device_def)
    have "list_all2 (core_follows (sim_epoch s1)) (sim_cores s1) cs"
      by (rule ce_process_env [OF p follows_refl]) (blast intro: follows_trans dest: deliver_result_follows)
    moreover have "plain_trace tr" by (rule ce_process_plain [OF p]) (blast dest: deliver_result_follows)
    from log_root_log [OF l this] obtain l' es where t: "t = s1\<lparr>sim_device := d, sim_cores := cs, sim_log := l'\<rparr>"
      and es: "log_events l' = log_events (sim_log s1) @ es" "plain_trace es" by auto
    ultimately have "programs_inv (next_images imgs s s1) t"
      by (intro programs_inv_quiet [OF I _ _ _ _ es(2)]) (use es(1) in \<open>simp_all add: t same_bus_def\<close>)
    then show ?thesis by (simp add: t next_images_def)
  qed
qed

lemma barrier_programs:
  assumes "barrier_body B now s = Inr t" and "programs_inv imgs s"
  shows "programs_inv (next_images imgs s t) t"
proof (cases "edges_done now (s\<lparr>barrier_notified := False\<rparr>)")
  case False
  with assms show ?thesis by (auto simp: barrier_body_def next_images_def)
next
  case True
  with assms(1) obtain s1 s2 where d: "step_decoders now (s\<lparr>barrier_notified := False\<rparr>) = Inr s1"
    and p: "process_device B now s1 = Inr s2"
    and k: "(if all_drained s2 then complete_simulation B now s2
       else require (now < pf_watchdog (sim_profile s2)) Watchdog (schedule_wakeup now s2)) = Inr t"
    by (auto simp: barrier_body_def Let_def)
  have S: "programs_inv imgs s1" "sim_epoch s1 = sim_epoch s" "sim_cores s1 = sim_cores s"
    using step_decoders_programs [OF d, of imgs] assms(2) by simp_all
  have "next_images imgs s1 s2 = next_images imgs s s2"
    using S(2,3) by (simp add: next_images_def images_def cong: if_cong)
  with process_device_programs [OF p S(1)] have I: "programs_inv (next_images imgs s s2) s2" by simp
  have "programs_inv (next_images imgs s s2) t \<and> sim_epoch t = sim_epoch s2"
  proof (cases "all_drained s2")
    case True
    with k obtain d where l: "log_root [trace_event now (sim_epoch s2) ''SimulationCompleted'' 0 0 0]
        (s2\<lparr>sim_device := d, success := True, stopped := True\<rparr>) = Inr t"
      by (auto simp: complete_simulation_def)
    from log_root_log [OF l] obtain l' es where t: "t = s2\<lparr>sim_device := d, success := True, stopped := True, sim_log := l'\<rparr>"
      and es: "log_events l' = log_events (sim_log s2) @ es" "plain_trace es" by auto
    have "programs_inv (next_images imgs s s2) t"
      by (rule programs_inv_quiet [OF I _ _ _ _ es(2)]) (use es(1) in \<open>simp_all add: t same_bus_def follows_refl\<close>)
    then show ?thesis by (simp add: t)
  next
    case False
    with k obtain w where "t = s2\<lparr>wake := w\<rparr>" by (auto simp: schedule_wakeup_def Let_def)
    with I show ?thesis by simp
  qed
  then show ?thesis by (simp add: next_images_def)
qed

lemma process_programs:
  assumes "\<And>t. body s = Inr t \<Longrightarrow> programs_inv (next_images imgs s t) t" and "programs_inv imgs s"
  shows "programs_inv (next_images imgs s (process now body s)) (process now body s)"
proof (cases "stopped s")
  case True
  with assms(2) show ?thesis by (simp add: process_def next_images_def)
next
  case False
  show ?thesis
  proof (cases "body s")
    case (Inl e)
    let ?t = "fail now e s"
    have p: "plain (fault_event now e s)" by (simp add: fault_event_def)
    obtain es where "log_events (sim_log ?t) = log_events (sim_log s) @ es" "plain_trace es"
    proof (cases "emit (fault_event now e s) (sim_log s)")
      case (Inr l)
      from emit_cases [OF Inr] p show thesis
        by (intro that [of "if log_events l = log_events (sim_log s) then [] else [fault_event now e s]"])
          (auto simp: fail_def Inr)
    qed (auto intro: that [of "[]"] simp: fail_def)
    then have "programs_inv imgs ?t"
      by (intro programs_inv_quiet [OF assms(2)]) (simp_all add: fail_def same_bus_def follows_refl)
    with Inl False show ?thesis by (simp add: process_def next_images_def fail_def)
  qed (use assms False in \<open>simp add: process_def\<close>)
qed

lemma process_step_programs:
  assumes "process_step B now s t" and "programs_inv imgs s"
  shows "programs_inv (next_images imgs s t) t"
  using assms(1)
  by cases (auto simp: sim_cpu_edge_def sim_memory_edge_def sim_tcu_edge_def sim_wakeup_def sim_barrier_def
      intro!: process_programs intro: edge_bodies_programs wakeup_programs barrier_programs assms(2))

section \<open>Runs\<close>

text \<open>
  Runs of the simulator, as \<open>sim_run\<close>, with the memories that the cores had when the current epoch began: those of the
  configuration at first, and at a reset those that the cores have then.
\<close>

inductive program_run :: "'b Backend \<Rightarrow> ProgramImage list \<Rightarrow> 'b Simulator \<Rightarrow> Tick \<Rightarrow> bool" for B where
  start: "program_run B (map cfg_image configs) s 0"
    if "simulator fingerprint B configs connections backend resets rev_order limit decoding = Inr s"
| process: "program_run B (next_images imgs s s') s' now" if "program_run B imgs s now" and "process_step B now s s'"
| advance: "program_run B imgs s t"
    if "program_run B imgs s now" and "\<not> stopped s" and "settled now s" and "wake s = Some w" and "now < t" and "t \<le> w"

lemma sim_run_programs: "sim_run B s now \<Longrightarrow> \<exists>imgs. program_run B imgs s now"
  by (induction rule: sim_run.induct) (blast intro: program_run.intros)+

lemma add_cores_distinct:
  "foldE (add_core p) cs (ids, n) = Inr r \<Longrightarrow> distinct (map cfg_id cs) \<and> (\<forall>c\<in>set cs. cfg_id c \<notin> set ids)"
proof (induction cs arbitrary: ids n)
  case (Cons c cs)
  then obtain s1 where a: "add_core p c (ids, n) = Inr s1" and f: "foldE (add_core p) cs s1 = Inr r" by auto
  from a obtain n' where "s1 = (cfg_id c # ids, n')" and "cfg_id c \<notin> set ids" by (auto simp: add_core_def Let_def)
  with Cons.IH [of "cfg_id c # ids" n'] f show ?case by auto
qed simp

lemma build_cores:
  assumes "foldE (build_core fingerprint d) configs s = Inr r"
  shows "\<exists>ks. fst r = fst s @ ks \<and> list_all2 (\<lambda>c k. booted k \<and> core_id k = cfg_id c \<and> mem_image (core_memory k) = cfg_image c) configs ks"
  using assms
proof (induction configs arbitrary: s)
  case (Cons c configs)
  obtain cs offsets offset where s: "s = (cs, offsets, offset)" by (cases s)
  from Cons.prems obtain s1 where b: "build_core fingerprint d c s = Inr s1" and f: "foldE (build_core fingerprint d) configs s1 = Inr r"
    by auto
  from b s obtain k where k: "core_new fingerprint (cfg_id c) (cfg_profile c) (cfg_image c) (cfg_issue c) (cfg_sync_capacity c) = Inr k"
    and s1: "fst s1 = cs @ [k]"
    by (auto simp: build_core_def)
  from Cons.IH [OF f] s1 obtain ks where "fst r = cs @ k # ks"
    "list_all2 (\<lambda>c k. booted k \<and> core_id k = cfg_id c \<and> mem_image (core_memory k) = cfg_image c) configs ks" by auto
  with core_new_booted [OF k] core_new_fields [OF k] s show ?case by (intro exI [of _ "k # ks"]) auto
qed simp

lemma start_programs:
  assumes "simulator fingerprint B configs links b resets rev_order limit decoding = Inr s"
  shows "programs_inv (map cfg_image configs) s"
proof -
  let ?log = "\<lambda>p d n cs offsets dev. log_root [(trace_event 0 1 ''SessionStarted'' 0 0 0)\<lparr>ev_detail := fingerprint p\<rparr>]
    \<lparr>sim_profile = p, sim_log = \<lparr>log_events = [], include_stalls = True\<rparr>, sim_decoders = d, sim_network = n,
     sim_cores = cs, port_offsets = offsets, sim_device = dev, wake = None, barrier_notified = False,
     cpu_done = None, memory_done = None, tcu_done = None, last_reset = None, sim_resets = resets, sim_epoch = 1,
     reverse_order = rev_order, stopped = False, success = False, sim_fault = None\<rparr>"
  from assms obtain p d n cs offsets x dev s1 where v: "validated configs links = Inr p"
    and k: "foldE (build_core fingerprint d) configs ([], [], 0) = Inr (cs, offsets, x)"
    and l: "?log p d n cs offsets dev = Inr s1" and w: "schedule_wakeup 0 s1 = Inr s"
    by (auto simp: simulator_def)
  obtain s0 where s0: "sim_cores s0 = cs" "sim_epoch s0 = 1" "log_events (sim_log s0) = []"
    and l1: "log_root [(trace_event 0 1 ''SessionStarted'' 0 0 0)\<lparr>ev_detail := fingerprint p\<rparr>] s0 = Inr s1"
    by (rule that [OF _ _ _ l]) simp_all
  from log_root_log [OF l1] obtain l es where s1: "s1 = s0\<lparr>sim_log := l\<rparr>" and es: "log_events l = es" "plain_trace es"
    using s0(3) by auto
  from w obtain wk where s: "s = s1\<lparr>wake := wk\<rparr>" by (auto simp: schedule_wakeup_def Let_def)
  from build_cores [OF k] have c: "list_all2 (\<lambda>c k. booted k \<and> core_id k = cfg_id c \<and> mem_image (core_memory k) = cfg_image c) configs cs"
    by simp
  then have len: "length cs = length configs" and n: "\<And>i. i < length cs \<Longrightarrow> booted (cs ! i) \<and> core_id (cs ! i) = cfg_id (configs ! i) \<and>
      mem_image (core_memory (cs ! i)) = cfg_image (configs ! i)"
    by (simp_all add: list_all2_conv_all_nth)
  from v obtain r where "foldE (add_core (cfg_profile (hd configs))) configs ([], 0) = Inr r"
    by (auto simp: validated_def Let_def)
  then have "distinct (map cfg_id configs)" by (auto dest: add_cores_distinct)
  moreover have "map core_id cs = map cfg_id configs" using len n by (simp add: list_eq_iff_nth_eq)
  moreover have "retired_by s i = []" for i
    unfolding retired_by_def by (rule filter_retirements(2)) (use es in \<open>auto simp: s s1 list_all_iff\<close>)
  ultimately show ?thesis
    using len n es booted_history by (auto simp: programs_inv_def s s1 s0 list_all_iff)
qed

lemma program_run_inv: "program_run B imgs s now \<Longrightarrow> programs_inv imgs s"
proof (induction rule: program_run.induct)
  case (start fingerprint configs connections backend resets rev_order limit decoding s)
  then show ?case by (rule start_programs)
next
  case (process imgs s now s')
  then show ?case by (blast intro: process_step_programs)
qed


text \<open>The simulator with one core and the program of the theory Core_Execution, before its first edge.\<close>

definition store_config :: CoreConfig where
  "store_config = \<lparr>cfg_id = 0, cfg_profile = ex_profile, cfg_image = store_image, cfg_issue = Scalar, cfg_sync_capacity = 1\<rparr>"

definition store_sim :: "MockBackend Simulator result" where
  "store_sim = simulator (\<lambda>_. ''p'') mock_backend [store_config] [] \<lparr>outcomes = [], mock_qubits = 0, calls = 0\<rparr> [] False 4
     \<lparr>ds_base = 0x40000000, request_capacity = 1, ds_result_capacity = 1, link_latency = 1, bytes_per_tick = 1,
      packet_overhead = 1, decoders = []\<rparr>"

lemma store_validated: "validated [store_config] [] = Inr ex_profile"
  apply (simp add: validated_def add_core_def store_config_def ex_profile_ok checked_add_def check_output_action_def)
  apply (simp add: ex_profile_def example_action_def tick_max_def)
  done

lemma store_start: "\<exists>s. store_sim = Inr s \<and> length (sim_cores s) = 1"
proof -
  have "\<exists>s. store_sim = Inr s" unfolding store_sim_def construction_iff
    using store_validated
    by (simp add: decoder_system_def decoder_mmio_def register_defs decoder_ids_def sync_network_def mock_backend_def
        mock_reset_def resets_ok_def validate_memory_def store_config_def)
      (simp add: ex_profile_def valid_clock_def)
  then obtain s where s: "store_sim = Inr s" ..
  from start_programs [OF s [unfolded store_sim_def]] s show ?thesis by (auto simp: programs_inv_def)
qed


end
