(* ===== verification/Decoder_Sessions.thy ===== *)
theory Decoder_Sessions
  imports Decoder_Wakeup
begin

text \<open>
  The sessions of the decoder system: what holds in every state that accesses, steps and resets can
  reach, in any order and at any ticks.
\<close>

unbundle bit_operations_syntax

declare split_paired_All [simp del] split_paired_Ex [simp del]

inductive decoder_run :: "DecoderSystemConfig \<Rightarrow> DecoderSystem \<Rightarrow> bool" for c where
  boot: "decoder_run c s" if "decoder_system c = Inr s"
| access: "decoder_run c s'" if "decoder_run c s" and "ds_access core q now ep s = (r, s', tr)"
| step: "decoder_run c s'" if "decoder_run c s" and "ds_step now ep s = Inr (s', tr)"
| reset: "decoder_run c (ds_reset s)" if "decoder_run c s"

section \<open>The invariant\<close>

definition session_at :: "(u32 \<times> u32, Session) omap \<Rightarrow> u32 \<times> u32 \<Rightarrow> Session" where
  "session_at m k = (case om_find k m of None \<Rightarrow> no_session | Some ss \<Rightarrow> ss)"

lemma session_at_set [simp]: "session_at (om_set k ss m) k' = (if k' = k then ss else session_at m k')"
  by (simp add: session_at_def)

lemma session_at_emplace [simp]: "session_at (om_emplace k no_session m) k' = session_at m k'"
  by (auto simp: session_at_def om_emplace_def)

lemma session_at_Nil [simp]: "session_at [] k = no_session"
  by (simp add: session_at_def)

lemma current_session_at: "current_session core dec s = session_at (sessions s) (core, dec)"
  by (simp add: current_session_def session_at_def)

definition occupied :: "Session \<Rightarrow> bool" where
  "occupied v \<longleftrightarrow> ss_result v \<noteq> None \<or> submitted v"

lemma no_session_simps [simp]:
  "\<not> occupied no_session" "\<not> submitted no_session" "measurements no_session = []" "ss_result no_session = None"
  by (simp_all add: occupied_def no_session_def)

lemma om_erase_set: "om_erase k (om_set k v m) = om_erase k m"
  by (induction k v m rule: om_set.induct) (auto simp: om_erase_def)

lemma occupied_erase:
  assumes "om_ok m"
  shows "om_count occupied m = om_count occupied (om_erase k m) + of_bool (occupied (session_at m k))"
proof (cases "om_find k m")
  case None
  then have "om_erase k m = m" by (auto simp: om_erase_def om_find_None intro!: filter_True)
  with None show ?thesis by (simp add: session_at_def)
next
  case (Some v)
  with om_count_erase [OF assms Some, of occupied] show ?thesis by (simp add: session_at_def)
qed

lemma occupied_set:
  assumes "om_ok m"
  shows "om_count occupied (om_set k v m) + of_bool (occupied (session_at m k)) =
    om_count occupied m + of_bool (occupied v)"
  using occupied_erase [OF assms, of k] occupied_erase [of "om_set k v m" k] assms
  by (simp add: om_erase_set)

lemma occupied_emplace: "om_ok m \<Longrightarrow> om_count occupied (om_emplace k no_session m) = om_count occupied m"
  for m :: "(u32 \<times> u32, Session) omap"
  using occupied_set [of m k no_session] by (auto simp: om_emplace_def session_at_def)

definition job_key :: "Job \<Rightarrow> u32 \<times> u32" where
  "job_key j = (jb_core j, jb_decoder j)"

definition sessions_inv :: "DecoderSystem \<Rightarrow> bool" where
  "sessions_inv s \<longleftrightarrow> om_ok (sessions s) \<and> om_count occupied (sessions s) \<le> unat (ds_result_capacity (ds_config s)) \<and>
     (\<forall>k. count_list (map job_key (jobs s)) k = of_bool (submitted (session_at (sessions s) k))) \<and>
     (\<forall>k. submitted (session_at (sessions s) k) \<longrightarrow> measurements (session_at (sessions s) k) = []) \<and>
     (\<forall>k d. decoder_of (snd k) s = Inr d \<longrightarrow>
        length (measurements (session_at (sessions s) k)) < unat (dc_measurements d))"

definition packets_inv :: "DecoderSystem \<Rightarrow> bool" where
  "packets_inv s \<longleftrightarrow> length (ds_requests s) \<le> unat (request_capacity (ds_config s)) \<and>
     (\<forall>p. p \<in> set (ds_requests s) \<or> reset_request s = Some p \<longrightarrow>
        rq_id p < ds_next s \<and> rq_arrival p \<le> tx_available s + link_latency (ds_config s)) \<and>
     (\<forall>p\<in>set (ds_requests s). \<forall>r. reset_request s = Some r \<longrightarrow> rq_id p < rq_id r \<or> rq_arrival r < rq_arrival p) \<and>
     (\<forall>j\<in>set (jobs s). jb_id j < ds_next s \<and> (\<forall>r. reset_request s = Some r \<longrightarrow> jb_id j < rq_id r))"

definition config_inv :: "DecoderSystem \<Rightarrow> bool" where
  "config_inv s \<longleftrightarrow> list_all decoder_config_ok (decoders (ds_config s))"

definition ds_inv :: "DecoderSystem \<Rightarrow> bool" where
  "ds_inv s \<longleftrightarrow> config_inv s \<and> sessions_inv s \<and> packets_inv s"

lemma window_positive:
  assumes "config_inv s" and "decoder_of i s = Inr d"
  shows "0 < unat (dc_measurements d)"
proof -
  from assms(2) have "d \<in> set (decoders (ds_config s))"
    by (auto simp: decoder_of_def find_Some_iff split: option.splits)
  with assms(1) have "0 < dc_measurements d" by (auto simp: config_inv_def list_all_iff decoder_config_ok_def)
  then show ?thesis by (simp add: word_less_nat_alt)
qed

lemma boot_inv: "decoder_system c = Inr s \<Longrightarrow> ds_inv s"
proof -
  assume a: "decoder_system c = Inr s"
  then have "config_inv s" by (auto simp: decoder_system_def config_inv_def)
  with a window_positive [of s] show ?thesis
    by (auto simp: decoder_system_def ds_inv_def sessions_inv_def packets_inv_def om_count_def decoder_of_def)
qed

lemma reset_inv: "ds_inv s \<Longrightarrow> ds_inv (ds_reset s)"
  using window_positive [of s]
  by (auto simp: ds_inv_def ds_reset_def sessions_inv_def packets_inv_def om_count_def config_inv_def decoder_of_def)

section \<open>Accesses\<close>

lemma decoder_of_cong: "ds_config s' = ds_config s \<Longrightarrow> decoder_of i s' = decoder_of i s"
  by (simp add: decoder_of_def)

lemma config_cong: "ds_config s' = ds_config s \<Longrightarrow> config_inv s' = config_inv s"
  by (simp add: config_inv_def)

lemma packets_sessions [simp]: "packets_inv (s\<lparr>sessions := x\<rparr>) = packets_inv s" "config_inv (s\<lparr>sessions := x\<rparr>) = config_inv s"
  by (simp_all add: packets_inv_def config_inv_def)

text \<open>A session that no job belongs to is replaced.\<close>

lemma sessions_inv_set:
  assumes "sessions_inv s" and "config_inv s"
    and "sessions s' = om_set k ss (sessions s)" and "map job_key (jobs s') = map job_key (jobs s)"
    and "ds_config s' = ds_config s" and "submitted ss = submitted (session_at (sessions s) k)"
    and "occupied ss \<longrightarrow> occupied (session_at (sessions s) k)"
    and "submitted ss \<longrightarrow> measurements ss = []"
    and "\<forall>d. decoder_of (snd k) s = Inr d \<longrightarrow> length (measurements ss) < unat (dc_measurements d)"
  shows "sessions_inv s'"
proof -
  have "om_ok (sessions s)" using assms(1) by (simp add: sessions_inv_def)
  note c = occupied_set [OF this, of k ss]
  have "om_count occupied (sessions s') \<le> om_count occupied (sessions s)"
    using c assms(3,7) by (auto simp: of_bool_def split: if_splits)
  then show ?thesis
    using assms(1,3-6,8,9) decoder_of_cong [OF assms(5)] by (auto simp: sessions_inv_def)
qed

lemma sessions_inv_emplace:
  assumes "sessions_inv s" and "sessions s' = om_emplace k no_session (sessions s)"
    and "map job_key (jobs s') = map job_key (jobs s)" and "ds_config s' = ds_config s"
  shows "sessions_inv s'"
  using assms occupied_emplace [of "sessions s" k] decoder_of_cong [OF assms(4)] by (auto simp: sessions_inv_def)

lemma sessions_inv_cong:
  assumes "sessions_inv s" and "sessions s' = sessions s"
    and "map job_key (jobs s') = map job_key (jobs s)" and "ds_config s' = ds_config s"
  shows "sessions_inv s'"
  using assms decoder_of_cong [OF assms(4)] by (auto simp: sessions_inv_def)

lemma consume_inv:
  assumes "ds_inv s" and "ds_consume core dec now ep s = (r, s', tr)"
  shows "ds_inv s'"
proof -
  let ?k = "(core, dec)" and ?ss = "current_session core dec s"
  let ?s1 = "s\<lparr>sessions := om_emplace ?k no_session (sessions s)\<rparr>"
  have i1: "sessions_inv ?s1"
    by (rule sessions_inv_emplace [of s _ ?k]) (use assms(1) in \<open>simp_all add: ds_inv_def\<close>)
  have p: "packets_inv ?s1" "config_inv ?s1"
    using assms(1) by (simp_all add: ds_inv_def)
  have w: "\<forall>d. decoder_of dec ?s1 = Inr d \<longrightarrow> 0 < unat (dc_measurements d)"
    using window_positive [OF p(2)] by auto
  show ?thesis
  proof (cases "ss_result ?ss \<noteq> None \<and> \<not> submitted ?ss \<and> measurements ?ss = []")
    case True
    with assms(2) have s': "s' = ?s1\<lparr>sessions := om_set ?k no_session (sessions ?s1)\<rparr>"
      by (simp add: ds_consume_def open_session_eq Let_def)
    have "sessions_inv s'"
      by (rule sessions_inv_set [OF i1 p(2), of _ ?k no_session])
        (use True w in \<open>simp_all add: s' current_session_at\<close>)
    then show ?thesis using p by (simp add: s' ds_inv_def)
  next
    case False
    with assms(2) have "s' = ?s1" by (auto simp: ds_consume_def open_session_eq Let_def)
    then show ?thesis using i1 p by (simp add: ds_inv_def)
  qed
qed

lemma read_inv:
  assumes "ds_inv s" and "ds_read core dec k s = (r, s')"
  shows "ds_inv s'"
proof -
  have "s' = s \<or> s' = s\<lparr>sessions := om_emplace (core, dec) no_session (sessions s)\<rparr>"
    using assms(2) by (auto simp: ds_read_def open_session_eq Let_def split: if_splits option.splits)
  then show ?thesis
  proof
    assume s': "s' = s\<lparr>sessions := om_emplace (core, dec) no_session (sessions s)\<rparr>"
    have "sessions_inv s'"
      by (rule sessions_inv_emplace [of s _ "(core, dec)"]) (use assms(1) in \<open>simp_all add: s' ds_inv_def\<close>)
    then show ?thesis using assms(1) by (simp add: s' ds_inv_def)
  qed (use assms(1) in simp)
qed

text \<open>What \<open>ds_submit\<close> does: nothing while there is no room, or a packet is appended.\<close>

lemma ds_submit_cases:
  assumes "ds_submit isreset core dec bits tag data now ep s = Inr (v, s', tr)"
  obtains (full) "s' = s" "v = None"
    | (queued) p e where "rq_id p = ds_next s" "rq_core p = core" "rq_decoder p = dec" "rq_count p = bits"
      "rq_tag p = tag" "rq_data p = data" "max now (tx_available s) < e" "rq_arrival p = e + link_latency (ds_config s)"
      "isreset \<longrightarrow> reset_request s = None" "\<not> isreset \<longrightarrow> length (ds_requests s) < unat (request_capacity (ds_config s))"
      "s' = (if isreset then s\<lparr>reset_request := Some p, ds_next := ds_next s + 1, tx_available := e\<rparr>
             else s\<lparr>ds_requests := ds_requests s @ [p], ds_next := ds_next s + 1, tx_available := e\<rparr>)" "v = Some 0"
proof (cases "if isreset then reset_request s \<noteq> None else unat (request_capacity (ds_config s)) \<le> length (ds_requests s)")
  case True
  with assms show thesis by (intro full) (auto simp: ds_submit_def split: if_splits)
next
  case False
  with assms obtain n where n: "transfer_ticks ((unat bits + 7) div 8) (ds_config s) = Inr n"
    by (auto simp: ds_submit_def split: if_splits)
  then have "1 \<le> n" by (auto simp: transfer_ticks_def)
  define e where "e = max now (tx_available s) + n"
  define p where "p = \<lparr>rq_id = ds_next s, rq_core = core, rq_decoder = dec, rq_count = bits, rq_tag = tag,
    rq_data = data, rq_sent = max now (tx_available s), rq_arrival = e + link_latency (ds_config s), transmitted = False\<rparr>"
  have "v = Some 0 \<and> s' = (if isreset then s\<lparr>reset_request := Some p, ds_next := ds_next s + 1, tx_available := e\<rparr>
             else s\<lparr>ds_requests := ds_requests s @ [p], ds_next := ds_next s + 1, tx_available := e\<rparr>)"
    using assms False n by (auto simp: ds_submit_def checked_add_def Let_def p_def e_def split: if_splits)
  with False \<open>1 \<le> n\<close> show thesis by (intro queued [of p e]) (auto simp: p_def e_def split: if_splits)
qed

lemma submit_inv:
  assumes "ds_inv s" and "ds_submit isreset core dec bits tag data now ep s = Inr (v, s', tr)"
  shows "ds_inv s'"
  using assms(2)
proof (cases rule: ds_submit_cases)
  case full
  with assms(1) show ?thesis by simp
next
  case (queued p e)
  have c: "ds_config s' = ds_config s" "sessions s' = sessions s" "jobs s' = jobs s" by (simp_all add: queued(11))
  have s: "sessions_inv s'"
    by (rule sessions_inv_cong [of s]) (use assms(1) c in \<open>simp_all add: ds_inv_def\<close>)
  from assms(1) have P: "packets_inv s" by (simp add: ds_inv_def)
  then have old: "rq_id q < ds_next s \<and> rq_arrival q < rq_arrival p" if "q \<in> set (ds_requests s) \<or> reset_request s = Some q" for q
    using that queued(7,8) unfolding packets_inv_def by fastforce
  have arr: "rq_arrival p = tx_available s' + link_latency (ds_config s')" "ds_next s' = ds_next s + 1"
    "tx_available s \<le> tx_available s'" using queued(7,8,11) by simp_all
  have "packets_inv s'"
  proof (cases isreset)
    case True
    with queued(11) have s': "ds_requests s' = ds_requests s" "reset_request s' = Some p" by simp_all
    then show ?thesis
      using P old arr queued(1) c unfolding packets_inv_def by fastforce
  next
    case False
    with queued(11) have s': "ds_requests s' = ds_requests s @ [p]" "reset_request s' = reset_request s" by simp_all
    have "length (ds_requests s') \<le> unat (request_capacity (ds_config s'))"
      using queued(10) False c s' by simp
    moreover have "rq_id q < ds_next s' \<and> rq_arrival q \<le> tx_available s' + link_latency (ds_config s')"
      if "q \<in> set (ds_requests s') \<or> reset_request s' = Some q" for q
    proof (cases "q = p")
      case True
      with arr queued(1) show ?thesis by simp
    next
      case False
      with that s' have "q \<in> set (ds_requests s) \<or> reset_request s = Some q" by auto
      from old [OF this] arr show ?thesis by simp
    qed
    moreover have "rq_id q < rq_id r \<or> rq_arrival r < rq_arrival q"
      if "q \<in> set (ds_requests s')" "reset_request s' = Some r" for q r
    proof (cases "q = p")
      case True
      with old [of r] that s' show ?thesis by simp
    next
      case False
      with that s' P show ?thesis by (auto simp: packets_inv_def)
    qed
    moreover have "\<forall>j\<in>set (jobs s'). jb_id j < ds_next s' \<and> (\<forall>r. reset_request s' = Some r \<longrightarrow> jb_id j < rq_id r)"
      using P s' c arr unfolding packets_inv_def by auto
    ultimately show ?thesis unfolding packets_inv_def by blast
  qed
  with s show ?thesis using assms(1) config_cong [OF c(1)] by (simp add: ds_inv_def)
qed

lemma mmio_inv: "ds_inv s \<Longrightarrow> ds_inv (s\<lparr>mmio := m\<rparr>)"
  unfolding ds_inv_def sessions_inv_def packets_inv_def config_inv_def decoder_of_def by simp

lemma access_inv:
  assumes "ds_inv s" and "ds_access core q now ep s = (r, s', tr)"
  shows "ds_inv s'"
proof -
  obtain oc m where m: "mmio_access core q (mmio s) = (oc, m)" by fastforce
  note i = mmio_inv [OF assms(1), of m]
  from assms(2) m show ?thesis
    using consume_inv [OF i] read_inv [OF i] submit_inv [OF i]
    by (auto simp: ds_access_def Let_def i split: sum.splits option.splits DecoderCommand.splits prod.splits)
qed

section \<open>Steps\<close>

lemma send_one_fst [simp]:
  "rq_id (fst (send_one now ep s p)) = rq_id p" "rq_arrival (fst (send_one now ep s p)) = rq_arrival p"
  "rq_core (fst (send_one now ep s p)) = rq_core p" "rq_decoder (fst (send_one now ep s p)) = rq_decoder p"
  by (simp_all add: send_one_def)

lemma advance_transmission_cases:
  assumes "advance_transmission now ep s = (s', tr)"
  obtains (sends) x where "s' = s\<lparr>ds_requests := map (\<lambda>p. fst (send_one now ep s p)) (ds_requests s),
      reset_request := map_option (\<lambda>p. fst (send_one now ep x p)) (reset_request s)\<rparr>"
    | (resets) r k where "reset_request s = Some r" "k = (rq_core r, rq_decoder r)"
      "s' = s\<lparr>ds_requests := filter (\<lambda>q. \<not> cancelled r (rq_id q) (rq_core q) (rq_decoder q))
          (map (\<lambda>p. fst (send_one now ep s p)) (ds_requests s)),
        reset_request := None, sessions := om_set k no_session (sessions s),
        jobs := filter (\<lambda>j. \<not> cancelled r (jb_id j) (jb_core j) (jb_decoder j)) (jobs s)\<rparr>"
proof (cases "reset_request s")
  case None
  with assms have "s' = s\<lparr>ds_requests := map (\<lambda>p. fst (send_one now ep s p)) (ds_requests s)\<rparr>"
    by (auto simp: advance_transmission_def Let_def comp_def)
  with None show thesis by (intro sends [of s]) simp
next
  case (Some r)
  define s1 where "s1 = s\<lparr>ds_requests := map (\<lambda>p. fst (send_one now ep s p)) (ds_requests s)\<rparr>"
  obtain r' t where r: "send_one now ep s1 r = (r', t)" by fastforce
  then have r': "r' = fst (send_one now ep s1 r)" by simp
  show thesis
  proof (cases "rq_arrival r' \<le> now")
    case True
    have "s' = fst (apply_reset now ep r' s1)"
      using assms Some r True by (auto simp: advance_transmission_def Let_def s1_def comp_def split: prod.splits)
    with Some r' show thesis
      by (intro resets [of r "(rq_core r, rq_decoder r)"])
        (auto simp: apply_reset_def Let_def s1_def cancelled_def)
  next
    case False
    with assms Some r have "s' = s1\<lparr>reset_request := Some r'\<rparr>"
      by (auto simp: advance_transmission_def Let_def s1_def comp_def)
    with Some r' show thesis by (intro sends [of s1]) (simp add: s1_def)
  qed
qed

lemma count_list_filter_key:
  "count_list (map f (filter P xs)) k = length (filter (\<lambda>x. P x \<and> f x = k) xs)"
  by (induction xs) auto

lemma transmission_inv:
  assumes "ds_inv s" and "advance_transmission now ep s = (s', tr)"
  shows "ds_inv s'"
  using assms(2)
proof (cases rule: advance_transmission_cases)
  case (sends x)
  have c: "ds_config s' = ds_config s" "sessions s' = sessions s" "jobs s' = jobs s" by (simp_all add: sends)
  have "sessions_inv s'" by (rule sessions_inv_cong [of s]) (use assms(1) c in \<open>simp_all add: ds_inv_def\<close>)
  moreover have "packets_inv s'"
    using assms(1) by (auto simp: sends ds_inv_def packets_inv_def)
  ultimately show ?thesis using assms(1) config_cong [OF c(1)] by (simp add: ds_inv_def)
next
  case (resets r k)
  from assms(1) have S: "sessions_inv s" and P: "packets_inv s" and C: "config_inv s" by (simp_all add: ds_inv_def)
  have ids: "\<forall>j\<in>set (jobs s). jb_id j < rq_id r" using P resets(1) by (auto simp: packets_inv_def)
  have jobs': "jobs s' = filter (\<lambda>j. job_key j \<noteq> k) (jobs s)"
    using ids by (auto simp: resets(2,3) cancelled_def job_key_def intro!: filter_cong)
  have cnt: "count_list (map job_key (jobs s')) k' = (if k' = k then 0 else count_list (map job_key (jobs s)) k')" for k'
    using count_list_filter_key [of job_key "\<lambda>_. True" "jobs s" k']
    by (auto simp: jobs' count_list_filter_key filter_empty_conv intro!: arg_cong [where f = length] filter_cong)
  have w: "\<forall>d. decoder_of i s = Inr d \<longrightarrow> 0 < unat (dc_measurements d)" for i using window_positive [OF C] by auto
  have ok: "om_ok (sessions s)" using S by (simp add: sessions_inv_def)
  have cf: "ds_config s' = ds_config s" "sessions s' = om_set k no_session (sessions s)" by (simp_all add: resets(3))
  have "om_count occupied (sessions s') \<le> om_count occupied (sessions s)"
    using occupied_set [OF ok, of k no_session] cf by simp
  then have "sessions_inv s'"
    using S cnt w ok decoder_of_cong [OF cf(1)] by (auto simp: sessions_inv_def cf)
  moreover have "packets_inv s'"
    using P le_trans [OF length_filter_le] unfolding packets_inv_def by (fastforce simp: resets(3))
  ultimately show ?thesis using C config_cong [OF cf(1)] by (simp add: ds_inv_def)
qed

lemma job_returns:
  assumes "ds_inv (s\<lparr>jobs := kept @ j # rest\<rparr>)" and "return_result now ep j2 (s\<lparr>jobs := kept @ j2 # rest\<rparr>) = Inr (s1, e)"
    and "job_key j2 = job_key j" and "jb_id j2 = jb_id j"
  shows "ds_inv (s1\<lparr>jobs := kept @ rest\<rparr>)"
proof -
  let ?k = "job_key j" and ?s = "s\<lparr>jobs := kept @ j # rest\<rparr>"
  from return_result_frame [OF assms(2)] assms(3) obtain ss where f: "om_find ?k (sessions s) = Some ss" and
    s1: "s1 = s\<lparr>jobs := kept @ j2 # rest, sessions := om_set ?k
      (ss\<lparr>ss_result := Some (case_option 0 id (ss_result ss) XOR jb_result j2), submitted := False\<rparr>) (sessions s)\<rparr>"
    by (auto simp: job_key_def)
  have sess: "session_at (sessions s) ?k = ss" using f by (simp add: session_at_def)
  from assms(1) have S: "sessions_inv ?s" and P: "packets_inv ?s" and C: "config_inv ?s" by (simp_all add: ds_inv_def)
  have cnt: "count_list (map job_key (kept @ j # rest)) k = of_bool (submitted (session_at (sessions s) k))" for k
    using S by (simp add: sessions_inv_def)
  have sub: "submitted ss" using cnt [of ?k] sess by (auto simp: of_bool_def split: if_splits)
  then have occ: "occupied ss" by (simp add: occupied_def)
  have none: "count_list (map job_key (kept @ rest)) k = of_bool (k \<noteq> ?k \<and> submitted (session_at (sessions s) k))" for k
    using cnt [of k] sub sess by (auto simp: of_bool_def split: if_splits)
  have ok: "om_ok (sessions s)" using S by (simp add: sessions_inv_def)
  define ss' where "ss' = ss\<lparr>ss_result := Some (case_option 0 id (ss_result ss) XOR jb_result j2), submitted := False\<rparr>"
  define s' where "s' = s1\<lparr>jobs := kept @ rest\<rparr>"
  have s': "sessions s' = om_set ?k ss' (sessions s)" "jobs s' = kept @ rest" "ds_config s' = ds_config s"
    by (simp_all add: s'_def s1 ss'_def)
  have occ': "occupied ss'" by (simp add: ss'_def occupied_def)
  have "om_count occupied (sessions s') = om_count occupied (sessions s)"
    using occupied_set [OF ok, of ?k ss'] occ occ' sess by (simp add: s')
  moreover have "\<not> submitted ss'" "measurements ss' = measurements ss" by (simp_all add: ss'_def)
  ultimately have "sessions_inv s'"
    using S none sess unfolding sessions_inv_def decoder_of_def by (auto simp: s' decoder_of_def)
  moreover have "packets_inv s'" using P by (auto simp: s'_def s1 packets_inv_def)
  moreover have "config_inv s'" using C by (simp add: config_inv_def s')
  ultimately show ?thesis by (simp add: ds_inv_def s'_def)
qed

lemma jobs_inv:
  assumes "advance_from now ep kept js s = Inr (s', tr)" and "ds_inv (s\<lparr>jobs := kept @ js\<rparr>)"
  shows "ds_inv s'"
  using assms
proof (induction js arbitrary: kept s tr)
  case (Cons j js)
  from Cons.prems(1) show ?case
  proof (cases rule: advance_from_cases)
    case (1 j2 s1 tr')
    have k: "job_key j2 = job_key j" using 1 by (simp add: job_key_def)
    from 1(8) show ?thesis
    proof (elim disjE exE conjE)
      fix a e
      assume r: "return_result now ep j2 (s\<lparr>jobs := kept @ j2 # js\<rparr>) = Inr (s1, e)"
        and n: "advance_from now ep kept js s1 = Inr (s', tr')"
      show ?thesis by (rule Cons.IH [OF n job_returns [OF Cons.prems(2) r k 1(4)]])
    next
      assume s1: "s1 = s\<lparr>jobs := kept @ j2 # js\<rparr>" and n: "advance_from now ep (kept @ [j2]) js s1 = Inr (s', tr')"
      have "ds_inv (s1\<lparr>jobs := (kept @ [j2]) @ js\<rparr>)"
        using Cons.prems(2) k 1(4)
        by (simp add: s1 ds_inv_def sessions_inv_def packets_inv_def config_inv_def decoder_of_def)
      from Cons.IH [OF n this] show ?thesis .
    qed
  qed
next
  case Nil
  then show ?case by auto
qed

lemma sessions_requests [simp]:
  "sessions_inv (s\<lparr>ds_requests := x\<rparr>) = sessions_inv s" "config_inv (s\<lparr>ds_requests := x\<rparr>) = config_inv s"
  by (simp_all add: sessions_inv_def config_inv_def decoder_of_def)

lemma tail_inv: "ds_inv s \<Longrightarrow> ds_requests s = p # ps \<Longrightarrow> ds_inv (s\<lparr>ds_requests := ps\<rparr>)"
  by (auto simp: ds_inv_def packets_inv_def)

lemma joins_inv:
  assumes "ds_inv s" and "decoder_of (snd k) s = Inr d" and "ss = session_at (sessions s) k"
    and "\<not> submitted ss" and "length ms < unat (dc_measurements d)"
  shows "ds_inv (s\<lparr>sessions := om_set k (ss\<lparr>measurements := ms\<rparr>) (om_emplace k no_session (sessions s))\<rparr>)"
proof -
  let ?s1 = "s\<lparr>sessions := om_emplace k no_session (sessions s)\<rparr>"
  have i1: "sessions_inv ?s1"
    by (rule sessions_inv_emplace [of s _ k]) (use assms(1) in \<open>simp_all add: ds_inv_def\<close>)
  have c1: "config_inv ?s1" using assms(1) by (simp add: ds_inv_def)
  have d1: "decoder_of (snd k) ?s1 = Inr d" using assms(2) by (simp add: decoder_of_def)
  have "sessions_inv (s\<lparr>sessions := om_set k (ss\<lparr>measurements := ms\<rparr>) (om_emplace k no_session (sessions s))\<rparr>)"
    by (rule sessions_inv_set [OF i1 c1, of _ k "ss\<lparr>measurements := ms\<rparr>"])
      (use assms(3-5) d1 in \<open>simp_all add: occupied_def\<close>)
  then show ?thesis using assms(1) by (simp add: ds_inv_def)
qed

lemma launches_inv:
  assumes "ds_inv s" and "ds_requests s = p # ps" and "k = (rq_core p, rq_decoder p)" and "ss = session_at (sessions s) k"
    and "\<not> submitted ss" and "ss_result ss = None \<longrightarrow> om_count occupied (sessions s) < unat (ds_result_capacity (ds_config s))"
    and "jb_id j = rq_id p" and "job_key j = k" and "rq_arrival p \<le> now"
    and "\<forall>r. reset_request s = Some r \<longrightarrow> now < rq_arrival r"
  shows "ds_inv (s\<lparr>sessions := om_set k (ss\<lparr>measurements := [], submitted := True\<rparr>)
      (om_set k (ss\<lparr>measurements := ms\<rparr>) (om_emplace k no_session (sessions s))), available := av, jobs := jobs s @ [j]\<rparr>)"
    (is "ds_inv ?s'")
proof -
  from assms(1) have S: "sessions_inv s" and P: "packets_inv s" and C: "config_inv s" by (simp_all add: ds_inv_def)
  have ok: "om_ok (sessions s)" using S by (simp add: sessions_inv_def)
  let ?m0 = "om_emplace k no_session (sessions s)"
  let ?m1 = "om_set k (ss\<lparr>measurements := ms\<rparr>) ?m0"
  have "om_count occupied ?m1 = om_count occupied (sessions s)"
    using occupied_set [of ?m0 k "ss\<lparr>measurements := ms\<rparr>"] occupied_emplace [OF ok, of k] ok assms(4)
    by (simp add: occupied_def)
  then have "om_count occupied (sessions ?s') + of_bool (occupied ss) = om_count occupied (sessions s) + 1"
    using occupied_set [of ?m1 k "ss\<lparr>measurements := [], submitted := True\<rparr>"] ok by (simp add: occupied_def)
  then have cap: "om_count occupied (sessions ?s') \<le> unat (ds_result_capacity (ds_config s))"
    using assms(5,6) S by (auto simp: occupied_def sessions_inv_def of_bool_def split: if_splits)
  have cnt: "count_list (map job_key (jobs ?s')) k' = of_bool (submitted (session_at (sessions ?s') k'))" for k'
    using S assms(4,5,8) by (auto simp: sessions_inv_def)
  have w: "\<forall>d. decoder_of i ?s' = Inr d \<longrightarrow> 0 < unat (dc_measurements d)" for i
    using window_positive [of ?s' i] C by (auto simp: config_inv_def)
  have "sessions_inv ?s'"
    using S cap cnt w unfolding sessions_inv_def by (auto simp: ok decoder_of_def)
  moreover have "packets_inv ?s'"
    using P assms(2,7,9,10) unfolding packets_inv_def by fastforce
  moreover have "config_inv ?s'" using C by (simp add: config_inv_def)
  ultimately show ?thesis by (simp add: ds_inv_def)
qed

lemma admit_inv:
  assumes "admit_from now ep ps s = Inr (s', tr)" and "ds_inv (s\<lparr>ds_requests := ps\<rparr>)"
    and "\<forall>r. reset_request s = Some r \<longrightarrow> now < rq_arrival r"
  shows "ds_inv s'"
  using assms
proof (induction ps arbitrary: s tr)
  case (Cons p ps)
  define s0 where "s0 = s\<lparr>ds_requests := p # ps\<rparr>"
  have i0: "ds_inv s0" and r0: "\<forall>r. reset_request s0 = Some r \<longrightarrow> now < rq_arrival r" and q0: "ds_requests s0 = p # ps"
    using Cons.prems(2,3) by (simp_all add: s0_def)
  show ?case
  proof (cases "rq_arrival p \<le> now")
    case False
    with Cons.prems(1) i0 show ?thesis by (auto simp: s0_def)
  next
    case True
    with Cons.prems(1) obtain taken s1 t1 where h: "admit_head now ep p s0 = Inr (taken, s1, t1)"
      by (auto simp: s0_def Let_def)
    have n: "taken \<Longrightarrow> \<exists>t2. admit_from now ep ps s1 = Inr (s', t2)"
      using Cons.prems(1) True h by (auto simp: s0_def Let_def)
    have go: "ds_inv s1 \<Longrightarrow> ds_requests s1 = p # ps \<Longrightarrow> reset_request s1 = reset_request s0 \<Longrightarrow> taken \<Longrightarrow> ?thesis"
      using n Cons.IH [of s1] tail_inv [of s1 p ps] r0 by auto
    from h show ?thesis
    proof (cases rule: admit_head_cases)
      case (waits d)
      have "sessions_inv s1"
        by (rule sessions_inv_emplace [of s0 _ "(rq_core p, rq_decoder p)"]) (use i0 waits(4) in \<open>simp_all add: ds_inv_def\<close>)
      then have "ds_inv s1" using i0 by (simp add: waits(4) ds_inv_def)
      moreover have "s' = s1" using waits(1) Cons.prems(1) True h by (auto simp: s0_def Let_def)
      ultimately show ?thesis by simp
    next
      case (joins d ss k)
      have "ds_inv s1"
        unfolding joins(7)
        by (rule joins_inv [of s0 k d ss]) (use joins(2-6) i0 in \<open>simp_all add: current_session_at\<close>)
      then show ?thesis by (rule go) (use joins q0 in simp_all)
    next
      case (launches d ss k f r t)
      have "ds_inv s1"
        unfolding launches(12)
        by (rule launches_inv [OF i0 q0 launches(4) _ launches(5) _ _ _ True r0])
          (use launches(3,4,7) i0 occupied_emplace [of "sessions s0" k] in
            \<open>auto simp: current_session_at job_key_def ds_inv_def sessions_inv_def reserved_def occupied_def [abs_def]\<close>)
      then show ?thesis by (rule go) (use launches q0 in simp_all)
    qed
  qed
qed simp

lemma transmit_inv:
  assumes "transmit_result now s = Inr s'" and "ds_inv s"
  shows "ds_inv s'"
  using assms(1)
proof (cases rule: transmit_result_cases)
  case idle
  with assms(2) show ?thesis by simp
next
  case (sends i j t)
  from pick_ready_nth [OF sends(1)] have i: "i < length (jobs s)" "jobs s ! i = j" by auto
  have m: "map f (jobs s') = map f (jobs s)" if "f (j\<lparr>jb_arrival := Some (t + link_latency (ds_config s))\<rparr>) = f j" for f :: "Job \<Rightarrow> 'b"
    using that i by (simp add: sends(3) map_update) (metis list_update_id length_map nth_map)
  have k: "map job_key (jobs s') = map job_key (jobs s)" "map jb_id (jobs s') = map jb_id (jobs s)"
    by (rule m, simp add: job_key_def)+
  have "jb_id ` set (jobs s') = jb_id ` set (jobs s)" using arg_cong [OF k(2), of set] by simp
  then have "\<forall>x\<in>set (jobs s'). \<exists>y\<in>set (jobs s). jb_id x = jb_id y" by (metis imageE imageI)
  with assms(2) have "packets_inv s'" unfolding ds_inv_def packets_inv_def by (fastforce simp: sends(3))
  moreover have "sessions_inv s'"
    by (rule sessions_inv_cong [of s]) (use assms(2) k in \<open>simp_all add: sends(3) ds_inv_def\<close>)
  moreover have "config_inv s'" using assms(2) by (simp add: sends(3) ds_inv_def config_inv_def)
  ultimately show ?thesis by (simp add: ds_inv_def)
qed

lemma step_inv:
  assumes "ds_step now ep s = Inr (s', tr)" and "ds_inv s"
  shows "ds_inv s'"
proof -
  obtain s1 t1 where 1: "advance_transmission now ep s = (s1, t1)" by fastforce
  with assms obtain s2 t2 s3 t3 where 2: "advance_from now ep [] (jobs s1) s1 = Inr (s2, t2)"
    and 3: "admit_from now ep (ds_requests s2) s2 = Inr (s3, t3)" and 4: "transmit_result now s3 = Inr s'"
    by (auto simp: ds_step_def advance_jobs_def admit_requests_def)
  have r: "\<forall>r. reset_request s2 = Some r \<longrightarrow> now < rq_arrival r"
    using after_transmission [OF 1] after_jobs [OF 2] by simp
  from transmission_inv [OF assms(2) 1] have "ds_inv (s1\<lparr>jobs := [] @ jobs s1\<rparr>)" by simp
  from jobs_inv [OF 2 this] have "ds_inv (s2\<lparr>ds_requests := ds_requests s2\<rparr>)" by simp
  from transmit_inv [OF 4 admit_inv [OF 3 this r]] show ?thesis .
qed

lemma decoder_run_inv: "decoder_run c s \<Longrightarrow> ds_inv s"
  by (induction rule: decoder_run.induct) (auto intro: boot_inv reset_inv access_inv step_inv)

lemma jobs_never_fail:
  "ds_inv (s\<lparr>jobs := kept @ js\<rparr>) \<Longrightarrow> \<exists>r. advance_from now ep kept js s = Inr r"
proof (induction js arbitrary: kept s)
  case (Cons j js)
  obtain j1 tr1 where j1: "start_job now ep (s\<lparr>jobs := kept @ j # js\<rparr>) j = (j1, tr1)" by fastforce
  obtain j2 tr2 where j2: "complete_job now ep (s\<lparr>jobs := kept @ j1 # js\<rparr>) j1 = (j2, tr2)" by fastforce
  note q = started_quiet [OF j1 j2]
  have key: "job_key j2 = job_key j" "jb_id j2 = jb_id j" using q by (simp_all add: job_key_def)
  let ?s1 = "s\<lparr>jobs := kept @ j2 # js\<rparr>"
  show ?case
  proof (cases "\<exists>a\<in>set_option (jb_arrival j2). a \<le> now")
    case True
    have "\<forall>k. count_list (map job_key (kept @ j # js)) k = of_bool (submitted (session_at (sessions s) k))"
      using Cons.prems by (simp add: ds_inv_def sessions_inv_def)
    note spec [OF this, of "job_key j"]
    then have "submitted (session_at (sessions s) (job_key j))" by (auto simp: of_bool_def split: if_splits)
    then have "om_find (jb_core j2, jb_decoder j2) (sessions s) \<noteq> None"
      using key by (auto simp: session_at_def job_key_def split: option.splits)
    then obtain s1 e where r: "return_result now ep j2 ?s1 = Inr (s1, e)" by (auto simp: return_result_def Let_def)
    from Cons.IH [OF job_returns [OF Cons.prems r key]] obtain s3 t3 where "advance_from now ep kept js s1 = Inr (s3, t3)"
      by fastforce
    with True j1 j2 r show ?thesis by (simp add: Let_def)
  next
    case False
    have "ds_inv (?s1\<lparr>jobs := (kept @ [j2]) @ js\<rparr>)"
      using Cons.prems key by (simp add: ds_inv_def sessions_inv_def packets_inv_def config_inv_def decoder_of_def)
    from Cons.IH [OF this] obtain s3 t3 where "advance_from now ep (kept @ [j2]) js ?s1 = Inr (s3, t3)" by fastforce
    with False j1 j2 show ?thesis by (simp add: Let_def)
  qed
qed simp

section \<open>The claims\<close>

text \<open>
  C13. In every state of the decoder system that accesses of any cores, steps and resets reach: a
  session waits for a result exactly when one job, and only one, is under way for it, and then its window is
  empty; the results that are ready or on their way never exceed the result capacity, nor the queued
  packets the request capacity; no window is full without having been launched; and a job that returns
  always finds its session, so that the loop over the jobs cannot fail.
\<close>

theorem decoder_sessions_consistent:
  assumes "decoder_run c s"
  shows "(\<forall>core dec. length (filter (\<lambda>j. jb_core j = core \<and> jb_decoder j = dec) (jobs s)) =
        (if submitted (current_session core dec s) then 1 else 0)) \<and>
    (\<forall>core dec. submitted (current_session core dec s) \<longrightarrow> measurements (current_session core dec s) = []) \<and>
    reserved s \<le> unat (ds_result_capacity (ds_config s)) \<and>
    length (ds_requests s) \<le> unat (request_capacity (ds_config s)) \<and>
    (\<forall>core dec d. decoder_of dec s = Inr d \<longrightarrow>
       length (measurements (current_session core dec s)) < unat (dc_measurements d)) \<and>
    (\<exists>s' tr. advance_jobs now ep s = Inr (s', tr))"
proof -
  note I = decoder_run_inv [OF assms]
  have "reserved s = om_count occupied (sessions s)" by (simp add: reserved_def occupied_def [abs_def])
  moreover have "length (filter (\<lambda>j. jb_core j = core \<and> jb_decoder j = dec) js) = count_list (map job_key js) (core, dec)" for core dec js
    by (induction js) (auto simp: job_key_def)
  moreover have "\<exists>s' tr. advance_jobs now ep s = Inr (s', tr)"
    using jobs_never_fail [where kept = "[]" and js = "jobs s" and s = s and now = now and ep = ep] I by (auto simp: advance_jobs_def)
  ultimately show ?thesis
    using I unfolding ds_inv_def sessions_inv_def packets_inv_def current_session_at by fastforce
qed

text \<open>A packet that fills the window of one measurement: at tick 21 its job is queued.\<close>

theorem decoder_sessions_consistent_witness:
  "\<exists>s. decoder_run ex_decoders s \<and> length (filter (\<lambda>j. jb_core j = 0 \<and> jb_decoder j = 0) (jobs s)) = 1 \<and>
     submitted (current_session 0 0 s) \<and> measurements (current_session 0 0 s) = []"
proof -
  have w: "decoder_run c s \<Longrightarrow> decoder_run c (ex_write now offset s)" for c s now offset
    unfolding ex_write_def by (rule decoder_run.access) (auto simp: prod_eq_iff)
  obtain s0 where s0: "decoder_system ex_decoders = Inr s0"
    by (simp add: decoder_system_def decoder_mmio_def ex_decoders_def register_defs require_def decoder_ids_def
      decoder_config_ok_def)
  have "decoder_run ex_decoders (ex_write 3 CommandReg (ex_write 2 DataLow (ex_write 1 Count s0)))"
    by (intro w decoder_run.boot s0)
  then have r: "decoder_run ex_decoders ex_submitted" by (simp add: ex_submitted_def s0)
  define j where "j = \<lparr>jb_id = 1, jb_core = 0, jb_decoder = 0, jb_start = 22, jb_completion = 27, jb_result = 1,
    jb_arrival = None, started = False, completed = False\<rparr>"
  obtain s tr where st: "ds_step 21 0 ex_submitted = Inr (s, tr)" and j: "jobs s = [j]"
    by (simp add: ex_submitted_eval ds_step_def advance_transmission_def send_one_def Let_def advance_jobs_def
      admit_requests_def transmit_result_def admit_head_def decoder_of_def open_session_eq current_session_def
      no_session_def om_emplace_def packet_bits_def launch_def checked_add_def tick_max_def require_def ex_decoders_def
      reserved_def om_count_def om_find_Cons j_def)
  have run: "decoder_run ex_decoders s" by (rule decoder_run.step [OF r st])
  note C = decoder_sessions_consistent [OF run, of 0 0]
  have one: "length (filter (\<lambda>j. jb_core j = 0 \<and> jb_decoder j = 0) (jobs s)) = 1" by (simp add: j j_def)
  from C have c1: "\<forall>core dec. length (filter (\<lambda>j. jb_core j = core \<and> jb_decoder j = dec) (jobs s)) =
        (if submitted (current_session core dec s) then 1 else 0)" by (elim conjE)
  have sub: "submitted (current_session 0 0 s)"
  proof (rule ccontr)
    assume "\<not> submitted (current_session 0 0 s)"
    with spec [OF spec [OF c1, of 0], of 0] one show False by (simp only: if_False)
  qed
  from C have "\<forall>core dec. submitted (current_session core dec s) \<longrightarrow> measurements (current_session core dec s) = []"
    by (elim conjE)
  with run one sub show ?thesis by blast
qed

section \<open>The registers\<close>

definition valid_access :: "DecoderMmio \<Rightarrow> MemoryRequest \<Rightarrow> bool" where
  "valid_access m q \<longleftrightarrow> mmio_contains m (mr_address q) \<and> mr_width q = 4 \<and> mr_address q mod 4 = 0 \<and> \<not> mr_instruction q"

text \<open>The value of the latest write of a core to the register at \<open>offset\<close>, 0 if there is none.\<close>

definition writes_to :: "DecoderMmio \<Rightarrow> u32 \<Rightarrow> u32 \<Rightarrow> u32 \<times> MemoryRequest \<Rightarrow> bool" where
  "writes_to m core offset a \<longleftrightarrow> fst a = core \<and> mr_write (snd a) \<and> valid_access m (snd a) \<and>
     mr_address (snd a) - mmio_base m = offset \<and> (offset = Select \<longrightarrow> mr_value (snd a) \<in> set (mmio_decoders m))"

definition last_write :: "DecoderMmio \<Rightarrow> u32 \<Rightarrow> u32 \<Rightarrow> (u32 \<times> MemoryRequest) list \<Rightarrow> u32" where
  "last_write m core offset as = 
     (let ws = filter (writes_to m core offset) as in if ws = [] then 0 else mr_value (snd (last ws)))"

definition mmio_after :: "DecoderMmio \<Rightarrow> (u32 \<times> MemoryRequest) list \<Rightarrow> DecoderMmio" where
  "mmio_after m as = foldl (\<lambda>m a. snd (mmio_access (fst a) (snd a) m)) m as"

lemma last_write_snoc:
  "last_write m core offset (as @ [a]) =
     (if writes_to m core offset a then mr_value (snd a) else last_write m core offset as)"
  by (simp add: last_write_def)

definition registers_of :: "DecoderMmio \<Rightarrow> u32 \<Rightarrow> Registers" where
  "registers_of m core = (case om_find core (mmio_registers m) of None \<Rightarrow> no_registers | Some r \<Rightarrow> r)"

lemma mmio_access_frame:
  "mmio_base (snd (mmio_access core q m)) = mmio_base m \<and> mmio_decoders (snd (mmio_access core q m)) = mmio_decoders m"
  by (auto simp: mmio_access_def Let_def split: sum.split prod.split)

lemma mmio_access_registers:
  "registers_of (snd (mmio_access c q m)) core =
     (if c = core \<and> valid_access m q \<and> mr_write q
      then (case mmio_write m (mr_address q - mmio_base m) (mr_value q) (registers_of m core) of
              Inl e \<Rightarrow> registers_of m core | Inr (_, r) \<Rightarrow> r)
      else registers_of m core)"
proof -
  let ?regs = "om_emplace c no_registers (mmio_registers m)"
  have r: "the (om_find c ?regs) = registers_of m c"
    by (auto simp: om_emplace_find registers_of_def)
  have e: "registers_of (m\<lparr>mmio_registers := ?regs\<rparr>) core = registers_of m core"
    by (auto simp: om_emplace_def registers_of_def)
  have f: "registers_of (m\<lparr>mmio_registers := om_set c x ?regs\<rparr>) core = (if c = core then x else registers_of m core)" for x
    by (auto simp: om_emplace_def registers_of_def)
  show ?thesis
  proof (cases "valid_access m q")
    case False
    then have "snd (mmio_access c q m) = m" by (auto simp: mmio_access_def valid_access_def)
    with False show ?thesis by simp
  next
    case True
    then have a: "snd (mmio_access c q m) = (if mr_write q
        then (case mmio_write m (mr_address q - mmio_base m) (mr_value q) (registers_of m c) of
            Inl e \<Rightarrow> m\<lparr>mmio_registers := ?regs\<rparr>
          | Inr (x, r') \<Rightarrow> m\<lparr>mmio_registers := om_set c r' ?regs\<rparr>)
        else m\<lparr>mmio_registers := ?regs\<rparr>)"
      by (auto simp: mmio_access_def valid_access_def Let_def r split: sum.split prod.split)
    show ?thesis
    proof (cases "mmio_write m (mr_address q - mmio_base m) (mr_value q) (registers_of m c)")
      case (Inl x)
      show ?thesis unfolding a using True Inl e by (cases "c = core") auto
    next
      case (Inr y)
      show ?thesis unfolding a using True Inr e f by (cases y; cases "c = core") auto
    qed
  qed
qed

lemma registers_after:
  assumes "mmio_registers m0 = []"
  shows "mmio_base (mmio_after m0 as) = mmio_base m0 \<and> mmio_decoders (mmio_after m0 as) = mmio_decoders m0 \<and>
    registers_of (mmio_after m0 as) core = \<lparr>rg_decoder = last_write m0 core Select as, rg_count = last_write m0 core Count as,
      rg_low = last_write m0 core DataLow as, rg_high = last_write m0 core DataHigh as, rg_tag = last_write m0 core TagReg as\<rparr>"
proof (induction as rule: rev_induct)
  case Nil
  show ?case using assms by (simp add: mmio_after_def registers_of_def last_write_def no_registers_def)
next
  case (snoc a as)
  let ?m = "mmio_after m0 as"
  have n: "mmio_after m0 (as @ [a]) = snd (mmio_access (fst a) (snd a) ?m)" by (simp add: mmio_after_def)
  have v: "valid_access ?m = valid_access m0" using snoc.IH by (auto simp: valid_access_def mmio_contains_def fun_eq_iff)
  show ?case
    unfolding n using snoc.IH mmio_access_frame [of "fst a" "snd a" ?m]
    by (auto simp: mmio_access_registers v last_write_snoc writes_to_def mmio_write_def require_def register_defs
        split: if_splits sum.splits)
qed

lemma joined_halves: "(ucast (ucast d :: u32) :: u64) OR push_bit 32 (ucast (ucast (drop_bit 32 d) :: u32)) = (d :: u64)"
  by (rule bit_word_eqI) (auto simp: bit_simps)

text \<open>
  C27. The registers are a mailbox for packets: after any accesses of any cores, faulting ones and reads
  among them, a submission carries what the same core last wrote to each register, so that the 64
  measurement bits it split into two words arrive as they were.
\<close>

theorem decoder_submit_roundtrip:
  assumes "decoder_mmio start ds = Inr m0" and "m = mmio_after m0 as" and "valid_access m0 q"
    and "mr_write q" and "mr_address q = start + CommandReg" and "mr_value q = Submit"
    and "last_write m0 core Select as = dec" and "dec \<in> set ds"
    and "last_write m0 core Count as = bits" and "0 < bits" and "bits \<le> 64"
    and "last_write m0 core DataLow as = ucast d" and "last_write m0 core DataHigh as = ucast (drop_bit 32 d)"
    and "last_write m0 core TagReg as = tag"
  shows "fst (mmio_access core q m) = Inr (Some (DecoderSubmit dec bits tag d))"
proof -
  from assms(1) have m0: "mmio_registers m0 = []" "mmio_base m0 = start" "mmio_decoders m0 = ds"
    by (auto simp: decoder_mmio_def)
  note R = registers_after [OF m0(1), of as core, folded assms(2)]
  have v: "valid_access m q" using assms(3) R by (auto simp: valid_access_def mmio_contains_def)
  have r: "the (om_find core (om_emplace core no_registers (mmio_registers m))) = registers_of m core"
    by (auto simp: om_emplace_find registers_of_def)
  have off: "mr_address q - mmio_base m = CommandReg" using assms(5) R m0 by simp
  have "mmio_write m CommandReg Submit (registers_of m core) =
      Inr (Some (DecoderSubmit dec bits tag d), registers_of m core)"
    using R assms(7-14) m0 joined_halves [of d] by (simp add: mmio_write_def register_defs require_def)
  then show ?thesis
    using v assms(4,6) off by (auto simp: mmio_access_def valid_access_def Let_def r)
qed

definition ex_access :: "u32 \<Rightarrow> u32 \<Rightarrow> bool \<Rightarrow> MemoryRequest" where
  "ex_access offset v w = \<lparr>mr_id = 1, mr_address = 0x40000000 + offset, mr_value = v, mr_width = 4, mr_write = w,
     mr_instruction = False\<rparr>"

text \<open>Core 1 writes in between, and core 0 reads a result it has not got.\<close>

theorem decoder_submit_roundtrip_witness:
  "\<exists>m0. decoder_mmio 0x40000000 [0, 7] = Inr m0 \<and>
     fst (mmio_access 0 (ex_access CommandReg Submit True) (mmio_after m0
       [(0, ex_access Select 7 True), (0, ex_access DataHigh 3 True), (1, ex_access DataLow 9 True),
        (0, ex_access ResultLow 0 False), (0, ex_access DataLow 5 True), (0, ex_access Select 9 True),
        (0, ex_access Count 40 True)])) = Inr (Some (DecoderSubmit 7 40 0 0x300000005))"
proof -
  let ?m = "\<lparr>mmio_base = 0x40000000, mmio_decoders = [0, 7], mmio_registers = []\<rparr> :: DecoderMmio"
  have m: "decoder_mmio 0x40000000 [0, 7] = Inr ?m" by (simp add: decoder_mmio_def register_defs require_def)
  show ?thesis
    by (intro exI conjI, rule m, rule decoder_submit_roundtrip [OF m refl, where d = "0x300000005"])
      (simp_all add: ex_access_def register_defs valid_access_def mmio_contains_def last_write_def writes_to_def)
qed

end
