(* ===== verification/Simulator_Runs.thy ===== *)
theory Simulator_Runs
  imports Simulator_Schedule Tcu_Properties Electronics_Session
begin

text \<open>
  Runs of the simulator: they end by the watchdog, they end in exactly one way, and what the cores
  and the control electronics exchange reaches the right one.
\<close>

section \<open>Identities\<close>

lemma global_id_Inr [simp]:
  "global_id n index i = Inr g \<longleftrightarrow> 0 < i \<and> g = (i - 1) * n + index + 1 \<and> g \<le> tick_max"
  by (auto simp: global_id_def)

lemma local_of_global:
  assumes "index < n" and "0 < i"
  shows "local_result n \<lparr>reference = r\<lparr>measurement := (i - 1) * n + index + 1\<rparr>, outcome = v\<rparr> =
    Inr (index, \<lparr>reference = r\<lparr>measurement := i\<rparr>, outcome = v\<rparr>)"
  using assms by (simp add: local_result_def Let_def)

lemma device_event_cases:
  assumes "device_event n index core offset e = Inr e'"
  shows "global_id n index (oe_id e) = Inr (oe_id e')"
    and "oe_reference e' = Some r \<Longrightarrow> \<exists>r0. oe_reference e = Some r0 \<and> 0 < measurement r0 \<and>
      r = r0\<lparr>measurement := (measurement r0 - 1) * n + index + 1\<rparr>"
  using assms by (auto simp: device_event_def split: option.splits)

lemma device_events_cases:
  assumes "device_events s i b = Inr b'" and "e' \<in> set (tr_events b')" and "length (sim_cores s) \<noteq> 1"
  obtains e where "e \<in> set (tr_events b)"
    "device_event (length (sim_cores s)) i (core_id (sim_cores s ! i)) (port_offsets s ! i) e = Inr e'"
proof -
  from assms(1,3) obtain es where es: "mapE (device_event (length (sim_cores s)) i (core_id (sim_cores s ! i)) (port_offsets s ! i))
      (tr_events b) = Inr es" and "tr_events b' = es"
    by (auto simp: device_events_def Let_def)
  with assms(2) mapE_in [OF es] show ?thesis by (blast intro: that)
qed

text \<open>
  C11. Results find their core. The identities that cores give to their events and measurements are
  made distinct for the control electronics and translated back for the results: the result of a measurement that
  core \<open>i\<close> launched is delivered to core \<open>i\<close>, under the name and epoch and for the qubit the core
  knows, and events of different cores never share an identity.
\<close>

theorem results_find_their_core:
  assumes "i < length (sim_cores s)" and "device_events s i b = Inr b'" and "e' \<in> set (tr_events b')"
    and "\<forall>e\<in>set (tr_events b). \<forall>r. oe_reference e = Some r \<longrightarrow> 0 < measurement r"
  shows "(\<forall>r. oe_reference e' = Some r \<longrightarrow> (\<exists>e\<in>set (tr_events b). \<exists>r0. oe_reference e = Some r0 \<and>
      local_result (length (sim_cores s)) \<lparr>reference = r, outcome = v\<rparr> = Inr (i, \<lparr>reference = r0, outcome = v\<rparr>))) \<and>
    (\<forall>j c c' f'. j < length (sim_cores s) \<longrightarrow> device_events s j c = Inr c' \<longrightarrow> f' \<in> set (tr_events c') \<longrightarrow>
      oe_id f' = oe_id e' \<longrightarrow> j = i)"
proof (cases "length (sim_cores s) = 1")
  case True
  then have "\<exists>e\<in>set (tr_events b). oe_reference e = oe_reference e'"
    using assms(2,3) by (force simp: device_events_def Let_def split: if_splits)
  with assms(4) local_of_global [of 0 1] True assms(1) show ?thesis
    by (fastforce simp: local_result_def Let_def)
next
  case False
  let ?n = "length (sim_cores s)"
  obtain e where e: "e \<in> set (tr_events b)"
    "device_event ?n i (core_id (sim_cores s ! i)) (port_offsets s ! i) e = Inr e'"
    by (rule device_events_cases [OF assms(2,3) False])
  have "\<exists>r0. oe_reference e = Some r0 \<and> local_result ?n \<lparr>reference = r, outcome = v\<rparr> = Inr (i, \<lparr>reference = r0, outcome = v\<rparr>)"
    if "oe_reference e' = Some r" for r
    using device_event_cases(2) [OF e(2) that] local_of_global [OF assms(1)] by fastforce
  moreover have "j = i" if "j < ?n" "device_events s j c = Inr c'" "f' \<in> set (tr_events c')" "oe_id f' = oe_id e'" for j c c' f'
  proof -
    from device_events_cases [OF that(2,3) False] obtain f where
      f: "device_event ?n j (core_id (sim_cores s ! j)) (port_offsets s ! j) f = Inr f'" by metis
    have "(oe_id f' - 1) mod ?n = j" using device_event_cases(1) [OF f] that(1) by auto
    moreover have "(oe_id e' - 1) mod ?n = i" using device_event_cases(1) [OF e(2)] assms(1) by auto
    ultimately show ?thesis using that(4) by simp
  qed
  ultimately show ?thesis using e(1) by blast
qed

text \<open>A measurement that the second of two cores launches.\<close>

definition ex_measurement :: TriggeredEvents where
  "ex_measurement = \<lparr>tr_epoch = 1, tr_label = 1, fire_tick = 10,
     tr_events = [example_event\<lparr>oe_reference := Some \<lparr>ref_epoch = 1, measurement = 3, ref_target = 0\<rparr>\<rparr>]\<rparr>"

theorem results_find_their_core_witness:
  "\<exists>s b' e'. length (sim_cores (s :: MockBackend Simulator)) = 2 \<and> device_events s 1 ex_measurement = Inr b' \<and>
     tr_events b' = [e'] \<and> (\<exists>r. oe_reference e' = Some r \<and>
       local_result 2 \<lparr>reference = r, outcome = True\<rparr> =
         Inr (1, \<lparr>reference = \<lparr>ref_epoch = 1, measurement = 3, ref_target = 0\<rparr>, outcome = True\<rparr>))"
proof -
  obtain s0 :: "MockBackend Simulator" and c where "ex_sim = Inr s0" "core_new (\<lambda>_. ''p'') 0 ex_profile ex_image Scalar 1 = Inr c"
    using ex_start ex_core by blast
  define s where "s = s0\<lparr>sim_cores := [c, c\<lparr>core_id := 1\<rparr>], port_offsets := [0, 1]\<rparr>"
  have n: "length (sim_cores s) = 2" by (simp add: s_def)
  have r: "\<forall>e\<in>set (tr_events ex_measurement). \<forall>r. oe_reference e = Some r \<longrightarrow> 0 < measurement r"
    by (simp add: ex_measurement_def)
  obtain b' e' where e: "device_events s 1 ex_measurement = Inr b'" "tr_events b' = [e']" "oe_reference e' \<noteq> None"
    by (simp add: s_def device_events_def device_event_def ex_measurement_def example_event_def tick_max_def)
  from results_find_their_core [of 1 s, OF _ e(1) _ r, of e' True] n e(2,3)
  have "\<exists>r. oe_reference e' = Some r \<and> local_result 2 \<lparr>reference = r, outcome = True\<rparr> =
      Inr (1, \<lparr>reference = \<lparr>ref_epoch = 1, measurement = 3, ref_target = 0\<rparr>, outcome = True\<rparr>)"
    by (auto simp: ex_measurement_def)
  with n e(1,2) show ?thesis by blast
qed

section \<open>Launches\<close>

lemma preflight_passed:
  "prepare_trigger now ep st pf sp s = Inr (Some t) \<Longrightarrow> pf (batch t) = Inr ()"
  by (auto simp: prepare_trigger_def Let_def split: if_splits)

lemma tcu_edge_preflight:
  assumes "tcu_edge pf now ep c n = Inr (out, c', n', tr)" and "TcuOutput.launch out = Some b"
  shows "pf b = Inr ()"
proof -
  from assms(1) obtain st p u1 n1 cand rs s' tr3 where
    t: "tcu_step now ep cand rs pf p (Some (\<lambda>ts. bindE (su_preflight ts now u1 n1) (\<lambda>_. Inr ()))) st = Inr (s', out, tr3)"
    by (auto simp: tcu_edge_def Let_def split_beta)
  then obtain t where "prepare_trigger now ep (current_timing_state now p st) pf
      (Some (\<lambda>ts. bindE (su_preflight ts now u1 n1) (\<lambda>_. Inr ()))) st = Inr t"
    "TcuOutput.launch out = map_option batch t"
    by (auto simp: tcu_step_def Let_def split_beta)
  with assms(2) preflight_passed show ?thesis by (cases t) auto
qed

lemma resolved_events:
  assumes "mapE (resolve_event B b d) es = Inr actions"
  shows "map sch_event actions = es"
  using assms by (induction es arbitrary: actions) (auto simp: resolve_event_def)

text \<open>
  C10. What a timing control unit launches is accepted. When the edge of a core hands out a launch, the control
  electronics take it in the state that the preflight of that edge has seen, with one reservation for each event: a
  conflict, an unknown gate, a bad measurement or a missed tick stops the edge itself, before anything of the
  core has changed.
\<close>

theorem launches_are_accepted:
  assumes "tcu_edge (\<lambda>b. bindE (device_events s i b) (\<lambda>b'. ce_preflight B b' (sim_device s))) now (sim_epoch s) c n
      = Inr (out, c', n', tr)" and "TcuOutput.launch out = Some b"
  shows "\<exists>b' d tr' actions. device_events s i b = Inr b' \<and> ce_accept B b' (sim_device s) = Inr (d, tr') \<and>
    reservations d = reservations (sim_device s) @ actions \<and> map sch_event actions = tr_events b'"
proof -
  from tcu_edge_preflight [OF assms] obtain b' where b': "device_events s i b = Inr b'" "ce_preflight B b' (sim_device s) = Inr ()"
    by auto
  then obtain actions rs where p: "ce_prepare B b' (sim_device s) = Inr (actions, rs)" by (auto simp: ce_preflight_def)
  then have "map sch_event actions = tr_events b'"
    by (auto simp: ce_prepare_def ce_resolve_def resolved_events)
  with b'(1) p show ?thesis by (simp add: ce_accept_eq)
qed

text \<open>The point of the timing control unit that is due at tick 20 launches an X gate.\<close>

definition ex_batch :: TriggeredEvents where
  "ex_batch = \<lparr>tr_epoch = 1, tr_label = 1, fire_tick = 20, tr_events = [example_event]\<rparr>"

lemma ex_fires:
  assumes "pf ex_batch = Inr ()"
  shows "\<exists>s' out tr. (\<forall>sp. tcu_step 20 1 None [] pf False sp example_armed = Inr (s', out, tr)) \<and>
    TcuOutput.launch out = Some ex_batch \<and> \<not> admitted out \<and> fast_delivered out = [] \<and> out_synchronizations out = []"
  using assms
  by (simp add: ex_batch_def example_step_simps example_start_def example_armed_def example_request_def
      example_tcu_def example_timing_def example_event_def example_action_def gather_queue_def gather_event_def
      select_event_def execution_flag_def om_find_Cons word_size64_def commit_trigger_def)

theorem launches_are_accepted_witness:
  "\<exists>(s :: MockBackend Simulator) c out c' n' tr d tr'.
     tcu_edge (\<lambda>b. bindE (device_events s 0 b) (\<lambda>b'. ce_preflight mock_backend b' (sim_device s))) 20 1 c
       \<lparr>net_clock = \<lparr>period = 20, phase = 0\<rparr>, net_links = []\<rparr> = Inr (out, c', n', tr) \<and>
     TcuOutput.launch out = Some ex_batch \<and> ce_accept mock_backend ex_batch session_start = Inr (d, tr') \<and> length (reservations d) = 1"
proof -
  obtain s0 :: "MockBackend Simulator" and c0 where "ex_sim = Inr s0"
    and "core_new (\<lambda>_. ''p'') 0 ex_profile ex_image Scalar 1 = Inr c0"
    using ex_start ex_core by blast
  define c where "c = c0\<lparr>core_id := 0, core_tcu := example_armed, core_links := links_reset (core_links c0), core_sync := sync_unit 0\<rparr>"
  define s where "s = s0\<lparr>sim_cores := [c], sim_device := session_start, sim_epoch := 1\<rparr>"
  have dev: "device_events s 0 ex_batch = Inr ex_batch" by (simp add: s_def c_def device_events_def)
  have "bindE (device_events s 0 ex_batch) (\<lambda>b'. ce_preflight mock_backend b' (sim_device s)) = Inr ()"
    unfolding dev by (simp add: s_def ce_preflight_def launch_simps session_start_def ex_batch_def example_event_def
        example_action_def)
  from ex_fires [of "\<lambda>b. bindE (device_events s 0 b) (\<lambda>b'. ce_preflight mock_backend b' (sim_device s))", OF this]
  obtain s' out tr where t: "\<And>sp. tcu_step 20 1 None [] (\<lambda>b. bindE (device_events s 0 b) (\<lambda>b'. ce_preflight mock_backend b' (sim_device s)))
      False sp example_armed = Inr (s', out, tr)" "TcuOutput.launch out = Some ex_batch" "\<not> admitted out"
    "fast_delivered out = []" "out_synchronizations out = []" by blast
  obtain c' n' tr' where e: "tcu_edge (\<lambda>b. bindE (device_events s 0 b) (\<lambda>b'. ce_preflight mock_backend b' (sim_device s))) 20 1 c
       \<lparr>net_clock = \<lparr>period = 20, phase = 0\<rparr>, net_links = []\<rparr> = Inr (out, c', n', tr')"
    using t(3-) t(1)
    by (simp add: tcu_edge_def su_step_def sync_unit_def c_def links_reset_def mb_reset_def peek_def take_all_def
      close_stream_def mb_take_def su_book_def su_preflight_def)
  have ep: "sim_epoch s = 1" "sim_device s = session_start" by (simp_all add: s_def)
  from launches_are_accepted [OF e [folded ep(1)] t(2)] dev obtain d tr2 actions where
    "ce_accept mock_backend ex_batch session_start = Inr (d, tr2)" "reservations d = actions" "map sch_event actions = [example_event]"
    by (auto simp: ep(2) session_start_def ex_batch_def)
  moreover from this have "length (reservations d) = 1" by auto
  ultimately show ?thesis using e t(2) by blast
qed

section \<open>The end of a run\<close>

definition ordered :: "'b Simulator \<Rightarrow> bool" where
  "ordered s \<longleftrightarrow> sorted (map ev_tick (log_events (sim_log s)))"

text \<open>What no process but the wake-up and the barrier changes.\<close>

definition same_run :: "'b Simulator \<Rightarrow> 'b Simulator \<Rightarrow> bool" where
  "same_run s t \<longleftrightarrow> sim_profile t = sim_profile s \<and> stopped t = stopped s \<and> success t = success s \<and>
     sim_fault t = sim_fault s \<and> wake t = wake s \<and> (ordered s \<longrightarrow> ordered t)"

lemma same_run_refl: "same_run s s"
  by (simp add: same_run_def)

lemma same_run_trans: "same_run s t \<Longrightarrow> same_run t u \<Longrightarrow> same_run s u"
  by (simp add: same_run_def)

lemma emit_ordered:
  assumes "emit e l = Inr l'" and "sorted (map ev_tick (log_events l))"
  shows "sorted (map ev_tick (log_events l'))"
proof (cases "log_events l" rule: rev_cases)
  case (snoc ys y)
  with assms(2) have "ev_tick x \<le> t" if "x \<in> set ys" "ev_tick y \<le> t" for x t
    using that by (auto simp: sorted_append intro: le_trans)
  with snoc assms show ?thesis by (auto simp: emit_def sorted_append split: if_splits)
qed (use assms in \<open>auto simp: emit_def split: if_splits\<close>)

lemma emits_ordered:
  assumes "foldE f tr l = Inr l'" and "\<And>e l l'. f e l = Inr l' \<Longrightarrow> \<exists>e'. emit e' l = Inr l'"
    and "sorted (map ev_tick (log_events l))"
  shows "sorted (map ev_tick (log_events l'))"
  by (rule foldE_invariant [OF assms(1)]) (use assms(2,3) emit_ordered in blast)+

lemma log_root_same:
  assumes "log_root tr s = Inr t"
  shows "same_run s t"
proof -
  from assms obtain l where l: "foldE emit tr (sim_log s) = Inr l" and t: "t = s\<lparr>sim_log := l\<rparr>"
    by (auto simp: log_root_def)
  have "ordered s \<Longrightarrow> ordered t" unfolding ordered_def t using emits_ordered [OF l] by auto
  then show ?thesis by (simp add: same_run_def t)
qed

lemma log_core_same:
  assumes "log_core c tr s = Inr t"
  shows "same_run s t"
proof -
  from assms obtain l where l: "foldE (emit_from (core_stamp s c)) tr (sim_log s) = Inr l" and t: "t = s\<lparr>sim_log := l\<rparr>"
    by (auto simp: log_core_def emit_all_def)
  have "ordered s \<Longrightarrow> ordered t" unfolding ordered_def t using emits_ordered [OF l] by (auto simp: emit_from_def)
  then show ?thesis by (simp add: same_run_def t)
qed

lemma same_run_upd [simp]:
  "same_run (s\<lparr>sim_cores := cs\<rparr>) t = same_run s t"
  "same_run (s\<lparr>sim_device := d\<rparr>) t = same_run s t"
  "same_run (s\<lparr>sim_network := n\<rparr>) t = same_run s t"
  "same_run (s\<lparr>sim_decoders := ds\<rparr>) t = same_run s t"
  "same_run (s\<lparr>sim_epoch := ep\<rparr>) t = same_run s t"
  "same_run (s\<lparr>last_reset := r\<rparr>) t = same_run s t"
  "same_run (s\<lparr>barrier_notified := b\<rparr>) t = same_run s t"
  "same_run s (t\<lparr>cpu_done := k\<rparr>) = same_run s t"
  "same_run s (t\<lparr>memory_done := k\<rparr>) = same_run s t"
  "same_run s (t\<lparr>tcu_done := k\<rparr>) = same_run s t"
  "same_run s (t\<lparr>barrier_notified := b\<rparr>) = same_run s t"
  by (simp_all add: same_run_def ordered_def)

lemma reset_at_same: "reset_at B now s = Inr (b, t) \<Longrightarrow> same_run s t"
  by (auto simp: reset_at_def same_run_refl dest!: log_root_same split: if_splits)

lemma one_cpu_edge_same: "one_cpu_edge B now i s = Inr t \<Longrightarrow> same_run s t"
  by (auto simp: one_cpu_edge_def Let_def same_run_refl dest!: log_core_same split: if_splits)

lemma one_memory_edge_same: "one_memory_edge now i s = Inr t \<Longrightarrow> same_run s t"
  by (auto simp: one_memory_edge_def Let_def same_run_refl dest!: log_root_same split: if_splits)

lemma one_tcu_edge_same:
  assumes "one_tcu_edge B now i s = Inr t"
  shows "same_run s t"
proof -
  from assms obtain out c' n tr s1 where e: "tcu_edge (\<lambda>b. bindE (device_events s i b) (\<lambda>b'. ce_preflight B b' (sim_device s)))
      now (sim_epoch s) (sim_cores s ! i) (sim_network s) = Inr (out, c', n, tr)"
    and lc: "log_core (sim_cores s ! i) tr (s\<lparr>sim_cores := (sim_cores s)[i := c'], sim_network := n\<rparr>) = Inr s1"
    and k: "(case TcuOutput.launch out of None \<Rightarrow> Inr s1
     | Some b \<Rightarrow> bindE (device_events s1 i b) (\<lambda>b'.
         bindE (ce_accept B b' (sim_device s1)) (\<lambda>(d, tr'). log_root tr' (s1\<lparr>sim_device := d\<rparr>)))) = Inr t"
    by (auto simp: one_tcu_edge_def Let_def)
  from log_core_same [OF lc] have "same_run s s1" by simp
  moreover from k have "same_run s1 t"
    by (auto simp: same_run_refl dest!: log_root_same split: option.splits)
  ultimately show ?thesis by (rule same_run_trans)
qed

lemma fold_same:
  assumes "foldE f is s = Inr t" and "\<And>i s t. f i s = Inr t \<Longrightarrow> same_run s t"
  shows "same_run s t"
  by (rule foldE_invariant [OF assms(1)]) (use assms(2) in \<open>blast intro: same_run_refl same_run_trans\<close>)+

lemma edges_same:
  assumes "bindE (reset_at B now s) (\<lambda>(b, s1). bindE (if b then Inr s1 else foldE f (is s1) s1) (\<lambda>s2. Inr (g s2))) = Inr t"
    and "\<And>i s t. f i s = Inr t \<Longrightarrow> same_run s t" and "\<And>u. same_run s (g u) = same_run s u"
  shows "same_run s t"
proof -
  from assms(1) obtain b s1 s2 where r: "reset_at B now s = Inr (b, s1)"
    and e: "(if b then Inr s1 else foldE f (is s1) s1) = Inr s2" and t: "t = g s2" by auto
  from e have "same_run s1 s2"
    by (cases b) (auto intro: same_run_refl fold_same assms(2))
  from same_run_trans [OF reset_at_same [OF r] this] show ?thesis by (simp add: t assms(3))
qed

lemma cpu_body_same: "cpu_edge_body B now s = Inr t \<Longrightarrow> same_run s t"
  unfolding cpu_edge_body_def by (erule edges_same) (simp_all add: one_cpu_edge_same)

lemma memory_body_same: "memory_edge_body B now s = Inr t \<Longrightarrow> same_run s t"
  unfolding memory_edge_body_def by (erule edges_same) (simp_all add: one_memory_edge_same)

lemma tcu_body_same: "tcu_edge_body B now s = Inr t \<Longrightarrow> same_run s t"
  unfolding tcu_edge_body_def Let_def by (erule edges_same) (simp_all add: one_tcu_edge_same)

lemma step_decoders_same: "step_decoders now s = Inr t \<Longrightarrow> same_run s t"
  by (auto simp: step_decoders_def same_run_refl dest!: log_root_same split: if_splits)

lemma process_device_same:
  assumes "process_device B now s = Inr t"
  shows "same_run s t"
proof -
  from assms obtain b s1 where r: "reset_at B now s = Inr (b, s1)" by (auto simp: process_device_def)
  with assms have "same_run s1 t"
    by (auto simp: process_device_def same_run_refl dest!: log_root_same split: if_splits)
  with reset_at_same [OF r] show ?thesis by (rule same_run_trans)
qed

lemma earliest3: "earliest a (earliest b (earliest c n)) \<le> n"
  by (meson earliest_le(1) order_trans)

lemma finalize_flushed: "ce_finalize B now d = Inr d' \<Longrightarrow> ce_drained d' \<and> bx_pending (ce_backend d') = []"
  by (auto simp: ce_finalize_def ce_drained_def bx_flush_def bx_execute_def split: if_splits sum.splits)

definition run_inv :: "Tick \<Rightarrow> 'b Simulator \<Rightarrow> bool" where
  "run_inv now s \<longleftrightarrow> now \<le> pf_watchdog (sim_profile s) \<and> ordered s \<and>
     (\<forall>w. wake s = Some w \<longrightarrow> now \<le> w \<and> w \<le> pf_watchdog (sim_profile s)) \<and>
     (if stopped s
      then success s \<and> sim_fault s = None \<and> all_drained s \<and> bx_pending (ce_backend (sim_device s)) = [] \<or>
        \<not> success s \<and> sim_fault s \<noteq> None
      else \<not> success s \<and> sim_fault s = None \<and> (settled now s \<longrightarrow> wake s \<noteq> None))"

lemma same_run_inv:
  assumes "run_inv now s" and "same_run s t" and "\<not> stopped s" and "\<not> settled now t"
  shows "run_inv now t"
  using assms by (auto simp: run_inv_def same_run_def)

lemma barrier_run_inv:
  assumes "run_inv now s" and "\<not> stopped s" and "barrier_body B now s = Inr t"
  shows "run_inv now t"
proof (cases "edges_done now (s\<lparr>barrier_notified := False\<rparr>)")
  case False
  with assms(3) have "t = s\<lparr>barrier_notified := False\<rparr>" by (simp add: barrier_body_def Let_def)
  moreover from this have "same_run s t" by (simp add: same_run_refl)
  ultimately show ?thesis using False same_run_inv [OF assms(1) _ assms(2)] by (auto simp: settled_def)
next
  case True
  with assms(3) obtain s1 s2 where s1: "step_decoders now (s\<lparr>barrier_notified := False\<rparr>) = Inr s1"
    and s2: "process_device B now s1 = Inr s2"
    and t: "(if all_drained s2 then complete_simulation B now s2
        else require (now < pf_watchdog (sim_profile s2)) Watchdog (schedule_wakeup now s2)) = Inr t"
    by (auto simp: barrier_body_def Let_def)
  have sm: "same_run s s2"
    using same_run_trans [OF step_decoders_same [OF s1] process_device_same [OF s2]] by simp
  show ?thesis
  proof (cases "all_drained s2")
    case True
    with t obtain d where d: "ce_finalize B now (sim_device s2) = Inr d"
      and l: "log_root [trace_event now (sim_epoch s2) ''SimulationCompleted'' 0 0 0]
        (s2\<lparr>sim_device := d, success := True, stopped := True\<rparr>) = Inr t"
      by (auto simp: complete_simulation_def)
    obtain lg where t': "t = s2\<lparr>sim_device := d, success := True, stopped := True, sim_log := lg\<rparr>"
      using log_root_frame [OF l] by blast
    have "ordered s2 \<Longrightarrow> ordered t" using log_root_same [OF l] by (simp add: same_run_def ordered_def)
    with sm assms(1,2) True finalize_flushed [OF d] show ?thesis
      by (auto simp: run_inv_def same_run_def t' all_drained_def)
  next
    case False
    with t have "now < pf_watchdog (sim_profile s2)" and "schedule_wakeup now s2 = Inr t" by (auto split: if_splits)
    then obtain w where w: "t = s2\<lparr>wake := Some w\<rparr>" "now < w" "w \<le> pf_watchdog (sim_profile s2)"
      using earliest3 [of _ _ _ "pf_watchdog (sim_profile s2)"] by (auto simp: schedule_wakeup_def Let_def)
    have "ordered t = ordered s2" by (simp add: ordered_def w)
    with sm assms(1,2) w show ?thesis by (auto simp: run_inv_def same_run_def)
  qed
qed

lemma process_run_inv:
  assumes "run_inv now s" and "process_step B now s t"
  shows "run_inv now t"
proof (cases "stopped s")
  case True
  with assms(2) have "t = s"
    by cases (simp_all add: sim_cpu_edge_def sim_memory_edge_def sim_tcu_edge_def sim_wakeup_def sim_barrier_def process_def)
  with assms(1) show ?thesis by simp
next
  case False
  have run: "run_inv now (process now body s)" if "\<And>u. body s = Inr u \<Longrightarrow> run_inv now u" for body
  proof (cases "body s")
    case (Inl e)
    have "same_run (s\<lparr>sim_fault := Some e, stopped := True\<rparr>) (fail now e s)"
      by (cases "emit (fault_event now e s) (sim_log s)")
        (auto simp: same_run_def fail_def ordered_def dest: emit_ordered)
    with False Inl assms(1) show ?thesis by (simp add: process_def run_inv_def same_run_def ordered_def)
  qed (use that False in \<open>simp add: process_def\<close>)
  from assms(2) show ?thesis
  proof cases
    case cpu
    have "run_inv now u" if "cpu_edge_body B now s = Inr u" for u
      using cpu_body_same [OF that] same_run_inv [OF assms(1) _ False] that by (auto simp: cpu_edge_body_def settled_def)
    with cpu run show ?thesis by (simp add: sim_cpu_edge_def)
  next
    case memory
    have "run_inv now u" if "memory_edge_body B now s = Inr u" for u
      using memory_body_same [OF that] same_run_inv [OF assms(1) _ False] that by (auto simp: memory_edge_body_def settled_def)
    with memory run show ?thesis by (simp add: sim_memory_edge_def)
  next
    case tcu
    have "run_inv now u" if "tcu_edge_body B now s = Inr u" for u
      using tcu_body_same [OF that] same_run_inv [OF assms(1) _ False] that by (auto simp: tcu_edge_body_def Let_def settled_def)
    with tcu run show ?thesis by (simp add: sim_tcu_edge_def)
  next
    case wakeup
    have "run_inv now u" if "wakeup_body B now s = Inr u" for u
    proof -
      from that obtain b s1 where "reset_at B now (s\<lparr>wake := None\<rparr>) = Inr (b, s1)" and u: "u = s1\<lparr>barrier_notified := True\<rparr>"
        by (auto simp: wakeup_body_def)
      from reset_at_same [OF this(1)] assms(1) False show ?thesis
        by (auto simp: u run_inv_def same_run_def ordered_def settled_def)
    qed
    with wakeup run show ?thesis by (simp add: sim_wakeup_def)
  next
    case barrier
    with run barrier_run_inv [OF assms(1) False] show ?thesis by (simp add: sim_barrier_def)
  qed
qed

lemma start_run_inv:
  assumes "simulator fingerprint B configs connections backend resets rev_order limit decoding = Inr s"
  shows "run_inv 0 s"
proof -
  from assms obtain s0 tr s1 where s0: "log_root tr s0 = Inr s1" "schedule_wakeup 0 s1 = Inr s"
    and f: "ordered s0" "\<not> stopped s0" "\<not> success s0" "sim_fault s0 = None"
    by (auto simp: simulator_def ordered_def)
  with log_root_same [OF s0(1)] earliest3 show ?thesis
    by (auto simp: run_inv_def schedule_wakeup_def Let_def same_run_def ordered_def)
qed

lemma run_inv_runs: "sim_run B s now \<Longrightarrow> run_inv now s"
proof (induction rule: sim_run.induct)
  case (advance s now w t)
  then show ?case by (auto simp: run_inv_def)
qed (auto intro: start_run_inv process_run_inv)

lemma watchdog_stops:
  assumes "edges_done (pf_watchdog (sim_profile s)) s"
  shows "stopped (sim_barrier B (pf_watchdog (sim_profile s)) s)"
proof -
  let ?w = "pf_watchdog (sim_profile s)"
  have "stopped t" if b: "barrier_body B ?w s = Inr t" for t
  proof -
    have "edges_done ?w (s\<lparr>barrier_notified := False\<rparr>)" using assms by (simp add: edges_done_def)
    with b obtain s1 s2 where s1: "step_decoders ?w (s\<lparr>barrier_notified := False\<rparr>) = Inr s1"
      and s2: "process_device B ?w s1 = Inr s2"
      and t: "(if all_drained s2 then complete_simulation B ?w s2
        else require (?w < pf_watchdog (sim_profile s2)) Watchdog (schedule_wakeup ?w s2)) = Inr t"
      by (auto simp: barrier_body_def Let_def)
    have "sim_profile s2 = sim_profile s"
      using same_run_trans [OF step_decoders_same [OF s1] process_device_same [OF s2]] by (simp add: same_run_def)
    with t show ?thesis
      by (auto simp: complete_simulation_def dest!: log_root_frame split: if_splits)
  qed
  then show ?thesis by (auto simp: sim_barrier_def process_def fail_def split: sum.split)
qed

text \<open>
  C9. Every run ends. No run passes the watchdog tick; a simulation that has not stopped when a tick is over has a
  wake-up to go on to, at the latest at the watchdog, so it is never stuck; and the barrier of the watchdog tick
  stops the simulation, whatever its state.
\<close>

theorem runs_end:
  assumes "sim_run B s now"
  shows "now \<le> pf_watchdog (sim_profile s) \<and>
    (\<not> stopped s \<and> settled now s \<longrightarrow> (\<exists>w. wake s = Some w \<and> now \<le> w \<and> w \<le> pf_watchdog (sim_profile s))) \<and>
    (now = pf_watchdog (sim_profile s) \<and> edges_done now s \<longrightarrow> stopped (sim_barrier B now s))"
  using run_inv_runs [OF assms] watchdog_stops by (auto simp: run_inv_def)

text \<open>
  C8. A simulation ends in exactly one way. It is stopped exactly when it succeeded or faulted, never both; success
  means that every core, the network, the decoders and the electronics are drained and every operation has been
  handed to the backend; the trace is in the order of time; and once stopped, no process changes anything.
\<close>

theorem simulation_outcome:
  assumes "sim_run B s now"
  shows "(stopped s \<longleftrightarrow> success s \<or> sim_fault s \<noteq> None) \<and> \<not> (success s \<and> sim_fault s \<noteq> None) \<and>
    (success s \<longrightarrow> all_drained s \<and> bx_pending (ce_backend (sim_device s)) = []) \<and>
    sorted (map ev_tick (log_events (sim_log s))) \<and>
    (stopped s \<longrightarrow> (\<forall>s'. process_step B now s s' \<longrightarrow> s' = s))"
proof -
  have "s' = s" if "stopped s" "process_step B now s s'" for s'
    using that(2,1)
    by cases (simp_all add: sim_cpu_edge_def sim_memory_edge_def sim_tcu_edge_def sim_wakeup_def sim_barrier_def process_def)
  then show ?thesis using run_inv_runs [OF assms] by (auto simp: run_inv_def ordered_def split: if_splits)
qed

theorem runs_end_witness: 
  "\<exists>s. sim_run mock_backend s 7 \<and> \<not> stopped s \<and> wake s = Some 50 \<and> 7 \<le> pf_watchdog (sim_profile s)"
  using ex_run runs_end [of mock_backend _ 7] by blast

theorem simulation_outcome_witness: 
  "\<exists>s. sim_run mock_backend s 7 \<and> \<not> stopped s \<and> \<not> success s \<and> sim_fault s = None"
  using ex_run simulation_outcome [of mock_backend _ 7] by blast

end
