(* ===== verification/Config_Json.thy ===== *)
theory Config_Json
  imports Profiles "HOL-Library.Log_Nat"
begin

text \<open>
  Profiles as JSON values, \<^verbatim>\<open>src/config_json.cpp\<close>. \<open>Json\<close> is a value of the JSON library, as
  its documentation has it: integers built from unsigned and from signed C++ integers are distinguished,
  an object is the list of its members (the order of the members makes no difference to any access), and an access
  at the wrong type throws an exception of the library, \<open>LibraryError\<close>, which is not a \<open>Fault\<close>.
\<close>

datatype Json =
    JNull
  | JBool bool
  | JUint nat
  | JInt int
  | JFloat Double
  | JString string
  | JArray "Json list"
  | JObject "(string \<times> Json) list"

datatype config_error = ProfileFault ErrorCode | LibraryError

type_synonym 'a config = "config_error + 'a"

definition ensure :: "bool \<Rightarrow> 'a config \<Rightarrow> 'a config" where
  "ensure b m = (if b then m else Inl (ProfileFault InvalidProfile))"

fun as_fault :: "'a result \<Rightarrow> 'a config" where
  "as_fault (Inl e) = Inl (ProfileFault e)"
| "as_fault (Inr x) = Inr x"

lemma ensure_Inr [simp, result_simps]: "ensure b m = Inr x \<longleftrightarrow> b \<and> m = Inr x"
  by (simp add: ensure_def)

lemma ensure_True [simp]: "ensure True m = m"
  by (simp add: ensure_def)

lemma as_fault_Inr [simp]: "as_fault m = Inr x \<longleftrightarrow> m = Inr x"
  by (cases m) simp_all

section \<open>Access to JSON values\<close>

fun member :: "string \<Rightarrow> Json \<Rightarrow> Json option" where
  "member k (JObject m) = map_of m k"
| "member k _ = None"

fun is_object :: "Json \<Rightarrow> bool" where
  "is_object (JObject _) = True"
| "is_object _ = False"

fun member_names :: "Json \<Rightarrow> string list" where
  "member_names (JObject m) = map fst m"
| "member_names _ = []"

text \<open>The elements of an array; anything else is rejected before they are looked at.\<close>

fun elements :: "Json \<Rightarrow> Json list config" where
  "elements (JArray xs) = Inr xs"
| "elements _ = Inl (ProfileFault InvalidProfile)"

text \<open>An integer as a \<^verbatim>\<open>double\<close>: rounded to 53 bits, to the even one of two nearest values.\<close>

fun double_of :: "nat \<Rightarrow> int \<Rightarrow> int \<Rightarrow> Double" where
  "double_of 0 m e = Finite m e"
| "double_of (Suc n) m e = (if m \<noteq> 0 \<and> even m then double_of n (m div 2) (e + 1) else Finite m e)"

definition round_to_53 :: "int \<Rightarrow> int" where
  "round_to_53 m =
     (if bitlen m \<le> 53 then m
      else let unit = 2 ^ nat (bitlen m - 53); q = m div unit; r = m mod unit in
        unit * (if 2 * r > unit \<or> 2 * r = unit \<and> odd q then q + 1 else q))"

definition int_to_double :: "int \<Rightarrow> Double" where
  "int_to_double i = double_of 1100 (sgn i * round_to_53 \<bar>i\<bar>) 0"

fun get_string :: "Json \<Rightarrow> string config" where
  "get_string (JString s) = Inr s"
| "get_string _ = Inl LibraryError"

fun get_bool :: "Json \<Rightarrow> bool config" where
  "get_bool (JBool b) = Inr b"
| "get_bool _ = Inl LibraryError"

fun get_double :: "Json \<Rightarrow> Double config" where
  "get_double (JFloat d) = Inr d"
| "get_double (JUint n) = Inr (int_to_double (int n))"
| "get_double (JInt i) = Inr (int_to_double i)"
| "get_double _ = Inl LibraryError"

text \<open>\<^verbatim>\<open>object.value(key, default)\<close>.\<close>

definition value_or :: "(Json \<Rightarrow> 'a config) \<Rightarrow> string \<Rightarrow> 'a \<Rightarrow> Json \<Rightarrow> 'a config" where
  "value_or get k d j = (case member k j of None \<Rightarrow> Inr d | Some v \<Rightarrow> get v)"

fun equals_one :: "Json \<Rightarrow> bool" where
  "equals_one (JUint n) = (n = 1)"
| "equals_one (JInt i) = (i = 1)"
| "equals_one (JFloat d) = (d = Finite 1 0)"
| "equals_one _ = False"

section \<open>Reading\<close>

definition keys :: "string list \<Rightarrow> Json \<Rightarrow> unit config" where
  "keys allowed j = ensure (is_object j) (ensure (set (member_names j) \<subseteq> set allowed) (Inr ()))"

definition integer :: "nat \<Rightarrow> string \<Rightarrow> Json \<Rightarrow> nat \<Rightarrow> nat config" where
  "integer limit k j old = (case member k j of
      None \<Rightarrow> Inr old
    | Some (JUint n) \<Rightarrow> ensure (n \<le> limit) (Inr n)
    | Some (JInt i) \<Rightarrow> ensure (0 \<le> i) (ensure (nat i \<le> limit) (Inr (nat i)))
    | Some _ \<Rightarrow> Inl (ProfileFault InvalidProfile))"

definition integer64 :: "string \<Rightarrow> Json \<Rightarrow> Tick \<Rightarrow> Tick config" where
  "integer64 = integer tick_max"

definition integer32 :: "string \<Rightarrow> Json \<Rightarrow> u32 \<Rightarrow> u32 config" where
  "integer32 k j old = bindE (integer 0xffffffff k j (unat old)) (\<lambda>n. Inr (of_nat n))"

definition kind_value :: "string \<Rightarrow> ActionKind config" where
  "kind_value name =
     (if name = ''gate'' then Inr IdealGate
      else if name = ''pulse'' then Inr Pulse
      else if name = ''acquire'' then Inr Acquire
      else if name = ''arm'' then Inr DiscriminatorArm
      else if name = ''gate_output'' then Inr GateOutput
      else Inl (ProfileFault InvalidProfile))"

fun kind_name :: "ActionKind \<Rightarrow> string" where
  "kind_name IdealGate = ''gate''"
| "kind_name Pulse = ''pulse''"
| "kind_name Acquire = ''acquire''"
| "kind_name DiscriminatorArm = ''arm''"
| "kind_name GateOutput = ''gate_output''"

fun flag_name :: "ExecutionFlag \<Rightarrow> string" where
  "flag_name Always = ''always''"
| "flag_name LastOne = ''last_one''"
| "flag_name LastZero = ''last_zero''"
| "flag_name Equal = ''equal''"

definition flag_value :: "string \<Rightarrow> ExecutionFlag config" where
  "flag_value name = (case find (\<lambda>f. flag_name f = name) [Always, LastOne, LastZero, Equal] of
      None \<Rightarrow> Inl (ProfileFault InvalidProfile)
    | Some f \<Rightarrow> Inr f)"

definition apply_clock :: "string \<Rightarrow> Json \<Rightarrow> Clock \<Rightarrow> Clock config" where
  "apply_clock k j c = (case member k j of
      None \<Rightarrow> Inr c
    | Some v \<Rightarrow>
        bindE (keys [''period'', ''phase''] v) (\<lambda>_.
        bindE (integer64 ''period'' v (period c)) (\<lambda>n.
        bindE (integer64 ''phase'' v (phase c)) (\<lambda>m.
        Inr (c\<lparr>period := n, phase := m\<rparr>)))))"

definition set64 ::
  "string \<Rightarrow> (Profile \<Rightarrow> Tick) \<Rightarrow> ((Tick \<Rightarrow> Tick) \<Rightarrow> Profile \<Rightarrow> Profile) \<Rightarrow> Json \<Rightarrow> Profile \<Rightarrow> Profile config" where
  "set64 k get upd j p = bindE (integer64 k j (get p)) (\<lambda>n. Inr (upd (\<lambda>_. n) p))"

definition set32 ::
  "string \<Rightarrow> (Profile \<Rightarrow> u32) \<Rightarrow> ((u32 \<Rightarrow> u32) \<Rightarrow> Profile \<Rightarrow> Profile) \<Rightarrow> Json \<Rightarrow> Profile \<Rightarrow> Profile config" where
  "set32 k get upd j p = bindE (integer32 k j (get p)) (\<lambda>n. Inr (upd (\<lambda>_. n) p))"

definition number_fields :: "(Json \<Rightarrow> Profile \<Rightarrow> Profile config) list" where
  "number_fields =
     [set64 ''start'' pf_start pf_start_update, set64 ''watchdog'' pf_watchdog pf_watchdog_update,
      set32 ''memory_latency'' memory_latency memory_latency_update,
      set32 ''command_latency'' command_latency command_latency_update,
      set32 ''reply_latency'' reply_latency reply_latency_update,
      set32 ''cpu_result_latency'' cpu_result_latency cpu_result_latency_update,
      set32 ''fast_result_latency'' fast_result_latency fast_result_latency_update,
      set32 ''timing_capacity'' timing_capacity timing_capacity_update,
      set32 ''event_capacity'' event_capacity event_capacity_update,
      set32 ''staging_capacity'' staging_capacity staging_capacity_update,
      set32 ''result_capacity'' result_capacity result_capacity_update,
      set32 ''ports'' pf_ports pf_ports_update, set32 ''qubits'' pf_qubits pf_qubits_update,
      set32 ''firing_width'' firing_width firing_width_update, set32 ''seed'' pf_seed pf_seed_update]"

definition read_target :: "Json \<Rightarrow> u32 config" where
  "read_target v = integer32 ''target'' (JObject [(''target'', v)]) 0"

definition read_resource :: "Json \<Rightarrow> ResourceUse config" where
  "read_resource v =
     bindE (keys [''id'', ''exclusive''] v) (\<lambda>_.
     ensure (member ''id'' v \<noteq> None) (
     bindE (integer32 ''id'' v 0) (\<lambda>i.
     bindE (value_or get_bool ''exclusive'' True v) (\<lambda>x.
     Inr \<lparr>res_id = i, exclusive = x\<rparr>))))"

definition read_resources :: "Json \<Rightarrow> ResourceUse list config" where
  "read_resources j = (case member ''resources'' j of
      None \<Rightarrow> Inr []
    | Some v \<Rightarrow> bindE (elements v) (mapE read_resource))"

definition read_input :: "Json \<Rightarrow> GateInput config" where
  "read_input v =
     bindE (keys [''core'', ''port'', ''codeword''] v) (\<lambda>_.
     ensure (member ''core'' v \<noteq> None \<and> member ''port'' v \<noteq> None \<and> member ''codeword'' v \<noteq> None) (
     bindE (integer32 ''core'' v 0) (\<lambda>c.
     bindE (integer32 ''port'' v 0) (\<lambda>p.
     bindE (integer32 ''codeword'' v 0) (\<lambda>w.
     Inr \<lparr>in_core = c, in_port = p, in_codeword = w\<rparr>)))))"

text \<open>The elements of a member that was found to be an array.\<close>

definition array_of :: "string \<Rightarrow> Json \<Rightarrow> Json list config" where
  "array_of k j = (case member k j of Some v \<Rightarrow> elements v | None \<Rightarrow> Inl (ProfileFault InvalidProfile))"

definition text_of :: "string \<Rightarrow> Json \<Rightarrow> string config" where
  "text_of k j = (case member k j of Some v \<Rightarrow> get_string v | None \<Rightarrow> Inl (ProfileFault InvalidProfile))"

definition read_gate :: "Json \<Rightarrow> TwoQubitGate config" where
  "read_gate j =
     bindE (keys [''name'', ''operation'', ''targets'', ''inputs'', ''resources'', ''duration''] j) (\<lambda>_.
     ensure (member ''name'' j \<noteq> None \<and> member ''operation'' j \<noteq> None \<and> member ''duration'' j \<noteq> None) (
     bindE (array_of ''targets'' j) (\<lambda>ts.
     bindE (array_of ''inputs'' j) (\<lambda>ins.
     bindE (text_of ''name'' j) (\<lambda>name.
     bindE (text_of ''operation'' j) (\<lambda>op.
     bindE (integer64 ''duration'' j 20) (\<lambda>d.
     bindE (mapE read_target ts) (\<lambda>targets.
     bindE (mapE read_input ins) (\<lambda>inputs.
     bindE (read_resources j) (\<lambda>rs.
     Inr \<lparr>tq_name = name, tq_operation = op, tq_targets = targets, tq_inputs = inputs, tq_resources = rs,
          tq_duration = d\<rparr>))))))))))"

definition read_operands :: "Json \<Rightarrow> (string \<times> QuantumOperands) config" where
  "read_operands j =
     bindE (value_or get_string ''operation'' ''x'' j) (\<lambda>op.
     bindE (array_of ''targets'' j) (\<lambda>ts.
     bindE (mapE read_target ts) (\<lambda>targets.
     bindE (read_resources j) (\<lambda>rs.
     Inr (op, \<lparr>op_targets = targets, op_resources = rs\<rparr>)))))"

definition read_flag :: "Json \<Rightarrow> ExecutionFlag config" where
  "read_flag j = bindE (value_or get_string ''execution_flag'' ''always'' j) flag_value"

definition action_keys :: "ActionKind \<Rightarrow> string list" where
  "action_keys k = [''kind'', ''port'', ''delay'', ''duration''] @ (case k of
      IdealGate \<Rightarrow> [''operation'', ''targets'', ''resources'', ''amplitude'', ''execution_flag'']
    | Pulse \<Rightarrow> [''operation'', ''targets'', ''resources'', ''amplitude'', ''axis'', ''execution_flag'']
    | Acquire \<Rightarrow> [''operation'', ''targets'', ''resources'', ''discriminator_delay'', ''separate_arm'']
    | DiscriminatorArm \<Rightarrow> [''operation'', ''targets'', ''resources'']
    | GateOutput \<Rightarrow> [''gate''])"

definition read_spec :: "ActionKind \<Rightarrow> string \<Rightarrow> Json \<Rightarrow> ActionSpec config" where
  "read_spec k gate j = (case k of
      IdealGate \<Rightarrow>
        bindE (read_operands j) (\<lambda>(op, ops).
        bindE (value_or get_double ''amplitude'' (Finite 0 0) j) (\<lambda>a.
        bindE (read_flag j) (\<lambda>f.
        Inr (SpecGate \<lparr>gate_operation = op, gate_operands = ops, gate_amplitude = a, gate_flag = f\<rparr>))))
    | Pulse \<Rightarrow>
        bindE (read_operands j) (\<lambda>(op, ops).
        bindE (value_or get_double ''amplitude'' (Finite 0 0) j) (\<lambda>a.
        bindE (value_or get_string ''axis'' ''x'' j) (\<lambda>x.
        bindE (read_flag j) (\<lambda>f.
        Inr (SpecPulse \<lparr>pulse_operation = op, pulse_operands = ops, pulse_amplitude = a, pulse_axis = x, pulse_flag = f\<rparr>)))))
    | Acquire \<Rightarrow>
        bindE (read_operands j) (\<lambda>(op, ops).
        bindE (integer64 ''discriminator_delay'' j 20) (\<lambda>d.
        bindE (value_or get_bool ''separate_arm'' False j) (\<lambda>s.
        Inr (SpecAcquire \<lparr>acquire_operation = op, acquire_operands = ops, discriminator_delay = d, separate_arm = s\<rparr>))))
    | DiscriminatorArm \<Rightarrow>
        bindE (read_operands j) (\<lambda>(op, ops). Inr (SpecArm \<lparr>arm_operation = op, arm_operands = ops\<rparr>))
    | GateOutput \<Rightarrow> Inr (SpecOutput \<lparr>output_gate = gate\<rparr>))"

text \<open>The gate an output belongs to and the default of the duration, which is then the gate's.\<close>

definition read_gate_name :: "Profile \<Rightarrow> ActionKind \<Rightarrow> Json \<Rightarrow> (string \<times> Tick) config" where
  "read_gate_name p k j =
     (if k = GateOutput
      then bindE (value_or get_string ''gate'' [] j) (\<lambda>name.
           bindE (as_fault (profile_gate p name)) (\<lambda>g. Inr (name, tq_duration g)))
      else Inr ([], 20))"

definition read_action :: "Profile \<Rightarrow> u32 \<Rightarrow> Json \<Rightarrow> EventSpec config" where
  "read_action p port j =
     ensure (is_object j) (
     bindE (value_or get_string ''kind'' ''gate'' j) (\<lambda>name.
     bindE (kind_value name) (\<lambda>k.
     bindE (keys (action_keys k) j) (\<lambda>_.
     bindE (read_gate_name p k j) (\<lambda>(gate, default_duration).
     bindE (integer32 ''port'' j port) (\<lambda>n.
     bindE (integer64 ''delay'' j 0) (\<lambda>delay.
     bindE (integer64 ''duration'' j default_duration) (\<lambda>d.
     bindE (read_spec k gate j) (\<lambda>s.
     Inr \<lparr>es_port = n, es_delay = delay, es_duration = d, spec = s\<rparr>)))))))))"

definition read_mapping :: "Profile \<Rightarrow> Json \<Rightarrow> Mapping config" where
  "read_mapping p j =
     bindE (keys [''port'', ''codeword'', ''actions''] j) (\<lambda>_.
     ensure (member ''port'' j \<noteq> None \<and> member ''codeword'' j \<noteq> None \<and> member ''actions'' j \<noteq> None) (
     bindE (integer32 ''port'' j 0) (\<lambda>port.
     bindE (integer32 ''codeword'' j 0) (\<lambda>w.
     bindE (array_of ''actions'' j) (\<lambda>as.
     bindE (mapE (read_action p port) as) (\<lambda>actions.
     Inr \<lparr>map_port = port, map_codeword = w, map_actions = actions\<rparr>))))))"

definition profile_keys :: "string list" where
  "profile_keys = [''schema'', ''cpu'', ''tcu'', ''start'', ''watchdog'', ''memory_latency'', ''command_latency'',
     ''reply_latency'', ''cpu_result_latency'', ''fast_result_latency'', ''timing_capacity'', ''event_capacity'',
     ''staging_capacity'', ''result_capacity'', ''ports'', ''qubits'', ''firing_width'', ''seed'', ''fast_feedback'',
     ''mappings'', ''two_qubit_gates'']"

definition apply_profile :: "Profile \<Rightarrow> Json \<Rightarrow> Profile config" where
  "apply_profile p0 j =
     bindE (keys profile_keys j) (\<lambda>_.
     ensure (case member ''schema'' j of None \<Rightarrow> True | Some v \<Rightarrow> equals_one v) (
     bindE (apply_clock ''cpu'' j (pf_cpu p0)) (\<lambda>cpu.
     bindE (apply_clock ''tcu'' j (pf_tcu p0)) (\<lambda>tcu.
     bindE (foldE (\<lambda>f. f j) number_fields (p0\<lparr>pf_cpu := cpu, pf_tcu := tcu\<rparr>)) (\<lambda>p1.
     bindE (value_or get_bool ''fast_feedback'' (pf_fast_feedback p1) j) (\<lambda>ff.
     bindE (case member ''two_qubit_gates'' j of
              None \<Rightarrow> Inr (two_qubit_gates p1)
            | Some v \<Rightarrow> bindE (elements v) (mapE read_gate)) (\<lambda>gs.
     let p2 = p1\<lparr>pf_fast_feedback := ff, two_qubit_gates := gs\<rparr> in
     bindE (case member ''mappings'' j of
              None \<Rightarrow> Inr (pf_mappings p2)
            | Some v \<Rightarrow> bindE (elements v) (mapE (read_mapping p2))) (\<lambda>ms.
     let p3 = p2\<lparr>pf_mappings := ms\<rparr> in
     bindE (as_fault (profile_validate p3)) (\<lambda>_. Inr p3)))))))))"

section \<open>Writing\<close>

definition word_json :: "u32 \<Rightarrow> Json" where
  "word_json w = JUint (unat w)"

definition clock_json :: "Clock \<Rightarrow> Json" where
  "clock_json c = JObject [(''period'', JUint (period c)), (''phase'', JUint (phase c))]"

definition resource_json :: "ResourceUse \<Rightarrow> Json" where
  "resource_json r = JObject [(''id'', word_json (res_id r)), (''exclusive'', JBool (exclusive r))]"

definition input_json :: "GateInput \<Rightarrow> Json" where
  "input_json i = JObject [(''core'', word_json (in_core i)), (''port'', word_json (in_port i)),
     (''codeword'', word_json (in_codeword i))]"

definition gate_json :: "TwoQubitGate \<Rightarrow> Json" where
  "gate_json g = JObject [(''name'', JString (tq_name g)), (''operation'', JString (tq_operation g)),
     (''targets'', JArray (map word_json (tq_targets g))), (''duration'', JUint (tq_duration g)),
     (''inputs'', JArray (map input_json (tq_inputs g))), (''resources'', JArray (map resource_json (tq_resources g)))]"

definition operands_json :: "string \<Rightarrow> QuantumOperands \<Rightarrow> (string \<times> Json) list" where
  "operands_json op q = [(''operation'', JString op), (''targets'', JArray (map word_json (op_targets q))),
     (''resources'', JArray (map resource_json (op_resources q)))]"

fun spec_json :: "ActionSpec \<Rightarrow> (string \<times> Json) list" where
  "spec_json (SpecGate g) = operands_json (gate_operation g) (gate_operands g) @
     [(''amplitude'', JFloat (gate_amplitude g)), (''execution_flag'', JString (flag_name (gate_flag g)))]"
| "spec_json (SpecPulse s) = operands_json (pulse_operation s) (pulse_operands s) @
     [(''amplitude'', JFloat (pulse_amplitude s)), (''axis'', JString (pulse_axis s)),
      (''execution_flag'', JString (flag_name (pulse_flag s)))]"
| "spec_json (SpecAcquire q) = operands_json (acquire_operation q) (acquire_operands q) @
     [(''discriminator_delay'', JUint (discriminator_delay q)), (''separate_arm'', JBool (separate_arm q))]"
| "spec_json (SpecArm d) = operands_json (arm_operation d) (arm_operands d)"
| "spec_json (SpecOutput o1) = [(''gate'', JString (output_gate o1))]"

definition action_json :: "EventSpec \<Rightarrow> Json" where
  "action_json a = JObject ([(''kind'', JString (kind_name (kind a))), (''port'', word_json (es_port a)),
     (''delay'', JUint (es_delay a)), (''duration'', JUint (es_duration a))] @ spec_json (spec a))"

definition mapping_json :: "Mapping \<Rightarrow> Json" where
  "mapping_json m = JObject [(''port'', word_json (map_port m)), (''codeword'', word_json (map_codeword m)),
     (''actions'', JArray (map action_json (map_actions m)))]"

definition profile_json :: "Profile \<Rightarrow> Json" where
  "profile_json p = JObject
     [(''schema'', JInt 1), (''cpu'', clock_json (pf_cpu p)), (''tcu'', clock_json (pf_tcu p)),
      (''start'', JUint (pf_start p)), (''watchdog'', JUint (pf_watchdog p)),
      (''memory_latency'', word_json (memory_latency p)), (''command_latency'', word_json (command_latency p)),
      (''reply_latency'', word_json (reply_latency p)), (''cpu_result_latency'', word_json (cpu_result_latency p)),
      (''fast_result_latency'', word_json (fast_result_latency p)), (''timing_capacity'', word_json (timing_capacity p)),
      (''event_capacity'', word_json (event_capacity p)), (''staging_capacity'', word_json (staging_capacity p)),
      (''result_capacity'', word_json (result_capacity p)), (''ports'', word_json (pf_ports p)),
      (''qubits'', word_json (pf_qubits p)), (''firing_width'', word_json (firing_width p)), (''seed'', word_json (pf_seed p)),
      (''fast_feedback'', JBool (pf_fast_feedback p)),
      (''mappings'', JArray (map mapping_json (pf_mappings p))),
      (''two_qubit_gates'', JArray (map gate_json (two_qubit_gates p)))]"

section \<open>Reading what was written\<close>

definition action_typed :: "EventSpec \<Rightarrow> bool" where
  "action_typed a \<longleftrightarrow> es_delay a \<le> tick_max \<and> es_duration a \<le> tick_max \<and>
     (case spec a of SpecAcquire q \<Rightarrow> discriminator_delay q \<le> tick_max | _ \<Rightarrow> True)"

text \<open>The ticks of a profile fit their 64 bits.\<close>

definition profile_typed :: "Profile \<Rightarrow> bool" where
  "profile_typed p \<longleftrightarrow> period (pf_cpu p) \<le> tick_max \<and> phase (pf_cpu p) \<le> tick_max \<and> period (pf_tcu p) \<le> tick_max \<and>
     phase (pf_tcu p) \<le> tick_max \<and> pf_start p \<le> tick_max \<and> pf_watchdog p \<le> tick_max \<and>
     list_all (\<lambda>g. tq_duration g \<le> tick_max) (two_qubit_gates p) \<and>
     list_all (\<lambda>m. list_all action_typed (map_actions m)) (pf_mappings p)"

lemma integer64_read: "member k j = Some (JUint n) \<Longrightarrow> n \<le> tick_max \<Longrightarrow> integer64 k j old = Inr n"
  by (simp add: integer64_def integer_def)

lemma integer32_read: "member k j = Some (word_json w) \<Longrightarrow> integer32 k j old = Inr w"
proof -
  have "unat w < 2 ^ LENGTH(32)" for w :: u32 by (rule unsigned_less)
  then have "unat w \<le> 0xffffffff" for w :: u32 by (simp add: less_Suc_eq_le [symmetric])
  then show "member k j = Some (word_json w) \<Longrightarrow> integer32 k j old = Inr w"
    by (simp add: integer32_def integer_def word_json_def)
qed

lemma mapE_read: "(\<And>x. x \<in> set xs \<Longrightarrow> f (g x) = Inr x) \<Longrightarrow> mapE f (map g xs) = Inr xs"
  by (induction xs) simp_all

lemma read_target_json [simp]: "read_target (word_json w) = Inr w"
  by (simp add: read_target_def integer32_read)

lemma read_resource_json [simp]: "read_resource (resource_json r) = Inr r"
  by (simp add: read_resource_def resource_json_def keys_def integer32_read value_or_def)

lemma read_input_json [simp]: "read_input (input_json i) = Inr i"
  by (simp add: read_input_def input_json_def keys_def integer32_read)

lemma read_gate_json: "tq_duration g \<le> tick_max \<Longrightarrow> read_gate (gate_json g) = Inr g"
  by (simp add: read_gate_def gate_json_def keys_def array_of_def text_of_def integer64_read mapE_read read_resources_def)

lemma flag_value_name [simp]: "flag_value (flag_name f) = Inr f"
  by (cases f) (simp_all add: flag_value_def)

lemma kind_value_name [simp]: "kind_value (kind_name k) = Inr k"
  by (cases k) (simp_all add: kind_value_def)

lemmas read_action_simps = read_action_def action_json_def kind_def keys_def action_keys_def value_or_def read_gate_name_def
  integer32_read integer64_read action_typed_def read_spec_def read_operands_def operands_json_def array_of_def mapE_read
  read_resources_def read_flag_def kind_value_def

lemma read_action_json:
  assumes "action_typed a"
    and "\<And>o1. spec a = SpecOutput o1 \<Longrightarrow> \<exists>g. profile_gate p (output_gate o1) = Inr g"
  shows "read_action p port (action_json a) = Inr a"
proof (cases "spec a")
  case (SpecOutput o1)
  with assms(2) obtain g where "profile_gate p (output_gate o1) = Inr g" by blast
  with assms(1) SpecOutput show ?thesis by (cases a) (simp add: read_action_simps)
qed (use assms(1) in \<open>cases a, simp add: read_action_simps\<close>)+

lemma read_mapping_json:
  assumes "list_all action_typed (map_actions m)"
    and "\<And>a o1. a \<in> set (map_actions m) \<Longrightarrow> spec a = SpecOutput o1 \<Longrightarrow> \<exists>g. profile_gate p (output_gate o1) = Inr g"
  shows "read_mapping p (mapping_json m) = Inr m"
proof -
  have "mapE (read_action p (map_port m)) (map action_json (map_actions m)) = Inr (map_actions m)"
    by (rule mapE_read, rule read_action_json) (use assms in \<open>auto simp: list_all_iff\<close>)
  then show ?thesis
    by (simp add: read_mapping_def mapping_json_def keys_def integer32_read array_of_def)
qed

text \<open>The gates that the outputs of a validated profile name exist.\<close>

lemma foldE_each:
  assumes "foldE f xs s = Inr s'" and "x \<in> set xs"
  obtains t t' where "f x t = Inr t'"
  using assms by (induction xs arbitrary: s) auto

lemma validated_outputs:
  assumes "profile_validate p = Inr ()" and "m \<in> set (pf_mappings p)" and "a \<in> set (map_actions m)"
    and "spec a = SpecOutput o1"
  shows "\<exists>g. profile_gate p (output_gate o1) = Inr g"
proof -
  from assms(1) obtain S where "foldE (validate_mapping p) (pf_mappings p) {} = Inr S" by (auto simp: profile_validate_def)
  from foldE_each [OF this assms(2)] obtain t t' where "validate_mapping p m t = Inr t'" .
  then obtain u where "foldE (validate_action p m) (map_actions m) (Map.empty, \<lambda>_. 0) = Inr u"
    by (auto simp: validate_mapping_def)
  from foldE_each [OF this assms(3)] obtain v v' where "validate_action p m a v = Inr v'" .
  with assms(4) show ?thesis by (cases v) (auto simp: validate_action_def)
qed

lemma set_fields:
  "integer32 k j (get p) = Inr n \<Longrightarrow> set32 k get upd j p = Inr (upd (\<lambda>_. n) p)"
  "integer64 k j (get' p) = Inr n' \<Longrightarrow> set64 k get' upd' j p = Inr (upd' (\<lambda>_. n') p)"
  by (simp_all add: set32_def set64_def)

lemma apply_clock_json:
  assumes "member k j = Some (clock_json c)" and "period c \<le> tick_max" and "phase c \<le> tick_max"
  shows "apply_clock k j c0 = Inr c"
  using assms by (cases c) (simp add: apply_clock_def clock_json_def keys_def integer64_read)

text \<open>
  C34. Profiles survive JSON. Writing a validated profile and reading it back, on top of any other profile, gives
  the profile that was written: every field, action, mapping and gate.
\<close>

theorem profile_json_roundtrip:
  assumes "profile_validate p = Inr ()" and "profile_typed p"
  shows "apply_profile q (profile_json p) = Inr p"
proof -
  have gs: "mapE read_gate (map gate_json (two_qubit_gates p)) = Inr (two_qubit_gates p)"
    by (rule mapE_read, rule read_gate_json) (use assms(2) in \<open>auto simp: profile_typed_def list_all_iff\<close>)
  have ms: "mapE (read_mapping p') (map mapping_json (pf_mappings p)) = Inr (pf_mappings p)"
    if "two_qubit_gates p' = two_qubit_gates p" for p'
  proof (rule mapE_read, rule read_mapping_json)
    fix m a o1
    assume "m \<in> set (pf_mappings p)" "a \<in> set (map_actions m)" "spec a = SpecOutput o1"
    from validated_outputs [OF assms(1) this] that show "\<exists>g. profile_gate p' (output_gate o1) = Inr g"
      by (simp add: profile_gate_def)
  qed (use assms(2) in \<open>auto simp: profile_typed_def list_all_iff\<close>)
  have clocks: "apply_clock ''cpu'' (profile_json p) (pf_cpu q) = Inr (pf_cpu p)"
    "apply_clock ''tcu'' (profile_json p) (pf_tcu q) = Inr (pf_tcu p)"
    using assms(2) by (auto intro!: apply_clock_json simp: profile_json_def profile_typed_def)
  have fields: "foldE (\<lambda>f. f (profile_json p)) number_fields q' = Inr
     (p\<lparr>pf_cpu := pf_cpu q', pf_tcu := pf_tcu q', pf_fast_feedback := pf_fast_feedback q', pf_mappings := pf_mappings q',
        two_qubit_gates := two_qubit_gates q'\<rparr>)" for q'
    using assms(2) by (simp add: number_fields_def set_fields integer32_read integer64_read profile_json_def profile_typed_def)
  have "keys profile_keys (profile_json p) = Inr ()"
    by (simp add: keys_def profile_keys_def profile_json_def)
  moreover have "member ''schema'' (profile_json p) = Some (JInt 1)"
    "member ''fast_feedback'' (profile_json p) = Some (JBool (pf_fast_feedback p))"
    "member ''mappings'' (profile_json p) = Some (JArray (map mapping_json (pf_mappings p)))"
    "member ''two_qubit_gates'' (profile_json p) = Some (JArray (map gate_json (two_qubit_gates p)))"
    by (simp_all add: profile_json_def)
  ultimately show ?thesis
    using assms(1) by (simp add: apply_profile_def clocks fields gs ms value_or_def)
qed

end
