(* ===== verification/Texts.thy ===== *)
theory Texts
  imports Config_Json
begin

text \<open>
  Numbers and strings as text: what the program uses of the standard library to print numbers
  (\<^verbatim>\<open>operator<<\<close>, \<^verbatim>\<open>std::hex\<close>, \<^verbatim>\<open>std::setw\<close>, \<^verbatim>\<open>std::to_string\<close>) and to read them (\<^verbatim>\<open>std::stoull\<close> with
  base 0, which accepts what \<^verbatim>\<open>strtoull\<close> does), \<^verbatim>\<open>number\<close> and \<^verbatim>\<open>word\<close> of
  \<^verbatim>\<open>src/app/config.cpp\<close>, and the string literals that \<^verbatim>\<open>src/trace.cpp\<close> writes.
\<close>

section \<open>Printing\<close>

definition digit_char :: "nat \<Rightarrow> char" where
  "digit_char d = char_of (if d < 10 then 48 + d else 87 + d)"

fun numeral_text :: "nat \<Rightarrow> nat \<Rightarrow> string" where
  "numeral_text b n = (if n < b \<or> b < 2 then [] else numeral_text b (n div b)) @ [digit_char (n mod b)]"

declare numeral_text.simps [simp del]

definition decimal :: "nat \<Rightarrow> string" where
  "decimal n = numeral_text 10 n"

definition padded :: "nat \<Rightarrow> string \<Rightarrow> string" where
  "padded width s = replicate (width - length s) (CHR ''0'') @ s"

definition hex :: "nat \<Rightarrow> nat \<Rightarrow> string" where
  "hex width n = padded width (numeral_text 16 n)"

definition quoted_char :: "char \<Rightarrow> string" where
  "quoted_char c =
     (if c = CHR 0x22 \<or> c = CHR 0x5C then [CHR 0x5C, c]
      else if (of_char c :: nat) < 0x20 then CHR 0x5C # CHR ''u'' # hex 4 (of_char c)
      else [c])"

definition quoted :: "string \<Rightarrow> string" where
  "quoted s = [CHR 0x22] @ concat (map quoted_char s) @ [CHR 0x22]"

section \<open>Reading\<close>

text \<open>The parts of a text between the separators.\<close>

fun parts_of :: "char \<Rightarrow> string \<Rightarrow> string list" where
  "parts_of d [] = [[]]"
| "parts_of d (c # s) = (if c = d then [] # parts_of d s
     else case parts_of d s of n # ns \<Rightarrow> (c # n) # ns | [] \<Rightarrow> [[c]])"

definition digit_of :: "char \<Rightarrow> nat" where
  "digit_of c = (let n = of_char c :: nat in
     if 48 \<le> n \<and> n \<le> 57 then n - 48
     else if 97 \<le> n \<and> n \<le> 122 then n - 87
     else if 65 \<le> n \<and> n \<le> 90 then n - 55
     else 255)"

definition value_of :: "nat \<Rightarrow> string \<Rightarrow> nat" where
  "value_of b s = fold (\<lambda>c v. v * b + digit_of c) s 0"

definition is_space :: "char \<Rightarrow> bool" where
  "is_space c \<longleftrightarrow> c \<in> set [CHR '' '', CHR 0x09, CHR 0x0A, CHR 0x0B, CHR 0x0C, CHR 0x0D]"

text \<open>The sign, the base that the prefix selects, and the digits with what follows them.\<close>

fun sign_of :: "string \<Rightarrow> bool \<times> string" where
  "sign_of (c # s) = (if c = CHR ''-'' then (True, s) else if c = CHR ''+'' then (False, s) else (False, c # s))"
| "sign_of [] = (False, [])"

fun base_of :: "string \<Rightarrow> nat \<times> string" where
  "base_of (a # b # c # s) = (if a = CHR ''0'' \<and> (b = CHR ''x'' \<or> b = CHR ''X'') \<and> digit_of c < 16 then (16, c # s)
     else if a = CHR ''0'' then (8, a # b # c # s) else (10, a # b # c # s))"
| "base_of (a # s) = (if a = CHR ''0'' then (8, a # s) else (10, a # s))"
| "base_of [] = (10, [])"

text \<open>\<^verbatim>\<open>std::stoull(text, &end, 0)\<close>: the value, and whether \<^verbatim>\<open>end\<close> is the end of the text.\<close>

definition stoull :: "string \<Rightarrow> (nat \<times> bool) config" where
  "stoull s =
     (let (negative, s1) = sign_of (dropWhile is_space s); (b, s2) = base_of s1;
          ds = takeWhile (\<lambda>c. digit_of c < b) s2; v = value_of b ds in
      if ds = [] \<or> tick_max < v then Inl LibraryError
      else Inr (if negative then (2 ^ 64 - v) mod 2 ^ 64 else v, ds = s2))"

definition number :: "string \<Rightarrow> nat config" where
  "number s =
     (if s = [] \<or> hd s = CHR ''-'' then Inl (ProfileFault InvalidOperand)
      else bindE (stoull s) (\<lambda>(v, end).
        if end then Inr v else Inl (ProfileFault InvalidOperand)))"

definition word_argument :: "string \<Rightarrow> u32 config" where
  "word_argument s = bindE (number s) (\<lambda>v.
     if v \<le> 0xffffffff then Inr (of_nat v) else Inl (ProfileFault InvalidOperand))"

section \<open>Numbers survive their text\<close>

lemma digit_of_char: "d < 16 \<Longrightarrow> digit_of (digit_char d) = d"
  by (auto simp: digit_of_def digit_char_def Let_def of_char_of)

lemma value_of_append [simp]: "value_of b (s @ [c]) = value_of b s * b + digit_of c"
  by (simp add: value_of_def)

lemma value_of_Nil [simp]: "value_of b [] = 0" "value_of b [c] = digit_of c"
  by (simp_all add: value_of_def)

lemma numeral_text_facts:
  assumes "2 \<le> b" and "b \<le> 16"
  shows "value_of b (numeral_text b n) = n \<and> (\<forall>c\<in>set (numeral_text b n). digit_of c < b) \<and>
    numeral_text b n \<noteq> [] \<and> (0 < n \<longrightarrow> digit_of (hd (numeral_text b n)) \<noteq> 0)"
proof (induction n rule: less_induct)
  case (less n)
  have r: "n mod b < b" using assms by simp
  then have d: "digit_of (digit_char (n mod b)) = n mod b" using assms by (intro digit_of_char) linarith
  show ?case
  proof (cases "n < b")
    case True
    then show ?thesis using assms d by (subst (1 2 3 4) numeral_text.simps) simp
  next
    case False
    then have "n div b < n" "0 < n div b" using assms by (simp_all add: div_greater_zero_iff)
    from less.IH [OF this(1)] this(2) False assms d r show ?thesis
      by (subst (1 2 3 4) numeral_text.simps) (auto simp: hd_append)
  qed
qed

lemma digit_zero [simp]: "digit_of (CHR ''0'') = 0"
  by (simp add: digit_of_def)

lemma digit_values: "digit_of c < 16 \<Longrightarrow> c \<noteq> CHR ''-'' \<and> c \<noteq> CHR ''+'' \<and> \<not> is_space c"
  by (auto simp: digit_of_def is_space_def)

lemma zero_digit: "digit_of c = 0 \<longleftrightarrow> c = CHR ''0''"
proof
  assume "digit_of c = 0"
  then have "(of_char c :: nat) = 48" by (auto simp: digit_of_def Let_def split: if_splits)
  then have "(of_char c :: nat) = of_char (CHR ''0'')" by simp
  then show "c = CHR ''0''" by (metis char_of_char)
qed (simp add: digit_of_def)

text \<open>The first character decides that there is no space and no sign.\<close>

lemma number_digits:
  assumes "s \<noteq> []" and "digit_of (hd s) < 10"
  shows "number s = (let (b, t) = base_of s; ds = takeWhile (\<lambda>c. digit_of c < b) t in
    if ds = [] \<or> tick_max < value_of b ds then Inl LibraryError
    else if ds = t then Inr (value_of b ds) else Inl (ProfileFault InvalidOperand))"
proof -
  obtain c s' where s: "s = c # s'" using assms(1) by (cases s) auto
  with assms(2) have "c \<noteq> CHR ''-'' \<and> c \<noteq> CHR ''+'' \<and> \<not> is_space c" using digit_values [of c] by simp
  then show ?thesis by (simp add: s number_def stoull_def Let_def split: prod.split)
qed

lemma decimal_facts:
  "decimal n \<noteq> []" "\<forall>c\<in>set (decimal n). digit_of c < 10" "value_of 10 (decimal n) = n"
  "0 < n \<Longrightarrow> digit_of (hd (decimal n)) \<noteq> 0"
  using numeral_text_facts [of 10 n] by (simp_all add: decimal_def)

lemma number_decimal: "n \<le> tick_max \<Longrightarrow> number (decimal n) = Inr n"
proof (cases "n = 0")
  case True
  have "digit_char 0 = CHR ''0''" by code_simp
  then show ?thesis using True
    by (simp add: decimal_def numeral_text.simps number_def stoull_def is_space_def digit_of_def value_of_def tick_max_def Let_def)
next
  case False
  assume n: "n \<le> tick_max"
  note f = decimal_facts [of n]
  have h: "digit_of (hd (decimal n)) < 10" using f by simp
  have b: "base_of (decimal n) = (10, decimal n)"
    using f h False by (cases "decimal n" rule: base_of.cases) (auto simp: zero_digit)
  have tw: "takeWhile (\<lambda>c. digit_of c < 10) (decimal n) = decimal n" using f by (simp add: takeWhile_eq_all_conv)
  then show ?thesis using n f(1,3) by (simp add: number_digits [OF f(1) h] b Let_def tw)
qed

lemma value_of_zeros: "value_of b (replicate k (CHR ''0'') @ s) = value_of b s"
proof -
  have "fold (\<lambda>c v. v * b + digit_of c) (replicate k (CHR ''0'')) 0 = 0"
    by (induction k) (simp_all add: digit_of_def)
  then show ?thesis by (simp add: value_of_def)
qed

lemma hex_facts:
  "hex w n \<noteq> []" "\<forall>c\<in>set (hex w n). digit_of c < 16" "value_of 16 (hex w n) = n"
  using numeral_text_facts [of 16 n] by (auto simp: hex_def padded_def value_of_zeros zero_digit)

lemma number_hex: "n \<le> tick_max \<Longrightarrow> number (''0x'' @ hex w n) = Inr n"
proof -
  assume n: "n \<le> tick_max"
  note f = hex_facts [of w n]
  then obtain c t where h: "hex w n = c # t" by (cases "hex w n") auto
  have b: "base_of (''0x'' @ hex w n) = (16, hex w n)" using f by (simp add: h)
  have tw: "takeWhile (\<lambda>c. digit_of c < 16) (hex w n) = hex w n" using f by (simp add: takeWhile_eq_all_conv)
  have "number (''0x'' @ hex w n) = (let (b, t) = base_of (''0x'' @ hex w n); ds = takeWhile (\<lambda>c. digit_of c < b) t in
      if ds = [] \<or> tick_max < value_of b ds then Inl LibraryError
      else if ds = t then Inr (value_of b ds) else Inl (ProfileFault InvalidOperand))"
    by (rule number_digits) (simp_all add: digit_of_def)
  then show ?thesis using n f(1,3) by (simp only: b) (simp add: Let_def tw)
qed

lemma number_bound: "number s = Inr v \<Longrightarrow> v \<le> tick_max"
proof -
  have "m mod 2 ^ 64 \<le> tick_max" for m :: nat
    using mod_less_divisor [of "2 ^ 64" m] by (simp add: tick_max_def)
  then show "number s = Inr v \<Longrightarrow> v \<le> tick_max"
    by (auto simp: number_def stoull_def Let_def split: if_splits prod.splits)
qed

text \<open>
  C40. Numbers on the command line. An argument that is the decimal or the \<open>0x\<close>-prefixed hexadecimal text of a
  64-bit number is read as that number; the value of an accepted argument always fits 64 bits, and an empty
  argument or one that starts with a minus sign is an invalid operand.
\<close>

theorem number_reads_text:
  assumes "n \<le> tick_max"
  shows "number (decimal n) = Inr n \<and> number (''0x'' @ hex w n) = Inr n \<and>
    (number s = Inr v \<longrightarrow> v \<le> tick_max) \<and> number [] = Inl (ProfileFault InvalidOperand) \<and>
    number (CHR ''-'' # s) = Inl (ProfileFault InvalidOperand)"
proof -
  have "number [] = Inl (ProfileFault InvalidOperand)" "number (CHR ''-'' # s) = Inl (ProfileFault InvalidOperand)"
    by (simp_all add: number_def)
  with number_decimal [OF assms] number_hex [OF assms, of w] number_bound [of s v] show ?thesis by blast
qed

text \<open>The largest tick in both notations.\<close>

theorem number_reads_text_witness:
  "number (decimal tick_max) = Inr tick_max \<and> number (''0x'' @ hex 20 tick_max) = Inr tick_max \<and>
   number ''0777'' = Inr 511"
proof -
  have "number ''0777'' = Inr 511"
    by (simp add: number_def stoull_def is_space_def digit_of_def value_of_def tick_max_def Let_def)
  with number_reads_text [of tick_max 20] show ?thesis by simp
qed

text \<open>
  A space hides the sign from the check of \<^verbatim>\<open>number\<close>: \<^verbatim>\<open>stoull\<close> skips it and negates the value modulo
  \<open>2^64\<close>, so a negative argument is accepted.
\<close>

lemma negative_argument_accepted:
  "number '' -5'' = Inr 18446744073709551611" "word_argument '' -18446744073709551615'' = Inr 1"
  by (simp_all add: word_argument_def number_def stoull_def is_space_def digit_of_def value_of_def tick_max_def Let_def)

end
