(* ===== verification/Defaults.thy ===== *)
theory Defaults
  imports Config_Json
begin

text \<open>
  The default profile, \<^verbatim>\<open>src/defaults.cpp\<close>, with the default member initializers of
  \<^verbatim>\<open>profile.hpp\<close> and \<^verbatim>\<open>event.hpp\<close>.
\<close>

definition no_operands :: QuantumOperands where
  "no_operands = \<lparr>op_targets = [], op_resources = []\<rparr>"

definition default_gate :: GateSpec where
  "default_gate = \<lparr>gate_operation = ''x'', gate_operands = no_operands, gate_amplitude = Finite 0 0, gate_flag = Always\<rparr>"

definition default_pulse :: PulseSpec where
  "default_pulse = \<lparr>pulse_operation = ''x'', pulse_operands = no_operands, pulse_amplitude = Finite 0 0,
     pulse_axis = ''x'', pulse_flag = Always\<rparr>"

definition default_acquire :: AcquireSpec where
  "default_acquire = \<lparr>acquire_operation = ''x'', acquire_operands = no_operands, discriminator_delay = 20, separate_arm = False\<rparr>"

definition default_event :: EventSpec where
  "default_event = \<lparr>es_port = 0, es_delay = 0, es_duration = 20, spec = SpecGate default_gate\<rparr>"

definition initial_profile :: Profile where
  "initial_profile = \<lparr>pf_cpu = \<lparr>period = 5, phase = 0\<rparr>, pf_tcu = \<lparr>period = 20, phase = 0\<rparr>, pf_start = 1000,
     pf_watchdog = 1000000, memory_latency = 1, command_latency = 1, reply_latency = 1, cpu_result_latency = 1,
     fast_result_latency = 2, timing_capacity = 32, event_capacity = 32, staging_capacity = 16, result_capacity = 8,
     pf_ports = 8, pf_qubits = 2, firing_width = 1, pf_seed = 1, pf_fast_feedback = True, pf_mappings = [],
     two_qubit_gates = []\<rparr>"

text \<open>\<^verbatim>\<open>std::numbers::pi / 20.0\<close>\<close>

definition pi_20 :: Double where
  "pi_20 = Finite 176855943800711 (-50)"

definition default_action :: "u32 \<Rightarrow> u32 \<Rightarrow> EventSpec" where
  "default_action q code =
     (let a = default_event\<lparr>es_port := q\<rparr>; common = \<lparr>op_targets = [q], op_resources = [\<lparr>res_id = q, exclusive = True\<rparr>]\<rparr> in
      if code \<le> 3
      then a\<lparr>spec := SpecGate (default_gate\<lparr>gate_operands := common,
             gate_operation := (if code = 1 then ''x'' else if code = 2 then ''h'' else ''z'')\<rparr>)\<rparr>
      else if code = 4
      then a\<lparr>spec := SpecAcquire (default_acquire\<lparr>acquire_operands := common, acquire_operation := ''measure''\<rparr>),
             es_duration := 40\<rparr>
      else a\<lparr>spec := SpecPulse (default_pulse\<lparr>pulse_operands := common, pulse_operation := ''drive_x'',
             pulse_amplitude := pi_20\<rparr>)\<rparr>)"

definition default_mappings :: "u32 \<Rightarrow> Mapping list" where
  "default_mappings q = map (\<lambda>code. \<lparr>map_port = q, map_codeword = code, map_actions = [default_action q code]\<rparr>) [1, 2, 3, 4, 5]"

definition default_two_qubit_gate :: TwoQubitGate where
  "default_two_qubit_gate = \<lparr>tq_name = ''cx01'', tq_operation = ''cx'', tq_targets = [0, 1],
     tq_inputs = [\<lparr>in_core = 0, in_port = 0, in_codeword = 6\<rparr>, \<lparr>in_core = 0, in_port = 1, in_codeword = 10\<rparr>],
     tq_resources = [\<lparr>res_id = 0, exclusive = True\<rparr>, \<lparr>res_id = 1, exclusive = True\<rparr>], tq_duration = 20\<rparr>"

definition output_mapping :: "u32 \<Rightarrow> u32 \<Rightarrow> Mapping" where
  "output_mapping port code = \<lparr>map_port = port, map_codeword = code,
     map_actions = [default_event\<lparr>spec := SpecOutput \<lparr>output_gate = ''cx01''\<rparr>, es_port := port\<rparr>]\<rparr>"

fun flag_code :: "ExecutionFlag \<Rightarrow> u32" where
  "flag_code Always = 0"
| "flag_code LastOne = 1"
| "flag_code LastZero = 2"
| "flag_code Equal = 3"

definition conditional_mappings :: "u32 \<Rightarrow> Mapping list" where
  "conditional_mappings q = map (\<lambda>f. \<lparr>map_port = q, map_codeword = 6 + flag_code f, map_actions =
     [default_event\<lparr>es_port := q, spec := SpecGate (default_gate\<lparr>gate_operands :=
        \<lparr>op_targets = [q], op_resources = [\<lparr>res_id = q, exclusive = True\<rparr>]\<rparr>, gate_flag := f\<rparr>)\<rparr>]\<rparr>)
     [LastOne, LastZero, Equal]"

definition profile_qubits :: "Profile \<Rightarrow> u32 list" where
  "profile_qubits p = map of_nat [0..<unat (pf_qubits p)]"

definition built_profile :: Profile where
  "built_profile = initial_profile\<lparr>
     pf_mappings := concat (map default_mappings (profile_qubits initial_profile)) @ [output_mapping 0 6, output_mapping 1 10] @
       concat (map conditional_mappings (profile_qubits initial_profile)),
     two_qubit_gates := [default_two_qubit_gate]\<rparr>"

definition default_profile :: "Profile result" where
  "default_profile = bindE (profile_validate built_profile) (\<lambda>_. Inr built_profile)"

lemma two_qubits: "profile_qubits initial_profile = [0, 1]"
  by (simp add: profile_qubits_def initial_profile_def upt_rec)

lemmas built = built_profile_def [unfolded two_qubits]

lemmas default_defs = no_operands_def default_gate_def default_pulse_def default_acquire_def default_event_def
  initial_profile_def pi_20_def default_action_def default_mappings_def default_two_qubit_gate_def output_mapping_def
  conditional_mappings_def built

lemmas action_defs = kind_def targets_def resources_def operation_def execution_flag_def amplitude_def

lemma default_actions_valid:
  "validate_mapping built_profile m ks = bindE (insert_new (map_port m, map_codeword m) ks) Inr"
  if "m \<in> set (pf_mappings built_profile)"
  using that
  by (auto simp: default_defs validate_mapping_def validate_action_def insert_new_def action_defs mapping_targets_def
      profile_gate_def Let_def)

lemma default_valid: "profile_validate built_profile = Inr ()"
proof -
  have "foldE (validate_mapping built_profile) ms ks = Inr (ks \<union> set (map (\<lambda>m. (map_port m, map_codeword m)) ms))"
    if "set ms \<subseteq> set (pf_mappings built_profile)" "distinct (map (\<lambda>m. (map_port m, map_codeword m)) ms)"
      "set (map (\<lambda>m. (map_port m, map_codeword m)) ms) \<inter> ks = {}" for ms ks
    using that
  proof (induction ms arbitrary: ks)
    case (Cons m ms)
    then have "validate_mapping built_profile m ks = Inr (insert (map_port m, map_codeword m) ks)"
      by (simp add: default_actions_valid insert_new_def)
    with Cons show ?case by simp
  qed simp
  moreover have "distinct (map (\<lambda>m. (map_port m, map_codeword m)) (pf_mappings built_profile))"
    by (simp add: default_defs)
  ultimately have "foldE (validate_mapping built_profile) (pf_mappings built_profile) {} =
      Inr (set (map (\<lambda>m. (map_port m, map_codeword m)) (pf_mappings built_profile)))" by simp
  moreover have "foldE (validate_gate built_profile) (two_qubit_gates built_profile) ({}, {}) =
      Inr ({''cx01''}, {(0, 0, 6), (0, 1, 10)})"
    by (auto simp: default_defs validate_gate_def insert_new_def)
  ultimately show ?thesis
    by (simp add: profile_validate_def) (simp add: default_defs valid_clock_def edge_def)
qed

lemma default_typed: "profile_typed built_profile"
  by (auto simp: default_defs profile_typed_def action_typed_def tick_max_def)

text \<open>
  The default profile is a valid one: its construction succeeds, and its ticks fit their widths, so that it
  survives JSON and can be the base of any configuration.
\<close>

lemma default_profile_valid: "default_profile = Inr built_profile \<and> profile_typed built_profile"
  by (simp add: default_profile_def default_valid default_typed)

text \<open>The default profile, written and read back on top of the initial one.\<close>

theorem profile_json_roundtrip_witness:
  "profile_validate built_profile = Inr () \<and> length (pf_mappings built_profile) = 18 \<and>
   apply_profile initial_profile (profile_json built_profile) = Inr built_profile"
proof -
  from profile_json_roundtrip [OF default_valid default_typed] default_valid show ?thesis by (simp add: default_defs)
qed

section \<open>What can be read\<close>

lemma integer64_bound: "integer64 k j old = Inr n \<Longrightarrow> old \<le> tick_max \<Longrightarrow> n \<le> tick_max"
  by (auto simp: integer64_def integer_def split: option.splits Json.splits)

lemma mapE_all:
  assumes "mapE f xs = Inr ys" and "\<And>x y. f x = Inr y \<Longrightarrow> P y"
  shows "list_all P ys"
  using assms(1) by (induction xs arbitrary: ys) (auto dest: assms(2))

lemma read_gate_typed: "read_gate j = Inr g \<Longrightarrow> tq_duration g \<le> tick_max"
  by (auto simp: read_gate_def tick_max_def dest: integer64_bound)

lemma read_spec_typed: "read_spec k gate j = Inr (SpecAcquire q) \<Longrightarrow> discriminator_delay q \<le> tick_max"
  by (cases k) (auto simp: read_spec_def tick_max_def dest: integer64_bound)

lemma profile_gate_in: "profile_gate p name = Inr g \<Longrightarrow> g \<in> set (two_qubit_gates p)"
  by (auto simp: profile_gate_def find_Some_iff split: option.splits)

lemma read_action_typed:
  assumes "read_action p port j = Inr a" and "list_all (\<lambda>g. tq_duration g \<le> tick_max) (two_qubit_gates p)"
  shows "action_typed a"
proof -
  from assms(1) obtain k gate dd n delay d s where g: "read_gate_name p k j = Inr (gate, dd)"
    and r: "integer64 ''delay'' j 0 = Inr delay" "integer64 ''duration'' j dd = Inr d" "read_spec k gate j = Inr s"
    and a: "a = \<lparr>es_port = n, es_delay = delay, es_duration = d, spec = s\<rparr>"
    by (auto simp: read_action_def)
  from g assms(2) have "dd \<le> tick_max"
    by (auto simp: read_gate_name_def tick_max_def list_all_iff dest!: profile_gate_in split: if_splits)
  with r integer64_bound have "delay \<le> tick_max" "d \<le> tick_max" by (auto simp: tick_max_def)
  with r(3) a show ?thesis by (auto simp: action_typed_def dest: read_spec_typed split: ActionSpec.splits)
qed

lemma read_mapping_typed:
  assumes "read_mapping p j = Inr m" and "list_all (\<lambda>g. tq_duration g \<le> tick_max) (two_qubit_gates p)"
  shows "list_all action_typed (map_actions m)"
proof -
  from assms(1) obtain port as actions where "mapE (read_action p port) as = Inr actions" "map_actions m = actions"
    by (auto simp: read_mapping_def)
  with mapE_all [of "read_action p port" as actions action_typed] read_action_typed [OF _ assms(2)] show ?thesis by auto
qed

lemma apply_clock_typed:
  "apply_clock k j c = Inr c' \<Longrightarrow> period c \<le> tick_max \<Longrightarrow> phase c \<le> tick_max \<Longrightarrow>
   period c' \<le> tick_max \<and> phase c' \<le> tick_max"
  by (auto simp: apply_clock_def dest: integer64_bound split: option.splits)

lemma set_frames:
  "set32 k get upd j p = Inr p' \<Longrightarrow> \<exists>n. p' = upd (\<lambda>_. n) p"
  "set64 k get' upd' j p = Inr p' \<Longrightarrow> \<exists>n. p' = upd' (\<lambda>_. n) p \<and> integer64 k j (get' p) = Inr n"
  by (auto simp: set32_def set64_def)

lemma number_fields_typed:
  assumes "foldE (\<lambda>f. f j) number_fields p = Inr p'" and "profile_typed p"
  shows "profile_typed p'"
  using assms(1)
proof (rule foldE_invariant)
  show "profile_typed p" by (rule assms(2))
next
  fix f q q'
  assume f: "f \<in> set number_fields" and q: "profile_typed q" and r: "f j q = Inr q'"
  have b: "pf_start q \<le> tick_max" "pf_watchdog q \<le> tick_max" using q by (simp_all add: profile_typed_def)
  from f r show "profile_typed q'"
    unfolding number_fields_def
    by simp (elim disjE; insert q b; auto dest!: set_frames dest: integer64_bound simp: profile_typed_def)
qed

lemma apply_profile_checked:
  assumes "profile_typed q" and "apply_profile q j = Inr p"
  shows "profile_typed p \<and> profile_validate p = Inr () \<and> set (member_names j) \<subseteq> set profile_keys"
proof -
  from assms(2) obtain cpu tcu p1 ff gs ms u w where k: "keys profile_keys j = Inr u"
    and c: "apply_clock ''cpu'' j (pf_cpu q) = Inr cpu" "apply_clock ''tcu'' j (pf_tcu q) = Inr tcu"
    and f: "foldE (\<lambda>f. f j) number_fields (q\<lparr>pf_cpu := cpu, pf_tcu := tcu\<rparr>) = Inr p1"
    and g: "(case member ''two_qubit_gates'' j of None \<Rightarrow> Inr (two_qubit_gates p1)
      | Some v \<Rightarrow> bindE (elements v) (mapE read_gate)) = Inr gs"
    and m: "(case member ''mappings'' j of None \<Rightarrow> Inr (pf_mappings (p1\<lparr>pf_fast_feedback := ff, two_qubit_gates := gs\<rparr>))
      | Some v \<Rightarrow> bindE (elements v) (mapE (read_mapping (p1\<lparr>pf_fast_feedback := ff, two_qubit_gates := gs\<rparr>)))) = Inr ms"
    and v: "profile_validate (p1\<lparr>pf_fast_feedback := ff, two_qubit_gates := gs, pf_mappings := ms\<rparr>) = Inr w"
    and p: "p1\<lparr>pf_fast_feedback := ff, two_qubit_gates := gs, pf_mappings := ms\<rparr> = p"
    unfolding apply_profile_def Let_def bindE_eq_Inr ensure_Inr as_fault_Inr sum.inject by blast
  have "profile_typed (q\<lparr>pf_cpu := cpu, pf_tcu := tcu\<rparr>)"
    using assms(1) apply_clock_typed [OF c(1)] apply_clock_typed [OF c(2)] by (simp add: profile_typed_def)
  with f have t: "profile_typed p1" by (rule number_fields_typed)
  have gs: "list_all (\<lambda>g. tq_duration g \<le> tick_max) gs"
    using g t by (auto simp: profile_typed_def intro: mapE_all read_gate_typed split: option.splits)
  then have "list_all (\<lambda>m. list_all action_typed (map_actions m)) ms"
  proof (cases "member ''mappings'' j")
    case None
    with m t show ?thesis by (simp add: profile_typed_def)
  next
    case (Some v)
    with m obtain vs where "mapE (read_mapping (p1\<lparr>pf_fast_feedback := ff, two_qubit_gates := gs\<rparr>)) vs = Inr ms" by auto
    then show ?thesis by (rule mapE_all) (erule read_mapping_typed, simp add: gs)
  qed
  with gs t have "profile_typed p" by (simp add: p [symmetric] profile_typed_def)
  with v k p show ?thesis by (simp add: keys_def)
qed

text \<open>
  C35. What a configuration file can produce is a valid profile. Whatever JSON value is applied to a profile whose
  ticks fit their widths, the outcome is an error or a validated profile whose ticks fit their widths;
  and a value with a member that is not a profile key is an error.
\<close>

theorem profiles_stay_typed:
  assumes "profile_typed q" and "apply_profile q j = Inr p"
  shows "profile_typed p \<and> profile_validate p = Inr () \<and> set (member_names j) \<subseteq> set profile_keys"
  using assms by (rule apply_profile_checked)

text \<open>Validation looks at the start only to compare it with the watchdog.\<close>

lemma later_start_valid:
  "profile_validate (built_profile\<lparr>pf_start := 2000\<rparr>) = profile_validate built_profile"
proof -
  let ?p = "built_profile\<lparr>pf_start := 2000\<rparr>"
  have g: "validate_gate ?p = validate_gate built_profile"
    by (intro ext) (simp add: validate_gate_def)
  have "validate_action ?p m a = validate_action built_profile m a" for m a
    by (cases "spec a") (simp_all add: validate_action_def profile_gate_def)
  then have "validate_action ?p = validate_action built_profile" by (intro ext) simp
  then have "validate_mapping ?p = validate_mapping built_profile"
    by (intro ext) (simp add: validate_mapping_def)
  moreover have "edge (pf_tcu ?p) (pf_start ?p) \<and> pf_start ?p < pf_watchdog ?p \<longleftrightarrow>
      edge (pf_tcu built_profile) (pf_start built_profile) \<and> pf_start built_profile < pf_watchdog built_profile"
    by (simp add: built initial_profile_def edge_def)
  ultimately show ?thesis using g by (simp add: profile_validate_def)
qed

text \<open>A later start, applied to the default profile.\<close>

theorem profiles_stay_typed_witness:
  "\<exists>p. apply_profile built_profile (JObject [(''start'', JUint 2000)]) = Inr p \<and> pf_start p = 2000 \<and>
     profile_typed p \<and> profile_validate p = Inr ()"
proof -
  let ?j = "JObject [(''start'', JUint 2000)]"
  have t: "profile_typed built_profile" using default_typed .
  have nf: "foldE (\<lambda>f. f ?j) number_fields built_profile = Inr (built_profile\<lparr>pf_start := 2000\<rparr>)"
    by (simp add: number_fields_def set32_def set64_def integer32_def integer64_def integer_def tick_max_def)
  have "profile_validate (built_profile\<lparr>pf_start := 2000\<rparr>) = Inr ()"
    using default_valid by (simp add: later_start_valid)
  then have "\<exists>p. apply_profile built_profile ?j = Inr p \<and> pf_start p = 2000"
    using nf by (simp add: apply_profile_def keys_def profile_keys_def apply_clock_def value_or_def)
  then obtain p where "apply_profile built_profile ?j = Inr p" "pf_start p = 2000" by blast
  with profiles_stay_typed [OF t this(1)] show ?thesis by blast
qed

end
