(* ===== verification/Run_Config.thy ===== *)
theory Run_Config
  imports Simulator_Construction Texts Defaults
begin

text \<open>
  Run configurations, \<^verbatim>\<open>src/app/config.cpp\<close> and \<^verbatim>\<open>src/app/run_config.cpp\<close>: the command line, the JSON run
  file, and the cores and connections that a run is made of. The file system is an argument, \<open>Files\<close>: what
  a path holds, and the absolute form of a path. Paths are those of POSIX.
\<close>

section \<open>Paths and files\<close>

datatype JsonFile = Unreadable | Malformed | Parsed Json

record Files =
  json_file :: "string \<Rightarrow> JsonFile"
  program_file :: "string \<Rightarrow> byte list option"
  absolute_path :: "string \<Rightarrow> string config"

definition path_join :: "string \<Rightarrow> string \<Rightarrow> string" where
  "path_join base p =
     (if take 1 p = ''/'' then p
      else if base = [] \<or> last base = CHR ''/'' then base @ p
      else base @ ''/'' @ p)"

text \<open>The names that remain, the last one first.\<close>

fun normal_names :: "bool \<Rightarrow> string list \<Rightarrow> string list \<Rightarrow> string list" where
  "normal_names isabs [] done = done"
| "normal_names isabs (n # ns) done = normal_names isabs ns
     (if n = [] \<or> n = ''.'' then done
      else if n = ''..'' then
        (case done of [] \<Rightarrow> (if isabs then [] else [n]) | m # ms \<Rightarrow> if m = ''..'' then n # done else ms)
      else n # done)"

fun joined :: "string list \<Rightarrow> string" where
  "joined [] = []"
| "joined [n] = n"
| "joined (n # ns) = n @ ''/'' @ joined ns"

definition lexically_normal :: "string \<Rightarrow> string" where
  "lexically_normal p =
     (let isabs = take 1 p = ''/''; ns = parts_of (CHR ''/'') p; rest = normal_names isabs ns [];
          slash = (if last ns \<in> {[], ''.'', ''..''} \<and> rest \<noteq> [] \<and> hd rest \<noteq> ''..'' then ''/'' else []) in
      if p = [] then []
      else if isabs then ''/'' @ joined (rev rest) @ slash
      else if rest = [] then ''.''
      else joined (rev rest) @ slash)"

text \<open>The path without its last name and the separators before it.\<close>

definition parent_path :: "string \<Rightarrow> string" where
  "parent_path p =
     (let dir = rev (dropWhile (\<lambda>c. c \<noteq> CHR ''/'') (rev p)); stripped = rev (dropWhile (\<lambda>c. c = CHR ''/'') (rev dir)) in
      if stripped = [] \<and> dir \<noteq> [] then ''/'' else stripped)"

definition read_json :: "Files \<Rightarrow> string \<Rightarrow> Json config" where
  "read_json fs path = (case json_file fs path of
      Unreadable \<Rightarrow> Inl (ProfileFault InvalidProfile)
    | Malformed \<Rightarrow> Inl LibraryError
    | Parsed j \<Rightarrow> Inr j)"

section \<open>Typed access\<close>

fun json_number :: "Json \<Rightarrow> nat config" where
  "json_number (JUint n) = Inr n"
| "json_number (JInt i) = ensure (0 \<le> i) (Inr (nat i))"
| "json_number _ = Inl (ProfileFault InvalidProfile)"

definition json_word :: "Json \<Rightarrow> u32 config" where
  "json_word v = bindE (json_number v) (\<lambda>n. ensure (n \<le> 0xffffffff) (Inr (of_nat n)))"

fun json_string :: "Json \<Rightarrow> string config" where
  "json_string (JString s) = Inr s"
| "json_string _ = Inl (ProfileFault InvalidProfile)"

text \<open>A value that is required to be a boolean.\<close>

fun json_bool :: "Json \<Rightarrow> bool config" where
  "json_bool (JBool b) = Inr b"
| "json_bool _ = Inl (ProfileFault InvalidProfile)"

definition relative_to :: "string \<Rightarrow> Json \<Rightarrow> string config" where
  "relative_to base v = bindE (json_string v) (\<lambda>s. Inr (lexically_normal (path_join base s)))"

definition optional :: "string \<Rightarrow> Json \<Rightarrow> (Json \<Rightarrow> 'a config) \<Rightarrow> 'a \<Rightarrow> 'a config" where
  "optional k j f d = (case member k j of None \<Rightarrow> Inr d | Some v \<Rightarrow> f v)"

section \<open>Cores and connections\<close>

record CoreSpec =
  cs_id :: u32
  cs_profile :: Profile
  cs_program :: string
  cs_model :: string
  cs_sync_capacity :: u32

definition cpu_factory :: "string \<Rightarrow> ControlIssue config" where
  "cpu_factory model = ensure (model = ''rv32'' \<or> model = ''vliw'')
     (Inr (if model = ''vliw'' then DualCodeword else Scalar))"

definition core_keys :: "string list" where
  "core_keys = [''id'', ''program'', ''profile'', ''profile_file'', ''cpu_model'', ''sync_capacity'']"

definition resolve_core :: "Files \<Rightarrow> Profile \<Rightarrow> string \<Rightarrow> string \<Rightarrow> Json \<Rightarrow> CoreSpec config" where
  "resolve_core fs profile cpu_model base j =
     ensure (is_object j \<and> member ''id'' j \<noteq> None \<and> member ''program'' j \<noteq> None) (
     bindE (keys core_keys j) (\<lambda>_.
     bindE (optional ''profile_file'' j (\<lambda>v. bindE (relative_to base v) (\<lambda>f. bindE (read_json fs f) (apply_profile profile))) profile) (\<lambda>p1.
     bindE (optional ''profile'' j (apply_profile p1) p1) (\<lambda>p.
     bindE (optional ''cpu_model'' j json_string cpu_model) (\<lambda>model.
     bindE (json_word (the (member ''id'' j))) (\<lambda>i.
     bindE (relative_to base (the (member ''program'' j))) (\<lambda>program.
     bindE (optional ''sync_capacity'' j json_word 8) (\<lambda>capacity.
     bindE (as_fault (profile_validate p)) (\<lambda>_.
     bindE (cpu_factory model) (\<lambda>_.
     Inr \<lparr>cs_id = i, cs_profile = p, cs_program = program, cs_model = model, cs_sync_capacity = capacity\<rparr>))))))))))"

definition resolve_cores :: "Files \<Rightarrow> Profile \<Rightarrow> string \<Rightarrow> Json list \<Rightarrow> string \<Rightarrow> string \<Rightarrow> CoreSpec list config" where
  "resolve_cores fs profile program settings cpu_model base =
     (if settings = [] then
        bindE (cpu_factory cpu_model) (\<lambda>_.
        Inr [\<lparr>cs_id = 0, cs_profile = profile, cs_program = program, cs_model = cpu_model, cs_sync_capacity = 8\<rparr>])
      else mapE (resolve_core fs profile cpu_model base) settings)"

definition connection_keys :: "string list" where
  "connection_keys = [''first'', ''second'', ''first_to_second'', ''second_to_first'', ''capacity'']"

definition configure_connection :: "Json \<Rightarrow> SyncConnection config" where
  "configure_connection j =
     bindE (keys connection_keys j) (\<lambda>_.
     ensure (list_all (\<lambda>k. member k j \<noteq> None) [''first'', ''second'', ''first_to_second'', ''second_to_first'']) (
     bindE (json_word (the (member ''first'' j))) (\<lambda>a.
     bindE (json_word (the (member ''second'' j))) (\<lambda>b.
     bindE (json_number (the (member ''first_to_second'' j))) (\<lambda>ab.
     bindE (json_number (the (member ''second_to_first'' j))) (\<lambda>ba.
     bindE (optional ''capacity'' j json_word 8) (\<lambda>capacity.
     Inr \<lparr>sc_first = a, sc_second = b, first_to_second = ab, second_to_first = ba, sc_capacity = unat capacity\<rparr>)))))))"

definition configure_connections :: "Json list \<Rightarrow> SyncConnection list config" where
  "configure_connections = mapE configure_connection"

definition load_image :: "Files \<Rightarrow> u32 \<Rightarrow> u32 \<Rightarrow> u32 option \<Rightarrow> string \<Rightarrow> ProgramImage config" where
  "load_image fs base extent raw_base path = (case program_file fs path of
      None \<Rightarrow> Inl (ProfileFault InvalidImage)
    | Some bytes \<Rightarrow> as_fault (case raw_base of
        Some addr \<Rightarrow> image_raw bytes addr base extent
      | None \<Rightarrow> image_elf bytes base extent))"

definition configure_core :: "Files \<Rightarrow> u32 \<Rightarrow> u32 \<Rightarrow> u32 option \<Rightarrow> CoreSpec \<Rightarrow> CoreConfig config" where
  "configure_core fs base extent raw_base c =
     bindE (load_image fs base extent raw_base (cs_program c)) (\<lambda>img.
     bindE (cpu_factory (cs_model c)) (\<lambda>issue.
     Inr \<lparr>cfg_id = cs_id c, cfg_profile = cs_profile c, cfg_image = img, cfg_issue = issue,
          cfg_sync_capacity = unat (cs_sync_capacity c)\<rparr>))"

definition configure_cores :: "Files \<Rightarrow> CoreSpec list \<Rightarrow> u32 \<Rightarrow> u32 \<Rightarrow> u32 option \<Rightarrow> (CoreConfig list \<times> string list) config" where
  "configure_cores fs cores base extent raw_base =
     bindE (mapE (configure_core fs base extent raw_base) cores) (\<lambda>configs. Inr (configs, map cs_model cores))"

section \<open>The run file\<close>

record RunConfig =
  rc_profile :: Profile
  rc_program :: string
  rc_backend_name :: string
  rc_trace_path :: string
  rc_summary_path :: string
  rc_module_directory :: string
  rc_memory_dump :: string
  rc_backend_command :: string
  rc_backend_options :: Json
  rc_decoder_options :: Json
  rc_max_batch :: u32
  rc_cpu_model :: string
  rc_cores :: "CoreSpec list"
  rc_connections :: "SyncConnection list"
  rc_multicore :: bool
  rc_config_base :: string
  rc_simulation_config :: string
  rc_check_config :: bool
  rc_trace_stalls :: bool
  rc_memory_base :: u32
  rc_memory_size :: u32
  rc_raw_base :: u32
  rc_raw :: bool
  rc_reverse :: bool
  rc_help :: bool
  rc_dump_profile :: string
  rc_resets :: "Tick list"
  rc_outcomes :: "(Id, bool) omap"
  rc_inspect :: "u32 list"

definition initial_run :: "string \<Rightarrow> RunConfig" where
  "initial_run module_directory =
     \<lparr>rc_profile = built_profile, rc_program = [], rc_backend_name = ''mock'', rc_trace_path = ''trace.jsonl'',
      rc_summary_path = ''summary.json'', rc_module_directory = module_directory, rc_memory_dump = [], rc_backend_command = [],
      rc_backend_options = JObject [], rc_decoder_options = JObject [], rc_max_batch = 1024, rc_cpu_model = ''rv32'',
      rc_cores = [], rc_connections = [], rc_multicore = False, rc_config_base = [], rc_simulation_config = [],
      rc_check_config = False, rc_trace_stalls = True, rc_memory_base = 0, rc_memory_size = 65536, rc_raw_base = 0,
      rc_raw = False, rc_reverse = False, rc_help = False, rc_dump_profile = [], rc_resets = [],
      rc_outcomes = [], rc_inspect = []\<rparr>"

definition run_keys :: "string list" where
  "run_keys = [''schema'', ''program'', ''backend'', ''profile'', ''profile_file'', ''trace'', ''summary'', ''memory_dump'',
     ''python_path'', ''memory_base'', ''memory_size'', ''raw_base'', ''resets'', ''inspect'', ''outcomes'',
     ''reverse_registration'', ''backend_options'', ''$schema'', ''trace_stalls'', ''cpu_model'', ''cores'',
     ''sync_connections'', ''backend_execution'', ''decoding'']"

text \<open>Outcome \<open>i\<close> is that of measurement \<open>i\<close>, from one; the others stay.\<close>

definition set_outcomes :: "bool list \<Rightarrow> (Id, bool) omap \<Rightarrow> (Id, bool) omap" where
  "set_outcomes bits m = fold (\<lambda>(i, b). om_set i b) (zip [1..<Suc (length bits)] bits) m"

text \<open>\<^verbatim>\<open>backend_execution\<close>: the only member is the largest batch, a positive unsigned 32-bit number.\<close>

definition batch_setting :: "string \<times> Json \<Rightarrow> u32 \<Rightarrow> u32 config" where
  "batch_setting = (\<lambda>(k, v) old. ensure (k = ''max_batch_operations'') (case v of
      JUint n \<Rightarrow> ensure (0 < n \<and> n \<le> 0xffffffff) (Inr (of_nat n))
    | _ \<Rightarrow> Inl (ProfileFault InvalidProfile)))"

fun members :: "Json \<Rightarrow> (string \<times> Json) list" where
  "members (JObject m) = m"
| "members _ = []"

definition read_decoding :: "Json \<Rightarrow> Json config" where
  "read_decoding v = ensure (is_object v \<and> members v \<noteq> []) (Inr v)"

definition read_execution :: "u32 \<Rightarrow> Json \<Rightarrow> u32 config" where
  "read_execution old v = ensure (is_object v) (foldE batch_setting (members v) old)"

definition read_profile_file :: "Files \<Rightarrow> string \<Rightarrow> Profile \<Rightarrow> Json \<Rightarrow> Profile config" where
  "read_profile_file fs base p v = bindE (relative_to base v) (\<lambda>f. bindE (read_json fs f) (apply_profile p))"

text \<open>The settings of a run file, in the order in which they are applied.\<close>

type_synonym setting = "string \<times> (Json \<Rightarrow> RunConfig \<Rightarrow> RunConfig config)"

definition setting :: "string \<Rightarrow> (RunConfig \<Rightarrow> Json \<Rightarrow> 'a config) \<Rightarrow> (('a \<Rightarrow> 'a) \<Rightarrow> RunConfig \<Rightarrow> RunConfig) \<Rightarrow> setting" where
  "setting k read upd = (k, \<lambda>v r. bindE (read r v) (\<lambda>x. Inr (upd (\<lambda>_. x) r)))"

definition raw_setting :: setting where
  "raw_setting = (''raw_base'', \<lambda>v r. bindE (json_word v) (\<lambda>a. Inr (r\<lparr>rc_raw := True, rc_raw_base := a\<rparr>)))"

definition run_settings :: "Files \<Rightarrow> string \<Rightarrow> setting list" where
  "run_settings fs base =
     [setting ''program'' (\<lambda>_. relative_to base) rc_program_update,
      setting ''backend'' (\<lambda>_. json_string) rc_backend_name_update,
      setting ''backend_options'' (\<lambda>_. Inr) rc_backend_options_update,
      setting ''decoding'' (\<lambda>_. read_decoding) rc_decoder_options_update,
      setting ''backend_execution'' (\<lambda>r. read_execution (rc_max_batch r)) rc_max_batch_update,
      setting ''cpu_model'' (\<lambda>_. json_string) rc_cpu_model_update,
      setting ''trace_stalls'' (\<lambda>_. json_bool) rc_trace_stalls_update,
      setting ''profile_file'' (\<lambda>r. read_profile_file fs base (rc_profile r)) rc_profile_update,
      setting ''profile'' (\<lambda>r. apply_profile (rc_profile r)) rc_profile_update,
      setting ''trace'' (\<lambda>_. relative_to base) rc_trace_path_update,
      setting ''summary'' (\<lambda>_. relative_to base) rc_summary_path_update,
      setting ''memory_dump'' (\<lambda>_. relative_to base) rc_memory_dump_update,
      setting ''python_path'' (\<lambda>_. relative_to base) rc_module_directory_update,
      setting ''memory_base'' (\<lambda>_. json_word) rc_memory_base_update,
      setting ''memory_size'' (\<lambda>_. json_word) rc_memory_size_update,
      raw_setting,
      setting ''resets'' (\<lambda>_ v. bindE (elements v) (mapE json_number)) rc_resets_update,
      setting ''inspect'' (\<lambda>_ v. bindE (elements v) (mapE json_word)) rc_inspect_update,
      setting ''outcomes'' (\<lambda>_ v. bindE (bindE (elements v) (mapE json_bool)) (\<lambda>bits. Inr (set_outcomes bits []))) rc_outcomes_update,
      setting ''reverse_registration'' (\<lambda>_. json_bool) rc_reverse_update]"

type_synonym parse_state = "RunConfig \<times> Json list \<times> Json list"

definition apply_run_config :: "Files \<Rightarrow> Json \<Rightarrow> string \<Rightarrow> parse_state \<Rightarrow> parse_state config" where
  "apply_run_config fs j base = (\<lambda>(run, cores, links).
     bindE (keys run_keys j) (\<lambda>_.
     ensure (case member ''schema'' j of None \<Rightarrow> False | Some v \<Rightarrow> equals_one v) (
     bindE (optional ''cores'' j (\<lambda>v. bindE (elements v) (\<lambda>cs. ensure (cs \<noteq> []) (Inr cs))) cores) (\<lambda>cores'.
     bindE (optional ''sync_connections'' j elements links) (\<lambda>links'.
     bindE (foldE (\<lambda>(k, f) r. optional k j (\<lambda>v. f v r) r) (run_settings fs base) (run\<lparr>rc_config_base := base\<rparr>)) (\<lambda>run'.
     Inr (run', cores', links')))))))"

section \<open>The command line\<close>

text \<open>What an argument does: the parse ends, or goes on after the values it took.\<close>

datatype Step = Return RunConfig | Proceed nat parse_state

definition next_value :: "string list \<Rightarrow> string config" where
  "next_value rest = (case rest of [] \<Rightarrow> Inl (ProfileFault InvalidOperand) | v # _ \<Rightarrow> Inr v)"

text \<open>The parts between the commas, as \<^verbatim>\<open>std::getline\<close> reads them: nothing after a last comma.\<close>

fun comma_parts :: "string \<Rightarrow> string list" where
  "comma_parts [] = []"
| "comma_parts [c] = (if c = CHR '','' then [[]] else [[c]])"
| "comma_parts (c # s) = (if c = CHR '','' then [] # comma_parts s
     else case comma_parts s of p # ps \<Rightarrow> (c # p) # ps | [] \<Rightarrow> [[c]])"

definition bit_argument :: "string \<Rightarrow> bool config" where
  "bit_argument b = (if b = ''0'' \<or> b = ''1'' then Inr (b = ''1'') else Inl (ProfileFault InvalidOperand))"

definition valued :: "string list \<Rightarrow> (string \<Rightarrow> 'a config) \<Rightarrow> ('a \<Rightarrow> RunConfig \<Rightarrow> RunConfig) \<Rightarrow> parse_state \<Rightarrow> Step config" where
  "valued rest read put = (\<lambda>(run, cores, links).
     bindE (next_value rest) (\<lambda>v. bindE (read v) (\<lambda>x. Inr (Proceed 1 (put x run, cores, links)))))"

definition plain :: "(RunConfig \<Rightarrow> RunConfig) \<Rightarrow> parse_state \<Rightarrow> Step config" where
  "plain f = (\<lambda>(run, cores, links). Inr (Proceed 0 (f run, cores, links)))"

definition config_argument :: "Files \<Rightarrow> string list \<Rightarrow> string list \<Rightarrow> parse_state \<Rightarrow> Step config" where
  "config_argument fs all rest st =
     bindE (next_value rest) (\<lambda>v.
     bindE (absolute_path fs v) (\<lambda>path.
     bindE (read_json fs path) (\<lambda>j.
     ensure (is_object j) (
     if member ''simulation'' j \<noteq> None then
       (let check_only = (length all = 3 \<and> (rc_check_config (fst st) \<or> last all = ''--check-config'')) in
        if length all = 2 \<or> check_only
        then Inr (Return ((fst st)\<lparr>rc_simulation_config := path, rc_check_config := check_only\<rparr>))
        else Inl (ProfileFault InvalidOperand))
     else bindE (apply_run_config fs j (parent_path path) st) (\<lambda>st'. Inr (Proceed 1 st'))))))"

definition argument_step :: "Files \<Rightarrow> string list \<Rightarrow> string \<Rightarrow> string list \<Rightarrow> parse_state \<Rightarrow> Step config" where
  "argument_step fs all a rest st =
     (if a = ''--help'' then Inr (Return ((fst st)\<lparr>rc_help := True\<rparr>))
      else if a = ''--program'' then valued rest Inr (\<lambda>v. rc_program_update (\<lambda>_. v)) st
      else if a = ''--config'' then config_argument fs all rest st
      else if a = ''--list-backends'' then plain (rc_backend_command_update (\<lambda>_. ''list'')) st
      else if a = ''--help-backend'' then plain (rc_backend_command_update (\<lambda>_. ''help'')) st
      else if a = ''--backend-schema'' then plain (rc_backend_command_update (\<lambda>_. ''schema'')) st
      else if a = ''--generate-config'' then plain (rc_backend_command_update (\<lambda>_. ''generate'')) st
      else if a = ''--check-config'' then plain (rc_check_config_update (\<lambda>_. True)) st
      else if a = ''--backend'' then valued rest Inr (\<lambda>v. rc_backend_name_update (\<lambda>_. v)) st
      else if a = ''--cpu-model'' then valued rest Inr (\<lambda>v. rc_cpu_model_update (\<lambda>_. v)) st
      else if a = ''--trace'' then valued rest Inr (\<lambda>v. rc_trace_path_update (\<lambda>_. v)) st
      else if a = ''--summary'' then valued rest Inr (\<lambda>v. rc_summary_path_update (\<lambda>_. v)) st
      else if a = ''--memory-dump'' then valued rest Inr (\<lambda>v. rc_memory_dump_update (\<lambda>_. v)) st
      else if a = ''--python-path'' then valued rest Inr (\<lambda>v. rc_module_directory_update (\<lambda>_. v)) st
      else if a = ''--memory-base'' then valued rest word_argument (\<lambda>v. rc_memory_base_update (\<lambda>_. v)) st
      else if a = ''--memory-size'' then valued rest word_argument (\<lambda>v. rc_memory_size_update (\<lambda>_. v)) st
      else if a = ''--raw-base'' then valued rest word_argument (\<lambda>v r. r\<lparr>rc_raw := True, rc_raw_base := v\<rparr>) st
      else if a = ''--seed'' then valued rest word_argument (\<lambda>v. rc_profile_update (pf_seed_update (\<lambda>_. v))) st
      else if a = ''--start'' then valued rest number (\<lambda>v. rc_profile_update (pf_start_update (\<lambda>_. v))) st
      else if a = ''--reset'' then valued rest number (\<lambda>v. rc_resets_update (\<lambda>ts. ts @ [v])) st
      else if a = ''--inspect'' then valued rest word_argument (\<lambda>v. rc_inspect_update (\<lambda>xs. xs @ [v])) st
      else if a = ''--reverse-registration'' then plain (rc_reverse_update (\<lambda>_. True)) st
      else if a = ''--outcomes'' then
        valued rest (\<lambda>v. mapE bit_argument (comma_parts v)) (\<lambda>bits. rc_outcomes_update (set_outcomes bits)) st
      else if a = ''--profile'' then
        valued rest (\<lambda>v. bindE (read_json fs v) (apply_profile (rc_profile (fst st)))) (\<lambda>p. rc_profile_update (\<lambda>_. p)) st
      else if a = ''--dump-default-profile'' then
        bindE (next_value rest) (\<lambda>v. Inr (Return ((fst st)\<lparr>rc_dump_profile := v\<rparr>)))
      else Inl (ProfileFault InvalidOperand))"

text \<open>The loop over the arguments; \<open>n\<close> arguments are the values of the one before them.\<close>

fun parse_from :: "Files \<Rightarrow> string list \<Rightarrow> nat \<Rightarrow> string list \<Rightarrow> parse_state \<Rightarrow> Step config" where
  "parse_from fs all n [] st = Inr (Proceed 0 st)"
| "parse_from fs all (Suc n) (a # rest) st = parse_from fs all n rest st"
| "parse_from fs all 0 (a # rest) st =
     bindE (argument_step fs all a rest st) (\<lambda>s. case s of
        Return run \<Rightarrow> Inr (Return run)
      | Proceed n st' \<Rightarrow> parse_from fs all n rest st')"

definition finish_run :: "Files \<Rightarrow> parse_state \<Rightarrow> RunConfig config" where
  "finish_run fs = (\<lambda>(run, cores, links).
     if rc_backend_command run \<noteq> [] then Inr run
     else if rc_program run = [] \<and> cores = [] then Inl (ProfileFault InvalidOperand)
     else
       ensure (cores = [] \<or> rc_program run = [] \<and> \<not> rc_raw run \<and> rc_inspect run = [] \<and> rc_memory_dump run = []) (
       ensure (is_object (rc_backend_options run)) (
       bindE (as_fault (profile_validate (rc_profile run))) (\<lambda>_.
       bindE (resolve_cores fs (rc_profile run) (rc_program run) cores (rc_cpu_model run) (rc_config_base run)) (\<lambda>cs.
       bindE (configure_connections links) (\<lambda>ls.
       Inr (run\<lparr>rc_multicore := cores \<noteq> [], rc_cores := cs, rc_connections := ls\<rparr>)))))))"

definition parse_run_config :: "Files \<Rightarrow> string list \<Rightarrow> string \<Rightarrow> RunConfig config" where
  "parse_run_config fs args module_directory =
     bindE (as_fault default_profile) (\<lambda>p.
     bindE (parse_from fs args 0 args ((initial_run module_directory)\<lparr>rc_profile := p\<rparr>, [], [])) (\<lambda>s. case s of
        Return run \<Rightarrow> Inr run
      | Proceed _ st \<Rightarrow> finish_run fs st))"

section \<open>What a parsed run has been checked for\<close>

definition core_checked :: "CoreSpec \<Rightarrow> bool" where
  "core_checked c \<longleftrightarrow> profile_validate (cs_profile c) = Inr () \<and> profile_typed (cs_profile c) \<and>
     cs_model c \<in> {''rv32'', ''vliw''}"

lemma optional_Inr:
  "optional k j f d = Inr x \<Longrightarrow> (member k j = None \<Longrightarrow> x = d \<Longrightarrow> P) \<Longrightarrow>
   (\<And>v. member k j = Some v \<Longrightarrow> f v = Inr x \<Longrightarrow> P) \<Longrightarrow> P"
  by (auto simp: optional_def split: option.splits)

lemma apply_typed: "apply_profile q j = Inr p \<Longrightarrow> profile_typed q \<Longrightarrow> profile_typed p"
  using apply_profile_checked by blast

lemma profile_file_typed:
  "read_profile_file fs base p v = Inr q \<Longrightarrow> profile_typed p \<Longrightarrow> profile_typed q"
  by (auto simp: read_profile_file_def dest: apply_typed)

lemma resolve_core_checked:
  assumes "resolve_core fs p model base j = Inr c" and "profile_typed p"
  shows "core_checked c"
proof -
  from assms(1) obtain p1 q m u w where
    f: "optional ''profile_file'' j (\<lambda>v. bindE (relative_to base v) (\<lambda>f. bindE (read_json fs f) (apply_profile p))) p = Inr p1"
    and g: "optional ''profile'' j (apply_profile p1) p1 = Inr q"
    and v: "profile_validate q = Inr u" and m: "cpu_factory m = Inr w"
    and c: "cs_profile c = q" "cs_model c = m"
    by (auto simp: resolve_core_def)
  from f assms(2) have "profile_typed p1" by (auto elim!: optional_Inr dest: apply_typed)
  with g have "profile_typed q" by (auto elim!: optional_Inr dest: apply_typed)
  with v m c show ?thesis by (simp add: core_checked_def cpu_factory_def)
qed

lemma resolve_cores_checked:
  assumes "resolve_cores fs p program settings model base = Inr cs"
    and "profile_typed p" and "profile_validate p = Inr ()"
  shows "list_all core_checked cs \<and> cs \<noteq> [] \<and> (settings \<noteq> [] \<longrightarrow> length cs = length settings) \<and>
    (settings = [] \<longrightarrow> cs = [\<lparr>cs_id = 0, cs_profile = p, cs_program = program, cs_model = model, cs_sync_capacity = 8\<rparr>])"
proof (cases "settings = []")
  case True
  with assms show ?thesis by (auto simp: resolve_cores_def core_checked_def cpu_factory_def)
next
  case False
  with assms(1) have m: "mapE (resolve_core fs p model base) settings = Inr cs" by (simp add: resolve_cores_def)
  then have "list_all core_checked cs" by (rule mapE_all) (rule resolve_core_checked [OF _ assms(2)])
  with mapE_length [OF m] False show ?thesis by auto
qed

text \<open>While the arguments are read, the profile stays typed and no core has been resolved.\<close>

definition parse_inv :: "RunConfig \<Rightarrow> bool" where
  "parse_inv r \<longleftrightarrow> profile_typed (rc_profile r) \<and> rc_cores r = []"

lemma setting_inv:
  assumes "s \<in> set (run_settings fs base)" and "snd s v r = Inr r'" and "parse_inv r"
  shows "parse_inv r'"
proof -
  from assms(3) have "profile_typed (rc_profile r)" by (simp add: parse_inv_def)
  with assms show ?thesis unfolding run_settings_def
    by (auto simp: setting_def raw_setting_def parse_inv_def) (blast intro: profile_file_typed apply_typed)+
qed

lemma apply_run_config_inv:
  assumes "apply_run_config fs j base st = Inr (run', cores', links')" and "parse_inv (fst st)"
  shows "parse_inv run'"
proof -
  obtain run cores links where st: "st = (run, cores, links)" by (cases st) auto
  from assms(1) have f: "foldE (\<lambda>(k, f) r. optional k j (\<lambda>v. f v r) r) (run_settings fs base) (run\<lparr>rc_config_base := base\<rparr>) = Inr run'"
    by (simp add: apply_run_config_def st)
  show ?thesis
    using f
  proof (rule foldE_invariant)
    show "parse_inv (run\<lparr>rc_config_base := base\<rparr>)" using assms(2) by (simp add: parse_inv_def st)
  qed (auto elim!: optional_Inr dest!: setting_inv split: prod.splits)
qed

definition step_inv :: "Step \<Rightarrow> bool" where
  "step_inv s = (case s of Return r \<Rightarrow> parse_inv r | Proceed n (r, _) \<Rightarrow> parse_inv r)"

lemma plain_inv: "plain f st = Inr s \<Longrightarrow> parse_inv (fst st) \<Longrightarrow> (\<And>r. parse_inv r \<Longrightarrow> parse_inv (f r)) \<Longrightarrow> step_inv s"
  by (auto simp: plain_def step_inv_def split: prod.splits)

lemma valued_inv:
  "valued rest read put st = Inr s \<Longrightarrow> parse_inv (fst st) \<Longrightarrow>
   (\<And>x v r. read v = Inr x \<Longrightarrow> parse_inv r \<Longrightarrow> parse_inv (put x r)) \<Longrightarrow> step_inv s"
  by (auto simp: valued_def step_inv_def split: prod.splits)

lemma config_argument_inv:
  "config_argument fs all rest st = Inr s \<Longrightarrow> parse_inv (fst st) \<Longrightarrow> step_inv s"
  by (auto simp: config_argument_def Let_def step_inv_def split: if_splits dest: apply_run_config_inv)
    (simp_all add: parse_inv_def)

lemma parse_inv_updates:
  "parse_inv r \<Longrightarrow> parse_inv (rc_profile_update (pf_seed_update (\<lambda>_. w)) r)"
  "parse_inv r \<Longrightarrow> number v = Inr n \<Longrightarrow> parse_inv (rc_profile_update (pf_start_update (\<lambda>_. n)) r)"
  "parse_inv r \<Longrightarrow> profile_typed p \<Longrightarrow> parse_inv (rc_profile_update (\<lambda>_. p) r)"
  using number_bound [of v n] by (simp_all add: parse_inv_def profile_typed_def)

lemma return_inv: "step_inv (Return r) = parse_inv r"
  by (simp add: step_inv_def)

lemma dump_inv:
  "bindE (next_value rest) (\<lambda>v. Inr (Return ((fst st)\<lparr>rc_dump_profile := v\<rparr>))) = Inr s \<Longrightarrow>
   parse_inv (fst st) \<Longrightarrow> step_inv s"
  by (auto simp: step_inv_def parse_inv_def)

lemma argument_step_inv:
  assumes "argument_step fs all a rest st = Inr s" and "parse_inv (fst st)"
  shows "step_inv s"
proof -
  have t: "profile_typed (rc_profile (fst st))" using assms(2) by (simp add: parse_inv_def)
  have p: "profile_typed x" if "bindE (read_json fs v) (apply_profile (rc_profile (fst st))) = Inr x" for v x
    using that t by (auto dest: apply_typed)
  note steps = plain_inv [OF _ assms(2)] valued_inv [OF _ assms(2)] config_argument_inv [OF _ assms(2)]
  have same: "parse_inv (f r) = parse_inv r" if "rc_profile (f r) = rc_profile r" "rc_cores (f r) = rc_cores r" for f r
    using that by (simp add: parse_inv_def)
  show ?thesis
    using assms(1) unfolding argument_step_def
    by (auto simp: return_inv same assms(2) simp del: bindE_eq_Inr split: if_splits
        elim!: steps dump_inv [OF _ assms(2)] intro: parse_inv_updates p)
qed

lemma parse_from_inv:
  "parse_from fs all n args st = Inr s \<Longrightarrow> parse_inv (fst st) \<Longrightarrow> step_inv s"
proof (induction fs all n args st rule: parse_from.induct)
  case (1 fs all n st)
  then show ?case by (auto simp: step_inv_def split: prod.splits)
next
  case (3 fs all a rest st)
  from 3(2) obtain t where t: "argument_step fs all a rest st = Inr t"
    and s: "(case t of Return run \<Rightarrow> Inr (Return run) | Proceed n st' \<Rightarrow> parse_from fs all n rest st') = Inr s" by auto
  from t 3(3) have i: "step_inv t" by (rule argument_step_inv)
  show ?case
  proof (cases t)
    case (Return r)
    with s i show ?thesis by simp
  next
    case (Proceed n st')
    with i have "parse_inv (fst st')" by (auto simp: step_inv_def split: prod.splits)
    moreover from s Proceed have "parse_from fs all n rest st' = Inr s" by simp
    ultimately show ?thesis using 3(1) t Proceed by blast
  qed
qed simp

text \<open>
  C36. What the simulator is built from has been checked. Whatever the arguments and the files are, a run
  with cores has a validated top-level profile, and every core has a validated profile whose ticks fit 64 bits and one of the
  two CPU models; a run with one program has the one core that the arguments describe, and a run file with cores
  is not combined with the settings of a single core.
\<close>

theorem parsed_runs_checked:
  assumes "parse_run_config fs args dir = Inr run" and "rc_cores run \<noteq> []"
  shows "profile_validate (rc_profile run) = Inr () \<and> profile_typed (rc_profile run) \<and> list_all core_checked (rc_cores run) \<and>
    is_object (rc_backend_options run) \<and> rc_backend_command run = [] \<and>
    (if rc_multicore run
     then rc_program run = [] \<and> \<not> rc_raw run \<and> rc_inspect run = [] \<and> rc_memory_dump run = []
     else rc_program run \<noteq> [] \<and> rc_cores run =
       [\<lparr>cs_id = 0, cs_profile = rc_profile run, cs_program = rc_program run, cs_model = rc_cpu_model run, cs_sync_capacity = 8\<rparr>])"
proof -
  have i: "parse_inv ((initial_run dir)\<lparr>rc_profile := built_profile\<rparr>)"
    using default_typed by (simp add: parse_inv_def initial_run_def)
  from assms(1) obtain s where p: "parse_from fs args 0 args ((initial_run dir)\<lparr>rc_profile := built_profile\<rparr>, [], []) = Inr s"
    and r: "(case s of Return r \<Rightarrow> Inr r | Proceed _ st \<Rightarrow> finish_run fs st) = Inr run"
    by (auto simp: parse_run_config_def default_profile_def default_valid)
  have s: "step_inv s" using parse_from_inv [OF p] i by simp
  with r assms(2) obtain n r0 cores links where st: "s = Proceed n (r0, cores, links)" and inv: "parse_inv r0"
    by (cases s) (auto simp: step_inv_def parse_inv_def)
  from r st inv assms(2) obtain cs where c: "rc_backend_command r0 = []" "\<not> (rc_program r0 = [] \<and> cores = [])"
      "cores = [] \<or> rc_program r0 = [] \<and> \<not> rc_raw r0 \<and> rc_inspect r0 = [] \<and> rc_memory_dump r0 = []"
      "is_object (rc_backend_options r0)" "profile_validate (rc_profile r0) = Inr ()"
    and cs: "resolve_cores fs (rc_profile r0) (rc_program r0) cores (rc_cpu_model r0) (rc_config_base r0) = Inr cs"
    and run: "\<exists>ls. run = r0\<lparr>rc_multicore := cores \<noteq> [], rc_cores := cs, rc_connections := ls\<rparr>"
    by (auto simp: finish_run_def parse_inv_def split: if_splits)
  have t: "profile_typed (rc_profile r0)" using inv by (simp add: parse_inv_def)
  from resolve_cores_checked [OF cs t c(5)] c t run show ?thesis by auto
qed

text \<open>A run file with one VLIW core, whose program is found relative to the file.\<close>

definition example_files :: Files where
  "example_files = \<lparr>json_file = (\<lambda>path. if path = ''/d/run.json'' then Parsed (JObject
       [(''schema'', JUint 1), (''cores'', JArray [JObject [(''id'', JUint 3), (''program'', JString ''../a.elf''),
          (''cpu_model'', JString ''vliw'')]])]) else Unreadable),
     program_file = Map.empty, absolute_path = (\<lambda>p. Inr (path_join ''/d'' p))\<rparr>"

theorem parsed_runs_checked_witness:
  "\<exists>run. parse_run_config example_files [''--config'', ''run.json''] [] = Inr run \<and> rc_multicore run \<and>
     map cs_program (rc_cores run) = [''/a.elf''] \<and> map cs_model (rc_cores run) = [''vliw''] \<and>
     list_all core_checked (rc_cores run)"
proof -
  have "\<exists>run. parse_run_config example_files [''--config'', ''run.json''] [] = Inr run \<and> rc_multicore run \<and>
      rc_cores run = [\<lparr>cs_id = 3, cs_profile = built_profile, cs_program = ''/a.elf'', cs_model = ''vliw'', cs_sync_capacity = 8\<rparr>]"
    by (simp add: parse_run_config_def default_profile_def default_valid argument_step_def config_argument_def next_value_def
        example_files_def path_join_def read_json_def parent_path_def apply_run_config_def run_keys_def keys_def optional_def
        run_settings_def setting_def raw_setting_def finish_run_def initial_run_def resolve_cores_def resolve_core_def
        core_keys_def json_word_def relative_to_def lexically_normal_def cpu_factory_def configure_connections_def Let_def)
  then obtain run where r: "parse_run_config example_files [''--config'', ''run.json''] [] = Inr run" "rc_multicore run"
    "rc_cores run = [\<lparr>cs_id = 3, cs_profile = built_profile, cs_program = ''/a.elf'', cs_model = ''vliw'', cs_sync_capacity = 8\<rparr>]"
    by blast
  with parsed_runs_checked [OF r(1)] show ?thesis by auto
qed

section \<open>From the configuration to the simulator\<close>

definition default_decoding :: DecoderSystemConfig where
  "default_decoding = \<lparr>ds_base = 0x40000000, request_capacity = 16, ds_result_capacity = 16, link_latency = 1,
     bytes_per_tick = 1, packet_overhead = 16, decoders = []\<rparr>"

text \<open>
  \<^verbatim>\<open>sc_main\<close> up to the start of the kernel, in a build without Python: the only backend is the mock one, and there
  are no decoder adapters.
\<close>

definition start_run :: "(Profile \<Rightarrow> string) \<Rightarrow> Files \<Rightarrow> RunConfig \<Rightarrow> MockBackend Simulator config" where
  "start_run fingerprint fs run =
     bindE (configure_cores fs (rc_cores run) (rc_memory_base run) (rc_memory_size run)
       (if rc_raw run then Some (rc_raw_base run) else None)) (\<lambda>(cores, models).
     if rc_backend_name run \<noteq> ''mock'' then Inl (ProfileFault UnsupportedCapability)
     else ensure (members (rc_backend_options run) = []) (
     if members (rc_decoder_options run) \<noteq> [] then Inl (ProfileFault UnsupportedCapability)
     else
       bindE (as_fault (simulator fingerprint mock_backend cores (rc_connections run)
         \<lparr>outcomes = rc_outcomes run, mock_qubits = 0, calls = 0\<rparr> (rc_resets run) (rc_reverse run) (rc_max_batch run)
         default_decoding)) (\<lambda>s.
       Inr (s\<lparr>sim_log := (sim_log s)\<lparr>include_stalls := rc_trace_stalls run\<rparr>\<rparr>))))"

lemma quickstart_run:
  assumes "path \<noteq> []"
  shows "parse_run_config fs [''--program'', path] dir = Inr ((initial_run dir)\<lparr>rc_program := path,
    rc_cores := [\<lparr>cs_id = 0, cs_profile = built_profile, cs_program = path, cs_model = ''rv32'', cs_sync_capacity = 8\<rparr>]\<rparr>)"
  using assms
  by (simp add: parse_run_config_def default_profile_def default_valid argument_step_def valued_def next_value_def
      finish_run_def initial_run_def resolve_cores_def cpu_factory_def configure_connections_def)

lemma default_core_validated:
  "validated [\<lparr>cfg_id = 0, cfg_profile = built_profile, cfg_image = img, cfg_issue = Scalar, cfg_sync_capacity = 8\<rparr>] [] =
   Inr built_profile"
  by (simp add: validated_def add_core_def default_valid checked_add_def)
    (simp add: default_defs check_input_mapping_def check_output_action_def profile_gate_def tick_max_def)

text \<open>
  C38. The quickstart works. When the program on the command line is an ELF file that loads into the default memory, the run is
  configured and its simulator is built, with one core that has the default profile, not stopped, in the first session.
\<close>

theorem quickstart_starts:
  assumes "path \<noteq> []" and "program_file fs path = Some bytes" and "image_elf bytes 0 65536 = Inr img"
  shows "\<exists>run s. parse_run_config fs [''--program'', path] dir = Inr run \<and> start_run fingerprint fs run = Inr s \<and>
    map core_profile (sim_cores s) = [built_profile] \<and> map (mem_image \<circ> core_memory) (sim_cores s) = [img] \<and>
    \<not> stopped s \<and> sim_epoch s = 1"
proof -
  let ?run = "(initial_run dir)\<lparr>rc_program := path,
    rc_cores := [\<lparr>cs_id = 0, cs_profile = built_profile, cs_program = path, cs_model = ''rv32'', cs_sync_capacity = 8\<rparr>]\<rparr>"
  let ?c = "\<lparr>cfg_id = 0, cfg_profile = built_profile, cfg_image = img, cfg_issue = Scalar, cfg_sync_capacity = 8\<rparr>"
  have "valid_clock (pf_tcu built_profile)" using validated_profile(2) [OF default_valid] .
  then obtain d n where "decoder_system default_decoding = Inr d" "sync_network (pf_tcu built_profile) [] = Inr n" "mmio_decoders (mmio d) = []"
    by (auto simp: decoder_system_def default_decoding_def decoder_mmio_def register_defs decoder_ids_def sync_network_def)
  then have "\<exists>s. simulator fingerprint mock_backend [?c] [] \<lparr>outcomes = [], mock_qubits = 0, calls = 0\<rparr> [] False 1024 default_decoding = Inr s"
    unfolding construction_iff default_core_validated
    by (auto simp: resets_ok_def validate_memory_def mock_backend_def mock_reset_def)
  then obtain s where s: "simulator fingerprint mock_backend [?c] [] \<lparr>outcomes = [], mock_qubits = 0, calls = 0\<rparr> [] False 1024 default_decoding = Inr s"
    by blast
  from simulator_result [OF s] obtain k where "core_new fingerprint 0 built_profile img Scalar 8 = Inr k"
    "sim_cores s = [k]" "\<not> stopped s" "sim_epoch s = 1" by (auto simp: build_core_def)
  then have f: "map core_profile (sim_cores s) = [built_profile] \<and>
      map (mem_image \<circ> core_memory) (sim_cores s) = [img] \<and> \<not> stopped s \<and> sim_epoch s = 1"
    by (auto dest: core_new_fields)
  have "start_run fingerprint fs ?run = Inr (s\<lparr>sim_log := (sim_log s)\<lparr>include_stalls := True\<rparr>\<rparr>)"
    using assms s by (simp add: start_run_def configure_cores_def configure_core_def load_image_def cpu_factory_def initial_run_def)
  with quickstart_run [OF assms(1)] f show ?thesis by force
qed

lemma example_elf_default_memory: "\<exists>img. image_elf example_elf 0 65536 = Inr img"
  by (simp add: image_elf_def elf_identified_def elf_executable_def example_elf_fields program_image_def
      program_header_def load_header_def load_segment_def fetchable_def)

text \<open>The ELF file of the theory Image.\<close>

definition quickstart_files :: Files where
  "quickstart_files = \<lparr>json_file = \<lambda>_. Unreadable, program_file = [''a.elf'' \<mapsto> example_elf], absolute_path = Inr\<rparr>"

theorem quickstart_starts_witness:
  "\<exists>run s. parse_run_config quickstart_files [''--program'', ''a.elf''] [] = Inr run \<and>
     start_run (\<lambda>_. ''p'') quickstart_files run = Inr s \<and> map core_profile (sim_cores s) = [built_profile] \<and> \<not> stopped s"
proof -
  obtain img where i: "image_elf example_elf 0 65536 = Inr img" using example_elf_default_memory by blast
  have "''a.elf'' \<noteq> []" "program_file quickstart_files ''a.elf'' = Some example_elf" by (simp_all add: quickstart_files_def)
  from quickstart_starts [OF this i, of "[]" "\<lambda>_. ''p''"] show ?thesis by (elim ex_forward) simp
qed

text \<open>
  Where the options differ from their documentation: later values are said to override earlier ones and omitted
  outcomes to be zero, but a later \<^verbatim>\<open>--outcomes\<close> keeps the outcomes of the measurements that it does not mention.
\<close>

lemma outcomes_accumulate:
  "\<exists>run. parse_run_config fs [''--outcomes'', ''1,1'', ''--outcomes'', ''0'', ''--program'', ''p''] dir = Inr run \<and>
     rc_outcomes run = [(1, False), (2, True)]"
  by (simp add: parse_run_config_def default_profile_def default_valid argument_step_def valued_def next_value_def
      bit_argument_def set_outcomes_def finish_run_def initial_run_def resolve_cores_def cpu_factory_def
      configure_connections_def upt_rec)

end
