(* ===== verification/Run_Summary.thy ===== *)
theory Run_Summary
  imports Run_Config
begin

text \<open>
  What a run reports: the fingerprint of a profile, \<^verbatim>\<open>Profile::fingerprint\<close>, and the summary of a simulation,
  \<^verbatim>\<open>src/app/output.cpp\<close>. How the standard library prints a \<^verbatim>\<open>double\<close> with 17 digits is an argument,
  and so are the two readings of a backend and the message of a fault.
\<close>

section \<open>Fingerprints\<close>

text \<open>\<^verbatim>\<open>std::quoted\<close>: a delimiter or a backslash gets a backslash before it.\<close>

definition std_quoted :: "string \<Rightarrow> string" where
  "std_quoted s = [CHR 0x22] @ concat (map (\<lambda>c. if c = CHR 0x22 \<or> c = CHR 0x5C then [CHR 0x5C, c] else [c]) s) @ [CHR 0x22]"

definition spaced :: "nat list \<Rightarrow> string" where
  "spaced ns = concat (map (\<lambda>n. '' '' @ decimal n) ns)"

definition tagged :: "string \<Rightarrow> nat list \<Rightarrow> string" where
  "tagged t ns = '' '' @ t @ spaced ns"

definition bit_number :: "bool \<Rightarrow> nat" where
  "bit_number b = (if b then 1 else 0)"

fun kind_number :: "ActionKind \<Rightarrow> nat" where
  "kind_number IdealGate = 0"
| "kind_number Pulse = 1"
| "kind_number Acquire = 2"
| "kind_number DiscriminatorArm = 3"
| "kind_number GateOutput = 4"

definition resource_fingerprint :: "ResourceUse \<Rightarrow> string" where
  "resource_fingerprint r = tagged ''r'' [unat (res_id r), bit_number (exclusive r)]"

fun spec_fingerprint :: "(Double \<Rightarrow> string) \<Rightarrow> ActionSpec \<Rightarrow> string" where
  "spec_fingerprint show_double (SpecGate g) = '' '' @ show_double (gate_amplitude g) @ spaced [unat (flag_code (gate_flag g))]"
| "spec_fingerprint show_double (SpecPulse s) = '' '' @ show_double (pulse_amplitude s) @ '' '' @ std_quoted (pulse_axis s) @
     spaced [unat (flag_code (pulse_flag s))]"
| "spec_fingerprint show_double (SpecAcquire q) = spaced [discriminator_delay q, bit_number (separate_arm q)]"
| "spec_fingerprint show_double (SpecArm d) = []"
| "spec_fingerprint show_double (SpecOutput o1) = '' '' @ std_quoted (output_gate o1)"

definition action_fingerprint :: "(Double \<Rightarrow> string) \<Rightarrow> EventSpec \<Rightarrow> string" where
  "action_fingerprint show_double a =
     tagged ''a'' [kind_number (kind a), unat (es_port a)] @ '' '' @ std_quoted (operation a) @ spaced [es_delay a, es_duration a] @
     spec_fingerprint show_double (spec a) @ concat (map (\<lambda>q. tagged ''q'' [unat q]) (targets a)) @
     concat (map resource_fingerprint (resources a))"

definition mapping_fingerprint :: "(Double \<Rightarrow> string) \<Rightarrow> Mapping \<Rightarrow> string" where
  "mapping_fingerprint show_double m =
     tagged ''m'' [unat (map_port m), unat (map_codeword m)] @ concat (map (action_fingerprint show_double) (map_actions m))"

definition gate_fingerprint :: "TwoQubitGate \<Rightarrow> string" where
  "gate_fingerprint g =
     tagged ''g'' [] @ '' '' @ std_quoted (tq_name g) @ '' '' @ std_quoted (tq_operation g) @ spaced [tq_duration g] @
     concat (map (\<lambda>q. tagged ''q'' [unat q]) (tq_targets g)) @
     concat (map (\<lambda>i. tagged ''i'' [unat (in_core i), unat (in_port i), unat (in_codeword i)]) (tq_inputs g)) @
     concat (map resource_fingerprint (tq_resources g))"

definition fingerprint_text :: "(Double \<Rightarrow> string) \<Rightarrow> Profile \<Rightarrow> string" where
  "fingerprint_text show_double p =
     ''qsbit-profile-v1'' @ spaced [period (pf_cpu p), phase (pf_cpu p), period (pf_tcu p), phase (pf_tcu p), pf_start p, pf_watchdog p] @
     spaced (map unat [memory_latency p, command_latency p, reply_latency p, cpu_result_latency p, fast_result_latency p,
       timing_capacity p, event_capacity p, staging_capacity p, result_capacity p, pf_ports p, pf_qubits p, firing_width p, pf_seed p]) @
     spaced [bit_number (pf_fast_feedback p)] @
     concat (map (mapping_fingerprint show_double) (pf_mappings p)) @ concat (map gate_fingerprint (two_qubit_gates p))"

text \<open>FNV-1a on 64 bits.\<close>

definition fnv1a :: "string \<Rightarrow> 64 word" where
  "fnv1a s = fold (\<lambda>c h. (h XOR of_nat (of_char c)) * 1099511628211) s 14695981039346656037"

definition fingerprint :: "(Double \<Rightarrow> string) \<Rightarrow> Profile \<Rightarrow> string" where
  "fingerprint show_double p = hex 16 (unat (fnv1a (fingerprint_text show_double p)))"

section \<open>The summary\<close>

definition register_json :: "Register \<Rightarrow> Json" where
  "register_json r = JObject [(''pending'', JUint (unat (reg_pending r))), (''valid'', JBool (reg_pending r = 0)), (''value'', JBool (reg_value r))]"

definition core_summary :: "Core \<Rightarrow> string \<Rightarrow> (string \<times> Json) list" where
  "core_summary c model =
     [(''cpu_model'', JString model), (''configuration'', profile_json (core_profile c)),
      (''registers'', JArray (map word_json (Pipeline.registers (core_cpu c)))), (''pc'', word_json (pc (core_cpu c))),
      (''exit_code'', if halted (core_cpu c) then word_json (Pipeline.registers (core_cpu c) ! 10) else JNull),
      (''measurement_registers'', JArray (map register_json (Feedback.registers (core_registers c))))]"

definition core_entry :: "Core \<times> string \<Rightarrow> Json" where
  "core_entry = (\<lambda>(c, model). JObject (core_summary c model @ [(''id'', word_json (core_id c)), (''drained'', JBool (core_drained c))]))"

definition connection_json :: "SyncConnection \<Rightarrow> Json" where
  "connection_json l = JObject [(''first'', word_json (sc_first l)), (''second'', word_json (sc_second l)),
     (''first_to_second'', JUint (first_to_second l)), (''second_to_first'', JUint (second_to_first l)),
     (''capacity'', JUint (sc_capacity l))]"

type_synonym complex_number = "Double \<times> Double"

definition complex_json :: "complex_number \<Rightarrow> Json" where
  "complex_json = (\<lambda>(re, im). JArray [JFloat re, JFloat im])"

definition inspect_word :: "ProgramImage \<Rightarrow> u32 \<Rightarrow> (string \<times> Json) config" where
  "inspect_word img a = bindE (as_fault (image_read a 4 False img)) (\<lambda>w. Inr (decimal (unat a), word_json w))"

definition simulation_summary ::
  "(Profile \<Rightarrow> string) \<Rightarrow> 'b Backend \<Rightarrow> ('b \<Rightarrow> complex_number list) \<Rightarrow> ('b \<Rightarrow> complex_number list list) \<Rightarrow> string \<Rightarrow> Tick \<Rightarrow>
   RunConfig \<Rightarrow> string list \<Rightarrow> 'b Simulator \<Rightarrow> Json config" where
  "simulation_summary fp B read_state read_density message stop_tick run models s =
     bindE (as_fault (bx_state B read_state (ce_backend (sim_device s)))) (\<lambda>(state, x).
     bindE (as_fault (bx_state B read_density x)) (\<lambda>(density, _).
     bindE (mapE (inspect_word (mem_image (core_memory (hd (sim_cores s))))) (rc_inspect run)) (\<lambda>words.
     Inr (JObject (
       [(''schema'', JInt 1), (''success'', JBool (success s)), (''stop_tick'', JUint stop_tick),
        (''backend'', JString (rc_backend_name run)), (''backend_options'', rc_backend_options run),
        (''backend_execution'', JObject [(''max_batch_operations'', word_json (rc_max_batch run))]),
        (''statevector'', JArray (map complex_json state)), (''memory'', JObject words)] @
       (case sim_fault s of Some e \<Rightarrow> [(''fault'', JString (error_name e)), (''message'', JString message)] | None \<Rightarrow> []) @
       (if rc_multicore run
        then [(''cores'', JArray (map core_entry (zip (sim_cores s) models))),
              (''sync_connections'', JArray (map connection_json (rc_connections run)))]
        else core_summary (hd (sim_cores s)) (hd models) @
             [(''configuration_hash'', JString (fp (core_profile (hd (sim_cores s)))))]) @
       (if density = [] then [] else [(''density_matrix'', JArray (map (\<lambda>row. JArray (map complex_json row)) density))]))))))"

end
