(* ===== verification/Trace_Output.thy ===== *)
theory Trace_Output
  imports Texts
begin

text \<open>
  The trace as JSON lines, \<^verbatim>\<open>Trace::write_jsonl\<close> in \<^verbatim>\<open>src/trace.cpp\<close>, against the JSON value of an event
  and the grammar of JSON texts. Strings are bytes: those above \<^verbatim>\<open>0x7f\<close> are written as they are.
\<close>

section \<open>Writing\<close>

text \<open>The items of a list with commas between them.\<close>

fun commas :: "string list \<Rightarrow> string" where
  "commas [] = []"
| "commas (x # xs) = x @ concat (map (\<lambda>y. CHR '','' # y) xs)"

definition bool_text :: "bool \<Rightarrow> string" where
  "bool_text b = (if b then ''true'' else ''false'')"

definition word_text :: "u32 \<Rightarrow> string" where
  "word_text w = decimal (unat w)"

definition retired_of :: "TraceEvent \<Rightarrow> InstructionRetired option" where
  "retired_of e = (case ev_payload e of RetiredPayload r \<Rightarrow> Some r | _ \<Rightarrow> None)"

definition stage_text :: "string \<times> CpuPipelineInstruction option \<Rightarrow> string" where
  \<open>stage_text = (\<lambda>(name, stage). '','' @ quoted name @ '':'' @ (case stage of
      None \<Rightarrow> ''null''
    | Some s \<Rightarrow> ''{"id":'' @ decimal (pi_id s) @ '',"pc":'' @ word_text (pi_pc s) @ '',"word":'' @
        (case pi_word s of Some w \<Rightarrow> word_text w | None \<Rightarrow> ''null'') @
        '',"discarded":'' @ bool_text (pi_discarded s) @ ''}''))\<close>

definition pipeline_text :: "CpuPipelineState \<Rightarrow> string" where
  \<open>pipeline_text p = '',"pipeline":{"halted":'' @ bool_text (ps_halted p) @
     concat (map stage_text (zip [''fetch'', ''fetched'', ''decode'', ''execute''] (stages p))) @ ''}''\<close>

definition decoder_text :: "DecoderTrace \<Rightarrow> string" where
  \<open>decoder_text d = '',"decoder":{"id":'' @ word_text (dt_id d) @ '',"tag":'' @ word_text (dt_tag d) @
     '',"requests":'' @ decimal (dt_requests d) @ '',"resets":'' @ decimal (dt_resets d) @
     '',"jobs":'' @ decimal (dt_jobs d) @ ''}''\<close>

definition event_line :: "TraceEvent \<Rightarrow> string" where
  \<open>event_line e = (let r = retired_of e in
     ''{"schema":1,"tick":'' @ decimal (ev_tick e) @ '',"epoch":'' @ decimal (ev_epoch e) @
     '',"kind":'' @ quoted (ev_kind e) @ '',"id":'' @ decimal (ev_id e) @ '',"label":'' @ decimal (ev_label e) @
     '',"cycle":'' @ decimal (ev_cycle e) @ '',"port":'' @ word_text (ev_port e) @ '',"codeword":'' @ word_text (ev_codeword e) @
     '',"pc":'' @ (case r of Some x \<Rightarrow> word_text (ir_pc x) | None \<Rightarrow> ''0'') @
     '',"word":'' @ (case r of Some x \<Rightarrow> word_text (ir_word x) | None \<Rightarrow> ''0'') @
     '',"rd":'' @ (case r of Some x \<Rightarrow> decimal (ir_rd x) | None \<Rightarrow> ''0'') @
     '',"next_pc":'' @ (case r of Some x \<Rightarrow> word_text (ir_next_pc x) | None \<Rightarrow> ''0'') @
     '',"operation":'' @ quoted (ev_operation e) @ '',"detail":'' @ quoted (ev_detail e) @
     '',"value":'' @ (case r of Some x \<Rightarrow> word_text (ir_value x) | None \<Rightarrow> decimal (ev_value e)) @
     '',"targets":['' @ commas (map word_text (ev_targets e)) @
     ''],"registers":['' @ (case r of Some x \<Rightarrow> commas (map word_text (ir_registers x)) | None \<Rightarrow> []) @ '']'' @
     (case ev_core e of Some c \<Rightarrow> '',"core":'' @ word_text c | None \<Rightarrow> []) @
     (case ev_payload e of DecoderPayload d \<Rightarrow> decoder_text (de_state d) | _ \<Rightarrow> []) @
     (case ev_payload e of PipelinePayload p \<Rightarrow> pipeline_text p | _ \<Rightarrow> []) @ ''}'')\<close>

definition write_jsonl :: "TraceEvent list \<Rightarrow> string" where
  "write_jsonl events = concat (map (\<lambda>e. event_line e @ [CHR 0x0A]) events)"

section \<open>The JSON value of an event\<close>

definition stage_json :: "CpuPipelineInstruction option \<Rightarrow> Json" where
  "stage_json stage = (case stage of
      None \<Rightarrow> JNull
    | Some s \<Rightarrow> JObject [(''id'', JUint (pi_id s)), (''pc'', word_json (pi_pc s)),
        (''word'', case pi_word s of Some w \<Rightarrow> word_json w | None \<Rightarrow> JNull), (''discarded'', JBool (pi_discarded s))])"

definition payload_json :: "Payload \<Rightarrow> (string \<times> Json) list" where
  "payload_json p = (case p of
      DecoderPayload e \<Rightarrow> let d = de_state e in
        [(''decoder'', JObject [(''id'', word_json (dt_id d)), (''tag'', word_json (dt_tag d)),
          (''requests'', JUint (dt_requests d)), (''resets'', JUint (dt_resets d)), (''jobs'', JUint (dt_jobs d))])]
    | PipelinePayload s \<Rightarrow>
        [(''pipeline'', JObject ((''halted'', JBool (ps_halted s)) #
          zip [''fetch'', ''fetched'', ''decode'', ''execute''] (map stage_json (stages s))))]
    | _ \<Rightarrow> [])"

definition event_json :: "TraceEvent \<Rightarrow> Json" where
  "event_json e = (let r = retired_of e; of_retired = (\<lambda>f. case r of Some x \<Rightarrow> f x | None \<Rightarrow> JUint 0) in
     JObject ([(''schema'', JUint 1), (''tick'', JUint (ev_tick e)), (''epoch'', JUint (ev_epoch e)), (''kind'', JString (ev_kind e)),
       (''id'', JUint (ev_id e)), (''label'', JUint (ev_label e)), (''cycle'', JUint (ev_cycle e)), (''port'', word_json (ev_port e)),
       (''codeword'', word_json (ev_codeword e)), (''pc'', of_retired (word_json \<circ> ir_pc)), (''word'', of_retired (word_json \<circ> ir_word)),
       (''rd'', of_retired (JUint \<circ> ir_rd)), (''next_pc'', of_retired (word_json \<circ> ir_next_pc)),
       (''operation'', JString (ev_operation e)), (''detail'', JString (ev_detail e)),
       (''value'', case r of Some x \<Rightarrow> word_json (ir_value x) | None \<Rightarrow> JUint (ev_value e)),
       (''targets'', JArray (map word_json (ev_targets e))),
       (''registers'', JArray (case r of Some x \<Rightarrow> map word_json (ir_registers x) | None \<Rightarrow> []))] @
       (case ev_core e of Some c \<Rightarrow> [(''core'', word_json c)] | None \<Rightarrow> []) @ payload_json (ev_payload e)))"

section \<open>JSON texts\<close>

text \<open>
  The part of the grammar of RFC 8259 without white space, numbers being naturals: the characters of a
  string literal, and the texts of a value.
\<close>

inductive literal_chars :: "string \<Rightarrow> string \<Rightarrow> bool" where
  "literal_chars [] []"
| "literal_chars s t \<Longrightarrow> 0x20 \<le> (of_char c :: nat) \<Longrightarrow> c \<noteq> CHR 0x22 \<Longrightarrow> c \<noteq> CHR 0x5C \<Longrightarrow> literal_chars (c # s) (c # t)"
| "literal_chars s t \<Longrightarrow> c = CHR 0x22 \<or> c = CHR 0x5C \<Longrightarrow> literal_chars (c # s) (CHR 0x5C # c # t)"
| "literal_chars s t \<Longrightarrow> length ds = 4 \<Longrightarrow> \<forall>d\<in>set ds. digit_of d < 16 \<Longrightarrow> value_of 16 ds = of_char c \<Longrightarrow>
   literal_chars (c # s) (CHR 0x5C # CHR ''u'' # ds @ t)"

definition string_text :: "string \<Rightarrow> string \<Rightarrow> bool" where
  "string_text s t \<longleftrightarrow> (\<exists>u. t = CHR 0x22 # u @ [CHR 0x22] \<and> literal_chars s u)"

inductive json_text :: "Json \<Rightarrow> string \<Rightarrow> bool" where
  "json_text JNull ''null''"
| "json_text (JBool b) (if b then ''true'' else ''false'')"
| "ds \<noteq> [] \<Longrightarrow> \<forall>d\<in>set ds. digit_of d < 10 \<Longrightarrow> hd ds = CHR ''0'' \<longrightarrow> length ds = 1 \<Longrightarrow> json_text (JUint (value_of 10 ds)) ds"
| "string_text s t \<Longrightarrow> json_text (JString s) t"
| "list_all2 json_text xs ts \<Longrightarrow> json_text (JArray xs) (''['' @ commas ts @ '']'')"
| "list_all2 (\<lambda>m t. \<exists>q u. string_text (fst m) q \<and> json_text (snd m) u \<and> t = q @ '':'' @ u) ms ts \<Longrightarrow>
   json_text (JObject ms) (''{'' @ commas ts @ ''}'')"

section \<open>Every line is the JSON text of its event\<close>

lemma digit_zero_text: "decimal 0 = ''0''" "decimal 1 = ''1''" "decimal (Suc 0) = ''1''"
  by code_simp+

lemma decimal_json: "json_text (JUint n) (decimal n)"
proof -
  note f = decimal_facts [of n]
  have "hd (decimal n) = CHR ''0'' \<longrightarrow> length (decimal n) = 1"
    using f(4) by (cases "n = 0") (auto simp: digit_zero_text zero_digit)
  with f json_text.intros(3) [of "decimal n"] show ?thesis by simp
qed

lemma word_text_json: "json_text (word_json w) (word_text w)"
  by (simp add: word_json_def word_text_def decimal_json)

lemma hex_length: "n < 32 \<Longrightarrow> length (hex 4 n) = 4"
proof -
  assume "n < 32"
  then have "n div 16 < 16" by simp
  then show ?thesis by (simp add: hex_def padded_def numeral_text.simps [of 16 n] numeral_text.simps [of 16 "n div 16"])
qed

lemma quoted_chars: "literal_chars s (concat (map quoted_char s))"
proof (induction s)
  case (Cons c s)
  consider (special) "c = CHR 0x22 \<or> c = CHR 0x5C" | (control) "c \<noteq> CHR 0x22" "c \<noteq> CHR 0x5C" "(of_char c :: nat) < 0x20"
    | (plain) "c \<noteq> CHR 0x22" "c \<noteq> CHR 0x5C" "0x20 \<le> (of_char c :: nat)" by fastforce
  then show ?case
  proof cases
    case special
    then show ?thesis using literal_chars.intros(3) [OF Cons.IH] by (auto simp: quoted_char_def)
  next
    case control
    then show ?thesis
      using literal_chars.intros(4) [OF Cons.IH, of "hex 4 (of_char c)" c] hex_facts [of 4 "of_char c"] hex_length
      by (simp add: quoted_char_def)
  next
    case plain
    then show ?thesis using literal_chars.intros(2) [OF Cons.IH] by (simp add: quoted_char_def)
  qed
qed (auto intro: literal_chars.intros)

lemma quoted_text: "string_text s (quoted s)"
  using quoted_chars by (auto simp: string_text_def quoted_def)

text \<open>A member of an object, and what an object and an array are made of.\<close>

definition member_text :: "string \<Rightarrow> string \<Rightarrow> string" where
  "member_text k t = quoted k @ '':'' @ t"

lemma object_text:
  "list_all2 (\<lambda>m t. \<exists>u. json_text (snd m) u \<and> t = member_text (fst m) u) ms ts \<Longrightarrow>
   json_text (JObject ms) (''{'' @ commas ts @ ''}'')"
  by (rule json_text.intros(6), erule list_all2_mono) (use quoted_text in \<open>force simp: member_text_def\<close>)

lemma words_text: "json_text (JArray (map word_json ws)) (''['' @ commas (map word_text ws) @ '']'')"
  by (rule json_text.intros(5)) (simp add: list_all2_conv_all_nth word_text_json)

lemma bool_text_json: "json_text (JBool b) (bool_text b)"
  unfolding bool_text_def by (rule json_text.intros)

lemmas value_texts = decimal_json word_text_json bool_text_json words_text json_text.intros(1)
  json_text.intros(4) [OF quoted_text]

lemma member_texts: "json_text v t \<Longrightarrow> \<exists>u. json_text v u \<and> member_text k t = member_text k u"
  by blast

lemma stage_body_json:
  "\<exists>u. json_text (stage_json stage) u \<and> stage_text (name, stage) = '','' @ member_text name u"
proof (cases stage)
  case None
  then show ?thesis using json_text.intros(1) by (auto simp: stage_json_def stage_text_def member_text_def)
next
  case (Some s)
  let ?w = "case pi_word s of Some w \<Rightarrow> word_text w | None \<Rightarrow> ''null''"
  have w: "json_text (case pi_word s of Some w \<Rightarrow> word_json w | None \<Rightarrow> JNull) ?w"
    by (simp add: word_text_json json_text.intros(1) split: option.splits)
  have "json_text (stage_json stage) (''{'' @ commas [member_text ''id'' (decimal (pi_id s)), member_text ''pc'' (word_text (pi_pc s)),
      member_text ''word'' ?w, member_text ''discarded'' (bool_text (pi_discarded s))] @ ''}'')"
    unfolding Some stage_json_def option.case by (rule object_text) (use w value_texts in auto)
  moreover have "stage_text (name, stage) = '','' @ member_text name (''{'' @ commas [member_text ''id'' (decimal (pi_id s)),
      member_text ''pc'' (word_text (pi_pc s)), member_text ''word'' ?w, member_text ''discarded'' (bool_text (pi_discarded s))] @ ''}'')"
    by (simp add: Some stage_text_def member_text_def quoted_def quoted_char_def)
  ultimately show ?thesis by blast
qed

definition tail_text :: "string list \<Rightarrow> string" where
  "tail_text ts = concat (map (\<lambda>t. CHR '','' # t) ts)"

lemma tail_text_simps [simp]: "tail_text [] = []" "tail_text (t # ts) = '','' @ t @ tail_text ts"
  by (simp_all add: tail_text_def)

lemma commas_tail: "commas (t # ts) = t @ tail_text ts" "commas ((t # ts) @ us) = t @ tail_text ts @ tail_text us"
  by (simp_all add: tail_text_def)

text \<open>The stages under their names.\<close>

lemma stages_json:
  "\<exists>ts. list_all2 (\<lambda>m t. \<exists>u. json_text (snd m) u \<and> t = member_text (fst m) u) (zip names (map stage_json ss)) ts \<and>
     concat (map stage_text (zip names ss)) = tail_text ts"
proof (induction names arbitrary: ss)
  case Nil
  show ?case by simp
next
  case (Cons n names)
  show ?case
  proof (cases ss)
    case Nil
    then show ?thesis by simp
  next
    case (Cons s ss')
    from stage_body_json [of s n] obtain u where u: "json_text (stage_json s) u" "stage_text (n, s) = '','' @ member_text n u" by blast
    from Cons.IH [of ss'] obtain ts where "list_all2 (\<lambda>m t. \<exists>u. json_text (snd m) u \<and> t = member_text (fst m) u) (zip names (map stage_json ss')) ts"
      "concat (map stage_text (zip names ss')) = tail_text ts" by blast
    with u show ?thesis unfolding Cons by (intro exI [of _ "member_text n u # ts"]) auto
  qed
qed

definition members_text :: "(string \<times> Json) list \<Rightarrow> string \<Rightarrow> bool" where
  "members_text ms s \<longleftrightarrow> (\<exists>ts. list_all2 (\<lambda>m t. \<exists>u. json_text (snd m) u \<and> t = member_text (fst m) u) ms ts \<and> s = tail_text ts)"

lemma members_single: "json_text v t \<Longrightarrow> s = tail_text [member_text k t] \<Longrightarrow> members_text [(k, v)] s"
  unfolding members_text_def by (intro exI [of _ "[member_text k t]"]) auto

lemma pipeline_json: "members_text (payload_json (PipelinePayload p)) (pipeline_text p)"
proof -
  obtain ts where ts: "list_all2 (\<lambda>m t. \<exists>u. json_text (snd m) u \<and> t = member_text (fst m) u)
      (zip [''fetch'', ''fetched'', ''decode'', ''execute''] (map stage_json (stages p))) ts"
    "concat (map stage_text (zip [''fetch'', ''fetched'', ''decode'', ''execute''] (stages p))) = tail_text ts"
    using stages_json by blast
  have "json_text (JObject ((''halted'', JBool (ps_halted p)) # zip [''fetch'', ''fetched'', ''decode'', ''execute''] (map stage_json (stages p))))
      (''{'' @ commas (member_text ''halted'' (bool_text (ps_halted p)) # ts) @ ''}'')"
    by (rule object_text) (use ts(1) bool_text_json in auto)
  moreover have "pipeline_text p = tail_text [member_text ''pipeline'' (''{'' @ commas (member_text ''halted'' (bool_text (ps_halted p)) # ts) @ ''}'')]"
    unfolding pipeline_text_def ts(2) commas_tail by (simp add: member_text_def quoted_def quoted_char_def)
  ultimately show ?thesis unfolding payload_json_def Payload.case by (rule members_single)
qed

lemma decoder_json: "members_text (payload_json (DecoderPayload e)) (decoder_text (de_state e))"
proof -
  let ?d = "de_state e"
  let ?t = "''{'' @ commas [member_text ''id'' (word_text (dt_id ?d)), member_text ''tag'' (word_text (dt_tag ?d)),
    member_text ''requests'' (decimal (dt_requests ?d)), member_text ''resets'' (decimal (dt_resets ?d)),
    member_text ''jobs'' (decimal (dt_jobs ?d))] @ ''}''"
  have "json_text (JObject [(''id'', word_json (dt_id ?d)), (''tag'', word_json (dt_tag ?d)),
          (''requests'', JUint (dt_requests ?d)), (''resets'', JUint (dt_resets ?d)), (''jobs'', JUint (dt_jobs ?d))]) ?t"
    by (rule object_text) (use value_texts in auto)
  moreover have "decoder_text ?d = tail_text [member_text ''decoder'' ?t]"
    by (simp add: decoder_text_def member_text_def quoted_def quoted_char_def)
  ultimately show ?thesis unfolding payload_json_def Payload.case Let_def by (rule members_single)
qed

text \<open>The members that every event has.\<close>

definition event_members :: "TraceEvent \<Rightarrow> (string \<times> string) list" where
  "event_members e = (let r = retired_of e; of_retired = (\<lambda>f. case r of Some x \<Rightarrow> f x | None \<Rightarrow> ''0'') in
     [(''tick'', decimal (ev_tick e)), (''epoch'', decimal (ev_epoch e)), (''kind'', quoted (ev_kind e)),
      (''id'', decimal (ev_id e)), (''label'', decimal (ev_label e)), (''cycle'', decimal (ev_cycle e)),
      (''port'', word_text (ev_port e)), (''codeword'', word_text (ev_codeword e)), (''pc'', of_retired (word_text \<circ> ir_pc)),
      (''word'', of_retired (word_text \<circ> ir_word)), (''rd'', of_retired (decimal \<circ> ir_rd)),
      (''next_pc'', of_retired (word_text \<circ> ir_next_pc)), (''operation'', quoted (ev_operation e)), (''detail'', quoted (ev_detail e)),
      (''value'', case r of Some x \<Rightarrow> word_text (ir_value x) | None \<Rightarrow> decimal (ev_value e)),
      (''targets'', ''['' @ commas (map word_text (ev_targets e)) @ '']''),
      (''registers'', ''['' @ (case r of Some x \<Rightarrow> commas (map word_text (ir_registers x)) | None \<Rightarrow> []) @ '']'')])"

definition core_text :: "TraceEvent \<Rightarrow> string" where
  \<open>core_text e = (case ev_core e of Some c \<Rightarrow> '',"core":'' @ word_text c | None \<Rightarrow> [])\<close>

definition payload_text :: "TraceEvent \<Rightarrow> string" where
  "payload_text e = (case ev_payload e of DecoderPayload d \<Rightarrow> decoder_text (de_state d) | PipelinePayload p \<Rightarrow> pipeline_text p | _ \<Rightarrow> [])"

lemma key_texts:
  \<open>quoted ''schema'' = ''"schema"''\<close>
  \<open>quoted ''tick'' = ''"tick"''\<close>
  \<open>quoted ''epoch'' = ''"epoch"''\<close>
  \<open>quoted ''kind'' = ''"kind"''\<close>
  \<open>quoted ''id'' = ''"id"''\<close>
  \<open>quoted ''label'' = ''"label"''\<close>
  \<open>quoted ''cycle'' = ''"cycle"''\<close>
  \<open>quoted ''port'' = ''"port"''\<close>
  \<open>quoted ''codeword'' = ''"codeword"''\<close>
  \<open>quoted ''pc'' = ''"pc"''\<close>
  \<open>quoted ''word'' = ''"word"''\<close>
  \<open>quoted ''rd'' = ''"rd"''\<close>
  \<open>quoted ''next_pc'' = ''"next_pc"''\<close>
  \<open>quoted ''operation'' = ''"operation"''\<close>
  \<open>quoted ''detail'' = ''"detail"''\<close>
  \<open>quoted ''value'' = ''"value"''\<close>
  \<open>quoted ''targets'' = ''"targets"''\<close>
  \<open>quoted ''registers'' = ''"registers"''\<close>
  by (simp_all add: quoted_def quoted_char_def)

lemma event_line_members:
  "event_line e = ''{'' @ member_text ''schema'' (decimal 1) @ tail_text (map (\<lambda>(k, t). member_text k t) (event_members e)) @
     core_text e @ payload_text e @ ''}''"
  by (cases "retired_of e"; cases "ev_payload e")
    (simp_all add: event_line_def event_members_def core_text_def payload_text_def member_text_def key_texts
      digit_zero_text)

lemma core_json: "members_text (case ev_core e of Some c \<Rightarrow> [(''core'', word_json c)] | None \<Rightarrow> []) (core_text e)"
proof (cases "ev_core e")
  case (Some c)
  have "core_text e = tail_text [member_text ''core'' (word_text c)]"
    by (simp add: core_text_def Some member_text_def quoted_def quoted_char_def)
  then show ?thesis unfolding Some option.case by (rule members_single [OF word_text_json])
qed (simp add: core_text_def members_text_def)

lemma payload_members: "members_text (payload_json (ev_payload e)) (payload_text e)"
  using pipeline_json decoder_json
  by (cases "ev_payload e") (auto simp: payload_text_def, auto simp: payload_json_def members_text_def)

lemma event_line_json: "json_text (event_json e) (event_line e)"
proof -
  obtain cs where c: "core_text e = tail_text cs"
    "list_all2 (\<lambda>m t. \<exists>u. json_text (snd m) u \<and> t = member_text (fst m) u) (case ev_core e of Some c \<Rightarrow> [(''core'', word_json c)] | None \<Rightarrow> []) cs"
    using core_json [of e] by (auto simp: members_text_def)
  obtain ps where p: "payload_text e = tail_text ps"
    "list_all2 (\<lambda>m t. \<exists>u. json_text (snd m) u \<and> t = member_text (fst m) u) (payload_json (ev_payload e)) ps"
    using payload_members [of e] by (auto simp: members_text_def)
  let ?ts = "member_text ''schema'' (decimal 1) # map (\<lambda>(k, t). member_text k t) (event_members e)"
  have l: "event_line e = ''{'' @ commas (?ts @ cs @ ps) @ ''}''"
    unfolding event_line_members c(1) p(1) commas_tail by (simp add: tail_text_def)
  have e: "json_text (JArray []) ''[]''" using words_text [of "[]"] by simp
  have z: "json_text (JUint 0) ''0''" using decimal_json [of 0] by (simp add: digit_zero_text)
  show ?thesis unfolding l event_json_def Let_def
  proof (rule object_text, rule list_all2_appendI)
    show "list_all2 (\<lambda>m t. \<exists>u. json_text (snd m) u \<and> t = member_text (fst m) u)
        ((case ev_core e of Some c \<Rightarrow> [(''core'', word_json c)] | None \<Rightarrow> []) @ payload_json (ev_payload e)) (cs @ ps)"
      using c(2) p(2) by (rule list_all2_appendI)
  qed (cases "retired_of e"; use value_texts decimal_json [of 1] e z in \<open>auto simp: event_members_def intro!: member_texts\<close>)
qed

section \<open>One line per event\<close>

lemma digit_printable: "digit_of c < 16 \<Longrightarrow> 0x20 \<le> (of_char c :: nat)"
  by (auto simp: digit_of_def Let_def split: if_splits)

definition printable :: "string \<Rightarrow> bool" where
  "printable s \<longleftrightarrow> (\<forall>c\<in>set s. 0x20 \<le> (of_char c :: nat))"

lemma printable_simps [simp]:
  "printable []" "printable (c # s) \<longleftrightarrow> 0x20 \<le> (of_char c :: nat) \<and> printable s"
  "printable (s @ t) \<longleftrightarrow> printable s \<and> printable t"
  by (auto simp: printable_def)

lemma printable_commas: "(\<And>t. t \<in> set ts \<Longrightarrow> printable t) \<Longrightarrow> printable (commas ts)"
  by (cases ts) (auto simp: printable_def)

lemma printable_literal: "literal_chars s t \<Longrightarrow> printable t"
  by (induction rule: literal_chars.induct) (auto simp: printable_def dest: digit_printable)

lemma printable_string: "string_text s t \<Longrightarrow> printable t"
  by (auto simp: string_text_def dest: printable_literal)

lemma printable_json: "json_text j t \<Longrightarrow> printable t"
proof (induction rule: json_text.induct)
  case (3 ds)
  then show ?case unfolding printable_def by (intro ballI digit_printable) (drule (1) bspec, linarith)
next
  case (5 xs ts)
  have "printable t" if "t \<in> set ts" for t
    using 5 that by (auto simp: in_set_conv_nth list_all2_conv_all_nth)
  then show ?case by (simp add: printable_commas)
next
  case (6 ms ts)
  have "printable t" if "t \<in> set ts" for t
    using 6 that by (fastforce simp: in_set_conv_nth list_all2_conv_all_nth dest: printable_string)
  then show ?case by (simp add: printable_commas)
qed (auto dest: printable_string)

text \<open>
  C39. The trace file has one line per event, and each is the JSON of the event. What is written for the events of a
  trace splits at the line ends into as many lines, in their order, each a text of the grammar of JSON
  that stands for the fields of its event, the registers of a retired instruction, the stages of the pipeline or the
  state of a decoder; names and details with quotes, backslashes and control characters stay inside their
  literals, and no line end occurs inside a line.
\<close>

theorem trace_file_lines:
  "\<exists>ls. write_jsonl events = concat (map (\<lambda>l. l @ [CHR 0x0A]) ls) \<and>
     list_all2 (\<lambda>e l. json_text (event_json e) l \<and> CHR 0x0A \<notin> set l) events ls"
proof (intro exI conjI)
  show "write_jsonl events = concat (map (\<lambda>l. l @ [CHR 0x0A]) (map event_line events))"
    by (simp add: write_jsonl_def o_def)
  have "CHR 0x0A \<notin> set (event_line e)" for e
    using printable_json [OF event_line_json [of e]] by (force simp: printable_def)
  then show "list_all2 (\<lambda>e l. json_text (event_json e) l \<and> CHR 0x0A \<notin> set l) events (map event_line events)"
    by (simp add: list_all2_conv_all_nth event_line_json)
qed

text \<open>Different strings have different literals.\<close>

inductive_cases escape_cases: "literal_chars s (CHR 0x5C # CHR ''u'' # t)"

lemma literal_unique: "literal_chars s t \<Longrightarrow> literal_chars s' t \<Longrightarrow> s = s'"
proof (induction arbitrary: s' rule: literal_chars.induct)
  case (4 s t ds c)
  show ?case
    using "4.prems"
  proof (rule escape_cases)
    fix s0 t0 ds0 c0
    assume n: "s' = c0 # s0" "ds @ t = ds0 @ t0" "literal_chars s0 t0" "length ds0 = 4" "value_of 16 ds0 = of_char c0"
    then have "ds0 = ds \<and> t0 = t" using "4.hyps" by (simp add: append_eq_append_conv)
    with n "4.hyps" "4.IH" show "c # s = s'" by (metis char_of_char)
  qed
next
  case (2 s t c)
  from "2.prems" show ?case by (cases rule: literal_chars.cases) (use "2.hyps" in \<open>auto dest: "2.IH"\<close>)
next
  case (3 s t c)
  from "3.prems" show ?case by (cases rule: literal_chars.cases) (use "3.hyps" in \<open>auto dest: "3.IH"\<close>)
next
  case 1
  from "1.prems" show ?case by (cases rule: literal_chars.cases) auto
qed

end
