(* ===== verification/Runtime.thy ===== *)
theory Runtime
  imports Run_Config Decoder
begin

text \<open>
  The installation around the simulator, \<^verbatim>\<open>src/runtime.cpp\<close>: where the runtime files and the Python interpreter
  are. What the program asks the operating system is an argument, \<open>Host\<close>, and so are the constants of the build.
  Every failure here is a \<^verbatim>\<open>std::runtime_error\<close> or an exception of a library, not a \<open>Fault\<close>.
\<close>

record Host =
  executable_path :: string
  host_files :: Files
  regular_file :: "string \<Rightarrow> bool"
  getenv :: "string \<Rightarrow> string option"

record Build =
  build_version :: string
  build_revision :: string
  build_web :: string
  build_python_enabled :: bool
  build_python :: string
  python_command :: string

record RuntimeLayout =
  installed :: bool
  python_enabled :: bool
  web_root :: string
  python :: string
  layout_backend :: string
  version :: string
  revision :: string

definition file_name :: "string \<Rightarrow> string" where
  "file_name p = last (parts_of (CHR ''/'') p)"

text \<open>\<^verbatim>\<open>metadata.at(key)\<close>, which throws when there is none.\<close>

definition at_key :: "string \<Rightarrow> Json \<Rightarrow> Json config" where
  "at_key k j = (case member k j of Some v \<Rightarrow> Inr v | None \<Rightarrow> Inl LibraryError)"

definition installed_layout :: "Host \<Rightarrow> RuntimeLayout config" where
  "installed_layout h =
     (let root = parent_path (executable_path h) in
      bindE (case json_file (host_files h) (path_join root ''runtime.json'') of Parsed j \<Rightarrow> Inr j | _ \<Rightarrow> Inl LibraryError) (\<lambda>j.
      bindE (at_key ''schema'' j) (\<lambda>schema.
      if \<not> equals_one schema then Inl LibraryError
      else
        bindE (bindE (at_key ''version'' j) get_string) (\<lambda>v.
        bindE (bindE (at_key ''revision'' j) get_string) (\<lambda>r.
        bindE (bindE (at_key ''python_enabled'' j) get_bool) (\<lambda>py.
        Inr \<lparr>installed = True, python_enabled = py, web_root = path_join root ''web'', python = [], layout_backend = [],
             version = v, revision = r\<rparr>))))))"

definition build_layout :: "Build \<Rightarrow> RuntimeLayout" where
  "build_layout b = \<lparr>installed = False, python_enabled = build_python_enabled b, web_root = build_web b, python = [],
     layout_backend = [], version = build_version b, revision = build_revision b\<rparr>"

text \<open>A variable that is set and not empty.\<close>

definition variable :: "Host \<Rightarrow> string \<Rightarrow> string option" where
  "variable h name = (case getenv h name of Some v \<Rightarrow> (if v = [] then None else Some v) | None \<Rightarrow> None)"

definition candidate :: "Build \<Rightarrow> string \<Rightarrow> string" where
  "candidate b dir = path_join (if dir = [] then ''.'' else dir) (python_command b)"

text \<open>The directories of the search path, from left to right, up to the first that has the interpreter.\<close>

fun search_path :: "Host \<Rightarrow> Build \<Rightarrow> string list \<Rightarrow> string config" where
  "search_path h b [] = Inr []"
| "search_path h b (d # ds) =
     (if regular_file h (candidate b d) then absolute_path (host_files h) (candidate b d) else search_path h b ds)"

definition find_python :: "Host \<Rightarrow> Build \<Rightarrow> bool \<Rightarrow> string config" where
  "find_python h b isinstalled = (case variable h ''QSBIT_PYTHON'' of
      Some p \<Rightarrow> absolute_path (host_files h) p
    | None \<Rightarrow> (case variable h ''VIRTUAL_ENV'' of
        Some dir \<Rightarrow> absolute_path (host_files h) (path_join dir ''bin/python'')
      | None \<Rightarrow>
          if \<not> isinstalled then Inr (build_python b)
          else (case getenv h ''PATH'' of
              Some paths \<Rightarrow> search_path h b (parts_of (CHR '':'') paths)
            | None \<Rightarrow> Inr [])))"

definition runtime_layout :: "Host \<Rightarrow> Build \<Rightarrow> RuntimeLayout config" where
  "runtime_layout h b =
     bindE (if file_name (executable_path h) = ''qsbit-sim-native'' then installed_layout h else Inr (build_layout b)) (\<lambda>l.
     if \<not> python_enabled l then Inr l
     else
       bindE (find_python h b (installed l)) (\<lambda>p.
       if regular_file h p then Inr (l\<lparr>python := p\<rparr>) else Inl LibraryError))"

definition installation_info :: "RuntimeLayout \<Rightarrow> Json" where
  "installation_info l = JObject
     ([(''schema'', JInt 1), (''version'', JString (version l)), (''revision'', JString (revision l)), (''installed'', JBool (installed l)),
       (''player_api'', JInt 1), (''web_root'', JString (web_root l)), (''python_enabled'', JBool (python_enabled l))] @
      (if python_enabled l
       then [(''python'', JString (python l)), (''backend'', JString (layout_backend l)), (''backend_api'', JUint 4)]
       else [(''python'', JNull), (''backend'', JNull), (''backend_api'', JNull)]))"

text \<open>The search stops at the first directory with the interpreter.\<close>

lemma search_path_first:
  "search_path h b ds = (case find (\<lambda>d. regular_file h (candidate b d)) ds of
      Some d \<Rightarrow> absolute_path (host_files h) (candidate b d) | None \<Rightarrow> Inr [])"
  by (induction ds) auto

lemma layout_python:
  "runtime_layout h b = Inr l \<Longrightarrow> python_enabled l \<Longrightarrow> regular_file h (python l)"
proof -
  assume "runtime_layout h b = Inr l" and "python_enabled l"
  then obtain l' p where "l = l' \<and> \<not> python_enabled l' \<or> regular_file h p \<and> l = l'\<lparr>python := p\<rparr>"
    by (auto simp: runtime_layout_def split: if_splits) metis
  with \<open>python_enabled l\<close> show ?thesis by auto
qed

end
