(* ===== verification/Python_Backend.thy ===== *)
theory Python_Backend
  imports Backend Decoder Config_Json
begin

text \<open>
  Backends written in Python, \<^verbatim>\<open>src/python_backend.cpp\<close>: how actions and operations become Python values, and which
  errors the exceptions become. The Python object is an argument: an outcome \<open>Inl ()\<close> is an exception, also one
  from converting the returned value. Python values that the program builds are written as JSON values.
\<close>

type_synonym 'a raising = "unit + 'a"

record 'p PythonObject =
  py_validate :: "Json \<Rightarrow> 'p \<Rightarrow> unit raising"
  py_reset :: "nat \<Rightarrow> nat \<Rightarrow> 'p \<Rightarrow> 'p raising"
  py_execute :: "Epoch \<Rightarrow> Json \<Rightarrow> 'p \<Rightarrow> (bool list \<times> 'p) raising"
  py_state :: "('p \<Rightarrow> (Double \<times> Double) list raising) option"
  py_density :: "('p \<Rightarrow> (Double \<times> Double) list list raising) option"

fun caught :: "ErrorCode \<Rightarrow> 'a raising \<Rightarrow> 'a result" where
  "caught e (Inl _) = Inl e"
| "caught e (Inr x) = Inr x"

fun kind_text :: "ActionKind \<Rightarrow> string" where
  "kind_text Pulse = ''pulse''"
| "kind_text Acquire = ''acquire''"
| "kind_text DiscriminatorArm = ''arm''"
| "kind_text _ = ''gate''"

text \<open>Which alternatives have an amplitude and an axis; a descriptor with an axis names its port.\<close>

definition descriptor :: "EventSpec \<Rightarrow> (string \<times> Json) list" where
  "descriptor a =
     [(''kind'', JString (kind_text (kind a))), (''operation'', JString (operation a)), (''targets'', JArray (map word_json (targets a)))] @
     (case amplitude a of Some x \<Rightarrow> [(''amplitude'', JFloat x)] | None \<Rightarrow> []) @
     (case spec a of SpecPulse p \<Rightarrow> [(''axis'', JString (pulse_axis p)), (''port'', word_json (es_port a))] | _ \<Rightarrow> [])"

definition descriptors :: "EventSpec list \<Rightarrow> Json" where
  "descriptors as = JArray (map (\<lambda>a. JObject (descriptor a)) as)"

text \<open>\<^verbatim>\<open>item[key] = value\<close>\<close>

definition set_item :: "string \<Rightarrow> Json \<Rightarrow> (string \<times> Json) list \<Rightarrow> (string \<times> Json) list" where
  "set_item k v m = (if k \<in> fst ` set m then map (\<lambda>(x, y). (x, if x = k then v else y)) m else m @ [(k, v)])"

definition activity_item :: "BackendActivity \<Rightarrow> Json" where
  "activity_item x =
     (let item = set_item ''port'' (word_json (es_port (ba_action x)))
            (descriptor (ba_action x) @ [(''id'', JUint (ba_id x)), (''start'', JUint (ba_start x)), (''end'', JUint (ba_end x))]) in
      JObject (case ba_reference x of Some r \<Rightarrow> item @ [(''measurement'', JUint (measurement r))] | None \<Rightarrow> item))"

definition activities :: "BackendActivity list \<Rightarrow> Json" where
  "activities xs = JArray (map activity_item xs)"

definition reference_entry :: "MeasurementReference \<Rightarrow> Json" where
  "reference_entry r = JObject [(''epoch'', JUint (ref_epoch r)), (''measurement'', JUint (measurement r)), (''target'', word_json (ref_target r))]"

definition operation_item :: "BackendOperation \<Rightarrow> Json" where
  "operation_item op = JObject ((''tick'', JUint (op_tick op)) # (case op of
      Evolution e \<Rightarrow> [(''kind'', JString ''evolve''), (''start'', JUint (evo_start e)), (''drives'', activities (drives e)),
        (''acquisitions'', activities (acquisitions e))]
    | Gates g \<Rightarrow> [(''kind'', JString ''apply''), (''gates'', descriptors (gates g))]
    | Measurement m \<Rightarrow> [(''kind'', JString ''measure''), (''references'', JArray (map reference_entry (references m)))]))"

definition python_backend :: "'p PythonObject \<Rightarrow> 'p Backend" where
  "python_backend P = \<lparr>be_validate = \<lambda>a b. caught UnsupportedCapability (py_validate P (JObject (descriptor a)) b),
     be_reset = \<lambda>qubits seed b. caught BackendFailure (py_reset P (unat qubits) (unat seed) b),
     be_execute = \<lambda>epoch ops b. caught BackendFailure (py_execute P epoch (JArray (map operation_item ops)) b)\<rparr>"

definition python_state :: "'p PythonObject \<Rightarrow> 'p \<Rightarrow> (Double \<times> Double) list result" where
  "python_state P b = (case py_state P of None \<Rightarrow> Inr [] | Some f \<Rightarrow> caught BackendFailure (f b))"

definition python_density_matrix :: "'p PythonObject \<Rightarrow> 'p \<Rightarrow> (Double \<times> Double) list list result" where
  "python_density_matrix P b = (case py_density P of None \<Rightarrow> Inr [] | Some f \<Rightarrow> caught BackendFailure (f b))"

section \<open>Decoder adapters\<close>

text \<open>
  The settings, after the Python package has validated them; a missing key and a value that does not convert are exceptions.
  \<open>create\<close> is the adapter that the package makes for the settings of a decoder.
\<close>

definition cast_nat :: "nat \<Rightarrow> string \<Rightarrow> Json \<Rightarrow> nat config" where
  "cast_nat limit k j = (case member k j of Some (JUint n) \<Rightarrow> (if n \<le> limit then Inr n else Inl LibraryError) | _ \<Rightarrow> Inl LibraryError)"

definition cast_word :: "string \<Rightarrow> Json \<Rightarrow> u32 config" where
  "cast_word k j = bindE (cast_nat 0xffffffff k j) (\<lambda>n. Inr (of_nat n))"

definition python_decoder :: "(Json \<Rightarrow> (u8 list \<Rightarrow> bool list result) config) \<Rightarrow> Json \<Rightarrow> DecoderConfig config" where
  "python_decoder create d =
     bindE (create d) (\<lambda>f.
     bindE (cast_word ''id'' d) (\<lambda>i. bindE (cast_word ''measurements'' d) (\<lambda>m. bindE (cast_word ''outputs'' d) (\<lambda>out.
     bindE (cast_nat tick_max ''latency'' d) (\<lambda>l. bindE (cast_nat tick_max ''initiation_interval'' d) (\<lambda>ii.
     Inr \<lparr>dc_id = i, dc_measurements = m, dc_outputs = out, dc_latency = l, initiation_interval = ii, dc_decode = Some f\<rparr>))))))"

definition python_decoders :: "(Json \<Rightarrow> (u8 list \<Rightarrow> bool list result) config) \<Rightarrow> Json \<Rightarrow> DecoderSystemConfig config" where
  "python_decoders create settings =
     bindE (cast_word ''mmio_base'' settings) (\<lambda>base. bindE (cast_word ''request_capacity'' settings) (\<lambda>rq.
     bindE (cast_word ''result_capacity'' settings) (\<lambda>rs. bindE (cast_nat tick_max ''link_latency'' settings) (\<lambda>ll.
     bindE (cast_word ''bytes_per_tick'' settings) (\<lambda>bt. bindE (cast_word ''packet_overhead'' settings) (\<lambda>po.
     bindE (case member ''decoders'' settings of Some (JArray ds) \<Rightarrow> mapE (python_decoder create) ds | _ \<Rightarrow> Inl LibraryError) (\<lambda>ds.
     Inr \<lparr>ds_base = base, request_capacity = rq, ds_result_capacity = rs, link_latency = ll, bytes_per_tick = bt,
          packet_overhead = po, decoders = ds\<rparr>)))))))"

section \<open>A Python object that keeps the promise of the interface\<close>

lemma caught_Inr [simp]: "caught e r = Inr x \<longleftrightarrow> r = Inr x"
  by (cases r) simp_all

text \<open>
  An object whose \<^verbatim>\<open>execute\<close> may be called for a list of operations or for its parts, whose validation does not depend on
  what was executed, and whose states can be told apart only by what it returns, gives a
  backend for which batching is invisible.
\<close>

lemma python_backend_promise:
  assumes same: "equivp same"
    and validate: "\<And>a b c. same b c \<Longrightarrow> py_validate P a b = py_validate P a c"
    and after: "\<And>ep xs a b r b'. py_execute P ep (JArray xs) b = Inr (r, b') \<Longrightarrow> py_validate P a b' = py_validate P a b"
    and execute: "\<And>ep xs b c r b'. same b c \<Longrightarrow> py_execute P ep (JArray xs) b = Inr (r, b') \<Longrightarrow>
      \<exists>c'. py_execute P ep (JArray xs) c = Inr (r, c') \<and> same b' c'"
    and count: "\<And>ep ops b r b'. py_execute P ep (JArray (map operation_item ops)) b = Inr (r, b') \<Longrightarrow> length r = result_count ops"
    and split: "\<And>ep xs ys b r b'. py_execute P ep (JArray (xs @ ys)) b = Inr (r, b') \<Longrightarrow>
      \<exists>r1 b1 r2 b2. py_execute P ep (JArray xs) b = Inr (r1, b1) \<and> py_execute P ep (JArray ys) b1 = Inr (r2, b2) \<and>
        r = r1 @ r2 \<and> same b' b2"
    and join: "\<And>ep xs ys b r1 b1 r2 b2. py_execute P ep (JArray xs) b = Inr (r1, b1) \<Longrightarrow>
      py_execute P ep (JArray ys) b1 = Inr (r2, b2) \<Longrightarrow> \<exists>b'. py_execute P ep (JArray (xs @ ys)) b = Inr (r1 @ r2, b') \<and> same b' b2"
  shows "quantum_backend (python_backend P) same"
proof
  fix b c d ep ops r b' xs ys r1 b1 r2 b2 a
  note defs = python_backend_def
  show "same b b" "same b c \<Longrightarrow> same c b" "same b c \<Longrightarrow> same c d \<Longrightarrow> same b d"
    using same by (auto elim: equivpE reflpE sympE transpE)
  show "same b c \<Longrightarrow> be_validate (python_backend P) a b = be_validate (python_backend P) a c"
    using validate by (simp add: defs)
  show "be_execute (python_backend P) ep ops b = Inr (r, b') \<Longrightarrow> be_validate (python_backend P) a b' = be_validate (python_backend P) a b"
    using after by (simp add: defs)
  show "same b c \<Longrightarrow> be_execute (python_backend P) ep ops b = Inr (r, b') \<Longrightarrow>
      \<exists>c'. be_execute (python_backend P) ep ops c = Inr (r, c') \<and> same b' c'"
    using execute by (simp add: defs)
  show "be_execute (python_backend P) ep ops b = Inr (r, b') \<Longrightarrow> length r = result_count ops"
    using count by (simp add: defs)
  show "be_execute (python_backend P) ep (xs @ ys) b = Inr (r, b') \<Longrightarrow>
      \<exists>r1 b1 r2 b2. be_execute (python_backend P) ep xs b = Inr (r1, b1) \<and> be_execute (python_backend P) ep ys b1 = Inr (r2, b2) \<and>
        r = r1 @ r2 \<and> same b' b2"
    using split by (simp add: defs)
  show "be_execute (python_backend P) ep xs b = Inr (r1, b1) \<Longrightarrow> be_execute (python_backend P) ep ys b1 = Inr (r2, b2) \<Longrightarrow>
      \<exists>b'. be_execute (python_backend P) ep (xs @ ys) b = Inr (r1 @ r2, b') \<and> same b' b2"
    using join by (simp add: defs)
qed

end
