(* ===== verification/Operations.thy ===== *)
theory Operations
  imports Prelude
begin

text \<open>The names of the ideal operations, \<^verbatim>\<open>contracts/include/qsbit/contracts/operations.hpp\<close>.\<close>

datatype QuantumOp = OpH | OpX | OpZ | OpS | OpSdg | OpT | OpTdg | OpCx | OpMeasureZ | OpReset

definition operation_names :: "(QuantumOp \<times> string) list" where
  "operation_names = [(OpH, ''h''), (OpX, ''x''), (OpZ, ''z''), (OpS, ''s''), (OpSdg, ''sdg''), (OpT, ''t''),
     (OpTdg, ''tdg''), (OpCx, ''cx''), (OpMeasureZ, ''measure''), (OpReset, ''reset'')]"

definition operation_name :: "QuantumOp \<Rightarrow> string" where
  "operation_name op = (case find (\<lambda>(v, _). v = op) operation_names of Some (_, name) \<Rightarrow> name | None \<Rightarrow> [])"

definition parse_operation :: "string \<Rightarrow> QuantumOp option" where
  "parse_operation name = map_option fst (find (\<lambda>(_, candidate). candidate = name) operation_names)"

lemma parse_operation_iff: "parse_operation name = Some op \<longleftrightarrow> name = operation_name op"
  by (cases op) (auto simp: parse_operation_def operation_name_def operation_names_def)

end
