(* ===== verification/Spec2Isabelle.thy ===== *)
theory Spec2Isabelle
  imports Tcu_Properties Timing_Control Sync Isa Memory Electronics_Session Simulated_Programs Decoder_Sessions Simulator_Runs Run_Summary Trace_Output Runtime Python_Backend Operations
begin

text \<open>
  A verification library of the qsbit-sim quantum-control simulator.

  The program. qsbit-sim simulates the control computers of a quantum processor, tick by tick. A \<^emph>\<open>core\<close>
  has a RISC-V CPU that runs a program from its memory and hands control instructions (codewords, waits,
  feedback reads, synchronization) to its \<^emph>\<open>timing control\<close>, which turns codewords into
  timed events and sends them over a latency-carrying mailbox to the \<^emph>\<open>timing control unit\<close> (TCU).
  The TCU fires the events at their labels. The \<^emph>\<open>control electronics\<close>, one for all cores, reserve the outputs,
  issue the quantum operations to a \<^emph>\<open>backend\<close> through a batching queue and report measurement
  results, which return to the cores' measurement registers and execution flags. A network of
  barrier-like connections \<^emph>\<open>synchronizes\<close> cores, and \<^emph>\<open>decoders\<close>, memory-mapped on the
  data port, process windows of measurements. The \<^emph>\<open>simulator\<close> owns them all: on every tick its
  SystemC processes run the CPU, memory and TCU edges and a barrier that moves the device and chooses the next wakeup.

  The theories, in the order of the code (paths below \<^verbatim>\<open>src/\<close> and \<^verbatim>\<open>include/qsbit/\<close>).
  \<^item> Prelude, Ordered_Map: fallible results (\<open>require\<close>, \<open>bindE\<close>, \<open>foldE\<close>, \<open>mapE\<close>), lists,
    words; \<^verbatim>\<open>std::map\<close> as a sorted association list, with the locale \<open>counted_store\<close>.
  \<^item> Time, Mailbox: \<^verbatim>\<open>error\<close>, \<^verbatim>\<open>time.hpp\<close>, \<^verbatim>\<open>mailbox.hpp\<close>; the locale \<open>timed_channel\<close> states
    what clients of a mailbox rely on. A \<open>Tick\<close> is a natural number and the checked operations fail above \<open>2^64 - 1\<close>, as in the code.
  \<^item> Events, Trace, Profiles: \<^verbatim>\<open>event.hpp\<close>, \<^verbatim>\<open>measurement.hpp\<close>, \<^verbatim>\<open>trace\<close>, \<^verbatim>\<open>profile\<close>,
    \<^verbatim>\<open>timing_config\<close>. A \<^verbatim>\<open>double\<close> is a \<open>Double\<close>: \<open>m * 2^e\<close>, an infinity or NaN.
  \<^item> Control_Protocol, Feedback, Tcu, Tcu_Properties, Timing_Control: \<^verbatim>\<open>control_protocol\<close>,
    \<^verbatim>\<open>control_command\<close>, \<^verbatim>\<open>feedback\<close>, \<^verbatim>\<open>tcu\<close>, \<^verbatim>\<open>timing_control\<close>. The relations \<open>tcu_reach\<close> and
    \<open>ctl_reach\<close> are the states that sequences of calls reach; Example_Config is the configuration of their witnesses.
  \<^item> Sync: \<^verbatim>\<open>sync\<close>, the network and the units, with \<open>sync_run\<close>.
  \<^item> Image, Memory: \<^verbatim>\<open>image\<close> (ELF and raw programs), \<^verbatim>\<open>memory\<close>, with \<open>port_run\<close>.
  \<^item> Isa, Pipeline, Cpu_Execution: \<^verbatim>\<open>isa\<close>, \<^verbatim>\<open>cpu/\<close>; \<open>cpu_run\<close> is a CPU with an arbitrary memory and timing control.
  \<^item> Core_Execution: a core with its own memory, ports and timing control, with \<open>core_run\<close>; the locale \<open>data_device\<close>
    says what a core relies on in a device on its bus, and the decoders interpret it.
  \<^item> Backend: \<^verbatim>\<open>backend\<close>. The backend is an argument; the locale \<open>quantum_backend\<close> has its laws, and the
    mock backend of the code interprets it.
  \<^item> Device, Electronics, Electronics_Properties, Electronics_Session: \<^verbatim>\<open>device/\<close>, \<^verbatim>\<open>device.hpp\<close>, with \<open>device_run\<close>.
  \<^item> Decoder, Decoder_Wakeup, Decoder_Sessions: \<^verbatim>\<open>decoder\<close>, \<^verbatim>\<open>decoder/mmio\<close>, with \<open>decoder_run\<close>.
    The function that decodes a window is a field of the configuration.
  \<^item> Core, Simulator, Simulator_Schedule, Simulator_Runs: \<^verbatim>\<open>core\<close>, \<^verbatim>\<open>simulator\<close>. The SystemC kernel, which
    is not part of the repository, activates the processes in any order; it is the step relation \<open>sim_run\<close>.
    Simulator_Construction is about the constructor, and Simulated_Programs about the instructions a trace shows, with
    \<open>program_run\<close>, the same runs with the memories at the beginning of the epoch.
  \<^item> Config_Json, Defaults: \<^verbatim>\<open>config_json\<close> over values of the JSON library, \<^verbatim>\<open>defaults\<close>.
  \<^item> Texts, Run_Config, Run_Summary, Trace_Output: numbers and strings as text, the command line and the run file
    (\<^verbatim>\<open>app/config\<close>, \<^verbatim>\<open>app/run_config\<close>) over a file system that is an argument, \<^verbatim>\<open>sc_main\<close> up to the start of
    the kernel in a build without Python, the summary (\<^verbatim>\<open>app/output\<close>), the fingerprint of a profile, and the trace file.
  \<^item> Runtime, Python_Backend: \<^verbatim>\<open>runtime\<close> over the operating system, and \<^verbatim>\<open>python_backend\<close> over a Python object:
    the values it is given and the errors its exceptions become.
  \<^item> Operations: the table of \<^verbatim>\<open>contracts/operations.hpp\<close>.

  What is proved. For the clocks, mailboxes and maps, that they do what their clients rely on (latency edges, lossless
  order). For the instruction set and images, that decoding loses nothing, that execution is RV32 and
  that the loaders load. For the CPU, a refinement: whatever the latencies and stalls, the retired instructions are those of a
  machine that fetches, decodes and executes one at a time; for a core, the same with the memory in the place of the
  program, which holds what the retired stores wrote, when the program does not write its own code, and for a simulation, that its trace shows such an execution
  of every core's program. For the timing control and the TCU, that submitted requests are
  valid, that queues are bounded, that an event fires exactly at its label, and what every trigger error is.
  For synchronization, that both sides resume at the same tick. For the electronics, that outputs never conflict,
  every result is delivered exactly once at its tick, and a launch that passed the preflight is accepted; for the
  command queue, that batching is invisible. For the decoders and the simulator, that \<open>next_boundary\<close> and the wakeups
  never miss a tick at which something is due, that a run ends, that the results find
  their core and what the outcome of a simulation is, and that its constructor succeeds exactly when its explicit
  checks do. For the profiles, that writing and reading them is a round trip and that whatever is read is validated; for the run
  configuration, that the cores of every parsed run have been checked and that the quickstart gives a simulator; for the
  trace file, that it has one JSON text per event.

  Conventions. A function that throws returns a sum: \<open>Inl\<close> the error code, \<open>Inr\<close> the result; the messages of
  the faults are not kept. A state that is lost when an exception leaves its process is not returned.
  Unsigned 32- and 64-bit integers are words where the code may wrap, and naturals where every operation is checked.
  The only fuel is in \<open>double_of\<close>: 1100 halvings suffice for every integer that rounds to a double, the callers
  pass integers below \<open>2^64\<close>.

  Not modelled. How a \<^verbatim>\<open>double\<close> is printed with 17 digits is an argument of the fingerprint, and the
  parsing of JSON text, which the JSON library does, a part of the file system's answer. A \<^verbatim>\<open>std::out_of_range\<close> of a map access is a \<open>Protocol\<close> error here, where the
  simulator's handler would record a backend failure. The events that a process emitted before
  it failed are not kept, so the summary of a failed simulation is that of the state before the failing process. The order of the members of a JSON object, which no access depends on, is the one of the list.
  The Python interpreter, and the functions of \<^verbatim>\<open>python_backend\<close> that only start it or forward to it, are not modelled;
  what remains of \<^verbatim>\<open>main\<close> and \<^verbatim>\<open>app/config\<close> prints and writes files.
\<close>

end
